(* ===== verification/Prelude.thy ===== *)
theory Prelude
  imports Complex_Main "HOL-Library.AList" "HOL-Library.Char_ord" "HOL-Library.List_Lexorder"
begin

text \<open>
  What the component theories share: the Python values and string operations the code uses,
  dictionaries in insertion order, exceptions as values, and the programs of the asynchronous
  code: functions that thread a world holding the recorded trace of everything they asked of
  the outside (HTTP requests, clock readings, tasks handed to the event loop).

  A Python \<open>str\<close> is a \<^typ>\<open>string\<close>, each \<^typ>\<open>char\<close> one code point of Latin-1; the string
  methods are exact on that range. A dictionary is an association list in insertion order with
  distinct keys, updated by \<^const>\<open>AList.update\<close> exactly as \<open>d[k] = v\<close> does (in place for a
  key it holds, at the end for a new one). A float carries the text \<open>repr\<close> gives it and its
  exact value.
\<close>

section \<open>Collections of facts\<close>

named_theorems prog_simps \<open>evaluation of world-passing programs\<close>
named_theorems py_simps \<open>evaluation of Python values and strings\<close>

section \<open>Strings\<close>

definition code :: "char \<Rightarrow> nat" where
  "code c = of_char c"

definition py_isspace :: "char \<Rightarrow> bool" where
  "py_isspace c \<longleftrightarrow> (let n = code c in
     9 \<le> n \<and> n \<le> 13 \<or> 28 \<le> n \<and> n \<le> 32 \<or> n = 133 \<or> n = 160)"

definition py_isupper :: "char \<Rightarrow> bool" where
  "py_isupper c \<longleftrightarrow> (let n = code c in
     65 \<le> n \<and> n \<le> 90 \<or> 192 \<le> n \<and> n \<le> 222 \<and> n \<noteq> 215)"

definition lower_char :: "char \<Rightarrow> char" where
  "lower_char c = (if py_isupper c then char_of (code c + 32) else c)"

definition py_lower :: "string \<Rightarrow> string" where
  "py_lower s = map lower_char s"

definition py_lstrip :: "string \<Rightarrow> string" where
  "py_lstrip s = dropWhile py_isspace s"

definition py_rstrip :: "string \<Rightarrow> string" where
  "py_rstrip s = rev (dropWhile py_isspace (rev s))"

definition py_strip :: "string \<Rightarrow> string" where
  "py_strip s = py_rstrip (py_lstrip s)"

definition rstrip_char :: "char \<Rightarrow> string \<Rightarrow> string" where
  "rstrip_char c s = rev (dropWhile (\<lambda>d. d = c) (rev s))"

definition py_startswith :: "string \<Rightarrow> string \<Rightarrow> bool" where
  "py_startswith s p \<longleftrightarrow> take (length p) s = p"

definition py_endswith :: "string \<Rightarrow> string \<Rightarrow> bool" where
  "py_endswith s p \<longleftrightarrow> length p \<le> length s \<and> drop (length s - length p) s = p"

text \<open>\<open>s.partition(c)\<close> for a one-character separator.\<close>

definition py_partition :: "char \<Rightarrow> string \<Rightarrow> string \<times> string \<times> string" where
  "py_partition c s =
     (if c \<in> set s
      then (takeWhile (\<lambda>d. d \<noteq> c) s, [c], tl (dropWhile (\<lambda>d. d \<noteq> c) s))
      else (s, [], []))"

text \<open>\<open>s.split(c)\<close> for a one-character separator: never empty.\<close>

fun py_split :: "char \<Rightarrow> string \<Rightarrow> string list" where
  "py_split c [] = [[]]"
| "py_split c (d # s) =
     (if d = c then [] # py_split c s
      else (case py_split c s of [] \<Rightarrow> [[d]] | p # ps \<Rightarrow> (d # p) # ps))"

subsection \<open>Facts about strings\<close>

lemma code_char_of [simp]: "code (char_of n) = n mod 256"
  by (simp add: code_def)

lemma code_less [simp]: "code c < 256"
  unfolding code_def by (metis of_char_mod_256 mod_less_divisor zero_less_numeral)

lemma lower_char_not_upper [simp]: "\<not> py_isupper (lower_char c)"
  by (auto simp: lower_char_def py_isupper_def Let_def)

lemma lower_char_id: "\<not> py_isupper c \<Longrightarrow> lower_char c = c"
  by (simp add: lower_char_def)

lemma py_isspace_lower [simp]: "py_isspace (lower_char c) = py_isspace c"
  using code_less [of c]
  by (auto simp: lower_char_def py_isupper_def py_isspace_def Let_def)

lemma code_eq_iff: "code c = code d \<longleftrightarrow> c = d"
  unfolding code_def by (metis char_of_char)

lemma lower_char_eq_id:
  assumes "\<not> py_isupper d" "code d < 97 \<or> 122 < code d \<and> code d < 192"
  shows "lower_char c = d \<longleftrightarrow> c = d"
proof -
  have "code (lower_char c) = code d \<longleftrightarrow> code c = code d"
    using assms code_less [of c] by (auto simp: lower_char_def py_isupper_def Let_def)
  then show ?thesis by (simp add: code_eq_iff)
qed

lemma py_lower_idem [simp]: "py_lower (py_lower s) = py_lower s"
  by (simp add: py_lower_def lower_char_id)

lemma py_lower_Nil_iff [simp]: "py_lower s = [] \<longleftrightarrow> s = []"
  by (simp add: py_lower_def)

lemma dropWhile_hd_idem: "dropWhile P (dropWhile P xs) = dropWhile P xs"
  by (induction xs) auto

lemma hd_dropWhile_rev:
  "xs \<noteq> [] \<Longrightarrow> \<not> P (hd xs) \<Longrightarrow> rev (dropWhile P (rev xs)) \<noteq> [] \<and> hd (rev (dropWhile P (rev xs))) = hd xs"
proof (induction xs)
  case Nil then show ?case by simp
next
  case (Cons x xs)
  then show ?case by (auto simp: dropWhile_append split: if_splits)
qed

lemma stripped_dropWhile:
  "dropWhile P xs = xs \<longleftrightarrow> xs = [] \<or> \<not> P (hd xs)"
proof (cases xs)
  case (Cons a list)
  have "length (dropWhile P list) \<le> length list" by (rule length_dropWhile_le)
  then have "dropWhile P list \<noteq> a # list" by (metis Suc_n_not_le_n length_Cons)
  then show ?thesis using Cons by auto
qed simp

lemma py_lstrip_of_strip [simp]: "py_lstrip (py_strip s) = py_strip s"
proof -
  let ?t = "dropWhile py_isspace s"
  have "?t = [] \<or> \<not> py_isspace (hd ?t)" using hd_dropWhile [of py_isspace s] by blast
  then have "py_rstrip ?t = [] \<or> \<not> py_isspace (hd (py_rstrip ?t))"
    unfolding py_rstrip_def using hd_dropWhile_rev [of ?t py_isspace]
    by (cases "?t = []") (simp_all only: rev.simps dropWhile.simps, auto)
  then show ?thesis by (simp add: py_strip_def py_lstrip_def stripped_dropWhile)
qed

lemma py_rstrip_idem [simp]: "py_rstrip (py_rstrip s) = py_rstrip s"
  by (simp add: py_rstrip_def dropWhile_hd_idem)

lemma py_strip_idem [simp]: "py_strip (py_strip s) = py_strip s"
  by (metis py_lstrip_of_strip py_rstrip_idem py_strip_def)

lemma py_lower_lstrip: "py_lower (py_lstrip s) = py_lstrip (py_lower s)"
  by (simp add: py_lower_def py_lstrip_def dropWhile_map comp_def)

lemma py_lower_rstrip: "py_lower (py_rstrip s) = py_rstrip (py_lower s)"
  by (simp add: py_lower_def py_rstrip_def rev_map dropWhile_map comp_def)

lemma py_lower_strip: "py_lower (py_strip s) = py_strip (py_lower s)"
  by (simp add: py_strip_def py_lower_lstrip py_lower_rstrip)

lemma set_py_strip: "set (py_strip s) \<subseteq> set s"
  by (auto simp: py_strip_def py_rstrip_def py_lstrip_def dest!: set_dropWhileD)

lemma py_startswith_append [simp]: "py_startswith (p @ s) p"
  by (simp add: py_startswith_def)

lemma py_startswith_iff: "py_startswith s p \<longleftrightarrow> (\<exists>t. s = p @ t)"
  unfolding py_startswith_def by (metis append_take_drop_id append_eq_conv_conj)

lemma py_endswith_iff: "py_endswith s p \<longleftrightarrow> (\<exists>t. s = t @ p)"
proof
  assume "py_endswith s p"
  then show "\<exists>t. s = t @ p"
    unfolding py_endswith_def by (metis append_take_drop_id)
qed (auto simp: py_endswith_def)

lemma py_split_not_Nil [simp]: "py_split c s \<noteq> []"
  by (induction s) (auto split: list.splits)

text \<open>Joining what \<open>split\<close> gave yields the string again.\<close>

fun py_join :: "string \<Rightarrow> string list \<Rightarrow> string" where
  "py_join sep [] = []"
| "py_join sep [p] = p"
| "py_join sep (p # q # ps) = p @ sep @ py_join sep (q # ps)"

lemma hd_py_split: "hd (py_split c s) = takeWhile (\<lambda>d. d \<noteq> c) s"
  by (induction s) (auto split: list.splits)

lemma py_join_Cons: "py_join sep (p # ps) = (if ps = [] then p else p @ sep @ py_join sep ps)"
  by (cases ps) auto

lemma py_join_split [simp]: "py_join [c] (py_split c s) = s"
proof (induction s)
  case (Cons d s)
  obtain p ps where "py_split c s = p # ps" by (cases "py_split c s") auto
  with Cons show ?case by (auto simp: py_join_Cons)
qed simp

lemma py_split_part: "p \<in> set (py_split c s) \<Longrightarrow> c \<notin> set p"
proof (induction s arbitrary: p)
  case (Cons d s)
  then show ?case by (auto split: if_splits list.splits)
qed simp

lemma py_split_join:
  "ps \<noteq> [] \<Longrightarrow> (\<And>p. p \<in> set ps \<Longrightarrow> c \<notin> set p) \<Longrightarrow> py_split c (py_join [c] ps) = ps"
proof (induction ps)
  case (Cons p ps)
  have split_pre: "c \<notin> set q \<Longrightarrow> py_split c (q @ [c] @ t) = q # py_split c t" for q t
    by (induction q) auto
  have split_one: "c \<notin> set q \<Longrightarrow> py_split c q = [q]" for q
    by (induction q) auto
  show ?case
  proof (cases "ps = []")
    case True
    then show ?thesis using Cons.prems split_one by simp
  next
    case False
    then show ?thesis
      using Cons.IH Cons.prems split_pre [of p "py_join [c] ps"] by (simp add: py_join_Cons)
  qed
qed simp

end
