(* ===== verification/Py_Values.thy ===== *)
theory Py_Values
  imports Prelude
begin

text \<open>
  Python values as the JSON bodies carry them, the exceptions the code raises, and the dictionary
  interface every component of the gateway keeps its state in. Exceptions are values: an
  operation that can raise returns a \<open>res\<close>. The text of an HTTP error is kept as its template
  and the values interpolated into it (\<open>Detail\<close>).
\<close>

section \<open>Dictionaries\<close>

type_synonym 'v dict = "(string \<times> 'v) list"

abbreviation wf_dict :: "('k \<times> 'v) list \<Rightarrow> bool" where
  "wf_dict d \<equiv> distinct (map fst d)"

text \<open>\<open>d.update(e)\<close>.\<close>

definition dict_update :: "('k \<times> 'v) list \<Rightarrow> ('k \<times> 'v) list \<Rightarrow> ('k \<times> 'v) list" where
  "dict_update d e = fold (\<lambda>(k, v). AList.update k v) e d"

text \<open>\<open>d.setdefault(k, v)\<close>: an entry that is there stays, also when it is empty.\<close>

definition setdefault :: "string \<Rightarrow> 'v \<Rightarrow> 'v dict \<Rightarrow> 'v dict" where
  "setdefault k v d = (if map_of d k = None then AList.update k v d else d)"

text \<open>
  The interface a keyed in-memory table offers: what a lookup returns after a write and after a
  removal. Bulk writes and removals are derived once, here.
\<close>

locale keyed_store =
  fixes empty :: "'s"
    and put :: "'k \<Rightarrow> 'v \<Rightarrow> 's \<Rightarrow> 's"
    and del :: "'k \<Rightarrow> 's \<Rightarrow> 's"
    and look :: "'s \<Rightarrow> 'k \<Rightarrow> 'v option"
  assumes look_empty: "look empty k = None"
    and look_put: "look (put k v s) k' = (if k' = k then Some v else look s k')"
    and look_del: "look (del k s) k' = (if k' = k then None else look s k')"
begin

lemma look_put_all:
  "look (fold (\<lambda>(k, v). put k v) kvs s) k =
     (case map_of (rev kvs) k of None \<Rightarrow> look s k | Some v \<Rightarrow> Some v)"
proof (induction kvs arbitrary: s)
  case (Cons kv kvs)
  then show ?case
    by (cases kv) (auto simp: look_put map_add_def split: option.splits)
qed simp

lemma look_del_all:
  "look (fold del ks s) k = (if k \<in> set ks then None else look s k)"
  by (induction ks arbitrary: s) (auto simp: look_del)

lemma put_then_del: "look (del k (put k v s)) k' = look (del k s) k'"
  by (simp add: look_put look_del)

end

lemma map_of_AList_update [simp]:
  "map_of (AList.update k v d) k' = (if k' = k then Some v else map_of d k')"
  by (simp add: update_conv')

lemma map_of_AList_delete [simp]:
  "map_of (AList.delete k d) k' = (if k' = k then None else map_of d k')"
  by (simp add: delete_conv')

interpretation dict: keyed_store "[]" AList.update AList.delete map_of
  by unfold_locales simp_all

lemma map_of_dict_update:
  "map_of (dict_update d e) k = (case map_of (rev e) k of None \<Rightarrow> map_of d k | Some v \<Rightarrow> Some v)"
  unfolding dict_update_def by (rule dict.look_put_all)

lemma wf_dict_AList_update [simp, intro]: "wf_dict d \<Longrightarrow> wf_dict (AList.update k v d)"
  by (rule distinct_update)

lemma wf_dict_AList_delete [simp, intro]: "wf_dict d \<Longrightarrow> wf_dict (AList.delete k d)"
  by (rule distinct_delete)

lemma wf_dict_update [simp, intro]: "wf_dict d \<Longrightarrow> wf_dict (dict_update d e)"
  unfolding dict_update_def
  by (induction e arbitrary: d) (auto simp del: map_of_AList_update)

lemma wf_dict_filter [simp, intro]: "wf_dict d \<Longrightarrow> wf_dict (filter P d)"
  by (rule distinct_map_filter)

lemma map_of_rev_wf:
  assumes "wf_dict d"
  shows "map_of (rev d) = map_of d"
proof -
  have "wf_dict (rev d)" using assms by (simp add: rev_map [symmetric])
  then show ?thesis using assms by (metis map_of_inject_set set_rev)
qed

lemma map_of_filter_value:
  assumes "wf_dict d"
  shows "map_of (filter (\<lambda>(k, v). P k v) d) k =
     (case map_of d k of None \<Rightarrow> None | Some v \<Rightarrow> if P k v then Some v else None)"
proof -
  have iff: "map_of (filter (\<lambda>(k, v). P k v) d) k = Some v \<longleftrightarrow> map_of d k = Some v \<and> P k v" for v
    using assms by (simp add: map_of_eq_Some_iff)
  show ?thesis
  proof (cases "map_of d k")
    case None
    then have "map_of (filter (\<lambda>(k, v). P k v) d) k = None"
      using iff by (metis not_Some_eq option.distinct(1))
    then show ?thesis using None by simp
  next
    case (Some v)
    then have "map_of (filter (\<lambda>(k, v). P k v) d) k = (if P k v then Some v else None)"
      using iff by (metis not_Some_eq option.inject)
    then show ?thesis using Some by simp
  qed
qed

text \<open>A condition on every entry of a dictionary.\<close>

definition all_entries :: "('k \<Rightarrow> 'v \<Rightarrow> bool) \<Rightarrow> ('k \<times> 'v) list \<Rightarrow> bool" where
  "all_entries P d \<longleftrightarrow> list_all (\<lambda>kv. P (fst kv) (snd kv)) d"

lemma all_entries_Nil [simp, intro]: "all_entries P []"
  by (simp add: all_entries_def)

lemma all_entries_Cons [simp]: "all_entries P (kv # d) \<longleftrightarrow> P (fst kv) (snd kv) \<and> all_entries P d"
  by (simp add: all_entries_def)

lemma all_entries_iff: "all_entries P d \<longleftrightarrow> (\<forall>k v. (k, v) \<in> set d \<longrightarrow> P k v)"
  by (auto simp: all_entries_def list_all_iff)

lemma all_entries_update [intro]: "all_entries P d \<Longrightarrow> P k v \<Longrightarrow> all_entries P (AList.update k v d)"
  by (induction d) auto

lemma all_entries_mono: "all_entries P d \<Longrightarrow> set d' \<subseteq> set d \<Longrightarrow> all_entries P d'"
  by (auto simp: all_entries_iff)

lemma set_AList_delete: "set (AList.delete k d) \<subseteq> set d"
  by (induction d) auto

lemma all_entries_delete [intro]: "all_entries P d \<Longrightarrow> all_entries P (AList.delete k d)"
  by (erule all_entries_mono) (rule set_AList_delete)

lemma all_entries_fold_delete [intro]:
  "all_entries P d \<Longrightarrow> all_entries P (fold AList.delete ks d)"
  by (induction ks arbitrary: d) auto

lemma wf_fold_delete [simp, intro]: "wf_dict d \<Longrightarrow> wf_dict (fold AList.delete ks d)"
  by (induction ks arbitrary: d) auto

lemma all_entries_filter [intro]: "all_entries P d \<Longrightarrow> all_entries P (filter Q d)"
  by (rule all_entries_mono) auto

lemma all_entries_map_of: "all_entries P d \<Longrightarrow> map_of d k = Some v \<Longrightarrow> P k v"
  by (auto simp: all_entries_iff dest: map_of_SomeD)

section \<open>Values\<close>

datatype pyval =
    VNone
  | VBool bool
  | VInt int
  | VFloat string rat
  | VStr string
  | VList "pyval list"
  | VDict "(string \<times> pyval) list"

fun truthy :: "pyval \<Rightarrow> bool" where
  "truthy VNone = False"
| "truthy (VBool b) = b"
| "truthy (VInt n) = (n \<noteq> 0)"
| "truthy (VFloat r q) = (q \<noteq> 0)"
| "truthy (VStr s) = (s \<noteq> [])"
| "truthy (VList xs) = (xs \<noteq> [])"
| "truthy (VDict d) = (d \<noteq> [])"

text \<open>\<open>a or b\<close>.\<close>

definition py_or :: "pyval \<Rightarrow> pyval \<Rightarrow> pyval" where
  "py_or a b = (if truthy a then a else b)"

fun is_str :: "pyval \<Rightarrow> bool" where
  "is_str (VStr s) = True"
| "is_str v = False"

fun is_dict :: "pyval \<Rightarrow> bool" where
  "is_dict (VDict d) = True"
| "is_dict v = False"

text \<open>\<open>d.get(k)\<close> on a dictionary, and \<open>None\<close> or a string as an optional string.\<close>

definition dget :: "pyval dict \<Rightarrow> string \<Rightarrow> pyval" where
  "dget d k = (case map_of d k of None \<Rightarrow> VNone | Some v \<Rightarrow> v)"

definition vopt :: "string option \<Rightarrow> pyval" where
  "vopt x = (case x of None \<Rightarrow> VNone | Some s \<Rightarrow> VStr s)"

text \<open>\<open>v or d\<close> on an optional string.\<close>

definition first_nonempty :: "string option \<Rightarrow> string \<Rightarrow> string" where
  "first_nonempty v d = (case v of Some (c # cs) \<Rightarrow> c # cs | _ \<Rightarrow> d)"

text \<open>Whether a value can be the key of a dictionary.\<close>

definition hashable :: "pyval \<Rightarrow> bool" where
  "hashable v = (case v of VList _ \<Rightarrow> False | VDict _ \<Rightarrow> False | _ \<Rightarrow> True)"

section \<open>Exceptions\<close>

datatype detail = Detail string "pyval list"

datatype exc =
    HTTPException int detail
  | HTTPStatusError int string
  | TransportError
  | AttributeError string
  | TypeError string
  | KeyError string
  | ValueError string
  | RuntimeError string
  | LookupError string
  | TimeoutError string
  | PyError string string \<comment> \<open>a class of its own, by name\<close>

type_synonym 'a res = "exc + 'a"

definition res_bind :: "'a res \<Rightarrow> ('a \<Rightarrow> 'b res) \<Rightarrow> 'b res" where
  "res_bind r f = (case r of Inl e \<Rightarrow> Inl e | Inr x \<Rightarrow> f x)"

lemma res_bind_simps [simp, py_simps]:
  "res_bind (Inl e) f = Inl e"
  "res_bind (Inr x) f = f x"
  by (simp_all add: res_bind_def)

lemma res_bind_eq_Inr: "res_bind r f = Inr y \<longleftrightarrow> (\<exists>x. r = Inr x \<and> f x = Inr y)"
  by (cases r) auto

fun res_map :: "('a \<Rightarrow> 'b res) \<Rightarrow> 'a list \<Rightarrow> 'b list res" where
  "res_map f [] = Inr []"
| "res_map f (x # xs) =
     res_bind (f x) (\<lambda>y. res_bind (res_map f xs) (\<lambda>ys. Inr (y # ys)))"

text \<open>Method calls on a value that may not have the method.\<close>

definition py_get :: "pyval \<Rightarrow> string \<Rightarrow> pyval res" where
  "py_get v k = (case v of VDict d \<Rightarrow> Inr (dget d k) | _ \<Rightarrow> Inl (AttributeError ''get''))"

definition py_items :: "pyval \<Rightarrow> pyval dict res" where
  "py_items v = (case v of VDict d \<Rightarrow> Inr d | _ \<Rightarrow> Inl (AttributeError ''items''))"

definition as_str :: "string \<Rightarrow> pyval \<Rightarrow> string res" where
  "as_str m v = (case v of VStr s \<Rightarrow> Inr s | _ \<Rightarrow> Inl (AttributeError m))"

text \<open>\<open>list(v)\<close>.\<close>

definition py_list :: "pyval \<Rightarrow> pyval list res" where
  "py_list v = (case v of
       VList xs \<Rightarrow> Inr xs
     | VStr s \<Rightarrow> Inr (map (\<lambda>c. VStr [c]) s)
     | VDict d \<Rightarrow> Inr (map (\<lambda>kv. VStr (fst kv)) d)
     | _ \<Rightarrow> Inl (TypeError ''not iterable''))"

text \<open>\<open>p in s\<close> for strings.\<close>

fun py_contains :: "string \<Rightarrow> string \<Rightarrow> bool" where
  "py_contains p [] = (p = [])"
| "py_contains p (c # s) = (py_startswith (c # s) p \<or> py_contains p s)"

text \<open>\<open>v[k]\<close> for a string \<open>k\<close>.\<close>

definition py_subscript :: "pyval \<Rightarrow> string \<Rightarrow> pyval res" where
  "py_subscript v k = (case v of
       VDict d \<Rightarrow> (case map_of d k of Some x \<Rightarrow> Inr x | None \<Rightarrow> Inl (KeyError k))
     | _ \<Rightarrow> Inl (TypeError ''subscript''))"

section \<open>The text of a value\<close>

fun nat_str :: "nat \<Rightarrow> string" where
  "nat_str n = (if n < 10 then [char_of (48 + n)] else nat_str (n div 10) @ [char_of (48 + n mod 10)])"

declare nat_str.simps [simp del]

definition int_str :: "int \<Rightarrow> string" where
  "int_str i = (if i < 0 then CHR ''-'' # nat_str (nat (- i)) else nat_str (nat i))"

definition hex_digit :: "nat \<Rightarrow> char" where
  "hex_digit n = (if n < 10 then char_of (48 + n) else char_of (87 + n))"

definition repr_char :: "char \<Rightarrow> char \<Rightarrow> string" where
  "repr_char q c = (let n = code c in
     if c = CHR 0x5C \<or> c = q then [CHR 0x5C, c]
     else if n = 10 then [CHR 0x5C, CHR ''n'']
     else if n = 13 then [CHR 0x5C, CHR ''r'']
     else if n = 9 then [CHR 0x5C, CHR ''t'']
     else if n < 32 \<or> 127 \<le> n \<and> n \<le> 160 \<or> n = 173
     then [CHR 0x5C, CHR ''x'', hex_digit (n div 16), hex_digit (n mod 16)]
     else [c])"

definition repr_str :: "string \<Rightarrow> string" where
  "repr_str s = (let q = (if CHR 0x27 \<in> set s \<and> CHR 0x22 \<notin> set s then CHR 0x22 else CHR 0x27)
     in q # concat (map (repr_char q) s) @ [q])"

fun py_repr :: "pyval \<Rightarrow> string" where
  "py_repr VNone = ''None''"
| "py_repr (VBool b) = (if b then ''True'' else ''False'')"
| "py_repr (VInt n) = int_str n"
| "py_repr (VFloat r q) = r"
| "py_repr (VStr s) = repr_str s"
| "py_repr (VList xs) = ''['' @ py_join '', '' (map py_repr xs) @ '']''"
| "py_repr (VDict d) =
     ''{'' @ py_join '', '' (map (\<lambda>(k, v). repr_str k @ '': '' @ py_repr v) d) @ ''}''"

definition py_str :: "pyval \<Rightarrow> string" where
  "py_str v = (case v of VStr s \<Rightarrow> s | _ \<Rightarrow> py_repr v)"

lemma py_str_VStr [simp]: "py_str (VStr s) = s"
  by (simp add: py_str_def)

section \<open>Reading integers\<close>

text \<open>
  \<open>int(v)\<close>: a float is truncated towards zero; a string is stripped and read as a decimal numeral
  with an optional sign, single underscores allowed between digits.
\<close>

definition is_digit :: "char \<Rightarrow> bool" where
  "is_digit c \<longleftrightarrow> 48 \<le> code c \<and> code c \<le> 57"

definition digits_val :: "string \<Rightarrow> nat" where
  "digits_val s = foldl (\<lambda>a c. 10 * a + (code c - 48)) 0 s"

definition parse_int :: "string \<Rightarrow> int res" where
  "parse_int s = (let t = py_strip s in
     case t of
       [] \<Rightarrow> Inl (ValueError ''int'')
     | c # r \<Rightarrow>
         let sgn = (if c = CHR ''-'' then - 1 else 1);
             ds = (if c = CHR ''-'' \<or> c = CHR ''+'' then r else t)
         in if list_all (\<lambda>p. p \<noteq> [] \<and> list_all is_digit p) (py_split (CHR ''_'') ds)
            then Inr (sgn * int (digits_val (filter (\<lambda>d. d \<noteq> CHR ''_'') ds)))
            else Inl (ValueError ''int''))"

definition py_int :: "pyval \<Rightarrow> int res" where
  "py_int v = (case v of
       VInt n \<Rightarrow> Inr n
     | VBool b \<Rightarrow> Inr (if b then 1 else 0)
     | VFloat r q \<Rightarrow> Inr (if q < 0 then - \<lfloor>- q\<rfloor> else \<lfloor>q\<rfloor>)
     | VStr s \<Rightarrow> parse_int s
     | _ \<Rightarrow> Inl (TypeError ''int''))"

lemma py_int_VInt [simp]: "py_int (VInt n) = Inr n"
  by (simp add: py_int_def)

section \<open>Rounding\<close>

text \<open>\<open>round(q, n)\<close>: ties go to the even neighbour.\<close>

definition round_half_even :: "'a :: floor_ceiling \<Rightarrow> int" where
  "round_half_even q = (let f = \<lfloor>q\<rfloor>; d = q - of_int f in
     if d < 1 / 2 then f else if 1 / 2 < d then f + 1 else if even f then f else f + 1)"

definition py_round :: "'a :: floor_ceiling \<Rightarrow> nat \<Rightarrow> 'a" where
  "py_round q n = of_int (round_half_even (q * 10 ^ n)) / 10 ^ n"

abbreviation round4 :: "'a :: floor_ceiling \<Rightarrow> 'a" where
  "round4 q \<equiv> py_round q 4"

lemma round_half_even_near: "\<bar>of_int (round_half_even q) - q\<bar> \<le> 1 / 2"
proof -
  have "of_int \<lfloor>q\<rfloor> \<le> q" "q < of_int \<lfloor>q\<rfloor> + 1" by linarith+
  then show ?thesis by (auto simp: round_half_even_def Let_def)
qed

lemma round_half_even_ge: "of_int n \<le> q \<Longrightarrow> n \<le> round_half_even q"
proof -
  assume "of_int n \<le> q"
  then have "n \<le> \<lfloor>q\<rfloor>" by (simp add: le_floor_iff)
  then show ?thesis by (auto simp: round_half_even_def Let_def)
qed

lemma round_half_even_int: "round_half_even (of_int n) = n"
  by (simp add: round_half_even_def)

lemma round4_def: "round4 q = of_int (round_half_even (q * 10000)) / 10000"
  by (simp add: py_round_def)

end
