(* ===== verification/Web_Serve.thy ===== *)
theory Web_Serve
  imports Py_Values
begin

text \<open>
  The surfaces of \<open>web_serve.py\<close>: which declared facets of a persona are served, under which path, and
  what a single-page bundle answers for a path it does not hold.

  A \<open>provider\<close> is what the host reads of a persona. \<open>pv_facets\<close> is what its \<open>facets\<close> give, or the
  exception calling them raises. A path of the file system is the list of its components from the
  base. \<open>resolve\<close> is what the file system makes of one (\<open>Path.resolve\<close>, symbolic links followed) and
  \<open>is_dir\<close> tells the directories: both are parameters.
\<close>

section \<open>Providers\<close>

record provider =
  pv_name :: string
  pv_client :: "string option"
  pv_endpoint :: "string option"
  pv_role :: "string option"
  pv_facets :: "pyval res"
  pv_root :: "string option"
  pv_routes :: "string list"

text \<open>\<open>read_facets\<close>: a manifest that raises costs the persona its facets and nothing more.\<close>

definition read_facets :: "provider \<Rightarrow> pyval dict list res" where
  "read_facets p = res_bind (py_list (py_or (case pv_facets p of Inl e \<Rightarrow> VNone | Inr v \<Rightarrow> v) (VList []))) (\<lambda>fs.
     Inr (List.map_filter (\<lambda>f. case f of VDict d \<Rightarrow> Some d | _ \<Rightarrow> None) fs))"

section \<open>Where a bundle lies\<close>

type_synonym path = "string list"

definition path_parts :: "string \<Rightarrow> path" where
  "path_parts s = filter (\<lambda>c. c \<noteq> [] \<and> c \<noteq> ''.'') (py_split (CHR ''/'') s)"

text \<open>\<open>base / rel\<close>: an absolute path on the right replaces the left one.\<close>

definition path_join :: "path \<Rightarrow> string \<Rightarrow> path" where
  "path_join base rel = (if py_startswith rel ''/'' then path_parts rel else base @ path_parts rel)"

definition dist_of :: "pyval dict \<Rightarrow> string" where
  "dist_of facet = py_strip (py_str (py_or (dget facet ''dist'') (VStr [])))"

definition resolve_dist :: "(path \<Rightarrow> path) \<Rightarrow> (path \<Rightarrow> bool) \<Rightarrow> provider \<Rightarrow> pyval dict \<Rightarrow> path option" where
  "resolve_dist resolve is_dir p facet =
     (let rel = dist_of facet in
      if rel = [] then None
      else case pv_root p of
        None \<Rightarrow> None
      | Some r \<Rightarrow>
          if r = [] then None
          else
            let base = resolve (path_parts r); target = resolve (path_join base rel) in
            if target \<noteq> base \<and> \<not> (take (length base) target = base \<and> length base < length target) then None
            else if \<not> is_dir target then None
            else Some target)"

definition renders_at :: "provider \<Rightarrow> string \<Rightarrow> bool" where
  "renders_at p facet \<longleftrightarrow> list_ex (\<lambda>r. r = ''/'' @ facet \<or> py_startswith r (''/'' @ facet @ ''/'')) (pv_routes p)"

section \<open>Surfaces\<close>

datatype kind = Static path | Rendered

record surface =
  su_persona :: string
  su_facet :: string
  su_prefix :: string
  su_kind :: kind
  su_subs :: "string list"

definition subdomains_of :: "pyval dict \<Rightarrow> string list res" where
  "subdomains_of f = res_bind (py_list (py_or (dget f ''subdomains'') (VList []))) (\<lambda>ss.
     Inr (filter (\<lambda>s. s \<noteq> []) (map (\<lambda>s. py_lower (py_strip (py_str s))) ss)))"

definition surface_of :: "(path \<Rightarrow> path) \<Rightarrow> (path \<Rightarrow> bool) \<Rightarrow> provider \<Rightarrow> pyval dict \<Rightarrow> surface option res" where
  "surface_of resolve is_dir p f =
     (let fname = py_strip (py_str (py_or (dget f ''name'') (VStr []))) in
      if fname = [] then Inr None
      else res_bind (subdomains_of f) (\<lambda>subs.
        let surf = (\<lambda>k. \<lparr> su_persona = pv_name p, su_facet = fname, su_prefix = ''/'' @ pv_name p @ ''/'' @ fname,
              su_kind = k, su_subs = subs \<rparr>) in
        Inr (case resolve_dist resolve is_dir p f of
               Some directory \<Rightarrow> Some (surf (Static directory))
             | None \<Rightarrow> if renders_at p fname then Some (surf Rendered) else None)))"

fun surfaces :: "(path \<Rightarrow> path) \<Rightarrow> (path \<Rightarrow> bool) \<Rightarrow> provider list \<Rightarrow> surface list res" where
  "surfaces resolve is_dir [] = Inr []"
| "surfaces resolve is_dir (p # ps) =
     (if pv_name p = [] then surfaces resolve is_dir ps
      else res_bind (read_facets p) (\<lambda>fs.
           res_bind (res_map (surface_of resolve is_dir p) fs) (\<lambda>out.
           res_bind (surfaces resolve is_dir ps) (\<lambda>rest. Inr (List.map_filter id out @ rest)))))"

definition add_subdomains :: "string list \<Rightarrow> surface \<Rightarrow> surface dict \<Rightarrow> surface dict" where
  "add_subdomains names s d =
     (let d1 = fold (\<lambda>sub d. if sub \<in> set names then d else setdefault sub s d) (su_subs s) d in
      if ''@'' \<in> set (su_subs s) then setdefault ''@'' s d1 else d1)"

definition subdomain_map :: "provider list \<Rightarrow> surface list \<Rightarrow> surface dict" where
  "subdomain_map personas ss = fold (add_subdomains (map pv_name personas)) ss []"

text \<open>The static surfaces are mounted, in order, before the personas.\<close>

definition mounts_of :: "surface list \<Rightarrow> (string \<times> path) list" where
  "mounts_of ss = List.map_filter (\<lambda>s. case su_kind s of Static d \<Rightarrow> Some (su_prefix s, d) | Rendered \<Rightarrow> None) ss"

section \<open>A bundle with a router in the browser\<close>

definition ASSET_SUFFIXES :: "string list" where
  "ASSET_SUFFIXES = [''.js'', ''.mjs'', ''.cjs'', ''.css'', ''.map'', ''.json'', ''.wasm'',
     ''.png'', ''.jpg'', ''.jpeg'', ''.gif'', ''.ico'', ''.svg'', ''.webp'', ''.avif'',
     ''.woff'', ''.woff2'', ''.ttf'', ''.eot'', ''.otf'',
     ''.mp3'', ''.mp4'', ''.webm'', ''.ogg'', ''.wav'', ''.pdf'', ''.txt'', ''.xml'', ''.webmanifest'']"

text \<open>\<open>PurePosixPath(path).suffix\<close>: from the last dot of the last component, unless it stands first or last.\<close>

definition path_suffix :: "string \<Rightarrow> string" where
  "path_suffix s = (case rev (path_parts s) of
       [] \<Rightarrow> []
     | name # _ \<Rightarrow>
         (let ext = rev (takeWhile (\<lambda>c. c \<noteq> CHR ''.'') (rev name)); stem = take (length name - length ext - 1) name in
          if CHR ''.'' \<in> set name \<and> ext \<noteq> [] \<and> stem \<noteq> [] then ''.'' @ ext else []))"

text \<open>\<open>static\<close> is what \<open>StaticFiles\<close> answers: a file, or a status.\<close>

definition spa_response :: "(string \<Rightarrow> nat + 'file) \<Rightarrow> string \<Rightarrow> nat + 'file" where
  "spa_response static path = (case static path of
       Inr file \<Rightarrow> Inr file
     | Inl status \<Rightarrow>
         if status \<noteq> 404 then Inl status
         else if py_lower (path_suffix path) \<in> set ASSET_SUFFIXES then Inl status
         else static ''index.html'')"

section \<open>What is served\<close>

lemma resolve_dist_inside:
  assumes "resolve_dist resolve is_dir p f = Some d"
  shows "\<exists>r below. pv_root p = Some r \<and> d = resolve (path_parts r) @ below \<and> is_dir d"
proof -
  obtain r where r: "pv_root p = Some r"
    using assms by (auto simp: resolve_dist_def Let_def split: if_splits option.splits)
  let ?base = "resolve (path_parts r)"
  have d: "d = ?base \<or> take (length ?base) d = ?base" "is_dir d"
    using assms r by (auto simp: resolve_dist_def Let_def split: if_splits)
  then have "d = ?base @ drop (length ?base) d" by (metis append_take_drop_id append_self_conv drop_all order_refl)
  then show ?thesis using r d(2) by blast
qed

lemma surface_of_persona:
  assumes "surface_of resolve is_dir p f = Inr (Some s)"
  shows "su_persona s = pv_name p \<and> su_prefix s = ''/'' @ pv_name p @ ''/'' @ su_facet s \<and> su_facet s \<noteq> []
    \<and> (\<forall>d. su_kind s = Static d \<longrightarrow> resolve_dist resolve is_dir p f = Some d)"
  using assms by (auto simp: surface_of_def Let_def res_bind_eq_Inr split: if_splits option.splits)

lemma res_map_mem: "res_map f xs = Inr ys \<Longrightarrow> y \<in> set ys \<Longrightarrow> \<exists>x \<in> set xs. f x = Inr y"
  by (induction xs arbitrary: ys) (auto simp: res_bind_eq_Inr)

lemma set_map_filter_id: "x \<in> set (List.map_filter id xs) \<longleftrightarrow> Some x \<in> set xs"
proof (induction xs)
  case (Cons y ys)
  then show ?case by (cases y) (auto simp: List.map_filter_simps)
qed (simp add: List.map_filter_simps)

lemma surfaces_mem:
  "surfaces resolve is_dir ps = Inr ss \<Longrightarrow> s \<in> set ss \<Longrightarrow>
     \<exists>p f. p \<in> set ps \<and> pv_name p \<noteq> [] \<and> surface_of resolve is_dir p f = Inr (Some s)"
proof (induction ps arbitrary: ss)
  case (Cons p ps)
  show ?case
  proof (cases "pv_name p = []")
    case True
    then show ?thesis using Cons by auto
  next
    case False
    then obtain fs out rest where run: "read_facets p = Inr fs" "res_map (surface_of resolve is_dir p) fs = Inr out"
        "surfaces resolve is_dir ps = Inr rest" "ss = List.map_filter id out @ rest"
      using Cons.prems(1) by (auto simp: res_bind_eq_Inr)
    show ?thesis
    proof (cases "s \<in> set rest")
      case True
      then show ?thesis using Cons.IH [OF run(3)] by auto
    next
      case new: False
      then have "s \<in> set (List.map_filter id out)" using Cons.prems(2) run(4) by simp
      then have "Some s \<in> set out" by (simp add: set_map_filter_id)
      then obtain f where "surface_of resolve is_dir p f = Inr (Some s)" using res_map_mem [OF run(2)] by blast
      then show ?thesis using False by auto
    qed
  qed
qed simp

text \<open>C21: Whatever the manifests declare, a directory is mounted only under the prefix of a persona of the
  roster and only when it lies in that persona's own directory, symbolic links followed.\<close>

theorem surfaces_contained:
  assumes "surfaces resolve is_dir ps = Inr ss" "(prefix, d) \<in> set (mounts_of ss)"
  shows "\<exists>p r below. p \<in> set ps \<and> pv_root p = Some r \<and> d = resolve (path_parts r) @ below \<and> is_dir d
    \<and> py_startswith prefix (''/'' @ pv_name p @ ''/'')"
proof -
  obtain s where s: "s \<in> set ss" "su_kind s = Static d" "su_prefix s = prefix"
    using assms(2) by (auto simp: mounts_of_def List.map_filter_def split: kind.splits)
  obtain p f where p: "p \<in> set ps" "surface_of resolve is_dir p f = Inr (Some s)" using surfaces_mem [OF assms(1) s(1)] by blast
  from surface_of_persona [OF p(2)] have "resolve_dist resolve is_dir p f = Some d" "prefix = ''/'' @ pv_name p @ ''/'' @ su_facet s"
    using s by auto
  then show ?thesis using resolve_dist_inside [of resolve is_dir p f d] p(1) by (auto simp: py_startswith_iff)
qed

definition ex_aria :: provider where
  "ex_aria = \<lparr> pv_name = ''aria'', pv_client = None, pv_endpoint = None, pv_role = None,
     pv_facets = Inr (VList [VDict [(''name'', VStr ''www''), (''dist'', VStr ''www/dist''), (''subdomains'', VList (map VStr [''www'', ''aria'', ''@'']))],
       VDict [(''name'', VStr ''etc''), (''dist'', VStr ''/etc'')]]),
     pv_root = Some ''/srv/aria'', pv_routes = [] \<rparr>"

theorem surfaces_contained_witness:
  "\<exists>ss. surfaces id (\<lambda>_. True) [ex_aria] = Inr ss \<and> mounts_of ss = [(''/aria/www'', [''srv'', ''aria'', ''www'', ''dist''])]
    \<and> (\<exists>p r below. p \<in> set [ex_aria] \<and> pv_root p = Some r \<and> [''srv'', ''aria'', ''www'', ''dist''] = id (path_parts r) @ below
        \<and> py_startswith ''/aria/www'' (''/'' @ pv_name p @ ''/''))"
proof -
  have run: "surfaces id (\<lambda>_. True) [ex_aria] = Inr [\<lparr> su_persona = ''aria'', su_facet = ''www'', su_prefix = ''/aria/www'',
      su_kind = Static [''srv'', ''aria'', ''www'', ''dist''], su_subs = [''www'', ''aria'', ''@''] \<rparr>]"
    by code_simp
  have "mounts_of [\<lparr> su_persona = ''aria'', su_facet = ''www'', su_prefix = ''/aria/www'',
      su_kind = Static [''srv'', ''aria'', ''www'', ''dist''], su_subs = [''www'', ''aria'', ''@''] \<rparr>]
      = [(''/aria/www'', [''srv'', ''aria'', ''www'', ''dist''])]"
    by code_simp
  then show ?thesis using run surfaces_contained [OF run, of "''/aria/www''" "[''srv'', ''aria'', ''www'', ''dist'']"] by auto
qed

end
