(* ===== verification/Host.thy ===== *)
theory Host
  imports Web_Serve
begin

text \<open>
  The persona host of \<open>host.py\<close>: which persona, surface or upstream a \<open>Host\<close> header addresses, how the
  path is rewritten for it, what a proxied request carries, the discovery documents and the challenge,
  the identity of a caller over the relay, registration, and the choice of TLS.

  The environment is an argument. \<open>verify token audiences\<close> gives the claims of a verified access token,
  or none (\<open>prism.trust\<close>). Header names and values are strings.
\<close>

section \<open>The roster\<close>

definition client_ids :: "provider list \<Rightarrow> string list" where
  "client_ids ps = map (\<lambda>p. case pv_client p of
       Some (c # cs) \<Rightarrow> c # cs
     | _ \<Rightarrow> ''agience-server-'' @ pv_name p) ps"

definition or_else :: "string option \<Rightarrow> string \<Rightarrow> string" where
  "or_else v d = (case v of Some s \<Rightarrow> s | None \<Rightarrow> d)"

definition discovery_entry :: "provider \<Rightarrow> pyval dict" where
  "discovery_entry p = [(''name'', VStr (pv_name p)),
     (''endpoint'', VStr (or_else (pv_endpoint p) (''/'' @ pv_name p @ ''/mcp''))),
     (''role'', VStr (or_else (pv_role p) []))]"

section \<open>Who a host name addresses\<close>

record routing =
  ro_base :: string
  ro_names :: "string list"
  ro_declared :: "string dict"
  ro_apex :: "string option"
  ro_upstreams :: "string dict"
  ro_facets :: "surface dict"

definition base_domain :: "string option \<Rightarrow> string" where
  "base_domain v = dropWhile (\<lambda>c. c = CHR ''.'') (py_lower (py_strip (or_else v [])))"

definition declare_subs :: "string \<Rightarrow> pyval list \<Rightarrow> string dict \<times> string option \<Rightarrow> string dict \<times> string option" where
  "declare_subs name subs d = fold (\<lambda>sub (declared, apex). let s = py_lower (py_strip (py_str sub)) in
     if s = ''@'' then (declared, case apex of None \<Rightarrow> Some name | Some a \<Rightarrow> if a = [] then Some name else apex)
     else if s \<noteq> [] then (setdefault s name declared, apex)
     else (declared, apex)) subs d"

fun declare_facets :: "string \<Rightarrow> pyval dict list \<Rightarrow> string dict \<times> string option \<Rightarrow> (string dict \<times> string option) res" where
  "declare_facets name [] d = Inr d"
| "declare_facets name (f # fs) d = res_bind (py_list (py_or (dget f ''subdomains'') (VList []))) (\<lambda>subs.
     declare_facets name fs (declare_subs name subs d))"

fun declared_by :: "provider list \<Rightarrow> string dict \<times> string option \<Rightarrow> (string dict \<times> string option) res" where
  "declared_by [] d = Inr d"
| "declared_by (p # ps) d = res_bind (read_facets p) (\<lambda>fs. res_bind (declare_facets (pv_name p) fs d) (declared_by ps))"

definition apex_target :: "string list \<Rightarrow> string option \<Rightarrow> string option \<Rightarrow> string option" where
  "apex_target names declared env =
     (let to = py_lower (py_strip (case declared of Some (c # cs) \<Rightarrow> c # cs | _ \<Rightarrow> or_else env ''aria''))
      in if to \<in> set names then Some to else None)"

definition upstreams_of :: "string list \<Rightarrow> string option \<Rightarrow> string dict" where
  "upstreams_of names env = fold (\<lambda>pair d. let (label, sep, addr) = py_partition (CHR ''='') (py_strip pair);
       label = py_lower (py_strip label); addr = py_strip addr in
     if sep \<noteq> [] \<and> label \<noteq> [] \<and> addr \<noteq> [] \<and> label \<notin> set names then AList.update label addr d else d)
     (py_split (CHR '','') (or_else env [])) []"

definition routing_of :: "provider list \<Rightarrow> surface list \<Rightarrow> string option \<Rightarrow> string option \<Rightarrow> string option \<Rightarrow> routing res" where
  "routing_of ps ss domain apex ups = res_bind (declared_by ps ([], None)) (\<lambda>(declared, declared_apex).
     Inr \<lparr> ro_base = base_domain domain, ro_names = map pv_name ps, ro_declared = declared,
           ro_apex = apex_target (map pv_name ps) declared_apex apex,
           ro_upstreams = upstreams_of (map pv_name ps) ups, ro_facets = subdomain_map ps ss \<rparr>)"

definition host_name :: "string \<Rightarrow> string" where
  "host_name host = rstrip_char (CHR ''.'') (py_lower (py_strip (fst (py_partition (CHR '':'') host))))"

text \<open>The label before the base: \<open>h[: -(len(base) + 1)]\<close> when \<open>h\<close> ends with a dot and the base.\<close>

definition label_of :: "string \<Rightarrow> string \<Rightarrow> string option" where
  "label_of base h = (if py_endswith h (''.'' @ base) then Some (take (length h - (length base + 1)) h) else None)"

definition persona_for_host :: "routing \<Rightarrow> string \<Rightarrow> string option" where
  "persona_for_host ro host =
     (if ro_base ro = [] \<or> host = [] then None
      else let h = host_name host in
        if h = ro_base ro \<or> h = ''www.'' @ ro_base ro then ro_apex ro
        else case label_of (ro_base ro) h of
          None \<Rightarrow> None
        | Some label \<Rightarrow> (case map_of (ro_declared ro) label of
            Some (c # cs) \<Rightarrow> if c # cs \<in> set (ro_names ro) then Some (c # cs) else None
          | _ \<Rightarrow> if label \<in> set (ro_names ro) then Some label else None))"

definition upstream_for_host :: "routing \<Rightarrow> string \<Rightarrow> string option" where
  "upstream_for_host ro host =
     (if ro_base ro = [] \<or> host = [] \<or> ro_upstreams ro = [] then None
      else case label_of (ro_base ro) (host_name host) of
        None \<Rightarrow> None
      | Some label \<Rightarrow> map_of (ro_upstreams ro) label)"

definition facet_for_host :: "routing \<Rightarrow> string \<Rightarrow> surface option" where
  "facet_for_host ro host =
     (if ro_base ro = [] \<or> host = [] \<or> ro_facets ro = [] then None
      else let h = host_name host in
        if h = ro_base ro \<or> h = ''www.'' @ ro_base ro
        then (case map_of (ro_facets ro) ''www'' of Some s \<Rightarrow> Some s | None \<Rightarrow> map_of (ro_facets ro) ''@'')
        else case label_of (ro_base ro) h of
          None \<Rightarrow> None
        | Some label \<Rightarrow> map_of (ro_facets ro) label)"

section \<open>The path\<close>

text \<open>\<open>_route_by_host\<close> on the path of the request and its raw bytes.\<close>

definition route_by_host :: "routing \<Rightarrow> string \<Rightarrow> string \<times> string option \<Rightarrow> string \<times> string option" where
  "route_by_host ro host req = (case persona_for_host ro host of
       None \<Rightarrow> req
     | Some target \<Rightarrow>
         if target = [] then req
         else
           let (path, raw) = req;
               persona_prefix = ''/'' @ target;
               surface = facet_for_host ro host;
               prefix = (case surface of Some s \<Rightarrow> su_prefix s | None \<Rightarrow> persona_prefix);
               slash = (case surface of Some s \<Rightarrow> (case su_kind s of Static _ \<Rightarrow> ''/'' | Rendered \<Rightarrow> []) | None \<Rightarrow> [])
           in if py_startswith path ''/.well-known/'' then req
              else if path \<noteq> persona_prefix \<and> \<not> py_startswith path (persona_prefix @ ''/'')
              then (prefix @ (if path = ''/'' then slash else path),
                    case raw of Some (c # cs) \<Rightarrow> Some (prefix @ (if path = ''/'' then slash else c # cs)) | _ \<Rightarrow> raw)
              else req)"

section \<open>The proxy\<close>

definition THEIRS :: "string list" where
  "THEIRS = [''connection'', ''keep-alive'', ''transfer-encoding'', ''upgrade'', ''x-forwarded-for'', ''x-real-ip'',
     ''forwarded'', ''x-forwarded-proto'', ''x-forwarded-host'']"

definition forwarded_headers :: "(string \<times> string) list \<Rightarrow> string option \<Rightarrow> string \<Rightarrow> string dict" where
  "forwarded_headers headers client scheme =
     (let fwd = dict_update [] (filter (\<lambda>(k, v). py_lower k \<notin> set THEIRS) headers);
          fwd = (case client of Some (c # cs) \<Rightarrow> AList.update ''x-forwarded-for'' (c # cs) fwd | _ \<Rightarrow> fwd);
          fwd = AList.update ''x-forwarded-proto'' scheme fwd
      in case map_of headers ''host'' of
           Some (c # cs) \<Rightarrow> AList.update ''x-forwarded-host'' (c # cs) fwd
         | _ \<Rightarrow> fwd)"

definition proxy_url :: "string \<Rightarrow> string \<Rightarrow> string \<Rightarrow> string" where
  "proxy_url addr path query = ''http://'' @ addr @ path @ (if query = [] then [] else ''?'' @ query)"

definition DROPPED :: "string list" where
  "DROPPED = [''connection'', ''keep-alive'', ''transfer-encoding'', ''upgrade'', ''content-encoding'', ''content-length'']"

definition returned_headers :: "(string \<times> string) list \<Rightarrow> string dict" where
  "returned_headers headers = dict_update [] (filter (\<lambda>(k, v). py_lower k \<notin> set DROPPED) headers)"

text \<open>The two middlewares in the order they run: the path first, then the proxy.\<close>

datatype host_outcome = Forward string string | Serve string

definition host_request :: "routing \<Rightarrow> string \<Rightarrow> string \<Rightarrow> host_outcome" where
  "host_request ro host path = (let path' = fst (route_by_host ro host (path, None)) in
     case upstream_for_host ro host of
       Some (c # cs) \<Rightarrow> Forward (c # cs) path'
     | _ \<Rightarrow> Serve path')"

section \<open>Discovery and the challenge\<close>

definition PROTECTED_RESOURCE_PATH :: string where
  "PROTECTED_RESOURCE_PATH = ''/.well-known/oauth-protected-resource''"

definition origin_of :: "string dict \<Rightarrow> string \<Rightarrow> string \<Rightarrow> string" where
  "origin_of headers scheme netloc = first_nonempty (map_of headers ''x-forwarded-proto'') scheme @ ''://''
     @ first_nonempty (map_of headers ''host'') netloc"

definition protected_resource :: "string dict \<Rightarrow> string \<Rightarrow> string \<Rightarrow> string \<Rightarrow> pyval dict" where
  "protected_resource headers scheme netloc origin_uri =
     [(''resource'', VStr (rstrip_char (CHR ''/'') (origin_of headers scheme netloc))),
      (''bearer_methods_supported'', VList [VStr ''header''])]
     @ (let issuer = rstrip_char (CHR ''/'') origin_uri in
        if issuer = [] then [] else [(''authorization_servers'', VList [VStr issuer])])"

definition index_port :: "int option \<Rightarrow> string \<Rightarrow> int" where
  "index_port port scheme = (case port of Some n \<Rightarrow> if n = 0 then (if scheme = ''https'' then 443 else 80) else n
     | None \<Rightarrow> if scheme = ''https'' then 443 else 80)"

definition lstrip_char :: "char \<Rightarrow> string \<Rightarrow> string" where
  "lstrip_char c s = dropWhile (\<lambda>d. d = c) s"

definition contains :: "string \<Rightarrow> string \<Rightarrow> bool" where
  "contains s t \<longleftrightarrow> list_ex (\<lambda>i. py_startswith (drop i s) t) [0..<length s + 1]"

definition challenge_headers :: "string dict \<Rightarrow> string dict \<Rightarrow> string \<Rightarrow> string \<Rightarrow> string dict" where
  "challenge_headers headers req_headers scheme netloc =
     (let key = List.find (\<lambda>k. py_lower k = ''www-authenticate'') (map fst headers);
          existing = py_strip (case key of None \<Rightarrow> [] | Some k \<Rightarrow> (case map_of headers k of None \<Rightarrow> [] | Some v \<Rightarrow> v));
          rest = (case key of None \<Rightarrow> headers | Some k \<Rightarrow> AList.delete k headers)
      in if \<not> contains existing ''resource_metadata=''
         then let pointer = ''resource_metadata=\"'' @ origin_of req_headers scheme netloc @ PROTECTED_RESOURCE_PATH @ ''\"'';
                  params = (if py_lower (take 6 existing) = ''bearer''
                    then py_strip (lstrip_char (CHR '','') (py_strip (drop (length ''Bearer'') existing))) else [])
              in AList.update ''WWW-Authenticate''
                   (if params \<noteq> [] then ''Bearer '' @ params @ '', '' @ pointer else ''Bearer '' @ pointer) rest
         else AList.update ''WWW-Authenticate'' existing rest)"

definition challenge_on_401 :: "int \<Rightarrow> string dict \<Rightarrow> string dict \<Rightarrow> string \<Rightarrow> string \<Rightarrow> string dict" where
  "challenge_on_401 status headers req_headers scheme netloc =
     (if status = 401 then challenge_headers headers req_headers scheme netloc else headers)"

definition well_known_mcp :: "provider list \<Rightarrow> string dict \<Rightarrow> pyval dict" where
  "well_known_mcp ps uuid_map =
     [(''service'', VStr ''crystal-host''), (''transport'', VStr ''streamable-http''),
      (''discovery'', VDict [
        (''personas'', VList (map (\<lambda>p. VDict (AList.update ''artifact_id'' (vopt (map_of uuid_map (pv_name p))) (discovery_entry p))) ps)),
        (''uuid_routing_enabled'', VBool (uuid_map \<noteq> []))])]"

section \<open>The caller over the relay\<close>

type_synonym verifier = "string \<Rightarrow> string list \<Rightarrow> pyval dict option"

definition bearer_token :: "string \<Rightarrow> string option" where
  "bearer_token raw = (if \<not> py_startswith (py_lower raw) ''bearer '' then None else Some (py_strip (drop 7 raw)))"

definition user_of_claims :: "pyval dict \<Rightarrow> string option" where
  "user_of_claims claims = (if truthy (dget claims ''sub'') then Some (py_str (dget claims ''sub'')) else None)"

definition resolve_user_id :: "verifier \<Rightarrow> string list \<Rightarrow> (string \<times> string) list \<Rightarrow> string option" where
  "resolve_user_id verify audiences headers =
     (let raw = (case List.find (\<lambda>(k, v). py_lower k = ''authorization'') headers of None \<Rightarrow> [] | Some (k, v) \<Rightarrow> v) in
      case bearer_token raw of
        None \<Rightarrow> None
      | Some token \<Rightarrow>
          if token = [] then None
          else case verify token audiences of None \<Rightarrow> None | Some claims \<Rightarrow> user_of_claims claims)"

text \<open>The relay socket: closed with 4401 or connected for a user; it takes no delegation.\<close>

definition relay_socket :: "verifier \<Rightarrow> string \<Rightarrow> string + string" where
  "relay_socket verify raw = (case bearer_token raw of
       None \<Rightarrow> Inl ''Missing bearer token''
     | Some token \<Rightarrow> (case verify token [] of
         None \<Rightarrow> Inl ''Invalid bearer token''
       | Some claims \<Rightarrow> (case user_of_claims claims of
           None \<Rightarrow> Inl ''Token missing sub''
         | Some user \<Rightarrow> Inr user)))"

section \<open>Registration\<close>

text \<open>
  \<open>answers k p\<close> says whether the \<open>k\<close>-th call of persona \<open>p\<close>'s \<open>register\<close> returned true; a raise is false.
  The result: the personas not registered, the calls made per persona, and the seconds slept.
\<close>

fun register_rounds :: "(nat \<Rightarrow> string \<Rightarrow> bool) \<Rightarrow> nat \<Rightarrow> nat \<Rightarrow> rat \<Rightarrow> string list \<Rightarrow> string list \<times> rat list" where
  "register_rounds answers k 0 delay remaining = (remaining, [])"
| "register_rounds answers k (Suc left) delay remaining =
     (if remaining = [] then ([], [])
      else let rest = filter (\<lambda>p. \<not> answers k p) remaining in
        if rest = [] then ([], [])
        else let (out, sleeps) = register_rounds answers (k + 1) left (min (delay * 3 / 2) 15) rest
             in (out, delay # sleeps))"

definition self_register_all :: "(nat \<Rightarrow> string \<Rightarrow> bool) \<Rightarrow> string list \<Rightarrow> string list \<times> rat list" where
  "self_register_all answers personas = register_rounds answers 0 15 2 personas"

text \<open>\<open>_gateway_persona_count\<close> from the JSON of \<open>/health\<close>; an answer that cannot be read is not a zero.\<close>

definition persona_count :: "pyval option \<Rightarrow> int option" where
  "persona_count answer = (case answer of
       Some (VDict d) \<Rightarrow> (case dget d ''personas_known'' of
           VInt n \<Rightarrow> Some n
         | VBool b \<Rightarrow> Some (if b then 1 else 0)
         | VFloat r q \<Rightarrow> Some (if q < 0 then - \<lfloor>- q\<rfloor> else \<lfloor>q\<rfloor>)
         | _ \<Rightarrow> None)
     | _ \<Rightarrow> None)"

text \<open>One tick of \<open>_keep_registered\<close>.\<close>

definition registers_again :: "pyval option \<Rightarrow> bool" where
  "registers_again answer \<longleftrightarrow> persona_count answer = Some 0"

section \<open>TLS\<close>

definition tls_of :: "(string \<Rightarrow> bool) \<Rightarrow> string option \<Rightarrow> string option \<Rightarrow> (string \<times> string) option res" where
  "tls_of isfile cert_env key_env =
     (let cert = py_strip (or_else cert_env []); key = py_strip (or_else key_env []) in
      if cert = [] \<and> key = [] then Inr None
      else let missing = map fst (filter (\<lambda>(n, v). v = []) [(''CRYSTAL_TLS_CERT'', cert), (''CRYSTAL_TLS_KEY'', key)])
                 @ filter (\<lambda>v. v \<noteq> [] \<and> \<not> isfile v) [cert, key]
           in if missing \<noteq> [] then Inl (RuntimeError (''TLS was asked for and cannot be served: '' @ py_join '', '' missing))
              else Inr (Some (cert, key)))"

end
