(* ===== verification/Host_Laws.thy ===== *)
theory Host_Laws
  imports Host
begin

text \<open>
  What the host guarantees: a rewrite lands under a mounted persona and is made once, the proxy writes
  the client's address itself, every 401 names where to authenticate, registration tries each
  persona until it answers and stops.
\<close>

section \<open>Routing\<close>

lemma setdefault_ran: "map_of (setdefault k v d) j = Some u \<Longrightarrow> u = v \<or> map_of d j = Some u"
  by (auto simp: setdefault_def split: if_splits)

lemma add_subdomains_ran: "map_of (add_subdomains names s d) j = Some u \<Longrightarrow> u = s \<or> map_of d j = Some u"
proof -
  have step: "map_of (fold (\<lambda>sub d. if sub \<in> set names then d else setdefault sub s d) subs d) j = Some u \<Longrightarrow> u = s \<or> map_of d j = Some u" for subs d
    by (induction subs arbitrary: d) (auto split: if_splits dest: setdefault_ran)
  assume "map_of (add_subdomains names s d) j = Some u"
  then show ?thesis by (auto simp: add_subdomains_def Let_def split: if_splits dest!: step setdefault_ran)
qed

lemma subdomain_map_ran:
  assumes "map_of (subdomain_map ps ss) j = Some u"
  shows "u \<in> set ss"
proof -
  have run: "map_of (fold (add_subdomains names) ss d) j = Some u \<Longrightarrow> u \<in> set ss \<or> map_of d j = Some u" for names d
    by (induction ss arbitrary: d) (auto dest: add_subdomains_ran)
  show ?thesis using run [of "map pv_name ps" "[]"] assms by (simp add: subdomain_map_def)
qed

lemma routing_of_fields:
  assumes "routing_of ps ss domain apex ups = Inr ro"
  shows "ro_names ro = map pv_name ps" "ro_facets ro = subdomain_map ps ss"
    "\<And>t. ro_apex ro = Some t \<Longrightarrow> t \<in> pv_name ` set ps" "ro_upstreams ro = upstreams_of (map pv_name ps) ups"
  using assms by (auto simp: routing_of_def res_bind_eq_Inr apex_target_def Let_def split: if_splits)

lemma persona_for_host_named:
  assumes "routing_of ps ss domain apex ups = Inr ro" "persona_for_host ro host = Some t"
  shows "t \<in> pv_name ` set ps"
  using assms(2) routing_of_fields [OF assms(1)]
  by (auto simp: persona_for_host_def Let_def split: if_splits option.splits list.splits)

lemma facet_for_host_surface:
  assumes "routing_of ps ss domain apex ups = Inr ro" "facet_for_host ro host = Some s"
  shows "s \<in> set ss"
  using assms(2) routing_of_fields(2) [OF assms(1)] subdomain_map_ran
  by (auto simp: facet_for_host_def Let_def split: if_splits option.splits)

text \<open>The surface a host name reaches and the persona it reaches are of one persona.\<close>

definition agrees :: "routing \<Rightarrow> string \<Rightarrow> bool" where
  "agrees ro host \<longleftrightarrow> (case (persona_for_host ro host, facet_for_host ro host) of
     (Some t, Some s) \<Rightarrow> su_persona s = t | _ \<Rightarrow> True)"

definition under :: "string \<Rightarrow> string \<Rightarrow> bool" where
  "under t path \<longleftrightarrow> path = ''/'' @ t \<or> py_startswith path (''/'' @ t @ ''/'')"

lemma route_stops: "persona_for_host ro host = Some t \<Longrightarrow> under t (fst req) \<Longrightarrow> route_by_host ro host req = req"
  by (cases req) (auto simp: route_by_host_def under_def Let_def)

lemma route_cases:
  assumes "routing_of ps ss domain apex ups = Inr ro" "surfaces resolve is_dir ps = Inr ss" "agrees ro host" "py_startswith path ''/''"
  shows "route_by_host ro host (path, raw) = (path, raw)
    \<or> (\<exists>t. persona_for_host ro host = Some t \<and> t \<in> pv_name ` set ps \<and> under t (fst (route_by_host ro host (path, raw))))"
proof (cases "persona_for_host ro host")
  case None
  then show ?thesis by (simp add: route_by_host_def)
next
  case (Some t)
  have t: "t \<in> pv_name ` set ps" by (rule persona_for_host_named [OF assms(1) Some])
  obtain rest where path: "path = ''/'' @ rest" using assms(4) by (auto simp: py_startswith_iff)
  show ?thesis
  proof (cases "t = [] \<or> py_startswith path ''/.well-known/'' \<or> under t path")
    case True
    then show ?thesis using Some by (auto simp: route_by_host_def under_def Let_def)
  next
    case False
    show ?thesis
    proof (cases "facet_for_host ro host")
      case None
      then have "fst (route_by_host ro host (path, raw)) = (''/'' @ t) @ (if path = ''/'' then [] else path)"
        using Some False by (simp add: route_by_host_def under_def Let_def)
      then have "under t (fst (route_by_host ro host (path, raw)))" using path by (auto simp: under_def py_startswith_iff)
      then show ?thesis using Some t by blast
    next
      case (Some s)
      obtain p f where "p \<in> set ps" "surface_of resolve is_dir p f = Inr (Some s)"
        using surfaces_mem [OF assms(2) facet_for_host_surface [OF assms(1) Some]] by blast
      then have prefix: "su_prefix s = ''/'' @ t @ ''/'' @ su_facet s"
        using surface_of_persona assms(3) Some \<open>persona_for_host ro host = Some t\<close> by (fastforce simp: agrees_def)
      have "fst (route_by_host ro host (path, raw)) = su_prefix s
          @ (if path = ''/'' then (case su_kind s of Static _ \<Rightarrow> ''/'' | Rendered \<Rightarrow> []) else path)"
        using Some False \<open>persona_for_host ro host = Some t\<close> by (simp add: route_by_host_def under_def Let_def)
      then have "under t (fst (route_by_host ro host (path, raw)))" by (auto simp: under_def py_startswith_iff prefix)
      then show ?thesis using \<open>persona_for_host ro host = Some t\<close> t by blast
    qed
  qed
qed

text \<open>C32: Where the surface a host name reaches, if it reaches one, belongs to the persona the host name addresses, a
  request is rewritten at most once and only under that persona: what the router makes of it is left alone, or
  lies under the path of a persona of the roster, the one the host name addresses, and routing it again changes
  nothing. Where it belongs to another persona, a rewritten path is rewritten again (\<open>prefixed_twice\<close>, below).\<close>

theorem route_by_host_once:
  assumes "routing_of ps ss domain apex ups = Inr ro" "surfaces resolve is_dir ps = Inr ss" "agrees ro host" "py_startswith path ''/''"
  shows "route_by_host ro host (route_by_host ro host (path, raw)) = route_by_host ro host (path, raw)
    \<and> (route_by_host ro host (path, raw) = (path, raw)
       \<or> (\<exists>t. persona_for_host ro host = Some t \<and> t \<in> pv_name ` set ps \<and> under t (fst (route_by_host ro host (path, raw)))))"
  using route_cases [OF assms] route_stops by metis

definition ex_surface :: surface where
  "ex_surface = \<lparr> su_persona = ''aria'', su_facet = ''www'', su_prefix = ''/aria/www'',
     su_kind = Static [''srv'', ''aria'', ''www'', ''dist''], su_subs = [''www'', ''aria'', ''@''] \<rparr>"

definition ex_routing :: routing where
  "ex_routing = (case routing_of [ex_aria] [ex_surface] (Some ''example.org'') None (Some ''origin=127.0.0.1:8080'') of Inr ro \<Rightarrow> ro)"

lemma ex_routing_is: "routing_of [ex_aria] [ex_surface] (Some ''example.org'') None (Some ''origin=127.0.0.1:8080'') = Inr ex_routing"
proof -
  have "(case routing_of [ex_aria] [ex_surface] (Some ''example.org'') None (Some ''origin=127.0.0.1:8080'') of Inr ro \<Rightarrow> True | Inl e \<Rightarrow> False)"
    by code_simp
  then show ?thesis by (auto simp: ex_routing_def split: sum.splits)
qed

theorem route_by_host_once_witness:
  "route_by_host ex_routing ''www.example.org:443'' (''/'', Some ''/'') = (''/aria/www/'', Some ''/aria/www/'')
    \<and> route_by_host ex_routing ''www.example.org:443'' (''/aria/www/'', Some ''/aria/www/'') = (''/aria/www/'', Some ''/aria/www/'')"
proof -
  have ss: "surfaces id (\<lambda>_. True) [ex_aria] = Inr [ex_surface]" by code_simp
  have first: "route_by_host ex_routing ''www.example.org:443'' (''/'', Some ''/'') = (''/aria/www/'', Some ''/aria/www/'')" by code_simp
  have "agrees ex_routing ''www.example.org:443''" by code_simp
  from route_by_host_once [OF ex_routing_is ss this, of "''/''" "Some ''/''"] first
  show ?thesis by (simp add: py_startswith_def)
qed

text \<open>Without the agreement the guard looks for the wrong persona: here the apex names \<open>aria\<close> and the
  surface of \<open>www\<close> is \<open>sage\<close>'s, so a path that carries its prefix is given it again.\<close>

definition ex_split :: routing where
  "ex_split = ex_routing\<lparr>ro_names := [''aria'', ''sage''], ro_facets := [(''www'', ex_surface\<lparr>su_persona := ''sage'', su_prefix := ''/sage/www''\<rparr>)]\<rparr>"

lemma prefixed_twice:
  "route_by_host ex_split ''www.example.org'' (''/app'', None) = (''/sage/www/app'', None)"
  "route_by_host ex_split ''www.example.org'' (''/sage/www/app'', None) = (''/sage/www/sage/www/app'', None)"
  by code_simp+

text \<open>A declared subdomain and an upstream of one label: the path is rewritten for the persona and then
  sent to the upstream.\<close>

lemma rewritten_and_forwarded:
  "host_request (ex_routing\<lparr>ro_declared := [(''origin'', ''aria'')]\<rparr>) ''origin.example.org'' ''/token'' = Forward ''127.0.0.1:8080'' ''/aria/token''"
  by code_simp

section \<open>The proxy\<close>

lemma map_of_filter_keys: "map_of (filter (\<lambda>(k, v). P k) d) k = (if P k then map_of d k else None)"
  by (induction d) auto

lemma set_THEIRS: "set THEIRS = {''connection'', ''keep-alive'', ''transfer-encoding'', ''upgrade'', ''x-forwarded-for'', ''x-real-ip'',
    ''forwarded'', ''x-forwarded-proto'', ''x-forwarded-host''}"
  by (simp add: THEIRS_def)

text \<open>C33: What an upstream is sent, header by header. The client address is the one of this connection, and there is
  none when the connection names none; the scheme is the one the request came by; the host is the one it asked for.
  Of the caller's own headers none of \<open>connection\<close>, \<open>keep-alive\<close>, \<open>transfer-encoding\<close>, \<open>upgrade\<close>, \<open>x-forwarded-for\<close>,
  \<open>x-real-ip\<close>, \<open>forwarded\<close>, \<open>x-forwarded-proto\<close>, \<open>x-forwarded-host\<close> goes through, in whatever case it is written,
  and every other header goes through with the last value the caller gave it.\<close>

theorem forwarded_address_is_ours:
  "map_of (forwarded_headers headers client scheme) k =
     (if k = ''x-forwarded-for'' then (if client = Some [] then None else client)
      else if k = ''x-forwarded-proto'' then Some scheme
      else if k = ''x-forwarded-host'' then (if map_of headers ''host'' = Some [] then None else map_of headers ''host'')
      else if py_lower k \<in> {''connection'', ''keep-alive'', ''transfer-encoding'', ''upgrade'', ''x-forwarded-for'', ''x-real-ip'',
                ''forwarded'', ''x-forwarded-proto'', ''x-forwarded-host''} then None
      else map_of (rev headers) k)"
proof -
  let ?kept = "dict_update [] (filter (\<lambda>(k, v). py_lower k \<notin> set THEIRS) headers)"
  have kept: "map_of ?kept k = (if py_lower k \<in> set THEIRS then None else map_of (rev headers) k)" for k
    by (simp add: map_of_dict_update rev_filter map_of_filter_keys split: option.split)
  define fwd where "fwd = (case client of Some (c # cs) \<Rightarrow> AList.update ''x-forwarded-for'' (c # cs) ?kept | _ \<Rightarrow> ?kept)"
  define asked where "asked = AList.update ''x-forwarded-proto'' scheme fwd"
  have lower: "py_lower ''x-forwarded-for'' \<in> set THEIRS" "py_lower ''x-forwarded-host'' \<in> set THEIRS" by code_simp+
  have fwd: "map_of fwd k = (if k = ''x-forwarded-for'' then (if client = Some [] then None else client) else map_of ?kept k)"
  proof (cases client)
    case None
    then show ?thesis using lower by (auto simp: fwd_def kept)
  next
    case (Some c)
    then show ?thesis using lower by (cases c) (auto simp: fwd_def kept update_conv')
  qed
  have asked: "map_of asked k = (if k = ''x-forwarded-proto'' then Some scheme else map_of fwd k)"
    by (simp add: asked_def update_conv')
  have "forwarded_headers headers client scheme = (case map_of headers ''host'' of
      Some (c # cs) \<Rightarrow> AList.update ''x-forwarded-host'' (c # cs) asked | _ \<Rightarrow> asked)"
    by (simp only: forwarded_headers_def Let_def fwd_def asked_def)
  moreover have "map_of asked k = None" if "k = ''x-forwarded-host''"
  proof -
    have "map_of ?kept k = None" by (simp only: that kept lower if_True)
    then show ?thesis unfolding asked fwd using that by simp
  qed
  ultimately have out: "map_of (forwarded_headers headers client scheme) k =
      (if k = ''x-forwarded-host'' then (if map_of headers ''host'' = Some [] then None else map_of headers ''host'') else map_of asked k)"
    by (auto simp: update_conv' split: option.split list.split)
  show ?thesis
    unfolding out asked fwd kept unfolding set_THEIRS by auto
qed


section \<open>The challenge\<close>

lemma contains_iff: "contains s t \<longleftrightarrow> (\<exists>a b. s = a @ t @ b)"
proof
  assume "contains s t"
  then obtain i where "py_startswith (drop i s) t" unfolding contains_def list_ex_iff by blast
  then show "\<exists>a b. s = a @ t @ b" by (metis append_take_drop_id py_startswith_iff)
next
  assume "\<exists>a b. s = a @ t @ b"
  then obtain a b where "s = a @ t @ b" by blast
  then show "contains s t" by (auto simp: contains_def list_ex_iff py_startswith_def intro!: bexI [of _ "length a"])
qed

lemma contains_pointer: "contains (a @ ''resource_metadata=\"'' @ b) ''resource_metadata=''"
proof -
  have "a @ ''resource_metadata=\"'' @ b = a @ ''resource_metadata='' @ ''\"'' @ b" by simp
  then show ?thesis unfolding contains_iff by blast
qed

lemma found_key: "List.find P ks = Some k \<Longrightarrow> P k"
  by (auto simp: find_Some_iff)

text \<open>Every 401 the host sends names the document that says where to authenticate, whatever challenge
  a handler had set, and no other header changes; other answers are left alone.\<close>

theorem challenge_points:
  "\<exists>v. map_of (challenge_on_401 401 headers req_headers scheme netloc) ''WWW-Authenticate'' = Some v
    \<and> contains v ''resource_metadata=''
    \<and> (py_lower k = ''www-authenticate''
        \<or> map_of (challenge_on_401 401 headers req_headers scheme netloc) k = map_of headers k)
    \<and> (status = 401 \<or> challenge_on_401 status headers req_headers scheme netloc = headers)"
proof -
  define key where "key = List.find (\<lambda>k. py_lower k = ''www-authenticate'') (map fst headers)"
  define existing where "existing = py_strip (case key of None \<Rightarrow> [] | Some k \<Rightarrow> (case map_of headers k of None \<Rightarrow> [] | Some v \<Rightarrow> v))"
  define rest where "rest = (case key of None \<Rightarrow> headers | Some k \<Rightarrow> AList.delete k headers)"
  have www: "py_lower ''WWW-Authenticate'' = ''www-authenticate''" by code_simp
  have rest: "py_lower k = ''www-authenticate'' \<or> map_of rest k = map_of headers k"
    using found_key [of "\<lambda>k. py_lower k = ''www-authenticate''"] by (auto simp: rest_def key_def split: option.splits)
  obtain v where v: "challenge_headers headers req_headers scheme netloc = AList.update ''WWW-Authenticate'' v rest"
      "contains v ''resource_metadata=''"
  proof (cases "contains existing ''resource_metadata=''")
    case True
    then show ?thesis using that [of existing] by (simp add: challenge_headers_def Let_def existing_def key_def rest_def)
  next
    case False
    define tail where "tail = origin_of req_headers scheme netloc @ PROTECTED_RESOURCE_PATH @ ''\"''"
    define params where "params = (if py_lower (take 6 existing) = ''bearer''
        then py_strip (lstrip_char (CHR '','') (py_strip (drop (length ''Bearer'') existing))) else [])"
    have "challenge_headers headers req_headers scheme netloc = AList.update ''WWW-Authenticate''
        (if params \<noteq> [] then (''Bearer '' @ params @ '', '') @ ''resource_metadata=\"'' @ tail
         else ''Bearer '' @ ''resource_metadata=\"'' @ tail) rest"
      using False unfolding challenge_headers_def Let_def existing_def key_def rest_def params_def tail_def by simp
    then show ?thesis
      using that contains_pointer [of "''Bearer '' @ params @ '', ''" tail] contains_pointer [of "''Bearer ''" tail]
      by (cases "params = []") auto
  qed
  show ?thesis
    using v rest www by (auto simp: challenge_on_401_def simp del: map_of_eq_Some_iff)
qed

section \<open>Registration\<close>

lemma register_rounds_left:
  "fst (register_rounds answers k n delay ps) = filter (\<lambda>p. list_all (\<lambda>j. \<not> answers j p) [k..<k + n]) ps"
proof (induction answers k n delay ps rule: register_rounds.induct)
  case (1 answers k delay remaining)
  then show ?case by simp
next
  case (2 answers k left delay remaining)
  let ?rest = "filter (\<lambda>p. \<not> answers k p) remaining"
  have upto: "[k..<k + Suc left] = k # [Suc k..<Suc k + left]" by (simp add: upt_rec)
  show ?case
  proof (cases "remaining = [] \<or> ?rest = []")
    case True
    then show ?thesis unfolding upto by (auto simp: Let_def filter_empty_conv)
  next
    case False
    then have IH: "fst (register_rounds answers (k + 1) left (min (delay * 3 / 2) 15) ?rest)
        = filter (\<lambda>p. list_all (\<lambda>j. \<not> answers j p) [k + 1..<k + 1 + left]) ?rest"
      using "2.IH" by blast
    have "fst (register_rounds answers k (Suc left) delay remaining)
        = fst (register_rounds answers (k + 1) left (min (delay * 3 / 2) 15) ?rest)"
      using False by (simp add: Let_def split_beta)
    also have "\<dots> = filter (\<lambda>p. list_all (\<lambda>j. \<not> answers j p) [k..<k + Suc left]) remaining"
      unfolding IH upto by (simp add: conj_commute)
    finally show ?thesis .
  qed
qed

lemma register_rounds_sleeps:
  "0 < delay \<Longrightarrow> delay \<le> 15 \<Longrightarrow> length (snd (register_rounds answers k n delay ps)) \<le> n
     \<and> list_all (\<lambda>s. 0 < s \<and> s \<le> 15) (snd (register_rounds answers k n delay ps))"
proof (induction answers k n delay ps rule: register_rounds.induct)
  case (2 answers k left delay remaining)
  let ?rest = "filter (\<lambda>p. \<not> answers k p) remaining"
  show ?case
  proof (cases "remaining = [] \<or> ?rest = []")
    case True
    then show ?thesis by (auto simp: Let_def)
  next
    case False
    have "0 < min (delay * 3 / 2) 15" "min (delay * 3 / 2) 15 \<le> 15" using "2.prems" by auto
    then have "length (snd (register_rounds answers (k + 1) left (min (delay * 3 / 2) 15) ?rest)) \<le> left
      \<and> list_all (\<lambda>s. 0 < s \<and> s \<le> 15) (snd (register_rounds answers (k + 1) left (min (delay * 3 / 2) 15) ?rest))"
      using "2.IH" False by blast
    then show ?thesis using "2.prems" False by (simp add: Let_def split_beta)
  qed
qed simp

text \<open>At start-up a persona is left unregistered only if its registration failed fifteen times; the host
  waits at most fifteen times in all, each time no longer than fifteen seconds; and once running it
  registers again exactly when the gateway answers that it knows no persona.\<close>

theorem registration_complete:
  "fst (self_register_all answers ps) = filter (\<lambda>p. list_all (\<lambda>j. \<not> answers j p) [0..<15]) ps
    \<and> length (snd (self_register_all answers ps)) \<le> 15
    \<and> list_all (\<lambda>s. 0 < s \<and> s \<le> 15) (snd (self_register_all answers ps))
    \<and> (registers_again answer \<longleftrightarrow> persona_count answer = Some 0) \<and> \<not> registers_again None"
  using register_rounds_left [of answers 0 15 2 ps] register_rounds_sleeps [of 2 answers 0 15 ps]
  by (simp add: self_register_all_def registers_again_def persona_count_def)

section \<open>TLS and the caller\<close>

lemma tls_never_dropped:
  "tls_of isfile cert key = Inr None \<longleftrightarrow> py_strip (or_else cert []) = [] \<and> py_strip (or_else key []) = []"
  by (auto simp: tls_of_def Let_def)

lemma resolved_user_verified:
  assumes "resolve_user_id verify audiences headers = Some user"
  shows "\<exists>raw token claims. raw \<in> snd ` set headers \<and> bearer_token raw = Some token \<and> verify token audiences = Some claims
    \<and> truthy (dget claims ''sub'') \<and> user = py_str (dget claims ''sub'')"
proof -
  obtain k raw where raw: "List.find (\<lambda>(k, v). py_lower k = ''authorization'') headers = Some (k, raw)"
    using assms by (cases "List.find (\<lambda>(k, v). py_lower k = ''authorization'') headers")
      (auto simp: resolve_user_id_def bearer_token_def py_startswith_def py_lower_def)
  then have "(k, raw) \<in> set headers" by (metis find_Some_iff nth_mem)
  then have "raw \<in> snd ` set headers" by force
  then show ?thesis using assms raw
    by (auto simp: resolve_user_id_def user_of_claims_def split: option.splits if_splits)
qed

end
