(* ===== verification/Effects.thy ===== *)
theory Effects
  imports Py_Values
begin

text \<open>
  Programs that talk to the outside. A \<open>world\<close> holds what the process cannot decide: how each
  HTTP request is answered (\<open>w_net\<close>), what the monotonic clock reads (\<open>w_clock\<close>), what
  \<open>json.loads\<close> and \<open>sha256\<close> return, and the trace of what was asked so far, oldest first. The
  answers depend on the whole trace, so the other side is arbitrary and may change its mind.
  A component extends the record with its own state. A handler runs to its end before the next
  one starts: interleavings of handlers are modelled where the code keeps state across an
  \<open>await\<close> (the relay).

  \<open>raise_for_status\<close> of the HTTP library is not under \<open>src\<close>: each response carries whether it
  returns (\<open>rs_ok\<close>), independent of the status.
\<close>

section \<open>The outside\<close>

datatype peer = Mantle | Origin | Persona string | Gateway string

record request =
  rq_peer :: peer
  rq_method :: string
  rq_path :: string
  rq_params :: pyval
  rq_headers :: "string dict"
  rq_body :: pyval

record response =
  rs_status :: int
  rs_ok :: bool
  rs_json :: "pyval option"
  rs_text :: string
  rs_headers :: "string dict"

datatype task = Task string "pyval list"

datatype event =
    EvHttp request "response option"
  | EvClock rat
  | EvSpawn task
  | EvSleep rat

record world =
  w_net :: "event list \<Rightarrow> request \<Rightarrow> response option"
  w_clock :: "event list \<Rightarrow> rat"
  w_loads :: "string \<Rightarrow> pyval option"
  w_sha256 :: "string \<Rightarrow> string"
  w_trace :: "event list"

section \<open>Programs\<close>

type_synonym ('w, 'a) prog = "'w \<Rightarrow> 'a res \<times> 'w"

definition ret :: "'a \<Rightarrow> ('w, 'a) prog" where
  "ret x = (\<lambda>w. (Inr x, w))"

definition raise :: "exc \<Rightarrow> ('w, 'a) prog" where
  "raise e = (\<lambda>w. (Inl e, w))"

definition bindM :: "('w, 'a) prog \<Rightarrow> ('a \<Rightarrow> ('w, 'b) prog) \<Rightarrow> ('w, 'b) prog" where
  "bindM m f = (\<lambda>w. case m w of (Inl e, w') \<Rightarrow> (Inl e, w') | (Inr x, w') \<Rightarrow> f x w')"

text \<open>\<open>try: m except: h\<close>; a handler that does not apply raises its exception again.\<close>

definition catchM :: "('w, 'a) prog \<Rightarrow> (exc \<Rightarrow> ('w, 'a) prog) \<Rightarrow> ('w, 'a) prog" where
  "catchM m h = (\<lambda>w. case m w of (Inl e, w') \<Rightarrow> h e w' | (Inr x, w') \<Rightarrow> (Inr x, w'))"

definition liftR :: "'a res \<Rightarrow> ('w, 'a) prog" where
  "liftR r = (\<lambda>w. (r, w))"

definition getsM :: "('w \<Rightarrow> 'a) \<Rightarrow> ('w, 'a) prog" where
  "getsM f = (\<lambda>w. (Inr (f w), w))"

definition modifyM :: "('w \<Rightarrow> 'w) \<Rightarrow> ('w, unit) prog" where
  "modifyM f = (\<lambda>w. (Inr (), f w))"

fun forM :: "('a \<Rightarrow> 'b \<Rightarrow> ('w, 'b) prog) \<Rightarrow> 'a list \<Rightarrow> 'b \<Rightarrow> ('w, 'b) prog" where
  "forM f [] s = ret s"
| "forM f (x # xs) s = bindM (f x s) (forM f xs)"

definition log_event :: "event \<Rightarrow> ('a world_scheme, unit) prog" where
  "log_event e = modifyM (w_trace_update (\<lambda>t. t @ [e]))"

text \<open>One HTTP request; no answer (connection refused, timed out) raises \<open>TransportError\<close>.\<close>

definition http :: "request \<Rightarrow> ('a world_scheme, response) prog" where
  "http q = (\<lambda>w. let a = w_net w (w_trace w) q in
     (case a of None \<Rightarrow> Inl TransportError | Some r \<Rightarrow> Inr r,
      w\<lparr>w_trace := w_trace w @ [EvHttp q a]\<rparr>))"

text \<open>\<open>time.monotonic()\<close>.\<close>

definition monotonic :: "('a world_scheme, rat) prog" where
  "monotonic = (\<lambda>w. let t = w_clock w (w_trace w) in
     (Inr t, w\<lparr>w_trace := w_trace w @ [EvClock t]\<rparr>))"

text \<open>\<open>asyncio.create_task(...)\<close>: the coroutine and its arguments are handed to the loop.\<close>

definition create_task :: "task \<Rightarrow> ('a world_scheme, unit) prog" where
  "create_task t = log_event (EvSpawn t)"

text \<open>\<open>asyncio.sleep(s)\<close>.\<close>

definition sleep :: "rat \<Rightarrow> ('a world_scheme, unit) prog" where
  "sleep s = log_event (EvSleep s)"

definition raise_for_status :: "string \<Rightarrow> response \<Rightarrow> ('w, response) prog" where
  "raise_for_status path r =
     (if rs_ok r then ret r else raise (HTTPStatusError (rs_status r) path))"

text \<open>\<open>r.json()\<close> raises when the body is not JSON.\<close>

definition json_of :: "response \<Rightarrow> ('w, pyval) prog" where
  "json_of r = (case rs_json r of None \<Rightarrow> raise (ValueError ''json'') | Some v \<Rightarrow> ret v)"

definition bearer :: "string option \<Rightarrow> string dict" where
  "bearer token = (case token of
       Some t \<Rightarrow> if t = [] then [] else [(''Authorization'', ''Bearer '' @ t)]
     | None \<Rightarrow> [])"

section \<open>Evaluation\<close>

lemma prog_run [simp, prog_simps]:
  "ret x w = (Inr x, w)"
  "raise e w = (Inl e, w)"
  "liftR r w = (r, w)"
  "getsM f w = (Inr (f w), w)"
  "modifyM g w = (Inr (), g w)"
  by (simp_all add: ret_def raise_def liftR_def getsM_def modifyM_def)

lemma bindM_run [prog_simps]:
  "m w = (Inl e, w') \<Longrightarrow> bindM m f w = (Inl e, w')"
  "m w = (Inr x, w') \<Longrightarrow> bindM m f w = f x w'"
  by (simp_all add: bindM_def)

lemma catchM_run [prog_simps]:
  "m w = (Inl e, w') \<Longrightarrow> catchM m h w = h e w'"
  "m w = (Inr x, w') \<Longrightarrow> catchM m h w = (Inr x, w')"
  by (simp_all add: catchM_def)

lemma bindM_prims [simp, prog_simps]:
  "bindM (ret x) f w = f x w"
  "bindM (raise e) f w = (Inl e, w)"
  "bindM (liftR (Inr x)) f w = f x w"
  "bindM (liftR (Inl e)) f w = (Inl e, w)"
  "bindM (getsM g) f w = f (g w) w"
  "bindM (modifyM k) h w = h () (k w)"
  by (simp_all add: bindM_def)

lemma prog_at: "fst (m w) = r \<Longrightarrow> m w = (r, snd (m w))"
  by (metis prod.collapse)

lemma bindM_assoc: "bindM (bindM m f) g w = bindM m (\<lambda>x. bindM (f x) g) w"
  by (auto simp: bindM_def split: prod.splits sum.splits)

lemma bindM_E [consumes 1, case_names raised returned]:
  assumes "bindM m f w = (r, w')"
  obtains e where "m w = (Inl e, w')" "r = Inl e"
        | x w1 where "m w = (Inr x, w1)" "f x w1 = (r, w')"
  using assms by (auto simp: bindM_def split: prod.splits sum.splits)

lemma catchM_E [consumes 1, case_names raised returned]:
  assumes "catchM m h w = (r, w')"
  obtains e w1 where "m w = (Inl e, w1)" "h e w1 = (r, w')"
        | x where "m w = (Inr x, w')" "r = Inr x"
  using assms by (auto simp: catchM_def split: prod.splits sum.splits)

section \<open>Programs under an invariant\<close>

definition does :: "('w \<Rightarrow> bool) \<Rightarrow> ('w, 'a) prog \<Rightarrow> ('w \<Rightarrow> bool) \<Rightarrow> ('a \<Rightarrow> bool) \<Rightarrow> bool" where
  "does I m J P \<longleftrightarrow> (\<forall>w. I w \<longrightarrow> J (snd (m w)) \<and> (\<forall>x. fst (m w) = Inr x \<longrightarrow> P x))"

lemma doesD: "does I m J P \<Longrightarrow> I w \<Longrightarrow> m w = (r, w') \<Longrightarrow> J w'"
  unfolding does_def by (metis snd_conv)

lemma does_result: "does I m J P \<Longrightarrow> I w \<Longrightarrow> m w = (Inr x, w') \<Longrightarrow> P x"
  unfolding does_def by (metis fst_conv)

lemma does_ret: "P x \<Longrightarrow> does I (ret x) I P"
  by (simp add: does_def ret_def)

lemma does_raise: "does I (raise e) I P"
  by (simp add: does_def raise_def)

lemma does_lift: "(\<And>x. r = Inr x \<Longrightarrow> P x) \<Longrightarrow> does I (liftR r) I P"
  by (simp add: does_def liftR_def)

lemma does_gets: "(\<And>w. I w \<Longrightarrow> P (f w)) \<Longrightarrow> does I (getsM f) I P"
  by (simp add: does_def getsM_def)

lemma does_modify: "(\<And>w. I w \<Longrightarrow> J (f w)) \<Longrightarrow> does I (modifyM f) J (\<lambda>_. True)"
  by (simp add: does_def modifyM_def)

lemma does_bind:
  assumes m: "does I m J P" and f: "\<And>x. P x \<Longrightarrow> does J (f x) K Q" and out: "\<And>w. J w \<Longrightarrow> K w"
  shows "does I (bindM m f) K Q"
  unfolding does_def
proof (intro allI impI)
  fix w assume I: "I w"
  obtain r w1 where run: "m w = (r, w1)" by (cases "m w")
  have J: "J w1" using doesD [OF m I run] .
  show "K (snd (bindM m f w)) \<and> (\<forall>x. fst (bindM m f w) = Inr x \<longrightarrow> Q x)"
  proof (cases r)
    case (Inl e) then show ?thesis using run out [OF J] by (simp add: bindM_def)
  next
    case (Inr x)
    have "P x" using does_result [OF m I] run Inr by simp
    then show ?thesis using f [of x] J run Inr by (simp add: bindM_def does_def)
  qed
qed

lemma does_cons: "does I m J P \<Longrightarrow> (\<And>w. I' w \<Longrightarrow> I w) \<Longrightarrow> (\<And>w. J w \<Longrightarrow> J' w) \<Longrightarrow> (\<And>x. P x \<Longrightarrow> P' x) \<Longrightarrow> does I' m J' P'"
  unfolding does_def by blast

lemma does_keep: "does I m I P \<Longrightarrow> (\<And>x. P x \<Longrightarrow> does I (f x) I Q) \<Longrightarrow> does I (bindM m f) I Q"
  by (rule does_bind)

lemma does_catch: "does I m I P \<Longrightarrow> (\<And>e. does I (h e) I P) \<Longrightarrow> does I (catchM m h) I P"
  unfolding does_def catchM_def by (auto split: prod.splits sum.splits)

lemma does_forM:
  "(\<And>x s. x \<in> set xs \<Longrightarrow> P s \<Longrightarrow> does I (f x s) I P) \<Longrightarrow> P s \<Longrightarrow> does I (forM f xs s) I P"
  by (induction xs arbitrary: s) (auto intro: does_ret does_keep)

section \<open>Programs that always answer\<close>

definition settles :: "('w, 'a) prog \<Rightarrow> ('a \<Rightarrow> bool) \<Rightarrow> bool" where
  "settles m P \<longleftrightarrow> (\<forall>w. \<exists>x w'. m w = (Inr x, w') \<and> P x)"

lemma settlesD: "settles m P \<Longrightarrow> \<exists>x w'. m w = (Inr x, w') \<and> P x"
  by (simp add: settles_def)

lemma settles_ret: "P x \<Longrightarrow> settles (ret x) P"
  by (simp add: settles_def)

lemma settles_mono: "settles m P \<Longrightarrow> (\<And>x. P x \<Longrightarrow> Q x) \<Longrightarrow> settles m Q"
  unfolding settles_def by blast

lemma settles_bind:
  assumes m: "settles m P" and f: "\<And>x. P x \<Longrightarrow> settles (f x) Q"
  shows "settles (bindM m f) Q"
  unfolding settles_def
proof
  fix w
  obtain x w1 where x: "m w = (Inr x, w1)" "P x" using settlesD [OF m] by blast
  then obtain y w2 where y: "f x w1 = (Inr y, w2)" "Q y" using settlesD [OF f] by blast
  show "\<exists>y w'. bindM m f w = (Inr y, w') \<and> Q y" using y by (intro exI conjI) (simp_all only: bindM_run(2) [where m = m, OF x(1)])
qed

lemma settles_catch:
  assumes "\<And>e. settles (h e) (\<lambda>_. True)"
  shows "settles (catchM m h) (\<lambda>_. True)"
  unfolding settles_def
proof
  fix w
  show "\<exists>y w'. catchM m h w = (Inr y, w') \<and> True"
  proof (cases "m w")
    case (Pair r w1)
    then show ?thesis using settlesD [OF assms] by (cases r) (auto simp: catchM_def)
  qed
qed

lemma settles_forM:
  "(\<And>x s. x \<in> set xs \<Longrightarrow> settles (f x s) (\<lambda>_. True)) \<Longrightarrow> settles (forM f xs s) (\<lambda>_. True)"
  by (induction xs arbitrary: s) (auto intro: settles_ret settles_bind)

abbreviation yields :: "('w, 'a) prog \<Rightarrow> ('a \<Rightarrow> bool) \<Rightarrow> bool" where
  "yields m P \<equiv> does (\<lambda>_. True) m (\<lambda>_. True) P"

lemma settles_yields: "settles m P \<Longrightarrow> yields m P"
  unfolding settles_def does_def by (metis fst_conv sum.inject(2))

lemma yields_run: "yields m P \<Longrightarrow> m w = (Inr x, w') \<Longrightarrow> P x"
  unfolding does_def by (metis fst_conv)

lemma bind_same:
  assumes m: "yields m P" and fg: "\<And>x. P x \<Longrightarrow> f x = g x"
  shows "bindM m f = bindM m g"
proof
  fix w
  obtain r w1 where run: "m w = (r, w1)" by (cases "m w")
  show "bindM m f w = bindM m g w"
  proof (cases r)
    case (Inr x)
    then have "P x" using run yields_run [OF m] by simp
    then show ?thesis using run Inr fg by (simp add: bindM_def)
  qed (simp add: bindM_def run)
qed

lemma forM_same: "(\<And>x s. x \<in> set xs \<Longrightarrow> f x s = g x s) \<Longrightarrow> forM f xs s = forM g xs s"
proof (induction xs arbitrary: s)
  case (Cons x xs)
  then have "forM f xs = forM g xs" "f x s = g x s" by (auto intro: ext)
  then show ?case by simp
qed simp

lemma yields_any: "yields m (\<lambda>_. True)"
  by (simp add: does_def)

section \<open>The outcome of a program\<close>

text \<open>What holds of the result and the world when a program returns, and of the world when it raises.\<close>

definition outcome :: "('w, 'a) prog \<Rightarrow> 'w \<Rightarrow> ('a \<Rightarrow> 'w \<Rightarrow> bool) \<Rightarrow> ('w \<Rightarrow> bool) \<Rightarrow> bool" where
  "outcome m w Q R \<longleftrightarrow> (case m w of (Inl e, w') \<Rightarrow> R w' | (Inr x, w') \<Rightarrow> Q x w')"

lemma outcomeD: "outcome m w Q R \<Longrightarrow> m w = (r, w') \<Longrightarrow> (case r of Inl e \<Rightarrow> R w' | Inr x \<Rightarrow> Q x w')"
  by (simp add: outcome_def split: sum.splits)

lemma outcome_prims:
  "Q x w \<Longrightarrow> outcome (ret x) w Q R"
  "R w \<Longrightarrow> outcome (raise e) w Q R"
  "(\<And>x. r = Inr x \<Longrightarrow> Q x w) \<Longrightarrow> (\<And>e. r = Inl e \<Longrightarrow> R w) \<Longrightarrow> outcome (liftR r) w Q R"
  "Q (f w) w \<Longrightarrow> outcome (getsM f) w Q R"
  "Q () (g w) \<Longrightarrow> outcome (modifyM g) w Q R"
  by (auto simp: outcome_def split: sum.splits)

lemma outcome_bind:
  "outcome m w (\<lambda>x w'. outcome (f x) w' Q R) R \<Longrightarrow> outcome (bindM m f) w Q R"
  by (auto simp: outcome_def bindM_def split: prod.splits sum.splits)

lemma outcome_mono:
  "outcome m w Q R \<Longrightarrow> (\<And>x w'. Q x w' \<Longrightarrow> Q' x w') \<Longrightarrow> (\<And>w'. R w' \<Longrightarrow> R' w') \<Longrightarrow> outcome m w Q' R'"
  by (auto simp: outcome_def split: prod.splits sum.splits)

lemma outcome_catch:
  "outcome m w Q (\<lambda>w'. \<forall>e. outcome (h e) w' Q R) \<Longrightarrow> outcome (catchM m h) w Q R"
  by (cases "m w"; cases "fst (m w)") (simp_all add: outcome_def catchM_def)

lemma outcome_forM:
  "(\<And>x s w. x \<in> set xs \<Longrightarrow> J s w \<Longrightarrow> outcome (f x s) w J R) \<Longrightarrow> J s w \<Longrightarrow> outcome (forM f xs s) w J R"
proof (induction xs arbitrary: s w)
  case Nil
  show ?case using Nil(2) by (simp add: outcome_def)
next
  case (Cons x xs)
  have "outcome (f x s) w J R" by (rule Cons.prems) (simp_all add: Cons.prems)
  moreover have "J s' w' \<Longrightarrow> outcome (forM f xs s') w' J R" for s' w' by (rule Cons.IH) (simp_all add: Cons.prems)
  ultimately show ?case unfolding forM.simps by (intro outcome_bind) (rule outcome_mono)
qed

section \<open>What a program may do to the world\<close>

text \<open>
  A relation between the world before and after that is reflexive and transitive is kept by
  every way of putting programs together, so it is checked on the primitives only.
\<close>

locale world_relation =
  fixes R :: "'w \<Rightarrow> 'w \<Rightarrow> bool"
  assumes refl: "R w w"
    and trans: "R w w' \<Longrightarrow> R w' w'' \<Longrightarrow> R w w''"
begin

definition keeps :: "('w, 'a) prog \<Rightarrow> bool" where
  "keeps m \<longleftrightarrow> (\<forall>w. R w (snd (m w)))"

lemma keepsD: "keeps m \<Longrightarrow> m w = (r, w') \<Longrightarrow> R w w'"
  unfolding keeps_def by (metis snd_conv)

lemma keepsI: "(\<And>w r w'. m w = (r, w') \<Longrightarrow> R w w') \<Longrightarrow> keeps m"
  unfolding keeps_def by (metis prod.collapse)

lemma keeps_basic: "keeps (ret x)" "keeps (raise e)" "keeps (liftR r)" "keeps (getsM f)"
  by (simp_all add: keeps_def refl)

lemma keeps_bind: "keeps m \<Longrightarrow> (\<And>x. keeps (f x)) \<Longrightarrow> keeps (bindM m f)"
  by (rule keepsI, erule bindM_E) (blast intro: trans keepsD)+

lemma keeps_catch: "keeps m \<Longrightarrow> (\<And>e. keeps (h e)) \<Longrightarrow> keeps (catchM m h)"
  by (rule keepsI, erule catchM_E) (blast intro: trans keepsD)+

lemma keeps_if: "(c \<Longrightarrow> keeps a) \<Longrightarrow> (\<not> c \<Longrightarrow> keeps b) \<Longrightarrow> keeps (if c then a else b)"
  by simp

lemma keeps_forM: "(\<And>x s. keeps (f x s)) \<Longrightarrow> keeps (forM f xs s)"
  by (induction xs arbitrary: s) (auto intro: keeps_basic keeps_bind)

lemma keeps_status: "keeps (raise_for_status p r)" "keeps (json_of r)"
  by (auto simp: raise_for_status_def json_of_def intro: keeps_basic split: option.splits)

end

text \<open>
  The relation the handlers are checked against: the trace only grows, by events that satisfy
  \<open>P\<close>, and the outside stays what it is.
\<close>

definition same_outside :: "'a world_scheme \<Rightarrow> 'a world_scheme \<Rightarrow> bool" where
  "same_outside w w' \<longleftrightarrow> w_net w' = w_net w \<and> w_clock w' = w_clock w
     \<and> w_loads w' = w_loads w \<and> w_sha256 w' = w_sha256 w"

definition grows_by :: "(event \<Rightarrow> bool) \<Rightarrow> 'a world_scheme \<Rightarrow> 'a world_scheme \<Rightarrow> bool" where
  "grows_by P w w' \<longleftrightarrow> same_outside w w'
     \<and> (\<exists>es. w_trace w' = w_trace w @ es \<and> (\<forall>e \<in> set es. P e))"

definition new_events :: "'a world_scheme \<Rightarrow> 'a world_scheme \<Rightarrow> event list" where
  "new_events w w' = drop (length (w_trace w)) (w_trace w')"

lemma grows_by_new_events:
  "grows_by P w w' \<Longrightarrow> w_trace w' = w_trace w @ new_events w w' \<and> (\<forall>e \<in> set (new_events w w'). P e)"
  by (auto simp: grows_by_def new_events_def)

lemma grows_by_mono: "grows_by P w w' \<Longrightarrow> (\<And>e. P e \<Longrightarrow> Q e) \<Longrightarrow> grows_by Q w w'"
  unfolding grows_by_def by blast

interpretation grows: world_relation "grows_by P" for P
proof
  show "grows_by P w w" for w :: "'a world_scheme"
    by (auto simp: grows_by_def same_outside_def)
  show "grows_by P w w''" if "grows_by P w w'" "grows_by P w' w''" for w w' w'' :: "'a world_scheme"
    using that by (fastforce simp: grows_by_def same_outside_def)
qed

lemma grows_keeps_http: "(\<And>a. P (EvHttp q a)) \<Longrightarrow> grows.keeps P (http q)"
  by (auto simp: grows.keeps_def http_def grows_by_def same_outside_def Let_def)

lemma grows_keeps_monotonic: "(\<And>t. P (EvClock t)) \<Longrightarrow> grows.keeps P monotonic"
  by (auto simp: grows.keeps_def monotonic_def grows_by_def same_outside_def Let_def)

lemma grows_keeps_task: "P (EvSpawn t) \<Longrightarrow> grows.keeps P (create_task t)"
  by (auto simp: grows.keeps_def create_task_def log_event_def grows_by_def same_outside_def)

lemma grows_keeps_mono: "grows.keeps P m \<Longrightarrow> (\<And>e. P e \<Longrightarrow> Q e) \<Longrightarrow> grows.keeps Q m"
  unfolding grows.keeps_def using grows_by_mono by blast

lemmas grows_keeps_intros = grows.keeps_basic grows.keeps_bind grows.keeps_catch grows.keeps_if
  grows.keeps_forM grows.keeps_status grows_keeps_http grows_keeps_monotonic grows_keeps_task


section \<open>A world for the examples\<close>

text \<open>Every request is answered by one function, the clock stands at \<open>0\<close>, no text is JSON but
  \<open>{}\<close>, and the digest of a string is the string.\<close>

definition ex_world :: "(request \<Rightarrow> response option) \<Rightarrow> world" where
  "ex_world net = \<lparr> w_net = (\<lambda>_. net), w_clock = (\<lambda>_. 0),
     w_loads = (\<lambda>s. if s = ''{}'' then Some (VDict []) else None), w_sha256 = (\<lambda>s. s), w_trace = [] \<rparr>"

definition reply :: "int \<Rightarrow> pyval \<Rightarrow> response" where
  "reply status v = \<lparr> rs_status = status, rs_ok = (200 \<le> status \<and> status < 300), rs_json = Some v,
     rs_text = ''body'', rs_headers = [(''content-type'', ''application/json'')] \<rparr>"

end
