(* ===== verification/Mantle.thy ===== *)
theory Mantle
  imports Effects
begin

text \<open>
  \<open>src/src/crystal/mantle.py\<close>: the client of the Mantle database. Each method is the one
  request it makes and how it reads the answer. A request carries the headers the method passes;
  the base address and the headers the HTTP library adds are not modelled.
\<close>

definition mantle_headers :: "string option \<Rightarrow> string dict" where
  "mantle_headers token =
     (case token of None \<Rightarrow> [] | Some t \<Rightarrow> if t = [] then [] else [(''Authorization'', ''Bearer '' @ t)])"

definition mantle_request :: "string \<Rightarrow> string \<Rightarrow> pyval \<Rightarrow> string dict \<Rightarrow> pyval \<Rightarrow> request" where
  "mantle_request mthd path params hdrs body =
     \<lparr> rq_peer = Mantle, rq_method = mthd, rq_path = path, rq_params = params,
       rq_headers = hdrs, rq_body = body \<rparr>"

definition mantle_ping :: "('a world_scheme, bool) prog" where
  "mantle_ping = catchM
     (bindM (http (mantle_request ''GET'' ''/status'' VNone [] VNone)) (\<lambda>r.
      if rs_status r \<noteq> 200 then ret False
      else bindM (json_of r) (\<lambda>v. bindM (liftR (py_get v ''store_status'')) (\<lambda>s. ret (truthy s)))))
     (\<lambda>_. ret False)"

definition get_artifact :: "string \<Rightarrow> string option \<Rightarrow> bool \<Rightarrow> ('a world_scheme, pyval) prog" where
  "get_artifact artifact_id token hydrate =
     (let path = ''/artifacts/'' @ artifact_id;
          params = (if hydrate then VDict [(''hydrate'', VStr ''true'')] else VNone)
      in bindM (http (mantle_request ''GET'' path params (mantle_headers token) VNone)) (\<lambda>r.
         if rs_status r = 404 then ret VNone
         else bindM (raise_for_status path r) json_of))"

definition my_access :: "string \<Rightarrow> string \<Rightarrow> string option \<Rightarrow> ('a world_scheme, bool) prog" where
  "my_access resource_id action token =
     bindM (http (mantle_request ''GET'' ''/grants/my-access''
              (VDict [(''resource_id'', VStr resource_id), (''action'', VStr action)])
              (mantle_headers token) VNone)) (\<lambda>r.
     bindM (raise_for_status ''/grants/my-access'' r) (\<lambda>r.
     bindM (json_of r) (\<lambda>v.
     bindM (liftR (py_get v ''allowed'')) (\<lambda>a. ret (truthy a)))))"

definition platform_operators :: "string option \<Rightarrow> ('a world_scheme, pyval) prog" where
  "platform_operators token =
     bindM (http (mantle_request ''GET'' ''/artifacts/platform-operators'' VNone (mantle_headers token) VNone)) (\<lambda>r.
     bindM (raise_for_status ''/artifacts/platform-operators'' r) (\<lambda>r.
     bindM (json_of r) (\<lambda>v.
     bindM (liftR (py_get (py_or v (VDict [])) ''items'')) (\<lambda>items. ret (py_or items (VList []))))))"

definition mantle_links :: "string \<Rightarrow> string \<Rightarrow> string option \<Rightarrow> ('a world_scheme, pyval) prog" where
  "mantle_links artifact_id name token =
     (let path = ''/artifacts/'' @ artifact_id @ ''/children'' in
      bindM (http (mantle_request ''GET'' path
               (VDict [(''links'', VStr name), (''limit'', VInt 100)]) (mantle_headers token) VNone)) (\<lambda>r.
      bindM (raise_for_status path r) (\<lambda>r.
      bindM (json_of r) (\<lambda>page.
      case page of
        VDict d \<Rightarrow> ret (case map_of d ''items'' of None \<Rightarrow> VList [] | Some items \<Rightarrow> items)
      | _ \<Rightarrow> bindM (liftR (py_list (py_or page (VList [])))) (\<lambda>xs. ret (VList xs))))))"

text \<open>\<open>search\<close>, \<open>post\<close>, \<open>put\<close> and \<open>patch\<close> send a JSON body and return the JSON of the answer.\<close>

definition mantle_send :: "string \<Rightarrow> string \<Rightarrow> pyval \<Rightarrow> string option \<Rightarrow> ('a world_scheme, pyval) prog" where
  "mantle_send mthd path body token =
     bindM (http (mantle_request mthd path VNone (mantle_headers token) body)) (\<lambda>r.
     bindM (raise_for_status path r) json_of)"

definition mantle_search :: "pyval \<Rightarrow> string option \<Rightarrow> ('a world_scheme, pyval) prog" where
  "mantle_search body token = mantle_send ''POST'' ''/artifacts/recall'' body token"

definition mantle_post :: "string \<Rightarrow> pyval \<Rightarrow> string option \<Rightarrow> ('a world_scheme, pyval) prog" where
  "mantle_post path body token = mantle_send ''POST'' path body token"

definition mantle_put :: "string \<Rightarrow> pyval \<Rightarrow> string option \<Rightarrow> ('a world_scheme, pyval) prog" where
  "mantle_put path body token = mantle_send ''PUT'' path body token"

definition mantle_patch :: "string \<Rightarrow> pyval \<Rightarrow> string option \<Rightarrow> ('a world_scheme, pyval) prog" where
  "mantle_patch path body token = mantle_send ''PATCH'' path body token"

definition mantle_delete :: "string \<Rightarrow> string option \<Rightarrow> ('a world_scheme, pyval) prog" where
  "mantle_delete path token =
     bindM (http (mantle_request ''DELETE'' path VNone (mantle_headers token) VNone)) (\<lambda>r.
     bindM (raise_for_status path r) (\<lambda>r.
     if rs_text r \<noteq> [] then json_of r else ret (VDict [(''deleted'', VBool True)])))"

section \<open>Whose credential a request carries\<close>

text \<open>
  A request carries \<open>token\<close> when its only Authorization header is the caller's, or none if the
  caller sent none. The other events carry no credential.
\<close>

definition carries :: "string option \<Rightarrow> event \<Rightarrow> bool" where
  "carries token e = (case e of
       EvHttp q a \<Rightarrow> filter (\<lambda>kv. fst kv = ''Authorization'') (rq_headers q) = bearer token
     | _ \<Rightarrow> True)"

definition is_task :: "event \<Rightarrow> bool" where
  "is_task e = (case e of EvSpawn _ \<Rightarrow> True | _ \<Rightarrow> False)"

text \<open>The request is one that only reads.\<close>

definition reads :: "event \<Rightarrow> bool" where
  "reads e = (case e of EvHttp q a \<Rightarrow> rq_peer q = Mantle \<and> rq_method q = ''GET'' | EvSpawn _ \<Rightarrow> False | _ \<Rightarrow> True)"

lemma mantle_headers_bearer: "mantle_headers token = bearer token"
  by (simp add: mantle_headers_def bearer_def)

lemma carries_mantle: "carries token (EvHttp (mantle_request m p ps (mantle_headers token) b) a)"
  by (simp add: carries_def mantle_request_def mantle_headers_bearer bearer_def split: option.splits)

lemma reads_mantle: "reads (EvHttp (mantle_request ''GET'' p ps h b) a)"
  by (simp add: reads_def mantle_request_def)

text \<open>Each method makes requests of its own form only, so it keeps any condition they satisfy.\<close>

lemma mantle_keeps_send:
  "(\<And>a. P (EvHttp (mantle_request m path VNone (mantle_headers token) body) a))
    \<Longrightarrow> grows.keeps P (mantle_send m path body token)"
  unfolding mantle_send_def by (intro grows_keeps_intros)

lemma mantle_keeps_gets:
  assumes "\<And>path params a. P (EvHttp (mantle_request ''GET'' path params (mantle_headers token) VNone) a)"
  shows "grows.keeps P (get_artifact aid token hydrate)" "grows.keeps P (my_access aid action token)"
    "grows.keeps P (platform_operators token)" "grows.keeps P (mantle_links aid name token)"
proof -
  show "grows.keeps P (get_artifact aid token hydrate)" "grows.keeps P (my_access aid action token)"
    "grows.keeps P (platform_operators token)"
    unfolding get_artifact_def my_access_def platform_operators_def Let_def
    by (intro grows_keeps_intros assms)+
  show "grows.keeps P (mantle_links aid name token)"
    unfolding mantle_links_def Let_def
    by (intro grows_keeps_intros assms) (auto split: pyval.splits intro!: grows_keeps_intros)
qed

lemma mantle_keeps_delete:
  "(\<And>a. P (EvHttp (mantle_request ''DELETE'' path VNone (mantle_headers token) VNone) a))
    \<Longrightarrow> grows.keeps P (mantle_delete path token)"
  unfolding mantle_delete_def by (intro grows_keeps_intros)

lemma mantle_keeps_carries:
  "grows.keeps (carries token) (mantle_send m path body token)"
  "grows.keeps (carries token) (get_artifact aid token hydrate)"
  "grows.keeps (carries token) (my_access aid action token)"
  "grows.keeps (carries token) (platform_operators token)"
  "grows.keeps (carries token) (mantle_links aid name token)"
  "grows.keeps (carries token) (mantle_delete path token)"
  by (intro mantle_keeps_send mantle_keeps_gets mantle_keeps_delete carries_mantle)+

lemma mantle_keeps_reads:
  "grows.keeps reads (get_artifact aid token hydrate)"
  "grows.keeps reads (my_access aid action token)"
  "grows.keeps reads (platform_operators token)"
  "grows.keeps reads (mantle_links aid name token)"
  by (intro mantle_keeps_gets reads_mantle)+

section \<open>What the answers mean\<close>

text \<open>The access check lets through only on an answer that says so.\<close>

definition access_request :: "string \<Rightarrow> string \<Rightarrow> string option \<Rightarrow> request" where
  "access_request resource_id action token = mantle_request ''GET'' ''/grants/my-access''
     (VDict [(''resource_id'', VStr resource_id), (''action'', VStr action)]) (mantle_headers token) VNone"

definition access_granted :: "string \<Rightarrow> string \<Rightarrow> string option \<Rightarrow> event \<Rightarrow> bool" where
  "access_granted resource_id action token e \<longleftrightarrow> (\<exists>r d. e = EvHttp (access_request resource_id action token) (Some r)
     \<and> rs_ok r \<and> rs_json r = Some (VDict d) \<and> truthy (dget d ''allowed''))"

lemma http_run: "http q w = (case w_net w (w_trace w) q of
     None \<Rightarrow> (Inl TransportError, w\<lparr>w_trace := w_trace w @ [EvHttp q None]\<rparr>)
   | Some r \<Rightarrow> (Inr r, w\<lparr>w_trace := w_trace w @ [EvHttp q (Some r)]\<rparr>))"
  by (simp add: http_def Let_def split: option.splits)

lemma http_E [consumes 1]:
  assumes "http q w = (x, w')"
  obtains "x = Inl TransportError" "w_net w (w_trace w) q = None" "w' = w\<lparr>w_trace := w_trace w @ [EvHttp q None]\<rparr>"
  | r where "x = Inr r" "w_net w (w_trace w) q = Some r" "w' = w\<lparr>w_trace := w_trace w @ [EvHttp q (Some r)]\<rparr>"
  using assms by (auto simp: http_run split: option.splits)

text \<open>The one request of an access check, and what its answer decides.\<close>

definition access_verdict :: "response option \<Rightarrow> bool res" where
  "access_verdict a = (case a of
       None \<Rightarrow> Inl TransportError
     | Some r \<Rightarrow> if \<not> rs_ok r then Inl (HTTPStatusError (rs_status r) ''/grants/my-access'')
                 else (case rs_json r of None \<Rightarrow> Inl (ValueError ''json'')
                       | Some v \<Rightarrow> res_bind (py_get v ''allowed'') (\<lambda>x. Inr (truthy x))))"

lemma my_access_run:
  "my_access i action token w =
     (let q = access_request i action token; a = w_net w (w_trace w) q
      in (access_verdict a, w\<lparr>w_trace := w_trace w @ [EvHttp q a]\<rparr>))"
  by (auto simp: my_access_def access_request_def [symmetric] bindM_def http_run raise_for_status_def
      json_of_def access_verdict_def py_get_def Let_def split: option.splits pyval.splits)

lemma access_verdict_granted:
  "access_verdict a = Inr True \<Longrightarrow> access_granted i action token (EvHttp (access_request i action token) a)"
  by (auto simp: access_verdict_def access_granted_def py_get_def res_bind_eq_Inr
      split: option.splits if_splits pyval.splits)

end
