(* ===== verification/Mcp_Client.thy ===== *)
theory Mcp_Client
  imports Mantle
begin

text \<open>
  \<open>src/src/crystal/mcp_client.py\<close>: one MCP request to a persona (initialize, initialized,
  the request) and how the JSON-RPC result is read out of a JSON or an event-stream answer. The
  names of response headers are lower-case, as the HTTP library compares them. Where the code
  interpolates the path of an endpoint's URL, the model keeps the endpoint.
\<close>

section \<open>Text\<close>

definition is_linebreak :: "char \<Rightarrow> bool" where
  "is_linebreak c \<longleftrightarrow> code c \<in> {10, 11, 12, 13, 28, 29, 30, 133}"

text \<open>\<open>s.splitlines()\<close>; \<open>cur\<close> is the line being read, reversed.\<close>

fun splitlines_from :: "string \<Rightarrow> string \<Rightarrow> string list" where
  "splitlines_from cur [] = (if cur = [] then [] else [rev cur])"
| "splitlines_from cur [c] = (if is_linebreak c then [rev cur] else [rev (c # cur)])"
| "splitlines_from cur (c # d # s) =
     (if code c = 13 \<and> code d = 10 then rev cur # splitlines_from [] s
      else if is_linebreak c then rev cur # splitlines_from [] (d # s)
      else splitlines_from (c # cur) (d # s))"

definition py_splitlines :: "string \<Rightarrow> string list" where
  "py_splitlines s = splitlines_from [] s"

text \<open>\<open>k in v\<close> for a string \<open>k\<close>.\<close>

definition py_in :: "string \<Rightarrow> pyval \<Rightarrow> bool res" where
  "py_in k v = (case v of
       VDict d \<Rightarrow> Inr (map_of d k \<noteq> None)
     | VList xs \<Rightarrow> Inr (VStr k \<in> set xs)
     | VStr s \<Rightarrow> Inr (py_contains k s)
     | _ \<Rightarrow> Inl (TypeError ''not iterable''))"

section \<open>The client\<close>

definition CLIENT_INFO :: pyval where
  "CLIENT_INFO = VDict [(''name'', VStr ''agience-crystal''), (''version'', VStr ''0.1.0'')]"

definition rpc :: "int \<Rightarrow> string \<Rightarrow> pyval \<Rightarrow> pyval" where
  "rpc rid mthd params = VDict [(''jsonrpc'', VStr ''2.0''), (''id'', VInt rid),
     (''method'', VStr mthd), (''params'', params)]"

text \<open>The last event of the stream that is an answer.\<close>

fun last_answer :: "(string \<Rightarrow> pyval option) \<Rightarrow> string list \<Rightarrow> pyval \<Rightarrow> pyval" where
  "last_answer loads [] payload = payload"
| "last_answer loads (line # rest) payload =
     last_answer loads rest
       (if py_startswith line ''data:''
        then (case loads (py_strip (drop 5 line)) of
                Some (VDict d) \<Rightarrow>
                  if map_of d ''result'' \<noteq> None \<or> map_of d ''error'' \<noteq> None then VDict d else payload
              | _ \<Rightarrow> payload)
        else payload)"

definition parse_result :: "(string \<Rightarrow> pyval option) \<Rightarrow> response \<Rightarrow> pyval res" where
  "parse_result loads resp =
     (let ctype = (case map_of (rs_headers resp) ''content-type'' of None \<Rightarrow> [] | Some c \<Rightarrow> c);
          payload = (if py_contains ''text/event-stream'' ctype
                     then last_answer loads (py_splitlines (rs_text resp)) VNone
                     else (case rs_json resp of None \<Rightarrow> VNone | Some v \<Rightarrow> v))
      in if payload = VNone then Inr (VDict [(''raw'', VStr (rs_text resp))])
         else res_bind (py_in ''error'' payload) (\<lambda>failed.
              if failed then res_bind (py_subscript payload ''error'') (\<lambda>err.
                Inl (HTTPException 502 (Detail ''MCP error: {}'' [err])))
              else (case payload of
                      VDict d \<Rightarrow> Inr (case map_of d ''result'' of None \<Rightarrow> payload | Some r \<Rightarrow> r)
                    | _ \<Rightarrow> Inl (AttributeError ''get''))))"

definition mcp_headers :: "string option \<Rightarrow> string dict" where
  "mcp_headers token =
     [(''Content-Type'', ''application/json''), (''Accept'', ''application/json, text/event-stream'')]
     @ bearer token"

definition mcp_post :: "string \<Rightarrow> string dict \<Rightarrow> pyval \<Rightarrow> request" where
  "mcp_post endpoint hdrs body =
     \<lparr> rq_peer = Persona endpoint, rq_method = ''POST'', rq_path = endpoint, rq_params = VNone,
       rq_headers = hdrs, rq_body = body \<rparr>"

definition initialize_body :: pyval where
  "initialize_body = rpc 1 ''initialize''
     (VDict [(''protocolVersion'', VStr ''2024-11-05''), (''capabilities'', VDict []),
             (''clientInfo'', CLIENT_INFO)])"

definition initialized_body :: pyval where
  "initialized_body = VDict [(''jsonrpc'', VStr ''2.0''), (''method'', VStr ''notifications/initialized'')]"

definition session_headers :: "string dict \<Rightarrow> response \<Rightarrow> string dict" where
  "session_headers hdrs init =
     (case map_of (rs_headers init) ''mcp-session-id'' of
        None \<Rightarrow> hdrs
      | Some session \<Rightarrow> if session = [] then hdrs else hdrs @ [(''mcp-session-id'', session)])"

definition mcp_request ::
  "string \<Rightarrow> string \<Rightarrow> pyval \<Rightarrow> string option \<Rightarrow> ('a world_scheme, pyval) prog" where
  "mcp_request endpoint mthd params token =
     (let hdrs = mcp_headers token in
      bindM (http (mcp_post endpoint hdrs initialize_body)) (\<lambda>init.
      bindM (raise_for_status endpoint init) (\<lambda>init.
      let h = session_headers hdrs init in
      bindM (http (mcp_post endpoint h initialized_body)) (\<lambda>_.
      bindM (http (mcp_post endpoint h (rpc 2 mthd (py_or params (VDict []))))) (\<lambda>resp.
      bindM (raise_for_status endpoint resp) (\<lambda>resp.
      bindM (getsM w_loads) (\<lambda>loads. liftR (parse_result loads resp))))))))"

definition mcp_call_tool ::
  "string \<Rightarrow> string \<Rightarrow> pyval \<Rightarrow> string option \<Rightarrow> ('a world_scheme, pyval) prog" where
  "mcp_call_tool endpoint tool arguments token =
     mcp_request endpoint ''tools/call''
       (VDict [(''name'', VStr tool), (''arguments'', py_or arguments (VDict []))]) token"

section \<open>What a call does\<close>

lemma filter_auth_mcp: "filter (\<lambda>kv. fst kv = ''Authorization'') (mcp_headers token) = bearer token"
  by (simp add: mcp_headers_def bearer_def split: option.splits)

lemma filter_auth_session:
  "filter (\<lambda>kv. fst kv = ''Authorization'') (session_headers h init) = filter (\<lambda>kv. fst kv = ''Authorization'') h"
  by (simp add: session_headers_def split: option.splits)

lemma carries_mcp:
  "carries token (EvHttp (mcp_post e (mcp_headers token) b) a)"
  "carries token (EvHttp (mcp_post e (session_headers (mcp_headers token) init) b) a)"
  by (simp_all add: carries_def mcp_post_def filter_auth_session filter_auth_mcp)

lemma mcp_keeps:
  assumes "\<And>h b a. filter (\<lambda>kv. fst kv = ''Authorization'') h = bearer token \<Longrightarrow> P (EvHttp (mcp_post endpoint h b) a)"
  shows "grows.keeps P (mcp_request endpoint mthd params token)"
    "grows.keeps P (mcp_call_tool endpoint tool arguments token)"
  unfolding mcp_call_tool_def mcp_request_def Let_def
  by (intro grows_keeps_intros assms; simp add: filter_auth_session filter_auth_mcp)+

lemma mcp_keeps_carries:
  "grows.keeps (carries token) (mcp_request endpoint mthd params token)"
  "grows.keeps (carries token) (mcp_call_tool endpoint tool arguments token)"
  by (rule mcp_keeps; simp add: carries_def mcp_post_def)+

section \<open>Properties\<close>

text \<open>a call that returns made exactly three requests, all to the endpoint, in the order of the
  handshake; each carries the caller's bearer and nobody else's, the last two carry the session the
  first answer named, and the value returned is the one read from the last answer.\<close>

theorem mcp_request_handshake:
  assumes "mcp_request endpoint mthd params token w = (Inr v, w')"
  shows "\<exists>init a resp.
    let h = mcp_headers token; h' = session_headers h init in
    w_trace w' = w_trace w @ [EvHttp (mcp_post endpoint h initialize_body) (Some init),
       EvHttp (mcp_post endpoint h' initialized_body) (Some a),
       EvHttp (mcp_post endpoint h' (rpc 2 mthd (py_or params (VDict [])))) (Some resp)]
    \<and> rs_ok init \<and> rs_ok resp \<and> parse_result (w_loads w) resp = Inr v
    \<and> filter (\<lambda>kv. fst kv = ''Authorization'') h' = bearer token"
  using assms unfolding mcp_request_def
  by (auto simp: bindM_def http_run raise_for_status_def Let_def filter_auth_session filter_auth_mcp
      split: option.splits if_splits)

theorem mcp_request_handshake_witness:
  "\<exists>(w :: world) w'. mcp_request ''http://aria'' ''tools/list'' VNone (Some ''t'') w = (Inr (VInt 7), w')
     \<and> length (w_trace w') = length (w_trace w) + 3"
proof -
  let ?w = "ex_world (\<lambda>q. Some (reply 200 (VDict [(''result'', VInt 7)])))"
  let ?m = "mcp_request ''http://aria'' ''tools/list'' VNone (Some ''t'')"
  have "fst (?m ?w) = Inr (VInt 7)" by code_simp
  then have run: "?m ?w = (Inr (VInt 7), snd (?m ?w))" by (rule prog_at)
  from mcp_request_handshake [OF run] have "length (w_trace (snd (?m ?w))) = length (w_trace ?w) + 3"
    by (auto simp: Let_def)
  with run show ?thesis by blast
qed

text \<open>reading an answer: an error object is always a 502, a result object gives the result,
  and an answer that is not JSON is handed on as text, never as an empty result.\<close>

theorem parse_result_branches:
  assumes "map_of (rs_headers resp) ''content-type'' = Some ''application/json''"
  shows "(\<forall>d err. rs_json resp = Some (VDict d) \<and> map_of d ''error'' = Some err
        \<longrightarrow> parse_result loads resp = Inl (HTTPException 502 (Detail ''MCP error: {}'' [err])))
    \<and> (\<forall>d r. rs_json resp = Some (VDict d) \<and> map_of d ''error'' = None \<and> map_of d ''result'' = Some r
        \<longrightarrow> parse_result loads resp = Inr r)
    \<and> (rs_json resp = None \<longrightarrow> parse_result loads resp = Inr (VDict [(''raw'', VStr (rs_text resp))]))"
proof -
  have "\<not> py_contains ''text/event-stream'' ''application/json''" by code_simp
  then show ?thesis using assms by (auto simp: parse_result_def py_in_def py_subscript_def Let_def)
qed


theorem parse_result_branches_witness:
  "parse_result (\<lambda>_. None) (reply 200 (VDict [(''error'', VInt 3)]))
     = Inl (HTTPException 502 (Detail ''MCP error: {}'' [VInt 3]))
   \<and> parse_result (\<lambda>_. None) (reply 200 (VDict [(''result'', VList [])])) = Inr (VList [])"
  using parse_result_branches [of "reply 200 (VDict [(''error'', VInt 3)])" "\<lambda>_. None"]
    parse_result_branches [of "reply 200 (VDict [(''result'', VList [])])" "\<lambda>_. None"]
  by (simp add: reply_def)

end
