(* ===== verification/Type_Registry.thy ===== *)
theory Type_Registry
  imports Py_Values
begin

text \<open>
  \<open>src/src/crystal/type_registry.py\<close>: content types, the operations each answers for, and
  inheritance. The registry is the record of the two dictionaries of the class; an operation that
  can raise returns a \<open>res\<close>. The \<open>type.json\<close> files are read by the caller: \<open>load_builtin\<close>
  takes, for each path in the order \<open>sorted(root.glob(...))\<close> gives them, the two directory names
  and the parsed file (\<open>None\<close> where reading or parsing raised).
\<close>

section \<open>Normal form of a content type\<close>

definition normalize_ct :: "string \<Rightarrow> string" where
  "normalize_ct content_type =
     (let ct = py_lower (py_strip content_type)
      in if CHR '';'' \<in> set ct then py_strip (hd (py_split (CHR '';'') ct)) else ct)"

lemma takeWhile_absent: "c \<notin> set xs \<Longrightarrow> takeWhile (\<lambda>d. d \<noteq> c) xs = xs"
  by (induction xs) auto

lemma normalize_ct_eq:
  "normalize_ct s = py_strip (takeWhile (\<lambda>d. d \<noteq> CHR '';'') (py_lower (py_strip s)))"
proof (cases "CHR '';'' \<in> set (py_lower (py_strip s))")
  case True
  then show ?thesis by (simp add: normalize_ct_def hd_py_split Let_def)
next
  case False
  then have tw: "takeWhile (\<lambda>d. d \<noteq> CHR '';'') (py_lower (py_strip s)) = py_lower (py_strip s)"
    by (rule takeWhile_absent)
  have "py_strip (py_lower (py_strip s)) = py_lower (py_strip s)"
    by (simp add: py_lower_strip)
  with False show ?thesis unfolding tw by (simp add: normalize_ct_def Let_def)
qed

lemma no_semicolon_normalize_ct: "CHR '';'' \<notin> set (normalize_ct s)"
  unfolding normalize_ct_eq using set_py_strip by (fastforce dest: set_takeWhileD)

lemma py_strip_normalize_ct [simp]: "py_strip (normalize_ct s) = normalize_ct s"
  by (simp add: normalize_ct_eq)

lemma lower_id_iff: "py_lower s = s \<longleftrightarrow> list_all (\<lambda>c. lower_char c = c) s"
  by (induction s) (auto simp: py_lower_def)

lemma py_lower_normalize_ct [simp]: "py_lower (normalize_ct s) = normalize_ct s"
proof -
  have "list_all (\<lambda>c. lower_char c = c) (py_lower t)" for t
    using lower_id_iff [of "py_lower t"] by simp
  then have "lower_char c = c" if "c \<in> set (normalize_ct s)" for c
    using that set_py_strip unfolding normalize_ct_eq list_all_iff
    by (metis set_takeWhileD subsetD)
  then show ?thesis by (simp add: lower_id_iff list_all_iff)
qed

lemma normalize_ct_fixpoint:
  "CHR '';'' \<notin> set s \<Longrightarrow> py_strip s = s \<Longrightarrow> py_lower s = s \<Longrightarrow> normalize_ct s = s"
  by (simp add: normalize_ct_def Let_def)

lemma normalize_ct_idem [simp]: "normalize_ct (normalize_ct s) = normalize_ct s"
  by (simp add: normalize_ct_fixpoint no_semicolon_normalize_ct)

section \<open>Type definitions\<close>

record operation_spec =
  os_name :: string
  os_kind :: string
  os_target :: pyval
  os_server_ref :: pyval
  os_tool_ref :: pyval
  os_arguments :: pyval
  os_requires_grant :: pyval
  os_emits :: "pyval list"
  os_audit :: bool

record type_definition =
  td_content_type :: string
  td_operations :: "operation_spec dict"
  td_describer :: pyval
  td_server :: "string option"
  td_raw :: pyval

definition BUILTIN_SERVER :: string where
  "BUILTIN_SERVER = ''crystal''"

definition ROOT_TYPE :: string where
  "ROOT_TYPE = ''*/*''"

text \<open>One \<open>operations\<close> entry whose value is an object.\<close>

definition parse_operation :: "string \<Rightarrow> pyval dict \<Rightarrow> operation_spec res" where
  "parse_operation name spec =
     (let dispatch = py_or (dget spec ''dispatch'') (VDict []) in
      res_bind (py_get dispatch ''kind'') (\<lambda>kind.
      res_bind (py_get dispatch ''target'') (\<lambda>target.
      res_bind (py_get dispatch ''server_ref'') (\<lambda>server_ref.
      res_bind (py_get dispatch ''tool_ref'') (\<lambda>tool_ref.
      res_bind (py_get dispatch ''arguments'') (\<lambda>arguments.
      res_bind (py_list (py_or (dget spec ''emits'') (VList []))) (\<lambda>emits.
      Inr \<lparr> os_name = name,
            os_kind = py_str (py_or kind (VStr ''artifact_crud'')),
            os_target = py_or target (VStr name),
            os_server_ref = server_ref,
            os_tool_ref = tool_ref,
            os_arguments = arguments,
            os_requires_grant = dget spec ''requires_grant'',
            os_emits = emits,
            os_audit = truthy (dget spec ''audit'') \<rparr>)))))))"

fun parse_operations :: "pyval dict \<Rightarrow> operation_spec dict \<Rightarrow> operation_spec dict res" where
  "parse_operations [] ops = Inr ops"
| "parse_operations ((name, spec) # rest) ops =
     (case spec of
        VDict d \<Rightarrow> res_bind (parse_operation name d)
                     (\<lambda>op. parse_operations rest (AList.update name op ops))
      | _ \<Rightarrow> parse_operations rest ops)"

definition parse_type_def :: "pyval \<Rightarrow> string option \<Rightarrow> type_definition option res" where
  "parse_type_def defn server =
     (case defn of
        VDict d \<Rightarrow>
          (let target = normalize_ct (py_str (py_or (dget d ''content_type'') (VStr []))) in
           if target = [] then Inr None
           else res_bind (py_items (py_or (dget d ''operations'') (VDict []))) (\<lambda>items.
                res_bind (parse_operations items []) (\<lambda>ops.
                Inr (Some \<lparr> td_content_type = target, td_operations = ops,
                            td_describer = dget d ''describer'', td_server = server,
                            td_raw = defn \<rparr>))))
      | _ \<Rightarrow> Inr None)"

section \<open>The registry\<close>

record type_registry =
  tr_cache :: "type_definition dict"
  tr_builtin :: "type_definition dict"

definition MAX_INHERITANCE_DEPTH :: nat where
  "MAX_INHERITANCE_DEPTH = 8"

definition new_registry :: type_registry where
  "new_registry = \<lparr> tr_cache = [], tr_builtin = [] \<rparr>"

definition reg_register :: "pyval \<Rightarrow> string option \<Rightarrow> type_registry \<Rightarrow> (bool \<times> type_registry) res" where
  "reg_register defn server reg =
     res_bind (parse_type_def defn server) (\<lambda>td.
       case td of
         None \<Rightarrow> Inr (False, reg)
       | Some td \<Rightarrow> Inr (True, reg\<lparr>tr_cache := AList.update (td_content_type td) td (tr_cache reg)\<rparr>))"

definition star_of :: "string \<Rightarrow> string" where
  "star_of s = (if s = ''_wildcard'' then ''*'' else s)"

fun load_types ::
  "(string \<times> string \<times> pyval option) list \<Rightarrow> nat \<times> type_registry \<Rightarrow> (nat \<times> type_registry) res" where
  "load_types [] st = Inr st"
| "load_types ((tp, sub, parsed) # rest) (n, reg) =
     (case parsed of
        Some (VDict d) \<Rightarrow>
          res_bind (parse_type_def
              (VDict (setdefault ''content_type'' (VStr (star_of tp @ ''/'' @ star_of sub)) d))
              (Some BUILTIN_SERVER))
            (\<lambda>td. case td of
                None \<Rightarrow> load_types rest (n, reg)
              | Some td \<Rightarrow> load_types rest
                  (Suc n, reg\<lparr>tr_builtin := AList.update (td_content_type td) td (tr_builtin reg)\<rparr>))
      | _ \<Rightarrow> load_types rest (n, reg))"

definition load_builtin ::
  "bool \<Rightarrow> (string \<times> string \<times> pyval option) list \<Rightarrow> type_registry \<Rightarrow> (nat \<times> type_registry) res" where
  "load_builtin is_dir files reg = (if \<not> is_dir then Inr (0, reg) else load_types files (0, reg))"

definition reg_resolve :: "type_registry \<Rightarrow> string \<Rightarrow> type_definition option" where
  "reg_resolve reg content_type =
     (let ct = normalize_ct content_type in
      case map_of (tr_cache reg) ct of
        Some td \<Rightarrow> Some td
      | None \<Rightarrow> map_of (tr_builtin reg) ct)"

text \<open>The string members of the type's \<open>inherits\<close>, when that is a list.\<close>

definition inherits_of :: "type_definition \<Rightarrow> string list" where
  "inherits_of td =
     (case td_raw td of
        VDict d \<Rightarrow> (case dget d ''inherits'' of
            VList ps \<Rightarrow> concat (map (\<lambda>p. case p of VStr s \<Rightarrow> [s] | _ \<Rightarrow> []) ps)
          | _ \<Rightarrow> [])
      | _ \<Rightarrow> [])"

text \<open>
  The nested function \<open>walk\<close>, over its two captured variables: the set \<open>seen\<close> and the list
  \<open>out\<close>, here in order of insertion.
\<close>

function (sequential) walk ::
  "type_registry \<Rightarrow> string \<Rightarrow> nat \<Rightarrow> string list \<times> type_definition list
     \<Rightarrow> string list \<times> type_definition list" where
  "walk reg ct0 depth (seen, out) =
     (let ct = normalize_ct ct0 in
      if ct \<in> set seen \<or> depth > MAX_INHERITANCE_DEPTH then (seen, out)
      else (case reg_resolve reg ct of
              None \<Rightarrow> (seen @ [ct], out)
            | Some td \<Rightarrow> fold (\<lambda>parent st. walk reg parent (Suc depth) st)
                           (inherits_of td) (seen @ [ct], out @ [td])))"
  by pat_completeness auto
termination
  by (relation "measure (\<lambda>(reg, ct, depth, st). Suc MAX_INHERITANCE_DEPTH - depth)") auto

declare walk.simps [simp del]

definition is_data_type :: "string \<Rightarrow> string \<Rightarrow> bool" where
  "is_data_type major ct \<longleftrightarrow> major = ''application''
     \<and> (py_startswith ct ''application/vnd.agience.'' \<or> py_endswith ct ''+json'')"

definition lineage :: "type_registry \<Rightarrow> string \<Rightarrow> type_definition list" where
  "lineage reg content_type =
     (let st = walk reg content_type 0 ([], []);
          ct = normalize_ct content_type;
          st = (if snd st = [] \<and> CHR ''/'' \<in> set ct
                then (let major = hd (py_split (CHR ''/'') ct)
                      in if \<not> is_data_type major ct then walk reg (major @ ''/*'') 0 st else st)
                else st)
      in snd (walk reg ROOT_TYPE 0 st))"

definition operations_of :: "type_registry \<Rightarrow> string \<Rightarrow> operation_spec dict" where
  "operations_of reg content_type =
     fold (\<lambda>td ops. dict_update ops (td_operations td)) (rev (lineage reg content_type)) []"

fun first_operation :: "string \<Rightarrow> type_definition list \<Rightarrow> operation_spec option" where
  "first_operation op_name [] = None"
| "first_operation op_name (td # tds) =
     (case map_of (td_operations td) op_name of
        Some op \<Rightarrow> Some op
      | None \<Rightarrow> first_operation op_name tds)"

definition resolve_operation :: "type_registry \<Rightarrow> string \<Rightarrow> string \<Rightarrow> operation_spec option" where
  "resolve_operation reg content_type op_name = first_operation op_name (lineage reg content_type)"

definition describer_for :: "type_registry \<Rightarrow> string \<Rightarrow> pyval" where
  "describer_for reg content_type =
     (case reg_resolve reg content_type of None \<Rightarrow> VNone | Some td \<Rightarrow> td_describer td)"

definition definitions_from :: "type_registry \<Rightarrow> string \<Rightarrow> pyval list" where
  "definitions_from reg server =
     (let source = (if server = BUILTIN_SERVER then tr_builtin reg else tr_cache reg)
      in map (\<lambda>kv. td_raw (snd kv))
           (filter (\<lambda>kv. td_server (snd kv) = Some server) (sort_key fst source)))"

definition remove_server :: "string \<Rightarrow> type_registry \<Rightarrow> nat \<times> type_registry" where
  "remove_server server reg =
     (let dropped = map fst (filter (\<lambda>kv. td_server (snd kv) = Some server) (tr_cache reg))
      in (length dropped, reg\<lparr>tr_cache := fold AList.delete dropped (tr_cache reg)\<rparr>))"

definition reg_invalidate :: "string option \<Rightarrow> type_registry \<Rightarrow> type_registry" where
  "reg_invalidate content_type reg =
     (case content_type of
        None \<Rightarrow> reg\<lparr>tr_cache := []\<rparr>
      | Some ct \<Rightarrow> reg\<lparr>tr_cache := AList.delete (normalize_ct ct) (tr_cache reg)\<rparr>)"

definition reg_known :: "type_registry \<Rightarrow> string list" where
  "reg_known reg = sort (remdups (map fst (tr_cache reg) @ map fst (tr_builtin reg)))"

section \<open>Well-formed registries\<close>

text \<open>
  What every operation maintains: a definition is stored under its own content type, in normal
  form; operations are stored under their own names; the builtins are the gateway's.
\<close>

definition wf_type :: "string \<Rightarrow> type_definition \<Rightarrow> bool" where
  "wf_type ct td \<longleftrightarrow> td_content_type td = ct \<and> normalize_ct ct = ct \<and> ct \<noteq> []
     \<and> wf_dict (td_operations td) \<and> all_entries (\<lambda>name op. os_name op = name) (td_operations td)"

definition wf_builtin :: "string \<Rightarrow> type_definition \<Rightarrow> bool" where
  "wf_builtin ct td \<longleftrightarrow> wf_type ct td \<and> td_server td = Some BUILTIN_SERVER"

definition wf_registry :: "type_registry \<Rightarrow> bool" where
  "wf_registry reg \<longleftrightarrow> wf_dict (tr_cache reg) \<and> wf_dict (tr_builtin reg)
     \<and> all_entries wf_type (tr_cache reg) \<and> all_entries wf_builtin (tr_builtin reg)"

lemma parse_operation_name: "parse_operation name d = Inr op \<Longrightarrow> os_name op = name"
  by (auto simp: parse_operation_def Let_def res_bind_eq_Inr)

lemma parse_operations_wf:
  "parse_operations items ops = Inr ops' \<Longrightarrow> wf_dict ops
    \<Longrightarrow> all_entries (\<lambda>name op. os_name op = name) ops
    \<Longrightarrow> wf_dict ops' \<and> all_entries (\<lambda>name op. os_name op = name) ops'"
proof (induction items ops rule: parse_operations.induct)
  case (2 name spec rest ops)
  show ?case
  proof (cases spec)
    case (VDict d)
    with "2.prems" obtain op where op: "parse_operation name d = Inr op"
      and rest: "parse_operations rest (AList.update name op ops) = Inr ops'"
      by (auto simp: res_bind_eq_Inr)
    have "all_entries (\<lambda>name op. os_name op = name) (AList.update name op ops)"
      using "2.prems"(3) parse_operation_name [OF op] by (rule all_entries_update)
    with "2.IH" VDict rest "2.prems"(2) show ?thesis by blast
  qed (use 2 in auto)
qed auto

lemma parse_type_def_SomeE:
  assumes "parse_type_def defn server = Inr (Some td)"
  obtains d items where "defn = VDict d"
    and "py_items (py_or (dget d ''operations'') (VDict [])) = Inr items"
    and "parse_operations items [] = Inr (td_operations td)"
    and "td_content_type td = normalize_ct (py_str (py_or (dget d ''content_type'') (VStr [])))"
    and "td_content_type td \<noteq> []" and "td_server td = server" and "td_raw td = defn"
    and "td_describer td = dget d ''describer''"
  using assms
  by (auto simp: parse_type_def_def Let_def res_bind_eq_Inr split: pyval.splits if_splits)

lemma parse_type_def_wf:
  assumes "parse_type_def defn server = Inr (Some td)"
  shows "wf_type (td_content_type td) td \<and> td_server td = server \<and> td_raw td = defn"
  using assms
proof (cases rule: parse_type_def_SomeE)
  case (1 d items)
  then have "wf_dict (td_operations td) \<and> all_entries (\<lambda>name op. os_name op = name) (td_operations td)"
    using parse_operations_wf by force
  with 1 show ?thesis by (simp add: wf_type_def)
qed

definition cache_put :: "type_definition \<Rightarrow> type_registry \<Rightarrow> type_registry" where
  "cache_put td reg = reg\<lparr>tr_cache := AList.update (td_content_type td) td (tr_cache reg)\<rparr>"

definition builtin_put :: "type_definition \<Rightarrow> type_registry \<Rightarrow> type_registry" where
  "builtin_put td reg = reg\<lparr>tr_builtin := AList.update (td_content_type td) td (tr_builtin reg)\<rparr>"

lemma wf_cache_put: "wf_registry reg \<Longrightarrow> wf_type (td_content_type td) td \<Longrightarrow> wf_registry (cache_put td reg)"
  by (simp add: wf_registry_def cache_put_def all_entries_update)

lemma wf_builtin_put:
  "wf_registry reg \<Longrightarrow> wf_builtin (td_content_type td) td \<Longrightarrow> wf_registry (builtin_put td reg)"
  by (simp add: wf_registry_def builtin_put_def all_entries_update)

lemma reg_register_cases:
  assumes "reg_register defn server reg = Inr (b, reg')"
  obtains "parse_type_def defn server = Inr None" "\<not> b" "reg' = reg"
  | td where "parse_type_def defn server = Inr (Some td)" "b" "reg' = cache_put td reg"
  using assms by (auto simp: reg_register_def cache_put_def res_bind_eq_Inr split: option.splits)

lemma wf_new_registry: "wf_registry new_registry"
  by (simp add: wf_registry_def new_registry_def)

lemma wf_reg_register:
  assumes "wf_registry reg" "reg_register defn server reg = Inr (b, reg')"
  shows "wf_registry reg'"
  using assms(2) assms(1)
  by (cases rule: reg_register_cases) (auto intro: wf_cache_put dest: parse_type_def_wf)

lemma wf_load_types:
  "load_types files st = Inr (n', reg') \<Longrightarrow> wf_registry (snd st) \<Longrightarrow> wf_registry reg'"
proof (induction files st rule: load_types.induct)
  case (2 tp sub parsed rest n reg)
  show ?case
  proof (cases "\<exists>d. parsed = Some (VDict d)")
    case True
    then obtain d where parsed: "parsed = Some (VDict d)" by blast
    let ?d = "VDict (setdefault ''content_type'' (VStr (star_of tp @ ''/'' @ star_of sub)) d)"
    from "2.prems"(1) parsed obtain td where td: "parse_type_def ?d (Some BUILTIN_SERVER) = Inr td"
      by (auto simp: res_bind_eq_Inr)
    show ?thesis
    proof (cases td)
      case None
      then show ?thesis using 2 td parsed by simp
    next
      case (Some t)
      have "wf_registry (builtin_put t reg)"
        using "2.prems"(2) parse_type_def_wf [OF td [unfolded Some]]
        by (auto intro: wf_builtin_put simp: wf_builtin_def)
      then show ?thesis
        using "2.IH" "2.prems"(1) td parsed Some
        by (simp add: builtin_put_def)
    qed
  next
    case False
    then show ?thesis using 2 by (cases parsed) (auto split: pyval.splits)
  qed
qed auto

lemma wf_load_builtin: "wf_registry reg \<Longrightarrow> load_builtin d files reg = Inr (n, reg') \<Longrightarrow> wf_registry reg'"
  by (auto simp: load_builtin_def dest: wf_load_types split: if_splits)

lemma wf_remove_server: "wf_registry reg \<Longrightarrow> wf_registry (snd (remove_server server reg))"
  by (simp add: wf_registry_def remove_server_def Let_def all_entries_fold_delete)

lemma wf_reg_invalidate: "wf_registry reg \<Longrightarrow> wf_registry (reg_invalidate ct reg)"
  by (cases ct) (simp_all add: wf_registry_def reg_invalidate_def all_entries_delete)

lemmas wf_registry_ops = wf_new_registry wf_reg_register wf_load_builtin wf_remove_server wf_reg_invalidate

lemma wf_resolve:
  "wf_registry reg \<Longrightarrow> reg_resolve reg ct = Some td \<Longrightarrow> wf_type (normalize_ct ct) td"
  by (auto simp: reg_resolve_def wf_registry_def wf_builtin_def Let_def
      dest: all_entries_map_of split: option.splits)

lemma reg_resolve_normalize [simp]: "reg_resolve reg (normalize_ct ct) = reg_resolve reg ct"
  by (simp add: reg_resolve_def)

section \<open>The walk over ancestors\<close>

lemma walk_unfold:
  "walk reg ct0 depth st =
     (let ct = normalize_ct ct0 in
      if ct \<in> set (fst st) \<or> depth > MAX_INHERITANCE_DEPTH then st
      else (case reg_resolve reg ct of
              None \<Rightarrow> (fst st @ [ct], snd st)
            | Some td \<Rightarrow> fold (\<lambda>parent st. walk reg parent (Suc depth) st)
                           (inherits_of td) (fst st @ [ct], snd st @ [td])))"
  using walk.simps [of reg ct0 depth "fst st" "snd st"] by (simp only: prod.collapse)

lemma walk_skip:
  "normalize_ct ct \<in> set (fst st) \<or> MAX_INHERITANCE_DEPTH < depth \<Longrightarrow> walk reg ct depth st = st"
  by (subst walk_unfold) (simp only: Let_def if_True)

lemma walk_miss:
  "normalize_ct ct \<notin> set (fst st) \<Longrightarrow> depth \<le> MAX_INHERITANCE_DEPTH \<Longrightarrow> reg_resolve reg ct = None
    \<Longrightarrow> walk reg ct depth st = (fst st @ [normalize_ct ct], snd st)"
  by (subst walk_unfold) (simp add: Let_def)

lemma walk_hit:
  "normalize_ct ct \<notin> set (fst st) \<Longrightarrow> depth \<le> MAX_INHERITANCE_DEPTH \<Longrightarrow> reg_resolve reg ct = Some td
    \<Longrightarrow> walk reg ct depth st = fold (\<lambda>parent st. walk reg parent (Suc depth) st)
          (inherits_of td) (fst st @ [normalize_ct ct], snd st @ [td])"
  by (subst walk_unfold) (simp add: Let_def)

lemma walk_induct [case_names visit]:
  assumes "\<And>ct depth st. (\<And>p st. depth \<le> MAX_INHERITANCE_DEPTH \<Longrightarrow> P p (Suc depth) st) \<Longrightarrow> P ct depth st"
  shows "P ct depth st"
proof (induction "Suc MAX_INHERITANCE_DEPTH - depth" arbitrary: ct depth st rule: less_induct)
  case less
  show ?case by (rule assms, rule less) simp
qed

text \<open>A property of the walk's two variables that every visit keeps is kept by the walk.\<close>

lemma fold_keeps: "(\<And>x s. x \<in> set xs \<Longrightarrow> I s \<Longrightarrow> I (f x s)) \<Longrightarrow> I s \<Longrightarrow> I (fold f xs s)"
  by (induction xs arbitrary: s) auto

lemma walk_keeps:
  assumes miss: "\<And>ct seen out. I (seen, out) \<Longrightarrow> normalize_ct ct = ct \<Longrightarrow> ct \<notin> set seen
      \<Longrightarrow> reg_resolve reg ct = None \<Longrightarrow> I (seen @ [ct], out)"
    and hit: "\<And>ct seen out td. I (seen, out) \<Longrightarrow> normalize_ct ct = ct \<Longrightarrow> ct \<notin> set seen
      \<Longrightarrow> reg_resolve reg ct = Some td \<Longrightarrow> I (seen @ [ct], out @ [td])"
  shows "I st \<Longrightarrow> I (walk reg ct depth st)"
proof (induction ct depth st rule: walk_induct)
  case (visit ct depth st)
  let ?ct = "normalize_ct ct"
  show ?case
  proof (cases "?ct \<in> set (fst st) \<or> MAX_INHERITANCE_DEPTH < depth")
    case True
    then show ?thesis using visit.prems by (simp only: walk_skip)
  next
    case False
    then have new: "?ct \<notin> set (fst st)" and d: "depth \<le> MAX_INHERITANCE_DEPTH" by auto
    have I: "I (fst st, snd st)" using visit.prems by simp
    show ?thesis
    proof (cases "reg_resolve reg ct")
      case None
      then show ?thesis using miss [OF I _ new] by (simp only: walk_miss [OF new d None]) simp
    next
      case (Some td)
      have "I (fst st @ [?ct], snd st @ [td])" using hit [OF I _ new] Some by simp
      then have "I (fold (\<lambda>parent st. walk reg parent (Suc depth) st) (inherits_of td)
                    (fst st @ [?ct], snd st @ [td]))"
        by (rule fold_keeps [where I = I, rotated]) (rule visit.IH [OF d])
      then show ?thesis by (simp only: walk_hit [OF new d Some])
    qed
  qed
qed

text \<open>
  The invariant of the walk: what it has put out was looked up under its own content type, each
  type once, and every content type it has seen is in normal form and put out if it is known.
\<close>

definition put_out :: "type_registry \<Rightarrow> string list \<Rightarrow> type_definition \<Rightarrow> bool" where
  "put_out reg seen td \<longleftrightarrow> td_content_type td \<in> set seen \<and> reg_resolve reg (td_content_type td) = Some td"

definition covered :: "type_registry \<Rightarrow> type_definition list \<Rightarrow> string \<Rightarrow> bool" where
  "covered reg out ct \<longleftrightarrow> normalize_ct ct = ct
     \<and> (case reg_resolve reg ct of None \<Rightarrow> True | Some td \<Rightarrow> td \<in> set out)"

definition walk_ok :: "type_registry \<Rightarrow> string list \<times> type_definition list \<Rightarrow> bool" where
  "walk_ok reg st \<longleftrightarrow> distinct (map td_content_type (snd st))
     \<and> (\<forall>td \<in> set (snd st). put_out reg (fst st) td)
     \<and> (\<forall>ct \<in> set (fst st). covered reg (snd st) ct)"

lemma put_out_mono: "put_out reg seen td \<Longrightarrow> put_out reg (seen @ [ct]) td"
  by (simp add: put_out_def)

lemma covered_mono: "covered reg out ct \<Longrightarrow> covered reg (out @ [td]) ct"
  by (simp add: covered_def split: option.splits)

lemma walk_ok_walk:
  assumes wf: "wf_registry reg"
  shows "walk_ok reg st \<Longrightarrow> walk_ok reg (walk reg ct depth st)"
proof (rule walk_keeps [where I = "walk_ok reg"])
  fix ct seen out
  assume "walk_ok reg (seen, out)" "normalize_ct ct = ct" "reg_resolve reg ct = None"
  then show "walk_ok reg (seen @ [ct], out)"
    by (auto simp: walk_ok_def covered_def [of _ _ ct] intro: put_out_mono)
next
  fix ct seen out td
  assume ok: "walk_ok reg (seen, out)" and ct: "normalize_ct ct = ct" "ct \<notin> set seen"
    and td: "reg_resolve reg ct = Some td"
  from wf_resolve [OF wf td] ct have home: "td_content_type td = ct" by (simp add: wf_type_def)
  have "td_content_type t \<in> set seen" if "t \<in> set out" for t
    using ok that by (simp add: walk_ok_def put_out_def)
  then have "ct \<notin> td_content_type ` set out" using ct(2) by auto
  moreover have "put_out reg (seen @ [ct]) td" "covered reg (out @ [td]) ct"
    using home td ct(1) by (simp_all add: put_out_def covered_def)
  ultimately show "walk_ok reg (seen @ [ct], out @ [td])"
    using ok home by (auto simp: walk_ok_def intro: put_out_mono covered_mono)
qed

lemma walk_extends: "\<exists>xs ys. walk reg ct depth st = (fst st @ xs, snd st @ ys)"
proof -
  let ?I = "\<lambda>st'. \<exists>xs ys. st' = (fst st @ xs, snd st @ ys)"
  have "?I st" by (metis append_Nil2 prod.collapse)
  then show ?thesis by (intro walk_keeps [where I = ?I]) auto
qed

lemma walks_extend:
  "\<exists>xs ys. fold (\<lambda>p st. walk reg p depth st) ps st = (fst st @ xs, snd st @ ys)"
proof -
  let ?I = "\<lambda>st'. \<exists>xs ys. st' = (fst st @ xs, snd st @ ys)"
  have "?I st" by (metis append_Nil2 prod.collapse)
  then show ?thesis
  proof (rule fold_keeps [where I = ?I, rotated])
    fix p st' assume "?I st'"
    then show "?I (walk reg p depth st')" using walk_extends [of reg p depth st'] by fastforce
  qed
qed

lemma walk_visits: "depth \<le> MAX_INHERITANCE_DEPTH \<Longrightarrow> normalize_ct ct \<in> set (fst (walk reg ct depth st))"
proof (cases "normalize_ct ct \<in> set (fst st)")
  case True
  then show ?thesis by (simp add: walk_skip)
next
  case new: False
  assume d: "depth \<le> MAX_INHERITANCE_DEPTH"
  show ?thesis
  proof (cases "reg_resolve reg ct")
    case None
    then show ?thesis by (simp add: walk_miss [OF new d])
  next
    case (Some td)
    then show ?thesis
      using walks_extend [of reg "Suc depth" "inherits_of td" "(fst st @ [normalize_ct ct], snd st @ [td])"]
      by (fastforce simp: walk_hit [OF new d Some])
  qed
qed

text \<open>The starting point of the lineage: the walk of the type itself, then that of its category.\<close>

definition lineage_base :: "type_registry \<Rightarrow> string \<Rightarrow> string list \<times> type_definition list" where
  "lineage_base reg content_type =
     (let st = walk reg content_type 0 ([], []);
          ct = normalize_ct content_type
      in if snd st = [] \<and> CHR ''/'' \<in> set ct
         then (let major = hd (py_split (CHR ''/'') ct)
               in if \<not> is_data_type major ct then walk reg (major @ ''/*'') 0 st else st)
         else st)"

lemma lineage_eq: "lineage reg ct = snd (walk reg ROOT_TYPE 0 (lineage_base reg ct))"
  by (simp add: lineage_def lineage_base_def Let_def)

lemma walk_ok_start: "walk_ok reg ([], [])"
  by (simp add: walk_ok_def)

lemma walk_ok_base: "wf_registry reg \<Longrightarrow> walk_ok reg (lineage_base reg ct)"
  by (auto simp: lineage_base_def Let_def intro!: walk_ok_walk walk_ok_start)

lemma walk_ok_lineage: "wf_registry reg \<Longrightarrow> walk_ok reg (walk reg ROOT_TYPE 0 (lineage_base reg ct))"
  by (rule walk_ok_walk) (simp_all add: walk_ok_base)

lemma lineage_base_known: "reg_resolve reg ct = Some td \<Longrightarrow> \<exists>ys. snd (lineage_base reg ct) = td # ys"
proof -
  assume td: "reg_resolve reg ct = Some td"
  obtain ys where "snd (walk reg ct 0 ([], [])) = td # ys"
    using walks_extend [of reg "Suc 0" "inherits_of td" "([normalize_ct ct], [td])"]
      walk_hit [OF _ _ td, of "([], [])" 0] by fastforce
  then show ?thesis by (simp add: lineage_base_def Let_def)
qed

lemma lineage_known: "reg_resolve reg ct = Some td \<Longrightarrow> \<exists>ys. lineage reg ct = td # ys"
  using lineage_base_known walk_extends [of reg ROOT_TYPE 0 "lineage_base reg ct"]
  by (fastforce simp: lineage_eq)

lemma normalize_ROOT [simp]: "normalize_ct ROOT_TYPE = ROOT_TYPE"
  by code_simp

lemma lineage_root:
  assumes "wf_registry reg" and "reg_resolve reg ROOT_TYPE = Some r"
  shows "r \<in> set (lineage reg ct)"
  using walk_ok_lineage [OF assms(1), of ct] walk_visits [of 0 ROOT_TYPE reg "lineage_base reg ct"] assms(2)
  by (fastforce simp: walk_ok_def covered_def lineage_eq)

section \<open>The lineage is the set of ancestors\<close>

inductive ancestor :: "type_registry \<Rightarrow> string \<Rightarrow> string \<Rightarrow> bool" for reg ct where
  self: "ancestor reg ct (normalize_ct ct)"
| up: "ancestor reg ct c \<Longrightarrow> reg_resolve reg c = Some td \<Longrightarrow> p \<in> set (inherits_of td)
        \<Longrightarrow> ancestor reg ct (normalize_ct p)"

lemma ancestor_trans: "ancestor reg p c \<Longrightarrow> ancestor reg ct (normalize_ct p) \<Longrightarrow> ancestor reg ct c"
  by (induction rule: ancestor.induct) (auto intro: ancestor.up)

lemma ancestor_normal: "ancestor reg ct c \<Longrightarrow> normalize_ct c = c"
  by (induction rule: ancestor.induct) simp_all

text \<open>What a walk adds comes from above the type it started at.\<close>

definition adds_only :: "(string \<Rightarrow> bool) \<Rightarrow> type_registry \<Rightarrow> string list \<times> type_definition list
    \<Rightarrow> string list \<times> type_definition list \<Rightarrow> bool" where
  "adds_only A reg st st' \<longleftrightarrow> (\<forall>c \<in> set (fst st'). c \<in> set (fst st) \<or> A c)
     \<and> (\<forall>td \<in> set (snd st'). td \<in> set (snd st) \<or> (\<exists>c. A c \<and> reg_resolve reg c = Some td))"

lemma adds_only_refl: "adds_only A reg st st"
  by (simp add: adds_only_def)

lemma adds_only_trans: "adds_only A reg st st' \<Longrightarrow> adds_only A reg st' st'' \<Longrightarrow> adds_only A reg st st''"
  by (simp add: adds_only_def) blast

lemma adds_only_mono: "adds_only A reg st st' \<Longrightarrow> (\<And>c. A c \<Longrightarrow> B c) \<Longrightarrow> adds_only B reg st st'"
  by (simp add: adds_only_def) blast

lemma walk_adds_ancestors: "adds_only (ancestor reg ct) reg st (walk reg ct depth st)"
proof (induction ct depth st rule: walk_induct)
  case (visit ct depth st)
  let ?ct = "normalize_ct ct"
  show ?case
  proof (cases "?ct \<in> set (fst st) \<or> MAX_INHERITANCE_DEPTH < depth")
    case True
    then show ?thesis by (simp only: walk_skip adds_only_refl)
  next
    case False
    then have new: "?ct \<notin> set (fst st)" and d: "depth \<le> MAX_INHERITANCE_DEPTH" by auto
    show ?thesis
    proof (cases "reg_resolve reg ct")
      case None
      then show ?thesis by (auto simp: walk_miss [OF new d] adds_only_def intro: ancestor.self)
    next
      case (Some td)
      let ?st = "(fst st @ [?ct], snd st @ [td])"
      have first: "adds_only (ancestor reg ct) reg st ?st"
        using Some by (auto simp: adds_only_def intro!: ancestor.self exI [of _ ?ct])
      have "adds_only (ancestor reg ct) reg st
              (fold (\<lambda>parent st. walk reg parent (Suc depth) st) (inherits_of td) ?st)"
      proof (rule fold_keeps [where I = "adds_only (ancestor reg ct) reg st", OF _ first])
        fix p st' assume p: "p \<in> set (inherits_of td)" and st': "adds_only (ancestor reg ct) reg st st'"
        have "ancestor reg ct (normalize_ct p)"
          using ancestor.up [OF ancestor.self _ p] Some by simp
        then have "adds_only (ancestor reg ct) reg st' (walk reg p (Suc depth) st')"
          using visit.IH [OF d] by (blast intro: adds_only_mono ancestor_trans)
        with st' show "adds_only (ancestor reg ct) reg st (walk reg p (Suc depth) st')"
          by (rule adds_only_trans)
      qed
      then show ?thesis by (simp only: walk_hit [OF new d Some])
    qed
  qed
qed

text \<open>
  Inheritance that is at most \<open>MAX_INHERITANCE_DEPTH\<close> links deep and has no cycle: a rank that
  falls along every link. Then the depth limit cuts nothing off.
\<close>

definition ranked :: "type_registry \<Rightarrow> (string \<Rightarrow> nat) \<Rightarrow> bool" where
  "ranked reg rank \<longleftrightarrow> (\<forall>c. rank c \<le> MAX_INHERITANCE_DEPTH)
     \<and> (\<forall>c td. reg_resolve reg c = Some td \<longrightarrow>
          (\<forall>p \<in> set (inherits_of td). rank (normalize_ct p) < rank (normalize_ct c)))"

definition closed_beyond :: "type_registry \<Rightarrow> string list \<Rightarrow> string list \<Rightarrow> bool" where
  "closed_beyond reg seen seen' \<longleftrightarrow> set seen \<subseteq> set seen' \<and>
     (\<forall>c \<in> set seen' - set seen. \<forall>td. reg_resolve reg c = Some td \<longrightarrow>
        (\<forall>p \<in> set (inherits_of td). normalize_ct p \<in> set seen'))"

lemma closed_beyond_refl: "closed_beyond reg s s"
  by (simp add: closed_beyond_def)

lemma closed_beyond_trans: "closed_beyond reg s s' \<Longrightarrow> closed_beyond reg s' s'' \<Longrightarrow> closed_beyond reg s s''"
  unfolding closed_beyond_def by blast

lemma closed_beyond_insert:
  "closed_beyond reg (seen @ [c]) seen' \<Longrightarrow> reg_resolve reg c = Some td
    \<Longrightarrow> \<forall>p \<in> set (inherits_of td). normalize_ct p \<in> set seen' \<Longrightarrow> closed_beyond reg seen seen'"
  unfolding closed_beyond_def by (clarsimp, metis DiffI insertE option.inject)

lemma ancestor_closed:
  assumes "ancestor reg ct c" and "normalize_ct ct \<in> S"
    and "\<And>c td p. c \<in> S \<Longrightarrow> reg_resolve reg c = Some td \<Longrightarrow> p \<in> set (inherits_of td) \<Longrightarrow> normalize_ct p \<in> S"
  shows "c \<in> S"
  using assms(1) by induction (auto intro: assms(2,3))

lemma walks_close:
  assumes "\<And>p st. p \<in> set ps \<Longrightarrow> closed_beyond reg (fst st) (fst (walk reg p depth st))"
    and "depth \<le> MAX_INHERITANCE_DEPTH"
  shows "closed_beyond reg (fst st) (fst (fold (\<lambda>p st. walk reg p depth st) ps st))
     \<and> (\<forall>p \<in> set ps. normalize_ct p \<in> set (fst (fold (\<lambda>p st. walk reg p depth st) ps st)))"
  using assms(1)
proof (induction ps arbitrary: st)
  case (Cons p ps)
  let ?st = "walk reg p depth st"
  have "closed_beyond reg (fst ?st) (fst (fold (\<lambda>p st. walk reg p depth st) ps ?st))"
    and "\<forall>p \<in> set ps. normalize_ct p \<in> set (fst (fold (\<lambda>p st. walk reg p depth st) ps ?st))"
    using Cons.IH [of ?st] Cons.prems by auto
  moreover have "closed_beyond reg (fst st) (fst ?st)" by (rule Cons.prems) simp
  moreover have "normalize_ct p \<in> set (fst ?st)" using assms(2) by (rule walk_visits)
  ultimately show ?case using closed_beyond_trans by (fastforce simp: closed_beyond_def [of _ "fst ?st"])
qed (simp add: closed_beyond_refl)

lemma walk_closes:
  assumes rk: "ranked reg rank"
  shows "depth + rank (normalize_ct ct) \<le> MAX_INHERITANCE_DEPTH
    \<Longrightarrow> closed_beyond reg (fst st) (fst (walk reg ct depth st))"
proof (induction ct depth st rule: walk_induct)
  case (visit ct depth st)
  let ?ct = "normalize_ct ct"
  from visit.prems have d: "depth \<le> MAX_INHERITANCE_DEPTH" by simp
  show ?case
  proof (cases "?ct \<in> set (fst st)")
    case True
    then show ?thesis by (simp add: walk_skip closed_beyond_refl)
  next
    case new: False
    show ?thesis
    proof (cases "reg_resolve reg ct")
      case None
      then show ?thesis by (auto simp: walk_miss [OF new d] closed_beyond_def)
    next
      case (Some td)
      let ?st = "(fst st @ [?ct], snd st @ [td])"
      let ?fin = "fold (\<lambda>p st. walk reg p (Suc depth) st) (inherits_of td) ?st"
      have lower: "rank (normalize_ct p) < rank ?ct" if "p \<in> set (inherits_of td)" for p
        using rk Some that by (auto simp: ranked_def)
      have step: "closed_beyond reg (fst st') (fst (walk reg p (Suc depth) st'))"
        if "p \<in> set (inherits_of td)" for p st'
        using visit.IH [OF d, of p st'] visit.prems lower [OF that] by simp
      have "closed_beyond reg (fst ?st) (fst ?fin)
          \<and> (\<forall>p \<in> set (inherits_of td). normalize_ct p \<in> set (fst ?fin))"
      proof (cases "inherits_of td = []")
        case True
        then show ?thesis by (simp only: closed_beyond_refl fold_simps list.set ball_empty simp_thms)
      next
        case False
        from visit.prems lower [OF hd_in_set [OF False]] have "Suc depth \<le> MAX_INHERITANCE_DEPTH" by simp
        from walks_close [OF step this] show ?thesis by blast
      qed
      then have "closed_beyond reg (fst st) (fst ?fin)"
        using Some by (auto intro!: closed_beyond_insert [of reg "fst st" ?ct "fst ?fin" td]
            simp del: walk.simps)
      then show ?thesis by (simp only: walk_hit [OF new d Some])
    qed
  qed
qed

lemma lineage_base_eq:
  assumes "reg_resolve reg ct = Some td"
  shows "lineage_base reg ct = walk reg ct 0 ([], [])"
proof -
  obtain ys where "snd (walk reg ct 0 ([], [])) = td # ys"
    using walks_extend [of reg "Suc 0" "inherits_of td" "([normalize_ct ct], [td])"]
      walk_hit [OF _ _ assms, of "([], [])" 0] by fastforce
  then show ?thesis by (simp add: lineage_base_def Let_def)
qed

lemma lineage_set:
  assumes wf: "wf_registry reg" and rk: "ranked reg rank" and known: "reg_resolve reg ct = Some td0"
  shows "set (lineage reg ct) =
    {td. \<exists>c. (ancestor reg ct c \<or> ancestor reg ROOT_TYPE c) \<and> reg_resolve reg c = Some td}"
proof -
  let ?st1 = "walk reg ct 0 ([], [])"
  let ?st2 = "walk reg ROOT_TYPE 0 ?st1"
  have lin: "lineage reg ct = snd ?st2"
    using lineage_base_eq [OF known] by (simp add: lineage_eq)
  have ok: "walk_ok reg ?st2" using wf by (intro walk_ok_walk walk_ok_start)
  have le: "rank c \<le> MAX_INHERITANCE_DEPTH" for c using rk by (simp add: ranked_def)
  have "closed_beyond reg [] (fst ?st2)"
    using walk_closes [OF rk, of 0 ct "([], [])"] walk_closes [OF rk, of 0 ROOT_TYPE ?st1] le
    by (auto intro: closed_beyond_trans)
  then have closed: "normalize_ct p \<in> set (fst ?st2)"
    if "c \<in> set (fst ?st2)" "reg_resolve reg c = Some td" "p \<in> set (inherits_of td)" for c td p
    using that by (auto simp: closed_beyond_def)
  have "normalize_ct ct \<in> set (fst ?st2)"
    using walk_visits [of 0 ct reg "([], [])"] walk_extends [of reg ROOT_TYPE 0 ?st1] by auto
  moreover have "normalize_ct ROOT_TYPE \<in> set (fst ?st2)" by (rule walk_visits) simp
  ultimately have seen: "c \<in> set (fst ?st2)" if "ancestor reg ct c \<or> ancestor reg ROOT_TYPE c" for c
    using that closed by (elim disjE) (erule ancestor_closed; simp)+
  have "adds_only (\<lambda>c. ancestor reg ct c \<or> ancestor reg ROOT_TYPE c) reg ([], []) ?st2"
    by (rule adds_only_trans; rule adds_only_mono, rule walk_adds_ancestors) blast+
  then show ?thesis
    using ok seen unfolding lin walk_ok_def adds_only_def covered_def by fastforce
qed

section \<open>Operations\<close>

lemma map_of_operations:
  "(\<And>td. td \<in> set tds \<Longrightarrow> wf_dict (td_operations td)) \<Longrightarrow>
   map_of (fold (\<lambda>td ops. dict_update ops (td_operations td)) (rev tds) []) name = first_operation name tds"
  by (induction tds) (auto simp: map_of_dict_update map_of_rev_wf split: option.splits)

lemma lineage_wf: "wf_registry reg \<Longrightarrow> td \<in> set (lineage reg ct) \<Longrightarrow> wf_type (td_content_type td) td"
  using walk_ok_lineage [of reg ct] wf_resolve [of reg "td_content_type td" td]
  by (auto simp: walk_ok_def put_out_def lineage_eq wf_type_def)

lemma first_operation_append:
  "(\<forall>t \<in> set pre. map_of (td_operations t) name = None)
    \<Longrightarrow> first_operation name (pre @ tds) = first_operation name tds"
  by (induction pre) auto

lemma first_operation_SomeD:
  "first_operation name tds = Some op \<Longrightarrow>
    \<exists>pre td post. tds = pre @ td # post \<and> map_of (td_operations td) name = Some op
       \<and> (\<forall>t \<in> set pre. map_of (td_operations t) name = None)"
proof (induction tds)
  case (Cons t tds)
  show ?case
  proof (cases "map_of (td_operations t) name")
    case None
    with Cons obtain pre td post where "tds = pre @ td # post" "map_of (td_operations td) name = Some op"
      "\<forall>t \<in> set pre. map_of (td_operations t) name = None" by auto
    with None show ?thesis by (intro exI [of _ "t # pre"] exI [of _ td] exI [of _ post]) simp
  next
    case (Some op')
    with Cons.prems show ?thesis by (intro exI [of _ "[]"] exI [of _ t] exI [of _ tds]) simp
  qed
qed simp

lemma first_operation_None: "first_operation name tds = None \<longleftrightarrow> (\<forall>t \<in> set tds. map_of (td_operations t) name = None)"
  by (induction tds) (auto split: option.splits)


section \<open>Registries the gateway can hold\<close>

text \<open>The states a registry gets into by the calls the class offers, in any order.\<close>

inductive reg_reach :: "type_registry \<Rightarrow> bool" where
  new: "reg_reach new_registry"
| registered: "reg_reach reg \<Longrightarrow> reg_register defn server reg = Inr (b, reg') \<Longrightarrow> reg_reach reg'"
| loaded: "reg_reach reg \<Longrightarrow> load_builtin is_dir files reg = Inr (n, reg') \<Longrightarrow> reg_reach reg'"
| removed: "reg_reach reg \<Longrightarrow> reg_reach (snd (remove_server server reg))"
| invalidated: "reg_reach reg \<Longrightarrow> reg_reach (reg_invalidate ct reg)"

lemma reg_reach_wf: "reg_reach reg \<Longrightarrow> wf_registry reg"
  by (induction rule: reg_reach.induct) (auto intro: wf_registry_ops)

text \<open>A small registry for the examples: the root, the collection and the workspace.\<close>

definition ex_type :: "string \<Rightarrow> string list \<Rightarrow> (string \<times> pyval) list \<Rightarrow> pyval" where
  "ex_type ct parents ops = VDict [(''content_type'', VStr ct), (''inherits'', VList (map VStr parents)),
     (''operations'', VDict ops)]"

definition ex_root :: pyval where
  "ex_root = ex_type ''*/*'' [] [(''read'', VDict []), (''delete'', VDict [(''requires_grant'', VStr ''admin'')])]"

definition ex_collection :: pyval where
  "ex_collection = ex_type ''x/coll'' [] [(''read'', VDict [(''audit'', VBool True)]), (''add'', VDict [])]"

definition ex_workspace :: pyval where
  "ex_workspace = ex_type ''x/ws'' [''x/coll''] [(''add'', VDict [(''dispatch'', VDict [(''kind'', VStr ''native'')])])]"

definition ex_registry :: type_registry where
  "ex_registry = (case load_builtin True [(''_wildcard'', ''_wildcard'', Some ex_root),
        (''x'', ''coll'', Some ex_collection)] new_registry of
      Inl e \<Rightarrow> new_registry
    | Inr (n, reg) \<Rightarrow> (case reg_register ex_workspace (Some ''aria'') reg of
          Inl e \<Rightarrow> new_registry | Inr (b, reg') \<Rightarrow> reg'))"

lemma ex_registry_reach: "reg_reach ex_registry"
proof -
  have "reg_reach reg'" if "load_builtin d files new_registry = Inr (n, reg)"
    "reg_register defn server reg = Inr (b, reg')" for d files n reg defn server b reg'
    using that by (blast intro: reg_reach.intros)
  then show ?thesis
    by (auto simp: ex_registry_def intro: reg_reach.new split: sum.splits prod.splits)
qed

lemma ex_registry_known: "reg_known ex_registry = [''*/*'', ''x/coll'', ''x/ws'']"
  by code_simp

lemma ex_ws_lineage: "map td_content_type (lineage ex_registry '' X/WS; a'') = [''x/ws'', ''x/coll'', ''*/*'']"
  by code_simp

section \<open>Properties\<close>

text \<open>\<open>normalize_ct\<close> maps every spelling of a content type to one key: it is idempotent, and
  what it returns has no parameters, no outer white space and no upper-case letters.\<close>

theorem normalize_ct_canonical:
  "normalize_ct (normalize_ct s) = normalize_ct s \<and> CHR '';'' \<notin> set (normalize_ct s)
    \<and> py_strip (normalize_ct s) = normalize_ct s \<and> py_lower (normalize_ct s) = normalize_ct s"
  by (simp add: no_semicolon_normalize_ct)

text \<open>however the registry was filled, emptied and refilled, every definition in it is stored
  under its own content type in normal form, holds operations stored under their own names, and a
  builtin belongs to the gateway itself.\<close>

theorem registry_invariant: "reg_reach reg \<Longrightarrow> wf_registry reg"
  by (rule reg_reach_wf)

theorem registry_invariant_witness: "wf_registry ex_registry"
  by (rule registry_invariant [OF ex_registry_reach])

text \<open>what a type answers for, listed (\<open>operations_of\<close>, which folds the lineage backwards so
  that nearer types overwrite) and asked for one name at a time (\<open>resolve_operation\<close>, which stops
  at the first type that declares it), agree on every name.\<close>

theorem operations_agree:
  assumes "reg_reach reg"
  shows "map_of (operations_of reg ct) name = resolve_operation reg ct name"
  unfolding operations_of_def resolve_operation_def
  using lineage_wf [OF reg_reach_wf [OF assms]] by (intro map_of_operations) (auto simp: wf_type_def)

theorem operations_agree_witness:
  "map_of (operations_of ex_registry ''x/ws'') ''add'' = resolve_operation ex_registry ''x/ws'' ''add''
   \<and> map_option os_kind (resolve_operation ex_registry ''x/ws'' ''add'') = Some ''native''"
  using operations_agree [OF ex_registry_reach, of "''x/ws''" "''add''"] by (rule conjI) code_simp

text \<open>a type's own operation is the one that runs, whatever its ancestors declare; an operation
  only the root type declares runs for every type; and a name nobody in the lineage declares
  resolves to nothing.\<close>

theorem resolve_operation_order:
  "(\<forall>td op. reg_resolve reg ct = Some td \<and> map_of (td_operations td) name = Some op
      \<longrightarrow> resolve_operation reg ct name = Some op)
   \<and> (\<forall>r op. reg_reach reg \<and> reg_resolve reg ROOT_TYPE = Some r \<and> map_of (td_operations r) name = Some op
        \<and> (\<forall>td \<in> set (lineage reg ct). td \<noteq> r \<longrightarrow> map_of (td_operations td) name = None)
      \<longrightarrow> resolve_operation reg ct name = Some op)
   \<and> (resolve_operation reg ct name = None
      \<longleftrightarrow> (\<forall>td \<in> set (lineage reg ct). map_of (td_operations td) name = None))"
proof (intro conjI allI impI; (elim conjE)?)
  fix td op assume "reg_resolve reg ct = Some td" "map_of (td_operations td) name = Some op"
  then show "resolve_operation reg ct name = Some op"
    using lineage_known [of reg ct td] by (auto simp: resolve_operation_def)
next
  fix r op
  assume reach: "reg_reach reg" and r: "reg_resolve reg ROOT_TYPE = Some r"
    and op: "map_of (td_operations r) name = Some op"
    and only: "\<forall>td \<in> set (lineage reg ct). td \<noteq> r \<longrightarrow> map_of (td_operations td) name = None"
  obtain pre post where lin: "lineage reg ct = pre @ r # post" and new: "r \<notin> set pre"
    using split_list_first [OF lineage_root [OF reg_reach_wf [OF reach] r]] by blast
  then show "resolve_operation reg ct name = Some op"
    using only op first_operation_append [of pre name "r # post"] new
    by (metis (no_types, lifting) UnCI first_operation.simps(2) option.simps(5) resolve_operation_def set_append)
qed (simp add: resolve_operation_def first_operation_None)

theorem resolve_operation_order_witness:
  "resolve_operation ex_registry ''nobody/here'' ''delete''
     = map_of (td_operations (the (reg_resolve ex_registry ROOT_TYPE))) ''delete''
   \<and> resolve_operation ex_registry ''nobody/here'' ''delete'' \<noteq> None"
proof -
  let ?r = "the (reg_resolve ex_registry ROOT_TYPE)"
  have known: "reg_resolve ex_registry ROOT_TYPE \<noteq> None" by code_simp
  have deletes: "map_of (td_operations ?r) ''delete'' \<noteq> None" by code_simp
  have lin: "lineage ex_registry ''nobody/here'' = [?r]" by code_simp
  from known deletes lin show ?thesis
    using resolve_operation_order [of ex_registry "''nobody/here''" "''delete''"] ex_registry_reach by auto
qed

text \<open>the lineage lists no type twice, holds only definitions the registry would return for
  their own content type, starts at the type itself and includes the root whenever each is known.\<close>

theorem lineage_sound:
  assumes "reg_reach reg"
  shows "distinct (map td_content_type (lineage reg ct))
    \<and> (\<forall>td \<in> set (lineage reg ct). reg_resolve reg (td_content_type td) = Some td)
    \<and> (\<forall>td. reg_resolve reg ct = Some td \<longrightarrow> (\<exists>rest. lineage reg ct = td # rest))
    \<and> (\<forall>r. reg_resolve reg ROOT_TYPE = Some r \<longrightarrow> r \<in> set (lineage reg ct))"
  using walk_ok_lineage [OF reg_reach_wf [OF assms], of ct] lineage_known [of reg ct]
    lineage_root [OF reg_reach_wf [OF assms]]
  by (auto simp: walk_ok_def put_out_def lineage_eq)

theorem lineage_sound_witness: "distinct (map td_content_type (lineage ex_registry ''x/ws''))"
  using lineage_sound [OF ex_registry_reach] by blast

text \<open>Where inheritance has no cycle and no chain longer than the depth limit, the lineage of a
  known type is exactly the set of definitions reachable from it, or from the root, by following
  \<open>inherits\<close>: the depth-first walk with its shared \<open>seen\<close> set loses none and invents none.\<close>

theorem lineage_complete:
  assumes "reg_reach reg" and "ranked reg rank" and "reg_resolve reg ct = Some td0"
  shows "set (lineage reg ct) =
    {td. \<exists>c. (ancestor reg ct c \<or> ancestor reg ROOT_TYPE c) \<and> reg_resolve reg c = Some td}"
  using assms by (intro lineage_set reg_reach_wf)


lemma rankedI:
  assumes "wf_registry reg" and "\<And>c. rank c \<le> MAX_INHERITANCE_DEPTH"
    and "all_entries (\<lambda>ct td. \<forall>p \<in> set (inherits_of td). rank (normalize_ct p) < rank ct) (tr_cache reg)"
    and "all_entries (\<lambda>ct td. \<forall>p \<in> set (inherits_of td). rank (normalize_ct p) < rank ct) (tr_builtin reg)"
  shows "ranked reg rank"
  using assms all_entries_map_of [OF assms(3)] all_entries_map_of [OF assms(4)]
  by (auto simp: ranked_def reg_resolve_def Let_def split: option.splits)

definition ex_rank :: "string \<Rightarrow> nat" where
  "ex_rank c = (if c = ''x/ws'' then 1 else 0)"

theorem lineage_complete_witness:
  "set (lineage ex_registry ''x/ws'') =
     {td. \<exists>c. (ancestor ex_registry ''x/ws'' c \<or> ancestor ex_registry ROOT_TYPE c) \<and> reg_resolve ex_registry c = Some td}
   \<and> length (lineage ex_registry ''x/ws'') = 3"
proof
  have "all_entries (\<lambda>ct td. \<forall>p \<in> set (inherits_of td). ex_rank (normalize_ct p) < ex_rank ct) (tr_cache ex_registry)"
    "all_entries (\<lambda>ct td. \<forall>p \<in> set (inherits_of td). ex_rank (normalize_ct p) < ex_rank ct) (tr_builtin ex_registry)"
    by code_simp+
  then have rk: "ranked ex_registry ex_rank"
    using reg_reach_wf [OF ex_registry_reach]
    by (intro rankedI) (simp_all add: ex_rank_def MAX_INHERITANCE_DEPTH_def)
  have "reg_resolve ex_registry ''x/ws'' \<noteq> None" by code_simp
  then show "set (lineage ex_registry ''x/ws'') =
     {td. \<exists>c. (ancestor ex_registry ''x/ws'' c \<or> ancestor ex_registry ROOT_TYPE c) \<and> reg_resolve ex_registry c = Some td}"
    using lineage_complete [OF ex_registry_reach rk] by blast
  show "length (lineage ex_registry ''x/ws'') = 3" by code_simp
qed

text \<open>
  The comment on \<open>_lineage\<close> says the list ends at the root. It does not where a type names the
  root among its parents before another one: the root is put out where the walk meets it.
\<close>

theorem lineage_root_not_last:
  "\<exists>reg. reg_reach reg \<and> map td_content_type (lineage reg ''x/odd'') = [''x/odd'', ''*/*'', ''x/coll'']"
proof -
  let ?odd = "reg_register (ex_type ''x/odd'' [''*/*'', ''x/coll''] []) None ex_registry"
  let ?r = "case ?odd of Inl e \<Rightarrow> new_registry | Inr (b, reg) \<Rightarrow> reg"
  have "reg_reach ?r"
    using reg_reach.registered [OF ex_registry_reach] by (auto intro: reg_reach.new split: sum.splits prod.splits)
  moreover have "map td_content_type (lineage ?r ''x/odd'') = [''x/odd'', ''*/*'', ''x/coll'']"
    by code_simp
  ultimately show ?thesis by (rule exI [of _ ?r, OF conjI])
qed

lemma fold_delete_filter: "fold AList.delete ks d = filter (\<lambda>kv. fst kv \<notin> set ks) d"
  by (induction ks arbitrary: d) (auto simp: AList.delete_eq intro: filter_cong)

lemma tr_cache_remove_server:
  assumes "wf_registry reg"
  shows "tr_cache (snd (remove_server server reg)) = filter (\<lambda>kv. td_server (snd kv) \<noteq> Some server) (tr_cache reg)"
  using assms unfolding remove_server_def Let_def wf_registry_def
  by (auto simp: fold_delete_filter intro!: filter_cong) (metis eq_key_imp_eq_value prod.collapse)

lemma tr_builtin_remove_server: "tr_builtin (snd (remove_server server reg)) = tr_builtin reg"
  by (simp add: remove_server_def Let_def)

lemma resolve_remove_server:
  "wf_registry reg \<Longrightarrow> reg_resolve (snd (remove_server server reg)) ct =
    (case map_of (tr_cache reg) (normalize_ct ct) of
       Some td \<Rightarrow> if td_server td = Some server then map_of (tr_builtin reg) (normalize_ct ct) else Some td
     | None \<Rightarrow> map_of (tr_builtin reg) (normalize_ct ct))"
  using map_of_filter_value [of "tr_cache reg" "\<lambda>_ td. td_server td \<noteq> Some server" "normalize_ct ct"]
  by (auto simp: reg_resolve_def tr_cache_remove_server tr_builtin_remove_server wf_registry_def
      case_prod_beta' Let_def split: option.splits)

text \<open>deregistering a server takes out exactly its own definitions: afterwards none is
  attributed to it, the definitions of every other server and the builtins are untouched and listed
  as before, and the count returned is the number taken out.\<close>

theorem remove_server_exact:
  assumes "reg_reach reg" and "server \<noteq> BUILTIN_SERVER"
  shows "definitions_from (snd (remove_server server reg)) server = []
    \<and> (\<forall>other. other \<noteq> server \<longrightarrow>
         definitions_from (snd (remove_server server reg)) other = definitions_from reg other)
    \<and> fst (remove_server server reg) = length (definitions_from reg server)"
proof -
  let ?reg' = "snd (remove_server server reg)"
  have cache: "tr_cache ?reg' = filter (\<lambda>kv. td_server (snd kv) \<noteq> Some server) (tr_cache reg)"
    using reg_reach_wf [OF assms(1)] by (rule tr_cache_remove_server)
  have "definitions_from ?reg' other = (if other = server then [] else definitions_from reg other)"
    if "other \<noteq> BUILTIN_SERVER" for other
    using that by (auto simp: definitions_from_def cache filter_sort [symmetric] filter_filter intro!: arg_cong [of _ _ "map _"] filter_cong arg_cong [of _ _ "sort_key _"])
  moreover have "definitions_from ?reg' BUILTIN_SERVER = definitions_from reg BUILTIN_SERVER"
    by (simp add: definitions_from_def tr_builtin_remove_server)
  moreover have "fst (remove_server server reg) = length (definitions_from reg server)"
    using assms(2) by (simp add: definitions_from_def remove_server_def Let_def filter_sort)
  ultimately show ?thesis using assms(2) by (metis (full_types))
qed

theorem remove_server_exact_witness:
  "definitions_from (snd (remove_server ''aria'' ex_registry)) ''aria'' = []
   \<and> definitions_from ex_registry ''aria'' = [ex_workspace]"
proof
  have "''aria'' \<noteq> BUILTIN_SERVER" by (simp add: BUILTIN_SERVER_def)
  then show "definitions_from (snd (remove_server ''aria'' ex_registry)) ''aria'' = []"
    using remove_server_exact [OF ex_registry_reach] by blast
  show "definitions_from ex_registry ''aria'' = [ex_workspace]" by code_simp
qed

end
