(* ===== verification/Topology.thy ===== *)
theory Topology
  imports Py_Values
begin

text \<open>
  \<open>src/src/crystal/topology.py\<close>: the map from a persona's slug to its endpoint. The
  slugs are strings here, as the code's annotations say; \<open>None\<close> and \<open>''\<close> behave alike.
\<close>

record server_record =
  sr_slug :: string
  sr_endpoint :: string
  sr_client_id :: "string option"

record topology =
  by_slug :: "server_record dict"

definition new_topology :: topology where
  "new_topology = \<lparr> by_slug = [] \<rparr>"

definition topology_register :: "string \<Rightarrow> string \<Rightarrow> string option \<Rightarrow> topology \<Rightarrow> topology" where
  "topology_register slug0 endpoint client_id t =
     (let slug = py_strip slug0 in
      if slug = [] \<or> endpoint = [] then t
      else t\<lparr>by_slug := AList.update slug
             \<lparr> sr_slug = slug, sr_endpoint = endpoint, sr_client_id = client_id \<rparr> (by_slug t)\<rparr>)"

definition topology_resolve :: "topology \<Rightarrow> string \<Rightarrow> server_record option" where
  "topology_resolve t slug = map_of (by_slug t) (py_strip slug)"

definition topology_remove :: "string \<Rightarrow> topology \<Rightarrow> topology" where
  "topology_remove slug t = t\<lparr>by_slug := AList.delete (py_strip slug) (by_slug t)\<rparr>"

definition topology_known :: "topology \<Rightarrow> string list" where
  "topology_known t = sort (map fst (by_slug t))"

text \<open>What every operation maintains.\<close>

definition wf_server :: "string \<Rightarrow> server_record \<Rightarrow> bool" where
  "wf_server slug r \<longleftrightarrow> sr_slug r = slug \<and> py_strip slug = slug \<and> slug \<noteq> [] \<and> sr_endpoint r \<noteq> []"

definition wf_topology :: "topology \<Rightarrow> bool" where
  "wf_topology t \<longleftrightarrow> wf_dict (by_slug t) \<and> all_entries wf_server (by_slug t)"

inductive topology_reach :: "topology \<Rightarrow> bool" where
  new: "topology_reach new_topology"
| registered: "topology_reach t \<Longrightarrow> topology_reach (topology_register slug endpoint client t)"
| removed: "topology_reach t \<Longrightarrow> topology_reach (topology_remove slug t)"

lemma topology_reach_wf: "topology_reach t \<Longrightarrow> wf_topology t"
  by (induction rule: topology_reach.induct)
    (auto simp: wf_topology_def new_topology_def topology_register_def topology_remove_def Let_def
      wf_server_def intro!: all_entries_update all_entries_delete)

lemma topology_resolve_strip [simp]: "topology_resolve t (py_strip slug) = topology_resolve t slug"
  by (simp add: topology_resolve_def)

lemma topology_resolve_register:
  "topology_resolve (topology_register slug endpoint client t) slug' =
     (if py_strip slug' = py_strip slug \<and> py_strip slug \<noteq> [] \<and> endpoint \<noteq> []
      then Some \<lparr> sr_slug = py_strip slug, sr_endpoint = endpoint, sr_client_id = client \<rparr>
      else topology_resolve t slug')"
  by (simp add: topology_resolve_def topology_register_def Let_def)

lemma topology_resolve_remove:
  "topology_resolve (topology_remove slug t) slug' =
     (if py_strip slug' = py_strip slug then None else topology_resolve t slug')"
  by (simp add: topology_resolve_def topology_remove_def)

lemma topology_known_iff: "slug \<in> set (topology_known t) \<longleftrightarrow> map_of (by_slug t) slug \<noteq> None"
  by (simp add: topology_known_def map_of_eq_None_iff)

lemma topology_resolve_wf: "wf_topology t \<Longrightarrow> topology_resolve t slug = Some r \<Longrightarrow> wf_server (py_strip slug) r"
  unfolding topology_resolve_def wf_topology_def by (blast dest: all_entries_map_of)

section \<open>Properties\<close>

text \<open>whatever was registered and removed, the topology lists each slug once, in order, exactly
  the slugs it resolves, each trimmed, non-empty and with a non-empty endpoint under its own name.\<close>

theorem topology_invariant:
  assumes "topology_reach t"
  shows "distinct (topology_known t) \<and> sorted (topology_known t)
    \<and> (\<forall>slug. topology_resolve t slug \<noteq> None \<longleftrightarrow> py_strip slug \<in> set (topology_known t))
    \<and> (\<forall>slug r. topology_resolve t slug = Some r \<longrightarrow>
         sr_slug r = py_strip slug \<and> sr_slug r \<noteq> [] \<and> sr_endpoint r \<noteq> [])"
proof (intro conjI allI impI)
  from topology_reach_wf [OF assms] have wf: "wf_topology t" .
  then show "distinct (topology_known t)" and "sorted (topology_known t)"
    by (simp_all add: topology_known_def wf_topology_def)
  show "topology_resolve t slug \<noteq> None \<longleftrightarrow> py_strip slug \<in> set (topology_known t)" for slug
    by (simp only: topology_known_iff topology_resolve_def)
  fix slug r assume "topology_resolve t slug = Some r"
  then show "sr_slug r = py_strip slug" "sr_slug r \<noteq> []" "sr_endpoint r \<noteq> []"
    using topology_resolve_wf [OF wf, of slug r] by (auto simp: wf_server_def)
qed

theorem topology_invariant_witness:
  "distinct (topology_known (topology_register '' aria '' ''http://aria'' None new_topology))"
  using topology_invariant [of "topology_register '' aria '' ''http://aria'' None new_topology"]
  by (simp add: topology_reach.intros)

end
