(* ===== verification/Ttl_Cache.thy ===== *)
theory Ttl_Cache
  imports Py_Values
begin

text \<open>
  The interface of the short-lived caches: an answer kept at time \<open>t\<close> is served for less than
  \<open>ttl\<close>, and keeping another key's answer serves nothing it did not serve before (it may drop
  entries). The operator gate, the describer window and the two caches of the gateway's Mantle
  client are instances.
\<close>

locale ttl_cache =
  fixes none :: "'s"
    and ok :: "'s \<Rightarrow> bool"
    and fresh :: "'s \<Rightarrow> 'k \<Rightarrow> rat \<Rightarrow> 'v option"
    and keep :: "'k \<Rightarrow> rat \<Rightarrow> 'v \<Rightarrow> 's \<Rightarrow> 's"
    and ttl :: rat
  assumes ok_none: "ok none"
    and ok_keep: "ok s \<Longrightarrow> ok (keep k t v s)"
    and fresh_none: "fresh none k t = None"
    and fresh_keep: "ok s \<Longrightarrow> fresh (keep k t v s) k t' = (if t' - t < ttl then Some v else None)"
    and fresh_other: "ok s \<Longrightarrow> k' \<noteq> k \<Longrightarrow> fresh (keep k t v s) k' t' = Some v' \<Longrightarrow> fresh s k' t' = Some v'"
begin

text \<open>The cache after a history of answers, newest first.\<close>

definition after :: "('k \<times> rat \<times> 'v) list \<Rightarrow> 's" where
  "after hs = foldr (\<lambda>(k, t, v). keep k t v) hs none"

lemma after_simps [simp]: "after [] = none" "after ((k, t, v) # hs) = keep k t v (after hs)"
  by (simp_all add: after_def)

lemma ok_after: "ok (after hs)"
  by (induction hs) (auto intro: ok_none ok_keep)

text \<open>An answer served was kept, under that key, less than \<open>ttl\<close> ago, and is the last one kept.\<close>

lemma served_was_kept:
  "fresh (after hs) k t' = Some v \<Longrightarrow> \<exists>t. map_of hs k = Some (t, v) \<and> t' - t < ttl"
proof (induction hs)
  case (Cons h hs)
  obtain k' t v' where h: "h = (k', t, v')" by (cases h) auto
  show ?case
  proof (cases "k = k'")
    case True
    with Cons.prems h show ?thesis by (auto simp: fresh_keep ok_after split: if_splits)
  next
    case False
    with Cons h show ?thesis using fresh_other [OF ok_after, of k k' t v' hs t' v] by auto
  qed
qed (simp add: fresh_none)

lemma expired: "map_of hs k = Some (t, v) \<Longrightarrow> ttl \<le> t' - t \<Longrightarrow> fresh (after hs) k t' = None"
  using served_was_kept [of hs k t'] by (cases "fresh (after hs) k t'") auto

text \<open>Whatever holds of every answer when it is kept holds of every answer served.\<close>

definition entries_ok :: "('k \<Rightarrow> rat \<Rightarrow> 'v \<Rightarrow> bool) \<Rightarrow> 's \<Rightarrow> bool" where
  "entries_ok P s \<longleftrightarrow> ok s
     \<and> (\<forall>k now v. fresh s k now = Some v \<longrightarrow> (\<exists>t. P k t v \<and> now - t < ttl))"

lemma entries_ok_none: "entries_ok P none"
  by (simp add: entries_ok_def ok_none fresh_none)

lemma entries_ok_keep:
  assumes s: "entries_ok P s" and new: "P k t v"
  shows "entries_ok P (keep k t v s)"
  unfolding entries_ok_def
proof (intro conjI allI impI)
  from s have ok: "ok s" by (simp add: entries_ok_def)
  then show "ok (keep k t v s)" by (rule ok_keep)
  fix k' now v' assume hit: "fresh (keep k t v s) k' now = Some v'"
  show "\<exists>t. P k' t v' \<and> now - t < ttl"
  proof (cases "k' = k")
    case True
    with hit new show ?thesis by (auto simp: fresh_keep [OF ok] split: if_splits)
  next
    case False
    from fresh_other [OF ok False hit] s show ?thesis by (simp add: entries_ok_def)
  qed
qed

lemma entries_ok_mono: "entries_ok P s \<Longrightarrow> (\<And>k t v. P k t v \<Longrightarrow> Q k t v) \<Longrightarrow> entries_ok Q s"
  unfolding entries_ok_def by blast

lemma entries_okD: "entries_ok P s \<Longrightarrow> fresh s k now = Some v \<Longrightarrow> \<exists>t. P k t v \<and> now - t < ttl"
  unfolding entries_ok_def by blast

end

text \<open>The table behind each instance: key, time kept, answer.\<close>

type_synonym ('k, 'v) timed = "('k \<times> rat \<times> 'v) list"

definition timed_fresh :: "rat \<Rightarrow> ('k, 'v) timed \<Rightarrow> 'k \<Rightarrow> rat \<Rightarrow> 'v option" where
  "timed_fresh ttl s k now = (case map_of s k of
       None \<Rightarrow> None
     | Some (t, v) \<Rightarrow> if now - t < ttl then Some v else None)"

text \<open>Past 4096 entries, the stale ones are dropped first.\<close>

definition prune :: "rat \<Rightarrow> rat \<Rightarrow> ('k, 'v) timed \<Rightarrow> ('k, 'v) timed" where
  "prune ttl now s = (if 4096 < length s then filter (\<lambda>(k, t, v). now - t < ttl) s else s)"

lemma prune_subset: "set (prune ttl now s) \<subseteq> set s"
  by (auto simp: prune_def)

lemma wf_prune: "wf_dict s \<Longrightarrow> wf_dict (prune ttl now s)"
  by (simp add: prune_def)

lemma map_of_prune:
  assumes "wf_dict s"
  shows "map_of (prune ttl now s) k = (case map_of s k of None \<Rightarrow> None
     | Some (t, v) \<Rightarrow> if 4096 < length s \<and> \<not> now - t < ttl then None else Some (t, v))"
  using map_of_filter_value [OF assms, of "\<lambda>_ tv. now - fst tv < ttl" k]
  by (auto simp: prune_def case_prod_beta' split: option.splits)

lemma map_of_prune_SomeD: "map_of (prune ttl now s) k = Some tv \<Longrightarrow> wf_dict s \<Longrightarrow> map_of s k = Some tv"
  by (auto simp: map_of_prune split: option.splits if_splits)


definition timed_keep :: "rat \<Rightarrow> 'k \<Rightarrow> rat \<Rightarrow> 'v \<Rightarrow> ('k, 'v) timed \<Rightarrow> ('k, 'v) timed" where
  "timed_keep ttl k t v s = AList.update k (t, v) (prune ttl t s)"

interpretation timed: ttl_cache "[]" wf_dict "timed_fresh ttl" "timed_keep ttl" ttl for ttl
proof
  fix s :: "('k, 'v) timed" and k k' :: 'k and t t' :: rat and v v' :: 'v
  assume wf: "wf_dict s"
  show "wf_dict (timed_keep ttl k t v s)" using wf by (simp add: timed_keep_def wf_prune)
  show "timed_fresh ttl (timed_keep ttl k t v s) k t' = (if t' - t < ttl then Some v else None)"
    by (simp add: timed_fresh_def timed_keep_def)
  assume "k' \<noteq> k" "timed_fresh ttl (timed_keep ttl k t v s) k' t' = Some v'"
  then show "timed_fresh ttl s k' t' = Some v'"
    using map_of_prune_SomeD [OF _ wf, of ttl t k']
    by (auto simp: timed_fresh_def timed_keep_def split: option.splits)
qed (simp_all add: timed_fresh_def)

end
