(* ===== verification/Gateway_State.thy ===== *)
theory Gateway_State
  imports Mcp_Client Type_Registry Topology Ttl_Cache
begin

text \<open>
  The state of the gateway process: what \<open>lifespan\<close> puts on \<open>app.state\<close>
  (\<open>src/src/crystal/main.py\<close>), with the two tables the dispatcher and the operator gate keep.
  \<open>g_mcp\<close> and \<open>g_servers\<close> say whether the dispatcher was given an MCP caller and a
  \<open>PersonaGateway\<close>; \<open>g_identity\<close> is the service identity, as the token it signs for an audience.
\<close>

type_synonym offered = "((string \<times> string) \<times> bool \<times> string) list"

record gateway = world +
  g_types :: type_registry
  g_topology :: topology
  g_seen :: "(string, offered) timed"
  g_described :: "(pyval, unit) timed"
  g_mcp :: bool
  g_servers :: bool
  g_identity :: "(string \<Rightarrow> string) option"

definition start_gateway :: "world \<Rightarrow> type_registry \<Rightarrow> (string \<Rightarrow> string) option \<Rightarrow> gateway" where
  "start_gateway w types identity = world.extend w
     (gateway.fields types new_topology [] [] True True identity)"

text \<open>Writing the gateway's own state changes nothing outside and logs nothing.\<close>

lemma grows_keeps_state:
  fixes f :: "'a gateway_scheme \<Rightarrow> 'a gateway_scheme"
  assumes "\<And>w. same_outside w (f w)" "\<And>w. w_trace (f w) = w_trace w"
  shows "grows.keeps P (modifyM f)"
  using assms by (simp add: grows.keeps_def grows_by_def)

lemma grows_keeps_tables:
  "grows.keeps P (modifyM (g_seen_update f))"
  "grows.keeps P (modifyM (g_described_update g))"
  "grows.keeps P (modifyM (g_types_update h))"
  "grows.keeps P (modifyM (g_topology_update i))"
  by (rule grows_keeps_state; simp add: same_outside_def)+

text \<open>An event of the run so far stays in the trace.\<close>

lemma grows_by_trace: "grows_by P w w' \<Longrightarrow> \<exists>es. w_trace w' = w_trace w @ es"
  by (auto simp: grows_by_def)


definition same_gateway :: "gateway \<Rightarrow> gateway \<Rightarrow> bool" where
  "same_gateway w w' \<longleftrightarrow> (\<exists>t. w' = w\<lparr>w_trace := w_trace w @ t\<rparr>)"

interpretation stateless: world_relation same_gateway
proof
  show "same_gateway w w" for w by (auto simp: same_gateway_def intro!: exI [of _ "[]"])
  show "same_gateway w w''" if "same_gateway w w'" "same_gateway w' w''" for w w' w''
    using that by (auto simp: same_gateway_def)
qed

lemma stateless_prims: "stateless.keeps (http q)" "stateless.keeps monotonic" "stateless.keeps (create_task t)"
proof -
  show "stateless.keeps (create_task t)"
    unfolding stateless.keeps_def same_gateway_def create_task_def log_event_def modifyM_def
    by (intro allI, rule_tac x = "[EvSpawn t]" in exI) simp
qed (auto simp: stateless.keeps_def same_gateway_def http_def monotonic_def Let_def)

lemmas stateless_intros = stateless.keeps_basic stateless.keeps_bind stateless.keeps_catch
  stateless.keeps_if stateless.keeps_forM stateless.keeps_status stateless_prims

lemma stateless_mantle:
  "stateless.keeps (mantle_send m p b token)" "stateless.keeps (get_artifact i token h)"
  "stateless.keeps (my_access i a token)" "stateless.keeps (platform_operators token)"
  "stateless.keeps (mantle_delete p token)" "stateless.keeps (mantle_links i n token)"
proof -
  show "stateless.keeps (mantle_links i n token)"
    unfolding mantle_links_def Let_def
    by (intro stateless_intros) (auto split: pyval.splits intro!: stateless_intros)
qed (unfold mantle_send_def get_artifact_def my_access_def platform_operators_def mantle_delete_def
    Let_def, (intro stateless_intros)+)

lemma stateless_mcp: "stateless.keeps (mcp_request e m p token)" "stateless.keeps (mcp_call_tool e m p token)"
  unfolding mcp_call_tool_def mcp_request_def Let_def by (intro stateless_intros)+

end
