(* ===== verification/Operator_Gate.thy ===== *)
theory Operator_Gate
  imports Gateway_State
begin

text \<open>
  \<open>src/src/crystal/operator_gate.py\<close>: a persona tool the platform offers as an operator is
  called only for a caller who may invoke that operator. What Mantle said is kept per caller for
  \<open>TTL\<close>. The text of the exception in the 503 is not modelled.
\<close>

definition TTL :: rat where
  "TTL = 30"

definition is_hex_or_dash :: "char \<Rightarrow> bool" where
  "is_hex_or_dash c \<longleftrightarrow> is_digit c \<or> (65 \<le> code c \<and> code c \<le> 70) \<or> (97 \<le> code c \<and> code c \<le> 102) \<or> c = CHR ''-''"

text \<open>A pattern ending in \<open>$\<close> also matches before one final newline.\<close>

definition before_newline :: "string \<Rightarrow> string" where
  "before_newline s = (if s \<noteq> [] \<and> code (last s) = 10 then butlast s else s)"

text \<open>\<open>^[0-9a-fA-F-]{32,36}$\<close>.\<close>

definition loose_uuid :: "string \<Rightarrow> bool" where
  "loose_uuid s \<longleftrightarrow> (let t = before_newline s in
     32 \<le> length t \<and> length t \<le> 36 \<and> list_all is_hex_or_dash t)"

text \<open>The table of one answer: (server, tool) to whether any operator on it may be invoked, and the
  slug of the last one.\<close>

fun offered_of :: "pyval list \<Rightarrow> offered \<Rightarrow> offered res" where
  "offered_of [] offered = Inr offered"
| "offered_of (i # rest) offered =
     res_bind (py_get i ''server'') (\<lambda>server.
     res_bind (py_get i ''tool'') (\<lambda>tool.
     res_bind (py_get i ''may_invoke'') (\<lambda>may.
     res_bind (py_get i ''slug'') (\<lambda>slug.
     let pair = (py_str (py_or server (VStr [])), py_str (py_or tool (VStr [])));
         may = truthy may; slug = py_str (py_or slug (VStr []));
         before = (case map_of offered pair of None \<Rightarrow> False | Some (m, _) \<Rightarrow> m)
     in offered_of rest (AList.update pair (before \<or> may, slug) offered)))))"

definition token_key :: "'a world_scheme \<Rightarrow> string option \<Rightarrow> string" where
  "token_key w token = w_sha256 w (case token of None \<Rightarrow> [] | Some t \<Rightarrow> t)"

definition gate_offered :: "string option \<Rightarrow> (gateway, offered) prog" where
  "gate_offered token =
     bindM (getsM (\<lambda>w. token_key w token)) (\<lambda>key.
     bindM monotonic (\<lambda>now.
     bindM (getsM g_seen) (\<lambda>seen.
     case timed_fresh TTL seen key now of
       Some offered \<Rightarrow> ret offered
     | None \<Rightarrow>
         bindM (catchM (platform_operators token)
           (\<lambda>_. raise (HTTPException 503 (Detail ''cannot tell which tools need a grant'' [])))) (\<lambda>items.
         bindM (liftR (res_bind (py_list items) (\<lambda>xs. offered_of xs []))) (\<lambda>offered.
         bindM (modifyM (\<lambda>w. w\<lparr>g_seen := timed_keep TTL key now offered (g_seen w)\<rparr>)) (\<lambda>_. ret offered))))))"

definition gate_check :: "string \<Rightarrow> string \<Rightarrow> string option \<Rightarrow> (gateway, unit) prog" where
  "gate_check slug tool token =
     (if loose_uuid slug then ret ()
      else bindM (gate_offered token) (\<lambda>offered.
        case map_of offered (slug, tool) of
          Some (False, operator) \<Rightarrow>
            raise (HTTPException 403 (Detail ''{}.{} is the platform operator {!r}, which you may not invoke''
                     [VStr slug, VStr tool, VStr operator]))
        | _ \<Rightarrow> ret ()))"

section \<open>What the table says\<close>

text \<open>What one item of the answer is about, and what it says.\<close>

definition item_pair :: "pyval \<Rightarrow> string \<times> string" where
  "item_pair i = (case i of VDict d \<Rightarrow>
       (py_str (py_or (dget d ''server'') (VStr [])), py_str (py_or (dget d ''tool'') (VStr [])))
     | _ \<Rightarrow> ([], []))"

definition item_may :: "pyval \<Rightarrow> bool" where
  "item_may i = (case i of VDict d \<Rightarrow> truthy (dget d ''may_invoke'') | _ \<Rightarrow> False)"

lemma offered_of_Cons:
  "offered_of (i # rest) offered = Inr o' \<Longrightarrow> \<exists>slug.
     offered_of rest (AList.update (item_pair i)
       ((case map_of offered (item_pair i) of None \<Rightarrow> False | Some (m, _) \<Rightarrow> m) \<or> item_may i, slug) offered) = Inr o'"
  by (cases i) (auto simp: py_get_def item_pair_def item_may_def Let_def)

lemma offered_of_meaning:
  "offered_of items o0 = Inr offered \<Longrightarrow>
     (map_option fst (map_of offered p) =
        (if map_of o0 p = None \<and> p \<notin> item_pair ` set items then None
         else Some ((\<exists>s. map_of o0 p = Some (True, s)) \<or> (\<exists>i \<in> set items. item_pair i = p \<and> item_may i))))"
proof (induction items arbitrary: o0)
  case Nil
  then show ?case by (cases "map_of o0 p") auto
next
  case (Cons i items)
  from offered_of_Cons [OF Cons.prems] obtain slug where
    rest: "offered_of items (AList.update (item_pair i)
       ((case map_of o0 (item_pair i) of None \<Rightarrow> False | Some (m, _) \<Rightarrow> m) \<or> item_may i, slug) o0) = Inr offered"
    by blast
  show ?case
    using Cons.IH [OF rest] by (auto split: option.splits if_splits)
qed

section \<open>The invariant of the cache\<close>

text \<open>
  A kept table was read from an answer Mantle gave, after the clock read the time it is kept under,
  to a request with a bearer of that digest.
\<close>

definition operators_request :: "string option \<Rightarrow> request" where
  "operators_request token =
     mantle_request ''GET'' ''/artifacts/platform-operators'' VNone (mantle_headers token) VNone"

definition operators_in :: "response \<Rightarrow> pyval list res" where
  "operators_in r = (case rs_json r of None \<Rightarrow> Inl (ValueError ''json'')
     | Some v \<Rightarrow> res_bind (py_get (py_or v (VDict [])) ''items'') (\<lambda>items. py_list (py_or items (VList []))))"

definition vouched :: "gateway \<Rightarrow> string \<Rightarrow> rat \<Rightarrow> offered \<Rightarrow> bool" where
  "vouched w key t offered \<longleftrightarrow> (\<exists>before after token r items.
     w_trace w = before @ [EvClock t, EvHttp (operators_request token) (Some r)] @ after
     \<and> token_key w token = key \<and> rs_ok r \<and> operators_in r = Inr items \<and> offered_of items [] = Inr offered)"

definition gate_inv :: "gateway \<Rightarrow> bool" where
  "gate_inv w \<longleftrightarrow> timed.entries_ok TTL (vouched w) (g_seen w)"

lemma vouched_grows:
  "vouched w key t offered \<Longrightarrow> grows_by P w w' \<Longrightarrow> vouched w' key t offered"
  unfolding vouched_def grows_by_def same_outside_def token_key_def by fastforce

lemma gate_inv_grows: "gate_inv w \<Longrightarrow> grows_by P w w' \<Longrightarrow> g_seen w' = g_seen w \<Longrightarrow> gate_inv w'"
  unfolding gate_inv_def by (auto elim: timed.entries_ok_mono intro: vouched_grows)

lemma gate_inv_start: "gate_inv (start_gateway w types identity)"
  by (simp add: gate_inv_def start_gateway_def gateway.defs world.defs timed.entries_ok_none)

text \<open>The invariant is kept by every program, as a relation between worlds.\<close>

definition gate_rel :: "gateway \<Rightarrow> gateway \<Rightarrow> bool" where
  "gate_rel w w' \<longleftrightarrow> grows_by (\<lambda>_. True) w w' \<and> (gate_inv w \<longrightarrow> gate_inv w')"

interpretation gated: world_relation gate_rel
proof
  show "gate_rel w w" for w by (simp add: gate_rel_def grows.refl)
  show "gate_rel w w''" if "gate_rel w w'" "gate_rel w' w''" for w w' w''
    using that grows.trans [of "\<lambda>_. True"] unfolding gate_rel_def by blast
qed

lemma same_gateway_grows: "same_gateway w w' \<Longrightarrow> grows_by (\<lambda>_. True) w w' \<and> g_seen w' = g_seen w"
  by (auto simp: same_gateway_def grows_by_def same_outside_def)

lemma gated_stateless: "stateless.keeps m \<Longrightarrow> gated.keeps m"
  unfolding gated.keeps_def stateless.keeps_def gate_rel_def
  using same_gateway_grows gate_inv_grows by blast

text \<open>One look at the table, in full.\<close>

lemma platform_operators_run:
  "platform_operators token w =
     (let a = w_net w (w_trace w) (operators_request token) in
      ((case a of
         None \<Rightarrow> Inl TransportError
       | Some r \<Rightarrow> if \<not> rs_ok r then Inl (HTTPStatusError (rs_status r) ''/artifacts/platform-operators'')
           else (case rs_json r of None \<Rightarrow> Inl (ValueError ''json'')
             | Some v \<Rightarrow> res_bind (py_get (py_or v (VDict [])) ''items'') (\<lambda>items. Inr (py_or items (VList []))))),
      w\<lparr>w_trace := w_trace w @ [EvHttp (operators_request token) a]\<rparr>))"
  by (auto simp: platform_operators_def operators_request_def [symmetric] bindM_def http_run
      raise_for_status_def json_of_def py_get_def Let_def split: option.splits pyval.splits)

lemma gate_offered_cases:
  assumes "gate_offered token w = (x, w')"
  obtains (hit) offered now where "x = Inr offered" "timed_fresh TTL (g_seen w) (token_key w token) now = Some offered"
      "w' = w\<lparr>w_trace := w_trace w @ [EvClock now]\<rparr>" "now = w_clock w (w_trace w)"
  | (failed) e now a where "x = Inl e" "w' = w\<lparr>w_trace := w_trace w @ [EvClock now, EvHttp (operators_request token) a]\<rparr>"
      "now = w_clock w (w_trace w)"
  | (asked) offered now r items where "x = Inr offered" "rs_ok r" "operators_in r = Inr items" "offered_of items [] = Inr offered"
      "w' = w\<lparr>w_trace := w_trace w @ [EvClock now, EvHttp (operators_request token) (Some r)],
             g_seen := timed_keep TTL (token_key w token) now offered (g_seen w)\<rparr>"
      "now = w_clock w (w_trace w)"
      "w_net w (w_trace w @ [EvClock now]) (operators_request token) = Some r"
proof -
  define now where "now = w_clock w (w_trace w)"
  define w1 where "w1 = w\<lparr>w_trace := w_trace w @ [EvClock now]\<rparr>"
  define a where "a = w_net w (w_trace w1) (operators_request token)"
  have look: "monotonic w = (Inr now, w1)"
    by (simp add: monotonic_def now_def w1_def Let_def)
  have seen: "g_seen w1 = g_seen w" "token_key w1 token = token_key w token" "w_net w1 = w_net w"
    by (simp_all add: w1_def token_key_def)
  have tr: "w1\<lparr>w_trace := w_trace w1 @ [e]\<rparr> = w\<lparr>w_trace := w_trace w @ [EvClock now, e]\<rparr>" for e
    by (simp add: w1_def)
  show thesis
  proof (cases "timed_fresh TTL (g_seen w) (token_key w token) now")
    case (Some offered)
    have "gate_offered token w = (Inr offered, w1)"
      using Some by (simp add: gate_offered_def bindM_def look seen)
    then show ?thesis using assms Some by (intro hit) (simp_all add: w1_def now_def)
  next
    case None
    let ?asked = "platform_operators token w1"
    let ?w2 = "w\<lparr>w_trace := w_trace w @ [EvClock now, EvHttp (operators_request token) a]\<rparr>"
    have world: "snd ?asked = ?w2"
      by (simp add: platform_operators_run Let_def a_def seen tr)
    show ?thesis
    proof (cases "fst ?asked")
      case (Inl e)
      then have "gate_offered token w =
          (Inl (HTTPException 503 (Detail ''cannot tell which tools need a grant'' [])), ?w2)"
        using None world prog_at [of "platform_operators token", OF Inl]
        by (simp add: gate_offered_def bindM_def catchM_def look seen)
      with assms show ?thesis by (intro failed) (auto simp: now_def)
    next
      case (Inr v)
      then obtain r where r: "a = Some r" "rs_ok r" and ops: "operators_in r = py_list v"
        by (auto simp: platform_operators_run Let_def a_def [symmetric] seen operators_in_def res_bind_eq_Inr
            split: option.splits if_splits)
      let ?o = "res_bind (py_list v) (\<lambda>xs. offered_of xs [])"
      have run: "gate_offered token w = (case ?o of Inl e \<Rightarrow> (Inl e, ?w2)
          | Inr offered \<Rightarrow> (Inr offered, ?w2\<lparr>g_seen := timed_keep TTL (token_key w token) now offered (g_seen w)\<rparr>))"
        using None world prog_at [of "platform_operators token", OF Inr]
        by (simp add: gate_offered_def bindM_def catchM_def look seen split: sum.splits)
      show ?thesis
      proof (cases ?o)
        case (Inl e)
        with run assms show ?thesis by (intro failed) (auto simp: now_def)
      next
        case (Inr offered)
        then obtain items where "operators_in r = Inr items" "offered_of items [] = Inr offered"
          using ops by (auto simp: res_bind_eq_Inr)
        then show ?thesis using run assms Inr r by (intro asked) (auto simp: now_def a_def w1_def)
      qed
    qed
  qed
qed


lemma token_key_grows: "grows_by P w w' \<Longrightarrow> token_key w' token = token_key w token"
  by (simp add: grows_by_def same_outside_def token_key_def)

lemma gated_offered: "gated.keeps (gate_offered token)"
proof (rule gated.keepsI)
  fix w x w' assume "gate_offered token w = (x, w')"
  then show "gate_rel w w'"
  proof (cases rule: gate_offered_cases)
    case (hit offered now)
    then show ?thesis
      using gated_stateless [OF stateless_prims(2)] gate_inv_grows [of w "\<lambda>_. True" w']
      by (auto simp: gate_rel_def grows_by_def same_outside_def)
  next
    case (failed e now a)
    then show ?thesis
      using gate_inv_grows [of w "\<lambda>_. True" w'] by (auto simp: gate_rel_def grows_by_def same_outside_def)
  next
    case (asked offered now r items)
    have grows: "grows_by (\<lambda>_. True) w w'"
      using asked by (simp add: grows_by_def same_outside_def)
    have "vouched w' (token_key w token) now offered"
      using asked token_key_grows [OF grows, of token] unfolding vouched_def by force
    moreover have "timed.entries_ok TTL (vouched w') (g_seen w)" if "gate_inv w"
      using that vouched_grows [OF _ grows] unfolding gate_inv_def by (rule timed.entries_ok_mono)
    ultimately have "gate_inv w'" if "gate_inv w"
      using that asked by (simp add: gate_inv_def timed.entries_ok_keep)
    with grows show ?thesis by (simp add: gate_rel_def)
  qed
qed

lemma gated_check: "gated.keeps (gate_check slug tool token)"
  unfolding gate_check_def
  by (intro gated.keeps_if gated.keeps_basic gated.keeps_bind gated_offered)
    (auto split: option.splits prod.splits bool.splits intro!: gated.keeps_basic)

lemma grows_keeps_offered:
  assumes "\<And>t. P (EvClock t)" and "\<And>a. P (EvHttp (operators_request token) a)"
  shows "grows.keeps P (gate_offered token)"
proof (rule grows.keepsI)
  fix w x w' assume "gate_offered token w = (x, w')"
  then show "grows_by P w w'"
    by (cases rule: gate_offered_cases) (simp_all add: grows_by_def same_outside_def assms)
qed

lemma grows_keeps_check:
  assumes "\<And>t. P (EvClock t)" and "\<And>a. P (EvHttp (operators_request token) a)"
  shows "grows.keeps P (gate_check slug tool token)"
  unfolding gate_check_def
  by (intro grows_keeps_intros grows_keeps_offered assms)
    (auto split: option.splits prod.splits bool.splits intro!: grows_keeps_intros)

lemma reads_operators: "reads (EvHttp (operators_request token) a)" "carries token (EvHttp (operators_request token) a)"
  by (simp_all add: operators_request_def reads_mantle carries_mantle)

text \<open>What clears a tool at the time \<open>now\<close>: an answer Mantle gave to a request with a bearer of the
  caller's digest, asked right after the clock read a time less than \<open>TTL\<close> before \<open>now\<close>, in which no
  operator runs the tool, or one that may be invoked does.\<close>

definition clears :: "gateway \<Rightarrow> rat \<Rightarrow> string option \<Rightarrow> string \<Rightarrow> string \<Rightarrow> bool" where
  "clears w now token slug tool \<longleftrightarrow> (\<exists>t offered before after token' r items.
     now - t < TTL
     \<and> w_trace w = before @ [EvClock t, EvHttp (operators_request token') (Some r)] @ after
     \<and> token_key w token' = token_key w token \<and> rs_ok r \<and> operators_in r = Inr items \<and> offered_of items [] = Inr offered
     \<and> ((slug, tool) \<notin> item_pair ` set items \<or> (\<exists>i \<in> set items. item_pair i = (slug, tool) \<and> item_may i)))"

lemma offered_clear:
  assumes "offered_of items [] = Inr offered" and "\<forall>op. map_of offered p \<noteq> Some (False, op)"
  shows "p \<notin> item_pair ` set items \<or> (\<exists>i \<in> set items. item_pair i = p \<and> item_may i)"
  using offered_of_meaning [OF assms(1), of p] assms(2)
  by (cases "map_of offered p") (auto split: if_splits)

lemma clearsI:
  assumes "vouched w (token_key w token) t offered" and "now - t < TTL"
    and pass: "\<forall>op. map_of offered (slug, tool) \<noteq> Some (False, op)"
  shows "clears w now token slug tool"
proof -
  from assms(1) obtain before after token' r items where
    a: "w_trace w = before @ [EvClock t, EvHttp (operators_request token') (Some r)] @ after"
      "token_key w token' = token_key w token" "rs_ok r" "operators_in r = Inr items"
    and o: "offered_of items [] = Inr offered"
    unfolding vouched_def by blast
  from offered_clear [OF o pass] a o assms(2) show ?thesis unfolding clears_def by blast
qed

lemma gate_offered_clears:
  assumes inv: "gate_inv w" and run: "gate_offered token w = (Inr offered, w')"
    and pass: "\<forall>op. map_of offered (slug, tool) \<noteq> Some (False, op)"
  shows "clears w' (w_clock w (w_trace w)) token slug tool"
  using run
proof (cases rule: gate_offered_cases)
  case (hit offered' now)
  with inv obtain t where "vouched w (token_key w token) t offered" and fresh: "now - t < TTL"
    using timed.entries_okD unfolding gate_inv_def by fast
  moreover have grows: "grows_by (\<lambda>_. True) w w'" using hit by (simp add: grows_by_def same_outside_def)
  ultimately have "vouched w' (token_key w' token) t offered"
    unfolding token_key_grows [OF grows] by (blast intro: vouched_grows)
  then show ?thesis using fresh pass unfolding hit(4) by (rule clearsI)
next
  case (asked offered' now r items)
  have "token_key w' token = token_key w token" by (simp add: asked token_key_def)
  with asked have "vouched w' (token_key w' token) now offered"
    unfolding vouched_def by (intro exI [of _ "w_trace w"] exI [of _ "[]"] exI [of _ token] exI [of _ r] exI [of _ items]) simp
  then show ?thesis unfolding asked(6) by (rule clearsI [OF _ _ pass]) (simp add: TTL_def)
qed auto

lemma gate_check_cases:
  assumes "gate_check slug tool token w = (Inr (), w')"
  obtains (id) "loose_uuid slug" "w' = w"
  | (clear) offered where "\<not> loose_uuid slug" "gate_offered token w = (Inr offered, w')"
      "\<forall>op. map_of offered (slug, tool) \<noteq> Some (False, op)"
proof (cases "loose_uuid slug")
  case False
  with assms have "bindM (gate_offered token) (\<lambda>offered. case map_of offered (slug, tool) of
      Some (False, operator) \<Rightarrow>
        raise (HTTPException 403 (Detail ''{}.{} is the platform operator {!r}, which you may not invoke''
          [VStr slug, VStr tool, VStr operator]))
    | _ \<Rightarrow> ret ()) w = (Inr (), w')" by (simp add: gate_check_def)
  then show ?thesis
  proof (cases rule: bindM_E)
    case (returned offered w1)
    then show ?thesis using False by (intro clear) (auto split: option.splits prod.splits bool.splits)
  qed simp
qed (use assms id in \<open>simp add: gate_check_def\<close>)

lemma gate_offered_reads_clock:
  "gate_offered token w = (x, w') \<Longrightarrow> \<exists>es. w_trace w' = w_trace w @ EvClock (w_clock w (w_trace w)) # es"
  by (erule gate_offered_cases) auto

lemma gate_check_sound':
  assumes "gate_inv w" and "gate_check slug tool token w = (Inr (), w')" and "\<not> loose_uuid slug"
  shows "clears w' (w_clock w (w_trace w)) token slug tool \<and> gate_inv w'
    \<and> (\<exists>es. w_trace w' = w_trace w @ EvClock (w_clock w (w_trace w)) # es)"
  using assms(2)
proof (cases rule: gate_check_cases)
  case (clear offered)
  then show ?thesis
    using gate_offered_clears [OF assms(1)] gated.keepsD [OF gated_check assms(2)] assms(1)
      gate_offered_reads_clock
    by (simp add: gate_rel_def)
qed (use assms in simp)

section \<open>Properties\<close>

text \<open>C40: the gate is closed unless Mantle opened it, and what Mantle said is good for \<open>TTL\<close>. In any
  state the gateway reaches, a check that passes (for a server that is not named by an id) read the
  clock, and rests on an answer Mantle gave to a bearer with the caller's digest, asked less than 30
  seconds before that very reading, in which no operator runs the tool or one that does may be
  invoked; and the check keeps the cache that way.\<close>

theorem gate_check_sound:
  assumes "gate_inv w" and "gate_check slug tool token w = (Inr (), w')" and "\<not> loose_uuid slug"
  shows "clears w' (w_clock w (w_trace w)) token slug tool \<and> gate_inv w'
    \<and> (\<exists>es. w_trace w' = w_trace w @ EvClock (w_clock w (w_trace w)) # es)"
  using assms by (rule gate_check_sound')

text \<open>The gateway of the examples: started, with Mantle answering every request alike.\<close>

definition ex_gateway :: "(request \<Rightarrow> response option) \<Rightarrow> gateway" where
  "ex_gateway net = start_gateway (ex_world net) ex_registry None"

definition ex_operators :: pyval where
  "ex_operators = VDict [(''items'', VList
     [VDict [(''server'', VStr ''ledger''), (''tool'', VStr ''reconcile''), (''may_invoke'', VBool False), (''slug'', VStr ''a'')],
      VDict [(''server'', VStr ''ledger''), (''tool'', VStr ''inbox''), (''may_invoke'', VBool True), (''slug'', VStr ''b'')]])]"

lemma ex_gateway_inv: "gate_inv (ex_gateway net)"
  unfolding ex_gateway_def by (rule gate_inv_start)

theorem gate_check_sound_witness:
  "\<exists>w'. gate_check ''ledger'' ''inbox'' (Some ''t'') (ex_gateway (\<lambda>_. Some (reply 200 ex_operators))) = (Inr (), w')
     \<and> clears w' 0 (Some ''t'') ''ledger'' ''inbox''"
proof -
  let ?m = "gate_check ''ledger'' ''inbox'' (Some ''t'')" and ?w = "ex_gateway (\<lambda>_. Some (reply 200 ex_operators))"
  have "fst (?m ?w) = Inr ()" by code_simp
  then have run: "?m ?w = (Inr (), snd (?m ?w))" by (rule prog_at)
  have "\<not> loose_uuid ''ledger''" by code_simp
  note sound = gate_check_sound [OF ex_gateway_inv run this]
  have "w_clock ?w (w_trace ?w) = 0" by code_simp
  with sound run show ?thesis by auto
qed

text \<open>the gate fails closed. When nothing fresh is kept, Mantle not answering or answering with
  an error is a 503, and an operator the caller may not invoke is a 403: the check never passes.\<close>

theorem gate_check_fails_closed:
  assumes "\<not> loose_uuid slug" and "timed_fresh TTL (g_seen w) (token_key w token) (w_clock w (w_trace w)) = None"
  defines "a \<equiv> w_net w (w_trace w @ [EvClock (w_clock w (w_trace w))]) (operators_request token)"
  shows "(a = None \<longrightarrow> (\<exists>d. fst (gate_check slug tool token w) = Inl (HTTPException 503 d)))
    \<and> (\<forall>r. a = Some r \<and> \<not> rs_ok r \<longrightarrow> (\<exists>d. fst (gate_check slug tool token w) = Inl (HTTPException 503 d)))
    \<and> (\<forall>r items i. a = Some r \<and> rs_ok r \<and> operators_in r = Inr items \<and> i \<in> set items
         \<and> item_pair i = (slug, tool) \<and> (\<forall>i \<in> set items. item_pair i = (slug, tool) \<longrightarrow> \<not> item_may i)
       \<longrightarrow> fst (gate_check slug tool token w) \<noteq> Inr ())"
proof -
  let ?now = "w_clock w (w_trace w)"
  let ?w1 = "w\<lparr>w_trace := w_trace w @ [EvClock ?now]\<rparr>"
  have look: "monotonic w = (Inr ?now, ?w1)" by (simp add: monotonic_def Let_def)
  have miss: "timed_fresh TTL (g_seen ?w1) (token_key ?w1 token) ?now = None"
    using assms(2) by (simp add: token_key_def)
  have net: "w_net ?w1 (w_trace ?w1) (operators_request token) = a" by (simp add: a_def)
  have "\<exists>d. fst (gate_check slug tool token w) = Inl (HTTPException 503 d)"
    if "a = None \<or> (\<exists>r. a = Some r \<and> \<not> rs_ok r)"
  proof -
    have "\<exists>e w2. platform_operators token ?w1 = (Inl e, w2)"
      using that net by (auto simp: platform_operators_run Let_def)
    then have "\<exists>w2. gate_offered token w =
        (Inl (HTTPException 503 (Detail ''cannot tell which tools need a grant'' [])), w2)"
      using look miss assms(2) by (auto simp: gate_offered_def bindM_def catchM_def token_key_def)
    then show ?thesis using assms(1) by (auto simp: gate_check_def bindM_def)
  qed
  moreover have "fst (gate_check slug tool token w) \<noteq> Inr ()"
    if r: "a = Some r" "operators_in r = Inr items" and i: "i \<in> set items" "item_pair i = (slug, tool)"
      and no: "\<forall>i \<in> set items. item_pair i = (slug, tool) \<longrightarrow> \<not> item_may i" for r items i
  proof
    assume "fst (gate_check slug tool token w) = Inr ()"
    then have "gate_check slug tool token w = (Inr (), snd (gate_check slug tool token w))" by (rule prog_at)
    then obtain offered w' where run: "gate_offered token w = (Inr offered, w')"
      and pass: "\<forall>op. map_of offered (slug, tool) \<noteq> Some (False, op)"
      using assms(1) by (auto elim: gate_check_cases)
    from run show False
    proof (cases rule: gate_offered_cases)
      case (hit offered' now)
      then show ?thesis using assms(2) by simp
    next
      case (asked offered' now r' items')
      then have "items' = items" using r by (simp add: a_def)
      then show ?thesis using offered_clear [OF asked(4), of "(slug, tool)"] asked(1) pass i no by force
    qed auto
  qed
  ultimately show ?thesis by blast
qed

theorem gate_check_fails_closed_witness:
  "(\<exists>d. fst (gate_check ''ledger'' ''inbox'' None (ex_gateway (\<lambda>_. None))) = Inl (HTTPException 503 d))
   \<and> fst (gate_check ''ledger'' ''reconcile'' None (ex_gateway (\<lambda>_. Some (reply 200 ex_operators)))) \<noteq> Inr ()"
proof
  have name: "\<not> loose_uuid ''ledger''" by code_simp
  have "timed_fresh TTL (g_seen (ex_gateway net)) k n = None" for net k n
    by (simp add: ex_gateway_def start_gateway_def gateway.defs world.defs timed.fresh_none)
  note closed = gate_check_fails_closed [OF name this, where token = None]
  show "\<exists>d. fst (gate_check ''ledger'' ''inbox'' None (ex_gateway (\<lambda>_. None))) = Inl (HTTPException 503 d)"
    using closed [of "\<lambda>_. None" "''inbox''"]
    by (simp add: ex_gateway_def start_gateway_def ex_world_def gateway.defs world.defs)
  let ?item = "VDict [(''server'', VStr ''ledger''), (''tool'', VStr ''reconcile''), (''may_invoke'', VBool False), (''slug'', VStr ''a'')]"
  have ops: "\<exists>items. operators_in (reply 200 ex_operators) = Inr items \<and> ?item \<in> set items
      \<and> (\<forall>i \<in> set items. item_pair i = (''ledger'', ''reconcile'') \<longrightarrow> \<not> item_may i)"
    by (simp add: operators_in_def reply_def ex_operators_def py_or_def py_get_def dget_def py_list_def item_pair_def item_may_def)
  have pair: "item_pair ?item = (''ledger'', ''reconcile'')" by code_simp
  have net: "w_net (ex_gateway (\<lambda>_. Some (reply 200 ex_operators))) tr q = Some (reply 200 ex_operators)" for tr q
    by (simp add: ex_gateway_def start_gateway_def ex_world_def gateway.defs world.defs)
  have "rs_ok (reply 200 ex_operators)" by (simp add: reply_def)
  then show "fst (gate_check ''ledger'' ''reconcile'' None (ex_gateway (\<lambda>_. Some (reply 200 ex_operators)))) \<noteq> Inr ()"
    using closed [of "\<lambda>_. Some (reply 200 ex_operators)" "''reconcile''"] ops pair
    unfolding net by blast
qed

text \<open>two operators on one tool: the table read from an answer has exactly the tools the items
  name, and a tool is cleared when any one of the operators on it may be invoked.\<close>

theorem either_grant_clears:
  assumes "offered_of items [] = Inr offered"
  shows "map_option fst (map_of offered p) =
    (if p \<in> item_pair ` set items then Some (\<exists>i \<in> set items. item_pair i = p \<and> item_may i) else None)"
  using offered_of_meaning [OF assms, of p] by simp

theorem either_grant_clears_witness:
  "\<exists>offered. offered_of [VDict [(''server'', VStr ''s''), (''tool'', VStr ''t''), (''may_invoke'', VBool True)],
                     VDict [(''server'', VStr ''s''), (''tool'', VStr ''t'')]] [] = Inr offered
     \<and> map_option fst (map_of offered (''s'', ''t'')) = Some True"
proof -
  let ?items = "[VDict [(''server'', VStr ''s''), (''tool'', VStr ''t''), (''may_invoke'', VBool True)],
                 VDict [(''server'', VStr ''s''), (''tool'', VStr ''t'')]]"
  have "offered_of ?items [] = Inr [((''s'', ''t''), True, [])]" by code_simp
  note run = this
  have "map_option fst (map_of [((''s'', ''t''), True, ([] :: string))] (''s'', ''t'')) = Some True"
    unfolding either_grant_clears [OF run, of "(''s'', ''t'')"] by code_simp
  with run show ?thesis by blast
qed

end
