(* ===== verification/Personas.thy ===== *)
theory Personas
  imports Operator_Gate
begin

text \<open>
  \<open>src/src/crystal/personas.py\<close>: the personas by name. \<open>_call\<close> and \<open>_relay\<close> call each
  other once at most, since the relay's own name is not an id (\<open>relay_name_not_uuid\<close>); the inner
  call is \<open>persona_direct\<close>. \<open>list\<close> gathers the descriptions concurrently; here they are taken
  in the order of the slugs.
\<close>

definition RELAY :: string where
  "RELAY = ''iris''"

definition is_hex :: "char \<Rightarrow> bool" where
  "is_hex c \<longleftrightarrow> is_digit c \<or> (65 \<le> code c \<and> code c \<le> 70) \<or> (97 \<le> code c \<and> code c \<le> 102)"

text \<open>\<open>^[0-9a-f]{8}-[0-9a-f]{4}-[0-9a-f]{4}-[0-9a-f]{4}-[0-9a-f]{12}$\<close>, in either case.\<close>

definition strict_uuid :: "string \<Rightarrow> bool" where
  "strict_uuid s \<longleftrightarrow> (let parts = py_split (CHR ''-'') (before_newline s) in
     map length parts = [8, 4, 4, 4, 12] \<and> list_all (list_all is_hex) parts)"

definition persona_endpoint :: "string \<Rightarrow> (gateway, string) prog" where
  "persona_endpoint slug = bindM (getsM g_topology) (\<lambda>topo.
     case topology_resolve topo slug of
       None \<Rightarrow> raise (HTTPException 503
         (Detail ''The {} server is not running (not registered with the gateway)'' [VStr slug]))
     | Some rec \<Rightarrow> ret (sr_endpoint rec))"

definition persona_failure :: "string \<Rightarrow> string \<Rightarrow> exc \<Rightarrow> exc" where
  "persona_failure slug mthd e = (case e of
       HTTPStatusError status url \<Rightarrow>
         if status = 401 \<or> status = 403
         then HTTPException status (Detail ''{} refused {}'' [VStr slug, VStr mthd])
         else HTTPException 502 (Detail ''{} answered {} with {}'' [VStr slug, VStr mthd, VInt status])
     | TransportError \<Rightarrow> HTTPException 503 (Detail ''The {} server is not running'' [VStr slug])
     | _ \<Rightarrow> e)"

definition persona_direct :: "string \<Rightarrow> string \<Rightarrow> pyval \<Rightarrow> string option \<Rightarrow> (gateway, pyval) prog" where
  "persona_direct slug mthd params token =
     bindM (persona_endpoint slug) (\<lambda>endpoint.
     catchM (mcp_request endpoint mthd params token) (\<lambda>e. raise (persona_failure slug mthd e)))"

text \<open>\<open>((answer or {}).get("content") or [{}])[0].get("text") or "{}"\<close>.\<close>

definition first_text :: "pyval \<Rightarrow> pyval res" where
  "first_text answer =
     res_bind (py_get (py_or answer (VDict [])) ''content'') (\<lambda>content.
     res_bind (case py_or content (VList [VDict []]) of
         VList (x # _) \<Rightarrow> Inr x
       | VStr (c # _) \<Rightarrow> Inr (VStr [c])
       | VDict _ \<Rightarrow> Inl (KeyError ''0'')
       | _ \<Rightarrow> Inl (TypeError ''not subscriptable'')) (\<lambda>first.
     res_bind (py_get first ''text'') (\<lambda>text. Inr (py_or text (VStr ''{}'')))))"

definition relay_result :: "(string \<Rightarrow> pyval option) \<Rightarrow> pyval \<Rightarrow> pyval res" where
  "relay_result loads answer =
     res_bind (first_text answer) (\<lambda>text.
     case text of
       VStr t \<Rightarrow>
         (case loads t of
            None \<Rightarrow> Inl (HTTPException 502 (Detail ''{} answered: {}'' [VStr RELAY, VStr (take 200 t)]))
          | Some payload \<Rightarrow>
              res_bind (py_in ''error'' payload) (\<lambda>failed.
              if failed then
                res_bind (py_get payload ''status'') (\<lambda>st.
                res_bind (py_int (py_or st (VInt 502))) (\<lambda>status.
                res_bind (py_subscript payload ''error'') (\<lambda>err.
                if status = 503
                then Inl (HTTPException 503 (Detail ''The server is not reachable: {}'' [err]))
                else Inl (HTTPException status (Detail ''{}'' [err])))))
              else res_bind (py_get payload ''result'') (\<lambda>r. Inr (py_or r (VDict [])))))
     | _ \<Rightarrow> Inl (TypeError ''json''))"

definition relay_params :: "string \<Rightarrow> string \<Rightarrow> pyval \<Rightarrow> pyval" where
  "relay_params server_id mthd params = VDict [(''name'', VStr ''call_mcp_server''),
     (''arguments'', VDict [(''server_artifact_id'', VStr server_id), (''method'', VStr mthd),
                            (''params'', py_or params (VDict []))])]"

definition persona_relay :: "string \<Rightarrow> string \<Rightarrow> pyval \<Rightarrow> string option \<Rightarrow> (gateway, pyval) prog" where
  "persona_relay server_id mthd params token =
     bindM (persona_direct RELAY ''tools/call'' (relay_params server_id mthd params) token) (\<lambda>answer.
     bindM (getsM w_loads) (\<lambda>loads. liftR (relay_result loads answer)))"

definition persona_call :: "string \<Rightarrow> string \<Rightarrow> pyval \<Rightarrow> string option \<Rightarrow> (gateway, pyval) prog" where
  "persona_call slug mthd params token = bindM (getsM g_topology) (\<lambda>topo.
     if topology_resolve topo slug = None \<and> strict_uuid slug
     then persona_relay slug mthd params token
     else persona_direct slug mthd params token)"

text \<open>\<open>v[0]\<close> on a value that is not empty.\<close>

definition py_first :: "pyval \<Rightarrow> pyval res" where
  "py_first v = (case v of
       VList (x # _) \<Rightarrow> Inr x
     | VStr (c # _) \<Rightarrow> Inr (VStr [c])
     | VDict _ \<Rightarrow> Inl (KeyError ''0'')
     | _ \<Rightarrow> Inl (TypeError ''not subscriptable''))"

definition resource_info :: "string \<Rightarrow> string \<Rightarrow> pyval \<Rightarrow> pyval res" where
  "resource_info slug uri result =
     res_bind (py_get (py_or result (VDict [])) ''contents'') (\<lambda>contents.
     let contents = py_or contents (VList []) in
     if \<not> truthy contents
     then Inl (HTTPException 404 (Detail ''{} has no resource {}'' [VStr slug, VStr uri]))
     else res_bind (py_first contents) (\<lambda>c. res_bind (py_items c) (\<lambda>d.
       Inr (VDict [(''uri'', case map_of d ''uri'' of None \<Rightarrow> VStr uri | Some u \<Rightarrow> u),
                   (''name'', py_or (dget d ''name'') (VStr uri)),
                   (''mimeType'', dget d ''mimeType''), (''text'', dget d ''text''),
                   (''blob'', dget d ''blob'')]))))"

definition read_resource :: "string \<Rightarrow> string \<Rightarrow> string option \<Rightarrow> (gateway, pyval) prog" where
  "read_resource slug uri token =
     bindM (persona_call slug ''resources/read'' (VDict [(''uri'', VStr uri)]) token) (\<lambda>result.
     liftR (resource_info slug uri result))"

definition persona_call_tool :: "string \<Rightarrow> string \<Rightarrow> pyval \<Rightarrow> string option \<Rightarrow> (gateway, pyval) prog" where
  "persona_call_tool slug name arguments token =
     persona_call slug ''tools/call''
       (VDict [(''name'', VStr name), (''arguments'', py_or arguments (VDict []))]) token"

text \<open>The text of an error, as a value: its template and what is interpolated.\<close>

definition detail_val :: "detail \<Rightarrow> pyval" where
  "detail_val d = (case d of Detail template args \<Rightarrow> VList (VStr template # args))"

definition tool_info :: "pyval \<Rightarrow> pyval list res" where
  "tool_info t = res_bind (py_items t) (\<lambda>d.
     Inr (if truthy (dget d ''name'')
          then [VDict [(''name'', dget d ''name''), (''description'', dget d ''description''),
                       (''input_schema'', dget d ''inputSchema'')]]
          else []))"

definition resource_entry :: "pyval \<Rightarrow> pyval list res" where
  "resource_entry r = res_bind (py_items r) (\<lambda>d.
     Inr (if truthy (dget d ''uri'')
          then [VDict [(''id'', dget d ''uri''), (''kind'', VStr ''resource''), (''uri'', dget d ''uri''),
                       (''title'', py_or (dget d ''title'') (dget d ''name'')),
                       (''content_type'', dget d ''mimeType'')]]
          else []))"

definition listed :: "string \<Rightarrow> (pyval \<Rightarrow> pyval list res) \<Rightarrow> pyval \<Rightarrow> pyval res" where
  "listed key info v =
     res_bind (py_get (py_or v (VDict [])) key) (\<lambda>xs.
     res_bind (py_list (py_or xs (VList []))) (\<lambda>xs.
     res_bind (res_map info xs) (\<lambda>infos. Inr (VList (concat infos)))))"

definition server_info :: "string \<Rightarrow> pyval \<Rightarrow> pyval \<Rightarrow> pyval dict \<Rightarrow> pyval" where
  "server_info slug tools resources rest =
     VDict ([(''server'', VStr slug), (''name'', VStr slug), (''tools'', tools), (''resources'', resources),
             (''prompts'', VList [])] @ rest)"

definition persona_describe :: "string \<Rightarrow> string option \<Rightarrow> (gateway, pyval) prog" where
  "persona_describe slug token =
     bindM (catchM
       (bindM (persona_call slug ''tools/list'' (VDict []) token) (\<lambda>tools.
        bindM (persona_call slug ''resources/list'' (VDict []) token) (\<lambda>resources.
        ret (Inr (tools, resources)))))
       (\<lambda>e. case e of HTTPException status d \<Rightarrow> ret (Inl d) | _ \<Rightarrow> raise e)) (\<lambda>answer.
     case answer of
       Inl d \<Rightarrow> ret (server_info slug (VList []) (VList [])
                      [(''status'', VStr ''down''), (''error'', detail_val d)])
     | Inr (tools, resources) \<Rightarrow>
         liftR (res_bind (listed ''tools'' tool_info tools) (\<lambda>ts.
                res_bind (listed ''resources'' resource_entry resources) (\<lambda>rs.
                Inr (server_info slug ts rs [(''status'', VStr ''ok'')])))))"

definition persona_list :: "string option \<Rightarrow> (gateway, pyval list) prog" where
  "persona_list token = bindM (getsM g_topology) (\<lambda>topo.
     forM (\<lambda>slug acc. bindM (persona_describe slug token) (\<lambda>d. ret (acc @ [d]))) (topology_known topo) [])"

section \<open>Whose servers are reached, and as whom\<close>

lemma relay_name_not_uuid: "\<not> strict_uuid RELAY"
  by code_simp

lemma persona_call_RELAY: "persona_call RELAY = persona_direct RELAY"
  by (simp add: fun_eq_iff persona_call_def relay_name_not_uuid)

lemma stateless_direct: "stateless.keeps (persona_direct slug mthd params token)"
  unfolding persona_direct_def persona_endpoint_def
  by (intro stateless_intros stateless_mcp) (auto split: option.splits intro!: stateless_intros)

lemma stateless_persona:
  "stateless.keeps (persona_call slug mthd params token)"
  "stateless.keeps (read_resource slug uri token)"
  "stateless.keeps (persona_call_tool slug name args token)"
  "stateless.keeps (persona_describe slug token)"
proof -
  show call: "stateless.keeps (persona_call slug mthd params token)" for mthd params
    unfolding persona_call_def persona_relay_def by (intro stateless_intros stateless_direct)
  show "stateless.keeps (read_resource slug uri token)" "stateless.keeps (persona_call_tool slug name args token)"
    unfolding read_resource_def persona_call_tool_def by (intro stateless_intros call)+
  show "stateless.keeps (persona_describe slug token)"
    unfolding persona_describe_def
    by (intro stateless_intros call) (auto split: exc.splits sum.splits prod.splits intro!: stateless_intros)
qed

text \<open>An event that reaches only the endpoint of a registered persona, as the caller.\<close>

definition reaches :: "topology \<Rightarrow> string option \<Rightarrow> string \<Rightarrow> event \<Rightarrow> bool" where
  "reaches topo token slug e \<longleftrightarrow> carries token e \<and> (case e of
       EvHttp q a \<Rightarrow> (\<exists>rec. topology_resolve topo slug = Some rec \<and> rq_peer q = Persona (sr_endpoint rec))
     | _ \<Rightarrow> False)"

lemma direct_reaches:
  assumes "persona_direct slug mthd params token w = (x, w')"
  shows "grows_by (reaches (g_topology w) token slug) w w'"
proof (cases "topology_resolve (g_topology w) slug")
  case None
  with assms show ?thesis
    by (simp add: persona_direct_def persona_endpoint_def bindM_def grows.refl)
next
  case (Some rec)
  let ?P = "reaches (g_topology w) token slug"
  have "grows.keeps ?P (catchM (mcp_request (sr_endpoint rec) mthd params token)
      (\<lambda>e. raise (persona_failure slug mthd e)))"
    using Some by (intro grows_keeps_intros mcp_keeps) (simp add: reaches_def carries_def mcp_post_def)
  from grows.keepsD [OF this, of w x w'] show ?thesis
    using assms Some by (simp add: persona_direct_def persona_endpoint_def bindM_def)
qed

text \<open>The registered persona a call for \<open>slug\<close> goes to: itself, or the relay for an id.\<close>

definition route_of :: "topology \<Rightarrow> string \<Rightarrow> string" where
  "route_of topo slug = (if topology_resolve topo slug = None \<and> strict_uuid slug then RELAY else slug)"

lemma call_reaches:
  assumes "persona_call slug mthd params token w = (x, w')"
  shows "grows_by (reaches (g_topology w) token (route_of (g_topology w) slug)) w w'"
proof (cases "topology_resolve (g_topology w) slug = None \<and> strict_uuid slug")
  case True
  then have "persona_relay slug mthd params token w = (x, w')"
    using assms by (simp add: persona_call_def)
  then show ?thesis
    unfolding persona_relay_def route_of_def using True
    by (elim bindM_E) (auto dest: direct_reaches)
next
  case False
  then have "persona_direct slug mthd params token w = (x, w')"
    using assms unfolding persona_call_def by (simp only: bindM_prims if_False)
  then show ?thesis using False unfolding route_of_def by (simp only: if_False direct_reaches)
qed

section \<open>Properties\<close>

text \<open>a call for a name reaches nothing but the registered endpoint of that persona, or of the
  relay when the name is the id of a person's server; every request carries the caller's bearer and
  no other credential; and the gateway's own state is untouched.\<close>

theorem persona_call_reaches:
  "\<exists>es. w_trace (snd (persona_call slug mthd params token w)) = w_trace w @ es
     \<and> list_all (reaches (g_topology w) token (route_of (g_topology w) slug)) es
     \<and> snd (persona_call slug mthd params token w) = w\<lparr>w_trace := w_trace w @ es\<rparr>"
proof -
  let ?r = "persona_call slug mthd params token w"
  have "grows_by (reaches (g_topology w) token (route_of (g_topology w) slug)) w (snd ?r)"
    by (rule call_reaches [of _ _ _ _ _ "fst ?r"]) simp
  moreover have "same_gateway w (snd ?r)"
    using stateless_persona(1) unfolding stateless.keeps_def by blast
  ultimately show ?thesis
    by (auto simp: grows_by_def same_gateway_def list_all_iff)
qed

text \<open>how a persona's failure is reported: an unregistered name is a 503 and no request is
  made; no answer is a 503; a refusal (401, 403) is passed on; any other error status is a 502.\<close>

theorem persona_call_failures:
  assumes "topology_resolve (g_topology w) slug = None \<longrightarrow> \<not> strict_uuid slug"
  shows "(topology_resolve (g_topology w) slug = None \<longrightarrow>
       persona_call slug mthd params token w = (Inl (HTTPException 503
         (Detail ''The {} server is not running (not registered with the gateway)'' [VStr slug])), w))
    \<and> (\<forall>rec e. topology_resolve (g_topology w) slug = Some rec
         \<and> fst (mcp_request (sr_endpoint rec) mthd params token w) = Inl e \<longrightarrow>
       fst (persona_call slug mthd params token w) = Inl (persona_failure slug mthd e))
    \<and> (\<forall>status url. persona_failure slug mthd (HTTPStatusError status url)
         = HTTPException (if status \<in> {401, 403} then status else 502)
             (if status \<in> {401, 403} then Detail ''{} refused {}'' [VStr slug, VStr mthd]
              else Detail ''{} answered {} with {}'' [VStr slug, VStr mthd, VInt status]))
    \<and> persona_failure slug mthd TransportError = HTTPException 503 (Detail ''The {} server is not running'' [VStr slug])"
  using assms
  by (auto simp: persona_call_def persona_direct_def persona_endpoint_def persona_failure_def
      bindM_def catchM_def split: prod.splits sum.splits)

theorem persona_call_failures_witness:
  "fst (persona_call ''aria'' ''tools/list'' VNone None (ex_gateway (\<lambda>_. None))) = Inl (HTTPException 503
     (Detail ''The {} server is not running (not registered with the gateway)'' [VStr ''aria'']))"
proof -
  have "topology_resolve (g_topology (ex_gateway net)) ''aria'' = None" for net
    by (simp add: ex_gateway_def start_gateway_def gateway.defs world.defs new_topology_def topology_resolve_def)
  moreover have "\<not> strict_uuid ''aria''" by code_simp
  ultimately show ?thesis using persona_call_failures by fastforce
qed

end
