(* ===== verification/Identity.thy ===== *)
theory Identity
  imports Gateway_State
begin

text \<open>
  \<open>src/src/crystal/identity.py\<close>: which tokens are a platform service's, and the service
  identity's own tokens. The JWT library is a parameter: \<open>decode token jwks\<close> is the claims of a
  token whose signature and expiry that key set verifies, or \<open>None\<close> where it raises. The signed
  token for an audience is what \<open>g_identity\<close> gives; wall-clock claims are not modelled.
\<close>

section \<open>Trust anchors\<close>

text \<open>The anchors of a manifest that has been read and parsed (\<open>None\<close> where that raised).\<close>

fun anchors_of :: "pyval dict \<Rightarrow> pyval dict \<Rightarrow> pyval dict" where
  "anchors_of [] acc = acc"
| "anchors_of ((name, anchor) # rest) acc =
     anchors_of rest (case anchor of
         VDict d \<Rightarrow> (if truthy (dget d ''jwks'') then AList.update name (dget d ''jwks'') acc else acc)
       | _ \<Rightarrow> acc)"

definition load_trust_anchors :: "string \<Rightarrow> bool \<Rightarrow> pyval option \<Rightarrow> pyval dict" where
  "load_trust_anchors keys_dir is_file manifest =
     (if keys_dir = [] \<or> \<not> is_file then []
      else case manifest of
        Some (VDict m) \<Rightarrow>
          (case py_or (dget m ''trust_anchors'') (VDict []) of VDict anchors \<Rightarrow> anchors_of anchors [] | _ \<Rightarrow> [])
      | _ \<Rightarrow> [])"

fun verify_service_token :: "(string \<Rightarrow> pyval \<Rightarrow> pyval dict option) \<Rightarrow> string \<Rightarrow> pyval dict \<Rightarrow> bool" where
  "verify_service_token decode token [] = False"
| "verify_service_token decode token ((name, jwks) # anchors) =
     (case decode token jwks of
        None \<Rightarrow> verify_service_token decode token anchors
      | Some claims \<Rightarrow> dget claims ''principal_type'' = VStr ''service'')"

section \<open>The service identity\<close>

text \<open>\<open>CrystalIdentity.load\<close>: whether an identity is loaded from the key directory.\<close>

definition load_identity :: "string \<Rightarrow> bool \<Rightarrow> string option \<Rightarrow> string option" where
  "load_identity keys_dir is_file pem = (if keys_dir = [] \<or> \<not> is_file then None else pem)"

definition service_claims :: "string \<Rightarrow> int \<Rightarrow> int \<Rightarrow> pyval dict" where
  "service_claims audience now ttl_seconds =
     [(''iss'', VStr ''crystal''), (''sub'', VStr ''crystal''), (''aud'', VStr audience),
      (''principal_type'', VStr ''service''), (''iat'', VInt now), (''exp'', VInt (now + ttl_seconds))]"

definition delegation_request :: "(string \<Rightarrow> string) \<Rightarrow> string \<Rightarrow> pyval \<Rightarrow> request" where
  "delegation_request service_jwt client_id resource_id =
     \<lparr> rq_peer = Origin, rq_method = ''POST'', rq_path = ''/internal/describe-delegation'', rq_params = VNone,
       rq_headers = [(''Authorization'', ''Bearer '' @ service_jwt ''origin''), (''Content-Type'', ''application/json'')],
       rq_body = VDict [(''persona_client_id'', VStr client_id), (''resource_id'', resource_id),
                        (''ttl_seconds'', VInt 300)] \<rparr>"

text \<open>Any failure is no token.\<close>

definition mint_describe_delegation :: "(string \<Rightarrow> string) \<Rightarrow> string \<Rightarrow> pyval \<Rightarrow> ('a world_scheme, pyval) prog" where
  "mint_describe_delegation service_jwt client_id resource_id =
     (if client_id = [] \<or> \<not> truthy resource_id then ret VNone
      else catchM
        (bindM (http (delegation_request service_jwt client_id resource_id)) (\<lambda>resp.
         bindM (raise_for_status ''/internal/describe-delegation'' resp) (\<lambda>resp.
         bindM (json_of resp) (\<lambda>v. liftR (py_get v ''token'')))))
        (\<lambda>_. ret VNone))"

section \<open>Properties\<close>

lemma verify_skip:
  "list_all (\<lambda>a. decode token (snd a) = None) pre
    \<Longrightarrow> verify_service_token decode token (pre @ rest) = verify_service_token decode token rest"
  by (induction pre) auto

text \<open>the first trust anchor that verifies a token decides, by the claim services carry and by
  nothing else: a user's token, which the same anchors sign, is refused, and the verdict of a later
  anchor is never asked for. A token no anchor verifies is refused.\<close>

theorem verify_service_token_decides:
  "(\<forall>pre name jwks post claims. anchors = pre @ (name, jwks) # post
      \<and> list_all (\<lambda>a. decode token (snd a) = None) pre \<and> decode token jwks = Some claims
    \<longrightarrow> verify_service_token decode token anchors = (dget claims ''principal_type'' = VStr ''service''))
   \<and> (list_all (\<lambda>a. decode token (snd a) = None) anchors \<longrightarrow> \<not> verify_service_token decode token anchors)"
  using verify_skip [of decode token anchors "[]"] by (auto simp: verify_skip)

theorem verify_service_token_decides_witness:
  "\<not> verify_service_token (\<lambda>t jwks. if jwks = VInt 1 then None else Some [(''sub'', VStr ''user'')]) ''t''
        [(''mantle'', VInt 1), (''origin'', VInt 2)]
   \<and> verify_service_token (\<lambda>t jwks. Some (service_claims ''crystal'' 0 300)) ''t'' [(''origin'', VNone)]"
proof
  note d = verify_service_token_decides [THEN conjunct1, rule_format]
  show "\<not> verify_service_token (\<lambda>t jwks. if jwks = VInt 1 then None else Some [(''sub'', VStr ''user'')]) ''t''
        [(''mantle'', VInt 1), (''origin'', VInt 2)]"
    using d [of "[(''mantle'', VInt 1), (''origin'', VInt 2)]" "[(''mantle'', VInt 1)]" "''origin''" "VInt 2" "[]"
        "\<lambda>t jwks. if jwks = VInt 1 then None else Some [(''sub'', VStr ''user'')]" "''t''" "[(''sub'', VStr ''user'')]"]
    by (simp add: dget_def)
  show "verify_service_token (\<lambda>t jwks. Some (service_claims ''crystal'' 0 300)) ''t'' [(''origin'', VNone)]"
    by code_simp
qed

lemma mint_run:
  "\<exists>r. fst (mint_describe_delegation jwt client_id rid w) = Inr r"
  by (auto simp: mint_describe_delegation_def catchM_def split: prod.splits sum.splits)

end
