(* ===== verification/Dispatcher.thy ===== *)
theory Dispatcher
  imports Personas Identity
begin

text \<open>
  \<open>src/src/crystal/dispatcher.py\<close>: an operation on an artifact is looked up by the artifact's
  content type and routed by its kind. The state it keeps is \<open>g_described\<close> and, through the
  operator gate, \<open>g_seen\<close>. A \<open>_Link\<close> (a tuple of its own type) is a constructor of the
  type of resolved arguments; as JSON it is the list of its two members.
\<close>

section \<open>Resolving what an operation refers to\<close>

datatype arg = Val pyval | Link string bool

definition type_name :: "pyval \<Rightarrow> string" where
  "type_name v = (case v of VNone \<Rightarrow> ''NoneType'' | VBool _ \<Rightarrow> ''bool'' | VInt _ \<Rightarrow> ''int''
     | VFloat _ _ \<Rightarrow> ''float'' | VStr _ \<Rightarrow> ''str'' | VList _ \<Rightarrow> ''list'' | VDict _ \<Rightarrow> ''dict'')"

definition ref_namespace :: "(string \<Rightarrow> pyval option) \<Rightarrow> pyval dict \<Rightarrow> pyval dict \<Rightarrow> pyval dict" where
  "ref_namespace loads artifact body =
     AList.update ''body'' (VDict body)
       (case dget artifact ''context'' of
          VStr s \<Rightarrow> (case loads s of Some v \<Rightarrow> AList.update ''context'' v artifact | None \<Rightarrow> artifact)
        | _ \<Rightarrow> artifact)"

definition unresolved :: "string \<Rightarrow> string \<Rightarrow> string \<Rightarrow> pyval \<Rightarrow> exc" where
  "unresolved what path part cur = HTTPException 500
     (Detail ''{}: path '{}' does not resolve on this artifact (stopped at '{}'; available: {})''
       [VStr what, VStr path, VStr part,
        case cur of VDict d \<Rightarrow> VList (take 8 (map VStr (sort (map fst d)))) | _ \<Rightarrow> VStr (type_name cur)])"

fun walk_path :: "string \<Rightarrow> string \<Rightarrow> string list \<Rightarrow> pyval \<Rightarrow> pyval res" where
  "walk_path what path [] cur = Inr cur"
| "walk_path what path (part # parts) cur =
     (case cur of
        VDict d \<Rightarrow> (case map_of d part of
            Some v \<Rightarrow> walk_path what path parts v
          | None \<Rightarrow> Inl (unresolved what path part cur))
      | _ \<Rightarrow> Inl (unresolved what path part cur))"

definition resolve_ref :: "pyval \<Rightarrow> pyval dict \<Rightarrow> string \<Rightarrow> pyval res" where
  "resolve_ref value ns what = (case value of
       VStr s \<Rightarrow> if py_startswith s ''$.''
                  then walk_path what s (py_split (CHR ''.'') (drop 2 s)) (VDict ns)
                  else Inr value
     | _ \<Rightarrow> Inr value)"

definition LINK :: string where
  "LINK = ''@relationship.''"

text \<open>The three forms of a declared argument.\<close>

definition optional_path :: "pyval \<Rightarrow> string option" where
  "optional_path v = (case v of
       VStr s \<Rightarrow> if py_startswith s ''$.'' \<and> py_endswith s ''?'' then Some (butlast s) else None
     | _ \<Rightarrow> None)"

definition link_of :: "pyval \<Rightarrow> (string \<times> bool) option" where
  "link_of v = (case v of
       VStr s \<Rightarrow> if py_startswith s LINK
                  then Some (rstrip_char (CHR ''?'') (drop (length LINK) s), py_endswith s ''?'') else None
     | _ \<Rightarrow> None)"

fun resolve_mapping :: "pyval dict \<Rightarrow> pyval dict \<Rightarrow> arg dict \<Rightarrow> arg dict res" where
  "resolve_mapping [] ns out = Inr out"
| "resolve_mapping ((k, v) # spec) ns out =
     (case optional_path v of
        Some path \<Rightarrow>
          (case resolve_ref (VStr path) ns (''mcp_tool argument '' @ k) of
             Inr x \<Rightarrow> resolve_mapping spec ns (AList.update k (Val x) out)
           | Inl e \<Rightarrow> (case e of HTTPException _ _ \<Rightarrow> resolve_mapping spec ns out | _ \<Rightarrow> Inl e))
      | None \<Rightarrow>
          (case link_of v of
             Some (name, optional) \<Rightarrow> resolve_mapping spec ns (AList.update k (Link name optional) out)
           | None \<Rightarrow> res_bind (resolve_ref v ns (''mcp_tool argument '' @ k))
               (\<lambda>x. resolve_mapping spec ns (AList.update k (Val x) out))))"

definition plain :: "pyval dict \<Rightarrow> arg dict" where
  "plain d = map (\<lambda>(k, v). (k, Val v)) d"

definition resolve_arguments :: "operation_spec \<Rightarrow> pyval dict \<Rightarrow> pyval dict \<Rightarrow> arg dict res" where
  "resolve_arguments op ns body =
     (case os_arguments op of
        VNone \<Rightarrow> Inr (plain body)
      | VStr spec \<Rightarrow>
          res_bind (resolve_ref (VStr spec) ns ''mcp_tool arguments'') (\<lambda>resolved.
          case resolved of
            VDict d \<Rightarrow> if py_startswith spec ''$.context.'' \<or> py_startswith spec ''$.content''
                        then resolve_mapping d ns [] else Inr (plain d)
          | _ \<Rightarrow> Inl (HTTPException 500 (Detail ''mcp_tool arguments: '{}' resolved to {}, want an object''
                   [VStr spec, VStr (type_name resolved)])))
      | VDict spec \<Rightarrow> resolve_mapping spec ns []
      | spec \<Rightarrow> Inl (HTTPException 500 (Detail ''mcp_tool arguments must be an object or a path, got {}''
               [VStr (type_name spec)])))"

definition is_link :: "arg \<Rightarrow> bool" where
  "is_link a = (case a of Link _ _ \<Rightarrow> True | Val _ \<Rightarrow> False)"

text \<open>The links of that name among those Mantle listed.\<close>

fun named_links :: "string \<Rightarrow> pyval list \<Rightarrow> pyval list res" where
  "named_links name [] = Inr []"
| "named_links name (i # rest) =
     res_bind (py_get i ''relationship'') (\<lambda>rel.
     res_bind (named_links name rest) (\<lambda>found.
     Inr (if rel = VStr name then i # found else found)))"

definition linked_id :: "pyval \<Rightarrow> pyval res" where
  "linked_id i = res_bind (py_get i ''root_id'') (\<lambda>root. res_bind (py_get i ''id'') (\<lambda>id. Inr (py_or root id)))"

definition resolve_link ::
  "pyval \<Rightarrow> string option \<Rightarrow> string \<times> string \<times> bool \<Rightarrow> arg dict \<Rightarrow> ('a world_scheme, arg dict) prog" where
  "resolve_link source token link out = (case link of (k, name, optional) \<Rightarrow>
     bindM (if truthy source then mantle_links (py_str source) name token else ret (VList [])) (\<lambda>page.
     bindM (liftR (res_bind (py_list page) (named_links name))) (\<lambda>found.
     case found of
       [] \<Rightarrow> if optional then ret (AList.delete k out)
             else raise (HTTPException 422 (Detail ''argument '{}': no link named '{}' that you may read''
                    [VStr k, VStr name]))
     | [i] \<Rightarrow> bindM (liftR (linked_id i)) (\<lambda>x. ret (AList.update k (Val x) out))
     | _ \<Rightarrow> raise (HTTPException 422 (Detail ''argument '{}': {} links named '{}'; one is meant''
              [VStr k, VInt (int (length found)), VStr name])))))"

definition wanted_links :: "arg dict \<Rightarrow> (string \<times> string \<times> bool) list" where
  "wanted_links args = concat (map (\<lambda>(k, a). case a of Link name optional \<Rightarrow> [(k, name, optional)] | Val _ \<Rightarrow> []) args)"

definition resolve_links ::
  "arg dict \<Rightarrow> pyval dict \<Rightarrow> string option \<Rightarrow> ('a world_scheme, arg dict) prog" where
  "resolve_links args artifact token =
     forM (resolve_link (py_or (dget artifact ''root_id'') (dget artifact ''id'')) token) (wanted_links args) args"

text \<open>The arguments as they are sent.\<close>

definition arg_val :: "arg \<Rightarrow> pyval" where
  "arg_val a = (case a of Val v \<Rightarrow> v | Link name optional \<Rightarrow> VList [VStr name, VBool optional])"

definition sent :: "arg dict \<Rightarrow> pyval" where
  "sent args = VDict (map (\<lambda>(k, a). (k, arg_val a)) args)"

section \<open>Describers\<close>

definition describe_ttl :: rat where
  "describe_ttl = 15"

text \<open>One visit of the table: whether the artifact was described within the window.\<close>

definition describe_step :: "pyval \<Rightarrow> rat \<Rightarrow> (pyval, unit) timed \<Rightarrow> bool \<times> (pyval, unit) timed" where
  "describe_step artifact_id now s =
     (let s = prune describe_ttl now s in
      case map_of s artifact_id of
        Some (t, u) \<Rightarrow> if now - t < describe_ttl then (True, s)
                           else (False, AList.update artifact_id (now, ()) s)
      | None \<Rightarrow> (False, AList.update artifact_id (now, ()) s))"

definition describe_recently :: "pyval \<Rightarrow> (gateway, bool) prog" where
  "describe_recently artifact_id =
     bindM monotonic (\<lambda>now.
     if \<not> hashable artifact_id
     then bindM (modifyM (\<lambda>w. w\<lparr>g_described := prune describe_ttl now (g_described w)\<rparr>))
            (\<lambda>_. raise (TypeError ''unhashable''))
     else bindM (getsM (\<lambda>w. describe_step artifact_id now (g_described w))) (\<lambda>(recent, s).
          bindM (modifyM (\<lambda>w. w\<lparr>g_described := s\<rparr>)) (\<lambda>_. ret recent)))"

definition fire_describer :: "string \<Rightarrow> pyval \<Rightarrow> string option \<Rightarrow> (gateway, unit) prog" where
  "fire_describer content_type artifact_id token =
     bindM (getsM (\<lambda>w. describer_for (g_types w) content_type)) (\<lambda>describer.
     if \<not> truthy describer \<or> \<not> truthy artifact_id then ret ()
     else bindM (describe_recently artifact_id) (\<lambda>recent.
       if recent then ret ()
       else create_task (Task ''run_describer'' [describer, VStr content_type, artifact_id, vopt token])))"

text \<open>\<open>(v or "").partition(".")\<close>: what stands before the first dot and what after.\<close>

definition dotted :: "pyval \<Rightarrow> (string \<times> string) res" where
  "dotted v = res_bind (as_str ''partition'' (py_or v (VStr []))) (\<lambda>s. Inr (fst (py_partition (CHR ''.'') s), snd (snd (py_partition (CHR ''.'') s))))"

definition run_describer :: "pyval \<Rightarrow> string \<Rightarrow> pyval \<Rightarrow> string option \<Rightarrow> (gateway, unit) prog" where
  "run_describer describer content_type artifact_id token = catchM
     (bindM (liftR (py_get describer ''kind'')) (\<lambda>kind.
      if kind \<noteq> VStr ''mcp_tool'' then ret ()
      else bindM (liftR (res_bind (py_get describer ''target'') dotted)) (\<lambda>(slug, tool).
        if slug = [] \<or> tool = [] then ret ()
        else bindM (getsM (\<lambda>w. (topology_resolve (g_topology w) slug, g_mcp w))) (\<lambda>(rec, mcp).
          case rec of
            None \<Rightarrow> ret ()
          | Some rec \<Rightarrow>
              if \<not> mcp then ret ()
              else bindM (mcp_call_tool (sr_endpoint rec) tool
                     (VDict [(''artifact_id'', artifact_id), (''content_type'', VStr content_type)]) token)
                   (\<lambda>_. ret ())))))
     (\<lambda>_. ret ())"

definition fire_describer_for_resource :: "string \<Rightarrow> pyval \<Rightarrow> (gateway, unit) prog" where
  "fire_describer_for_resource content_type artifact_id =
     bindM (getsM (\<lambda>w. (describer_for (g_types w) content_type, g_identity w))) (\<lambda>(describer, identity).
     case identity of
       None \<Rightarrow> ret ()
     | Some service_jwt \<Rightarrow>
         if \<not> truthy describer \<or> \<not> truthy artifact_id then ret ()
         else bindM (describe_recently artifact_id) (\<lambda>recent.
           if recent then ret ()
           else bindM (liftR (res_bind (py_get describer ''target'') dotted)) (\<lambda>(slug, tool).
             bindM (getsM (\<lambda>w. topology_resolve (g_topology w) slug)) (\<lambda>rec.
             case (case rec of None \<Rightarrow> None | Some r \<Rightarrow> sr_client_id r) of
               None \<Rightarrow> ret ()
             | Some client_id \<Rightarrow>
                 if client_id = [] then ret ()
                 else bindM (mint_describe_delegation service_jwt client_id artifact_id) (\<lambda>token.
                   if \<not> truthy token then ret ()
                   else run_describer describer content_type artifact_id (Some (py_str token)))))))"

section \<open>Handlers\<close>

definition artifact_crud :: "operation_spec \<Rightarrow> string \<Rightarrow> pyval dict \<Rightarrow> string option \<Rightarrow> (gateway, pyval) prog" where
  "artifact_crud op artifact_id body token =
     bindM (liftR (as_str ''strip'' (py_or (os_target op) (VStr [])))) (\<lambda>target.
     let verb = py_lower (py_strip target) in
     if verb = ''update'' then mantle_patch (''/artifacts/'' @ artifact_id) (VDict body) token
     else if verb = ''read'' then get_artifact artifact_id token (truthy (dget body ''hydrate''))
     else if verb = ''delete'' then mantle_delete (''/artifacts/'' @ artifact_id) token
     else if verb = ''search'' then mantle_search (VDict body) token
     else if verb = ''create'' \<or> verb = ''add'' then mantle_post ''/artifacts'' (VDict body) token
     else raise (HTTPException 400
       (Detail ''artifact_crud target '{}' - supported: create, add, read, update, delete, search'' [os_target op])))"

definition bad_dispatch :: "pyval \<Rightarrow> pyval \<Rightarrow> exc" where
  "bad_dispatch slug tool = HTTPException 500
     (Detail ''Bad mcp_tool dispatch (server={!r}, tool={!r}) - declare target as persona.tool, or server_ref + tool_ref'' [slug, tool])"

definition mcp_target :: "operation_spec \<Rightarrow> pyval dict \<Rightarrow> pyval dict \<Rightarrow> string option
    \<Rightarrow> (gateway, pyval \<times> pyval \<times> pyval) prog" where
  "mcp_target op artifact body token =
     (if os_server_ref op \<noteq> VNone \<and> os_tool_ref op \<noteq> VNone then
        bindM (getsM (\<lambda>w. ref_namespace (w_loads w) artifact body)) (\<lambda>ns.
        bindM (liftR (resolve_ref (os_server_ref op) ns ''mcp_tool server_ref'')) (\<lambda>slug.
        bindM (liftR (resolve_ref (os_tool_ref op) ns ''mcp_tool tool_ref'')) (\<lambda>tool.
        bindM (liftR (resolve_arguments op ns body)) (\<lambda>args.
        bindM (resolve_links args artifact token) (\<lambda>args. ret (slug, tool, sent args))))))
      else bindM (liftR (dotted (os_target op))) (\<lambda>(slug, tool). ret (VStr slug, VStr tool, VDict body)))"

definition call_persona :: "string \<Rightarrow> string \<Rightarrow> pyval \<Rightarrow> string option \<Rightarrow> (gateway, pyval) prog" where
  "call_persona slug tool args token =
     bindM (getsM (\<lambda>w. (topology_resolve (g_topology w) slug, g_servers w, g_mcp w))) (\<lambda>(rec, servers, mcp).
     case rec of
       None \<Rightarrow> if servers then persona_call_tool slug tool args token
               else raise (HTTPException 502 (Detail ''Persona '{}' is not registered'' [VStr slug]))
     | Some rec \<Rightarrow>
         if \<not> mcp then raise (HTTPException 500 (Detail ''MCP caller not configured'' []))
         else bindM (gate_check slug tool token) (\<lambda>_. mcp_call_tool (sr_endpoint rec) tool args token))"

definition mcp_tool :: "operation_spec \<Rightarrow> pyval dict \<Rightarrow> pyval dict \<Rightarrow> string option \<Rightarrow> (gateway, pyval) prog" where
  "mcp_tool op artifact body token =
     bindM (mcp_target op artifact body token) (\<lambda>(slug, tool, args).
     case (slug, tool) of
       (VStr s, VStr t) \<Rightarrow> if s = [] \<or> t = [] then raise (bad_dispatch slug tool) else call_persona s t args token
     | _ \<Rightarrow> raise (bad_dispatch slug tool))"

definition native_op :: "operation_spec \<Rightarrow> string \<Rightarrow> pyval dict \<Rightarrow> string option \<Rightarrow> (gateway, pyval) prog" where
  "native_op op artifact_id body token = raise (HTTPException 501
     (Detail ''native op '{}' pending - Mantle direct primitive not yet exposed'' [os_target op]))"

section \<open>Dispatch\<close>

definition run_kind :: "operation_spec \<Rightarrow> string \<Rightarrow> string \<Rightarrow> pyval dict \<Rightarrow> pyval dict \<Rightarrow> string option
    \<Rightarrow> (gateway, pyval) prog" where
  "run_kind op content_type artifact_id artifact body token =
     (if os_kind op = ''artifact_crud'' then
        bindM (artifact_crud op artifact_id body token) (\<lambda>result.
        bindM (liftR (as_str ''strip'' (py_or (os_target op) (VStr [])))) (\<lambda>target.
        bindM (if py_lower (py_strip target) \<in> {''update'', ''create'', ''add''}
               then fire_describer content_type (VStr artifact_id) token else ret ()) (\<lambda>_.
        ret result)))
      else if os_kind op = ''mcp_tool'' then mcp_tool op artifact body token
      else if os_kind op = ''native'' then
        bindM (native_op op artifact_id body token) (\<lambda>result.
        bindM (fire_describer content_type (VStr artifact_id) token) (\<lambda>_. ret result))
      else raise (HTTPException 500 (Detail ''Unknown dispatch kind {}'' [VStr (os_kind op)])))"

definition check_grant :: "operation_spec \<Rightarrow> string \<Rightarrow> string \<Rightarrow> string option \<Rightarrow> (gateway, unit) prog" where
  "check_grant op op_name artifact_id token =
     bindM (liftR (as_str ''strip'' (py_or (os_requires_grant op) (VStr [])))) (\<lambda>grant.
     let needed = py_lower (py_strip grant) in
     if needed \<noteq> [] \<and> needed \<noteq> ''read'' then
       bindM (my_access artifact_id needed token) (\<lambda>allowed.
       if \<not> allowed
       then raise (HTTPException 403 (Detail ''Operation '{}' requires '{}' on this artifact'' [VStr op_name, VStr needed]))
       else ret ())
     else ret ())"

definition run :: "string \<Rightarrow> string \<Rightarrow> pyval dict \<Rightarrow> string option \<Rightarrow> (gateway, pyval) prog" where
  "run artifact_id op_name body token =
     bindM (get_artifact artifact_id token False) (\<lambda>artifact.
     if artifact = VNone then raise (HTTPException 404 (Detail ''Artifact not found'' []))
     else bindM (liftR (py_items artifact)) (\<lambda>artifact.
     bindM (liftR (as_str ''strip'' (py_or (dget artifact ''content_type'') (VStr [])))) (\<lambda>content_type.
     bindM (getsM (\<lambda>w. resolve_operation (g_types w) content_type op_name)) (\<lambda>op.
     case op of
       None \<Rightarrow> raise (HTTPException 404 (Detail ''Operation '{}' is not declared for content_type {}''
                 [VStr op_name, VStr content_type]))
     | Some op \<Rightarrow>
         bindM (check_grant op op_name artifact_id token) (\<lambda>_.
         run_kind op content_type artifact_id artifact body token)))))"

definition upstream :: "exc \<Rightarrow> exc" where
  "upstream e = (case e of
       HTTPStatusError status path \<Rightarrow> HTTPException status (Detail ''upstream {} from {}'' [VInt status, VStr path])
     | _ \<Rightarrow> e)"

definition dispatch :: "string \<Rightarrow> string \<Rightarrow> pyval dict \<Rightarrow> string option \<Rightarrow> (gateway, pyval) prog" where
  "dispatch artifact_id op_name body token =
     catchM (run artifact_id op_name body token) (\<lambda>e. raise (upstream e))"

definition run_create :: "string \<Rightarrow> pyval dict \<Rightarrow> string option \<Rightarrow> (gateway, pyval) prog" where
  "run_create content_type body token =
     (let payload = setdefault ''content_type'' (VStr content_type) body in
      bindM (getsM (\<lambda>w. resolve_operation (g_types w) content_type ''create'')) (\<lambda>op.
      let kind = (case op of Some op \<Rightarrow> os_kind op | None \<Rightarrow> ''artifact_crud'') in
      if kind = ''native'' \<or> kind = ''artifact_crud'' then mantle_post ''/artifacts'' (VDict payload) token
      else if kind = ''mcp_tool'' then
        (case op of Some op \<Rightarrow> mcp_tool op [] payload token | None \<Rightarrow> raise (AttributeError ''server_ref''))
      else raise (HTTPException 500 (Detail ''Unknown dispatch kind {}'' [VStr kind]))))"

definition artifact_id_of :: "pyval \<Rightarrow> pyval" where
  "artifact_id_of result = (case result of VDict d \<Rightarrow> dget d ''id'' | _ \<Rightarrow> VNone)"

definition create :: "string \<Rightarrow> pyval dict \<Rightarrow> string option \<Rightarrow> (gateway, pyval) prog" where
  "create content_type body token =
     bindM (catchM (run_create content_type body token) (\<lambda>e. raise (upstream e))) (\<lambda>result.
     bindM (fire_describer content_type (artifact_id_of result) token) (\<lambda>_. ret result))"

end
