(* ===== verification/Dispatcher_Laws.thy ===== *)
theory Dispatcher_Laws
  imports Dispatcher
begin

text \<open>
  What the dispatcher guarantees: how references and arguments resolve, whose credential its
  requests carry, that a required grant and the operator gate come before any effect, and how
  often an artifact is described.
\<close>

section \<open>References and arguments\<close>

text \<open>The reference semantics of a path: one member after another, objects only.\<close>

fun lookup_path :: "string list \<Rightarrow> pyval \<Rightarrow> pyval option" where
  "lookup_path [] v = Some v"
| "lookup_path (p # ps) v = (case v of VDict d \<Rightarrow> Option.bind (map_of d p) (lookup_path ps) | _ \<Rightarrow> None)"

text \<open>A result that is the value looked up, or a 500 where there is none.\<close>

definition value_or_500 :: "pyval res \<Rightarrow> pyval option \<Rightarrow> bool" where
  "value_or_500 r found = (case found of Some x \<Rightarrow> r = Inr x | None \<Rightarrow> (\<exists>d. r = Inl (HTTPException 500 d)))"

lemma walk_path_lookup: "value_or_500 (walk_path what path parts v) (lookup_path parts v)"
proof (induction what path parts v rule: walk_path.induct)
  case (2 what path part parts cur)
  show ?case
  proof (cases cur)
    case (VDict d)
    then show ?thesis
      using 2 by (cases "map_of d part") (simp_all add: unresolved_def value_or_500_def [of _ None])
  qed (simp_all add: unresolved_def value_or_500_def)
qed (simp add: value_or_500_def)

definition is_path :: "pyval \<Rightarrow> bool" where
  "is_path v = (case v of VStr s \<Rightarrow> py_startswith s ''$.'' | _ \<Rightarrow> False)"

lemma resolve_ref_literal: "\<not> is_path v \<Longrightarrow> resolve_ref v ns what = Inr v"
  by (auto simp: resolve_ref_def is_path_def split: pyval.splits)

lemma resolve_ref_path:
  "py_startswith s ''$.'' \<Longrightarrow>
   value_or_500 (resolve_ref (VStr s) ns what) (lookup_path (py_split (CHR ''.'') (drop 2 s)) (VDict ns))"
  by (simp add: resolve_ref_def walk_path_lookup)

lemma resolve_ref_error: "resolve_ref v ns what = Inl e \<Longrightarrow> \<exists>d. e = HTTPException 500 d"
proof (cases "is_path v")
  case True
  moreover assume "resolve_ref v ns what = Inl e"
  ultimately show ?thesis
    using resolve_ref_path [of _ ns what]
    by (fastforce simp: is_path_def value_or_500_def split: pyval.splits option.splits)
qed (simp add: resolve_ref_literal)

text \<open>What one declared argument resolves to: \<open>Inr None\<close> where it is left out.\<close>

definition resolve_arg :: "pyval dict \<Rightarrow> string \<Rightarrow> pyval \<Rightarrow> arg option res" where
  "resolve_arg ns k v = (case optional_path v of
       Some path \<Rightarrow> (case resolve_ref (VStr path) ns (''mcp_tool argument '' @ k) of
           Inr x \<Rightarrow> Inr (Some (Val x)) | Inl _ \<Rightarrow> Inr None)
     | None \<Rightarrow> (case link_of v of
           Some (name, optional) \<Rightarrow> Inr (Some (Link name optional))
         | None \<Rightarrow> res_bind (resolve_ref v ns (''mcp_tool argument '' @ k)) (\<lambda>x. Inr (Some (Val x)))))"

lemma resolve_mapping_Cons:
  "resolve_mapping ((k, v) # spec) ns out =
     res_bind (resolve_arg ns k v) (\<lambda>a. resolve_mapping spec ns
       (case a of None \<Rightarrow> out | Some a \<Rightarrow> AList.update k a out))"
proof (cases "optional_path v")
  case None
  then show ?thesis by (cases "link_of v") (auto simp: resolve_arg_def res_bind_def split: sum.splits)
next
  case (Some path)
  then show ?thesis
    using resolve_ref_error [of "VStr path" ns]
    by (fastforce simp: resolve_arg_def split: sum.splits exc.splits)
qed

declare resolve_mapping.simps(2) [simp del]

lemma resolve_mapping_lookup:
  assumes "resolve_mapping spec ns out0 = Inr out" and "wf_dict spec"
  shows "map_of out k = (case map_of spec k of
       None \<Rightarrow> map_of out0 k
     | Some v \<Rightarrow> (case resolve_arg ns k v of Inr (Some a) \<Rightarrow> Some a | _ \<Rightarrow> map_of out0 k))"
  using assms
proof (induction spec arbitrary: out0)
  case (Cons kv spec)
  obtain k' v' where kv: "kv = (k', v')" by (cases kv)
  from Cons.prems obtain a where a: "resolve_arg ns k' v' = Inr a"
    and rest: "resolve_mapping spec ns (case a of None \<Rightarrow> out0 | Some a \<Rightarrow> AList.update k' a out0) = Inr out"
    by (auto simp: kv resolve_mapping_Cons res_bind_eq_Inr)
  have "map_of spec k' = None" using Cons.prems(2) by (simp add: kv map_of_eq_None_iff)
  then show ?case
    using Cons.IH [OF rest] Cons.prems(2) a by (auto simp: kv split: option.splits sum.splits)
qed simp

lemma resolve_mapping_fails:
  "(\<exists>e. resolve_mapping spec ns out = Inl e) \<longleftrightarrow> (\<exists>(k, v) \<in> set spec. \<exists>e. resolve_arg ns k v = Inl e)"
proof (induction spec arbitrary: out)
  case (Cons kv spec)
  obtain k v where "kv = (k, v)" by (cases kv)
  then show ?case using Cons.IH by (cases "resolve_arg ns k v") (auto simp: resolve_mapping_Cons)
qed simp

lemma resolve_mapping_wf: "resolve_mapping spec ns out0 = Inr out \<Longrightarrow> wf_dict out0 \<Longrightarrow> wf_dict out"
proof (induction spec arbitrary: out0)
  case (Cons kv spec)
  obtain k v where "kv = (k, v)" by (cases kv)
  then show ?case
    using Cons by (auto simp: resolve_mapping_Cons res_bind_eq_Inr split: option.splits)
qed simp

text \<open>a reference is the value at its dotted path, found one object member at a time, or a 500
  naming the path; anything that is not a \<open>$.\<close> path is itself. So a path never resolves to a
  default, and a literal never to something else.\<close>

theorem resolve_ref_correct:
  "(\<forall>parts. parts \<noteq> [] \<and> (\<forall>p \<in> set parts. CHR ''.'' \<notin> set p) \<longrightarrow>
      value_or_500 (resolve_ref (VStr (''$.'' @ py_join ''.'' parts)) ns what) (lookup_path parts (VDict ns)))
   \<and> (\<not> is_path v \<longrightarrow> resolve_ref v ns what = Inr v)"
proof (rule conjI; intro allI impI)
  fix parts :: "string list"
  assume parts: "parts \<noteq> [] \<and> (\<forall>p \<in> set parts. CHR ''.'' \<notin> set p)"
  then have "py_split (CHR ''.'') (py_join [CHR ''.''] parts) = parts"
    by (intro py_split_join) auto
  moreover have "py_startswith (''$.'' @ py_join ''.'' parts) ''$.''" by (simp add: py_startswith_def)
  ultimately show "value_or_500 (resolve_ref (VStr (''$.'' @ py_join ''.'' parts)) ns what) (lookup_path parts (VDict ns))"
    using resolve_ref_path [of "''$.'' @ py_join ''.'' parts" ns what] by simp
qed (rule resolve_ref_literal)

theorem resolve_ref_correct_witness:
  "resolve_ref (VStr ''$.context.tool'') [(''context'', VDict [(''tool'', VStr ''go'')])] ''w'' = Inr (VStr ''go'')
   \<and> resolve_ref (VStr ''lumen'') [] ''w'' = Inr (VStr ''lumen'')"
proof
  show "resolve_ref (VStr ''$.context.tool'') [(''context'', VDict [(''tool'', VStr ''go'')])] ''w'' = Inr (VStr ''go'')"
    using resolve_ref_correct [THEN conjunct1, rule_format, of "[''context'', ''tool'']"
        "[(''context'', VDict [(''tool'', VStr ''go'')])]" "''w''"] by (simp add: value_or_500_def)
  show "resolve_ref (VStr ''lumen'') [] ''w'' = Inr (VStr ''lumen'')"
    using resolve_ref_correct [of "[]" "''w''" "VStr ''lumen''"] by (simp add: is_path_def py_startswith_def)
qed


text \<open>a declared mapping resolves name by name: every required path and literal is in the result
  with its value, a \<open>$.path?\<close> that resolves is, one that does not is left out, a link marker is
  kept as a link, no other name appears; and it fails exactly when a required path does not resolve.\<close>

theorem resolve_mapping_correct:
  assumes "wf_dict spec"
  shows "(\<forall>out. resolve_mapping spec ns [] = Inr out \<longrightarrow> wf_dict out
        \<and> (\<forall>k. map_of out k = (case map_of spec k of None \<Rightarrow> None
              | Some v \<Rightarrow> (case resolve_arg ns k v of Inr a \<Rightarrow> a | Inl _ \<Rightarrow> None))))
    \<and> ((\<exists>e. resolve_mapping spec ns [] = Inl e) \<longleftrightarrow>
        (\<exists>(k, v) \<in> set spec. optional_path v = None \<and> link_of v = None
           \<and> (\<exists>e. resolve_ref v ns (''mcp_tool argument '' @ k) = Inl e)))"
proof (intro conjI allI impI)
  fix out assume out: "resolve_mapping spec ns [] = Inr out"
  then show "wf_dict out" by (rule resolve_mapping_wf) simp
  show "map_of out k = (case map_of spec k of None \<Rightarrow> None
      | Some v \<Rightarrow> (case resolve_arg ns k v of Inr a \<Rightarrow> a | Inl _ \<Rightarrow> None))" for k
    using resolve_mapping_lookup [OF out assms, of k] by (auto split: option.splits sum.splits)
next
  have "(\<exists>e. resolve_arg ns k v = Inl e) \<longleftrightarrow> optional_path v = None \<and> link_of v = None
      \<and> (\<exists>e. resolve_ref v ns (''mcp_tool argument '' @ k) = Inl e)" for k v
    by (auto simp: resolve_arg_def res_bind_def split: option.splits sum.splits)
  then show "(\<exists>e. resolve_mapping spec ns [] = Inl e) \<longleftrightarrow>
        (\<exists>(k, v) \<in> set spec. optional_path v = None \<and> link_of v = None
           \<and> (\<exists>e. resolve_ref v ns (''mcp_tool argument '' @ k) = Inl e))"
    unfolding resolve_mapping_fails by (simp only: case_prod_beta)
qed

theorem resolve_mapping_correct_witness:
  "\<exists>out. resolve_mapping [(''a'', VStr ''$.body.x?''), (''b'', VStr ''@relationship.key?''), (''c'', VInt 1)]
        [(''body'', VDict [])] [] = Inr out
     \<and> map_of out ''a'' = None \<and> map_of out ''b'' = Some (Link ''key'' True) \<and> map_of out ''c'' = Some (Val (VInt 1))"
proof -
  let ?spec = "[(''a'', VStr ''$.body.x?''), (''b'', VStr ''@relationship.key?''), (''c'', VInt 1)]"
  let ?ns = "[(''body'', VDict [])]"
  have run: "resolve_mapping ?spec ?ns [] = Inr [(''b'', Link ''key'' True), (''c'', Val (VInt 1))]"
    by code_simp
  have "wf_dict ?spec" by simp
  then have "map_of [(''b'', Link ''key'' True), (''c'', Val (VInt 1))] k = (case map_of ?spec k of None \<Rightarrow> None
      | Some v \<Rightarrow> (case resolve_arg ?ns k v of Inr a \<Rightarrow> a | Inl _ \<Rightarrow> None))" for k
    using resolve_mapping_correct [of ?spec ?ns] run by blast
  with run show ?thesis by simp
qed

section \<open>Links\<close>

lemma resolve_link_spec:
  assumes "resolve_link source token (k, name, optional) out w = (Inr out', w')" and "wf_dict out"
  shows "wf_dict out' \<and> (\<forall>k'. k' \<noteq> k \<longrightarrow> map_of out' k' = map_of out k')
    \<and> (map_of out' k = None \<and> optional \<or> (\<exists>v. map_of out' k = Some (Val v)))"
proof -
  from assms(1) obtain found w1 where step: "(case found of
       [] \<Rightarrow> if optional then ret (AList.delete k out)
             else raise (HTTPException 422 (Detail ''argument '{}': no link named '{}' that you may read''
                    [VStr k, VStr name]))
     | [i] \<Rightarrow> bindM (liftR (linked_id i)) (\<lambda>x. ret (AList.update k (Val x) out))
     | _ \<Rightarrow> raise (HTTPException 422 (Detail ''argument '{}': {} links named '{}'; one is meant''
              [VStr k, VInt (int (length found)), VStr name]))) w1 = (Inr out', w')"
    unfolding resolve_link_def prod.case by (elim bindM_E) (simp_all only: Inr_Inl_False Inl_Inr_False sum.distinct)
  show ?thesis
  proof (cases found)
    case Nil
    with step assms(2) show ?thesis by (auto split: if_splits)
  next
    case (Cons i rest)
    show ?thesis
    proof (cases rest)
      case Nil
      with step Cons assms(2) show ?thesis by (auto simp: bindM_def split: sum.splits prod.splits)
    qed (use step Cons in simp)
  qed
qed

lemma resolve_links_fold:
  assumes "forM (resolve_link source token) links out w = (Inr out', w')"
    and "wf_dict out" and "distinct (map fst links)"
  shows "wf_dict out' \<and> (\<forall>k. k \<notin> fst ` set links \<longrightarrow> map_of out' k = map_of out k)
    \<and> (\<forall>(k, name, optional) \<in> set links. map_of out' k = None \<and> optional \<or> (\<exists>v. map_of out' k = Some (Val v)))"
  using assms
proof (induction links arbitrary: out w)
  case (Cons l links)
  obtain k name optional where l: "l = (k, name, optional)" by (cases l)
  from Cons.prems(1) obtain out1 w1 where step: "resolve_link source token l out w = (Inr out1, w1)"
    and rest: "forM (resolve_link source token) links out1 w1 = (Inr out', w')"
    by (auto elim: bindM_E)
  from resolve_link_spec [OF step [unfolded l] Cons.prems(2)]
  have wf1: "wf_dict out1" and same: "\<forall>k'. k' \<noteq> k \<longrightarrow> map_of out1 k' = map_of out k'"
    and here: "map_of out1 k = None \<and> optional \<or> (\<exists>v. map_of out1 k = Some (Val v))" by auto
  have "distinct (map fst links)" "k \<notin> fst ` set links" using Cons.prems(3) by (auto simp: l)
  with Cons.IH [OF rest wf1] same here show ?case by (auto simp: l)
qed simp

lemma wanted_links_simps [simp]:
  "wanted_links [] = []"
  "wanted_links ((k, Val v) # args) = wanted_links args"
  "wanted_links ((k, Link name optional) # args) = (k, name, optional) # wanted_links args"
  by (simp_all add: wanted_links_def)

lemma wanted_links_iff: "(k, name, optional) \<in> set (wanted_links args) \<longleftrightarrow> (k, Link name optional) \<in> set args"
proof (induction args)
  case (Cons ka args)
  obtain k' a where ka: "ka = (k', a)" by (cases ka)
  show ?case unfolding ka by (cases a) (simp_all add: Cons.IH)
qed simp

lemma wanted_links_distinct: "wf_dict args \<Longrightarrow> distinct (map fst (wanted_links args))"
proof (induction args)
  case (Cons ka args)
  obtain k a where ka: "ka = (k, a)" by (cases ka)
  have "k \<notin> fst ` set (wanted_links args)"
  proof
    assume "k \<in> fst ` set (wanted_links args)"
    then obtain name optional where "(k, name, optional) \<in> set (wanted_links args)" by auto
    then have "k \<in> fst ` set args" unfolding wanted_links_iff by (metis fst_conv image_eqI)
    with Cons.prems show False by (simp add: ka)
  qed
  with Cons show ?case unfolding ka by (cases a) simp_all
qed simp

text \<open>once the links of a call's arguments have been resolved, no marker is left to be sent: each
  is replaced by a plain value, or left out if it was optional; every other
  argument is what it was, and nothing is added.\<close>

theorem resolve_links_complete:
  assumes "resolve_links args artifact token w = (Inr out, w')" and "wf_dict args"
  shows "wf_dict out \<and> (\<forall>k a. map_of out k = Some a \<longrightarrow> \<not> is_link a)
    \<and> (\<forall>k v. map_of args k = Some (Val v) \<longrightarrow> map_of out k = Some (Val v))
    \<and> (\<forall>k name. map_of args k = Some (Link name False) \<longrightarrow> (\<exists>v. map_of out k = Some (Val v)))
    \<and> (\<forall>k. map_of args k = None \<longrightarrow> map_of out k = None)"
proof -
  note wf = assms(2)
  have links: "wf_dict out \<and> (\<forall>k. k \<notin> fst ` set (wanted_links args) \<longrightarrow> map_of out k = map_of args k)
    \<and> (\<forall>(k, name, optional) \<in> set (wanted_links args).
         map_of out k = None \<and> optional \<or> (\<exists>v. map_of out k = Some (Val v)))"
    using assms wanted_links_distinct [OF wf] unfolding resolve_links_def by (rule resolve_links_fold)
  have wanted: "(k, name, optional) \<in> set (wanted_links args) \<longleftrightarrow> map_of args k = Some (Link name optional)" for k name optional
    using wf by (simp add: wanted_links_iff)
  have other: "k \<in> fst ` set (wanted_links args) \<longleftrightarrow> (\<exists>name optional. map_of args k = Some (Link name optional))" for k
  proof
    assume "k \<in> fst ` set (wanted_links args)"
    then obtain name optional where "(k, name, optional) \<in> set (wanted_links args)" by auto
    then show "\<exists>name optional. map_of args k = Some (Link name optional)" using wanted by blast
  next
    assume "\<exists>name optional. map_of args k = Some (Link name optional)"
    then obtain name optional where "(k, name, optional) \<in> set (wanted_links args)" using wanted by blast
    then show "k \<in> fst ` set (wanted_links args)" by (metis fst_conv image_eqI)
  qed
  show ?thesis
  proof (intro conjI allI impI)
    show "wf_dict out" using links by blast
    show "\<not> is_link a" if "map_of out k = Some a" for k a
    proof (cases "k \<in> fst ` set (wanted_links args)")
      case True
      then obtain name optional where "(k, name, optional) \<in> set (wanted_links args)" by auto
      with links that have "\<exists>v. a = Val v" by fastforce
      then show ?thesis by (auto simp: is_link_def)
    next
      case False
      then have "map_of args k = Some a" using links that by simp
      with False other [of k] show ?thesis by (cases a) (auto simp: is_link_def)
    qed
    show "map_of out k = Some (Val v)" if "map_of args k = Some (Val v)" for k v
      using links other [of k] that by auto
    show "\<exists>v. map_of out k = Some (Val v)" if "map_of args k = Some (Link name False)" for k name
      using links wanted [of k name False] that by fastforce
    show "map_of out k = None" if "map_of args k = None" for k
      using links other [of k] that by auto
  qed
qed

theorem resolve_links_complete_witness:
  "\<exists>out w'. resolve_links [(''key'', Link ''signing'' False), (''n'', Val (VInt 1))] [(''id'', VStr ''a1'')] None
       (ex_world (\<lambda>q. Some (reply 200 (VDict [(''items'', VList [VDict [(''relationship'', VStr ''signing''), (''id'', VStr ''k9'')]])])))) = (Inr out, w')
     \<and> map_of out ''n'' = Some (Val (VInt 1)) \<and> (\<exists>v. map_of out ''key'' = Some (Val v))"
proof -
  let ?w = "ex_world (\<lambda>q. Some (reply 200 (VDict [(''items'', VList [VDict [(''relationship'', VStr ''signing''), (''id'', VStr ''k9'')]])])))"
  let ?args = "[(''key'', Link ''signing'' False), (''n'', Val (VInt 1))]"
  let ?m = "resolve_links ?args [(''id'', VStr ''a1'')] None"
  have "fst (?m ?w) = Inr [(''key'', Val (VStr ''k9'')), (''n'', Val (VInt 1))]" by code_simp
  then have run: "?m ?w = (Inr [(''key'', Val (VStr ''k9'')), (''n'', Val (VInt 1))], snd (?m ?w))" by (rule prog_at)
  have "wf_dict ?args" by simp
  from resolve_links_complete [OF run this] run show ?thesis by auto
qed

end
