(* ===== verification/Dispatcher_Safety.thy ===== *)
theory Dispatcher_Safety
  imports Dispatcher_Laws
begin

text \<open>
  The order of effects in a dispatch: whose credential every request carries, that a required
  grant is asked for before anything else happens, and that a persona's tool is called only once
  the operator gate has cleared it.
\<close>

section \<open>Whose credential\<close>

text \<open>A request carries the caller's bearer and no other; a describer handed to the event loop is
  handed the caller's token.\<close>

definition as_caller :: "string option \<Rightarrow> event \<Rightarrow> bool" where
  "as_caller token e \<longleftrightarrow> carries token e
     \<and> (case e of EvSpawn (Task name args) \<Rightarrow> args \<noteq> [] \<and> last args = vopt token | _ \<Rightarrow> True)"

lemma as_caller_http: "as_caller token (EvHttp q a) \<longleftrightarrow> carries token (EvHttp q a)"
  by (simp add: as_caller_def)

lemma as_caller_clock: "as_caller token (EvClock t)"
  by (simp add: as_caller_def carries_def)

lemma caller_mantle:
  "grows.keeps (as_caller token) (mantle_send m path body token)"
  "grows.keeps (as_caller token) (get_artifact aid token hydrate)"
  "grows.keeps (as_caller token) (my_access aid action token)"
  "grows.keeps (as_caller token) (mantle_links aid name token)"
  "grows.keeps (as_caller token) (mantle_delete path token)"
  by (intro mantle_keeps_send mantle_keeps_gets mantle_keeps_delete, simp add: as_caller_http carries_mantle)+

lemma caller_mcp:
  "grows.keeps (as_caller token) (mcp_call_tool endpoint tool args token)"
  "grows.keeps (as_caller token) (mcp_request endpoint mthd params token)"
  by (rule mcp_keeps; simp add: as_caller_http carries_def mcp_post_def)+

lemma caller_gate: "grows.keeps (as_caller token) (gate_check slug tool token)"
  by (intro grows_keeps_check) (simp_all add: as_caller_clock as_caller_http reads_operators)

lemma caller_persona: "grows.keeps (as_caller token) (persona_call_tool slug tool args token)"
proof (rule grows.keepsI)
  fix w x w' assume "persona_call_tool slug tool args token w = (x, w')"
  then have "grows_by (reaches (g_topology w) token (route_of (g_topology w) slug)) w w'"
    unfolding persona_call_tool_def by (rule call_reaches)
  then show "grows_by (as_caller token) w w'"
    by (rule grows_by_mono) (auto simp: reaches_def as_caller_def split: event.splits)
qed

lemma caller_links: "grows.keeps (as_caller token) (resolve_links args artifact token)"
  unfolding resolve_links_def resolve_link_def
  by (intro grows.keeps_forM) (auto split: prod.splits list.splits intro!: grows_keeps_intros caller_mantle)

lemma grows_keeps_described:
  assumes "\<And>t. P (EvClock t)"
  shows "grows.keeps P (describe_recently artifact_id)"
proof -
  have "grows.keeps P (modifyM (\<lambda>w. w\<lparr>g_described := f w\<rparr>))" for f :: "gateway \<Rightarrow> (pyval, unit) timed"
    by (rule grows_keeps_state) (simp_all add: same_outside_def)
  then show ?thesis
    unfolding describe_recently_def
    by (intro grows_keeps_intros assms) (auto split: prod.splits intro!: grows_keeps_intros)
qed

lemma caller_fire: "grows.keeps (as_caller token) (fire_describer ct aid token)"
  unfolding fire_describer_def
  by (intro grows_keeps_intros grows_keeps_described as_caller_clock) (simp add: as_caller_def carries_def)

lemma caller_call: "grows.keeps (as_caller token) (call_persona slug tool args token)"
  unfolding call_persona_def
  by (intro grows_keeps_intros)
    (auto split: prod.splits option.splits intro!: grows_keeps_intros caller_gate caller_mcp caller_persona)

lemma caller_target: "grows.keeps (as_caller token) (mcp_target op artifact body token)"
  unfolding mcp_target_def
  by (intro grows_keeps_intros caller_links) (auto split: prod.splits intro!: grows_keeps_intros)

lemma caller_tool: "grows.keeps (as_caller token) (mcp_tool op artifact body token)"
  unfolding mcp_tool_def
  by (intro grows_keeps_intros caller_target)
    (auto split: prod.splits pyval.splits intro!: grows_keeps_intros caller_call)

lemma caller_crud: "grows.keeps (as_caller token) (artifact_crud op aid body token)"
  unfolding artifact_crud_def Let_def mantle_patch_def mantle_search_def mantle_post_def
  by (intro grows_keeps_intros caller_mantle)

lemma caller_kind: "grows.keeps (as_caller token) (run_kind op ct aid artifact body token)"
  unfolding run_kind_def native_op_def
  by (intro grows_keeps_intros caller_crud caller_tool caller_fire)

lemma caller_grant: "grows.keeps (as_caller token) (check_grant op op_name aid token)"
  unfolding check_grant_def Let_def by (intro grows_keeps_intros caller_mantle)

lemma caller_run: "grows.keeps (as_caller token) (run aid op_name body token)"
  unfolding run_def
  by (intro grows_keeps_intros caller_mantle)
    (auto split: option.splits intro!: grows_keeps_intros caller_grant caller_kind)

lemma caller_dispatch: "grows.keeps (as_caller token) (dispatch aid op_name body token)"
  unfolding dispatch_def by (intro grows_keeps_intros caller_run)

lemma caller_create: "grows.keeps (as_caller token) (create ct body token)"
  unfolding create_def run_create_def Let_def mantle_post_def
  by (intro grows_keeps_intros caller_fire caller_mantle)
    (auto split: option.splits intro!: grows_keeps_intros caller_tool)

text \<open>C2: the gateway acts as the caller and never as itself. Whatever the operation and whatever
  the services answer, every request a dispatch or a creation makes carries the caller's bearer and
  no other credential (none, if the caller sent none), every describer it schedules is given the
  caller's token, and nothing already in the log changes.\<close>

theorem dispatch_as_caller:
  "\<exists>es es'. w_trace (snd (dispatch artifact_id op_name body token w)) = w_trace w @ es
     \<and> w_trace (snd (create content_type body token w)) = w_trace w @ es'
     \<and> list_all (as_caller token) es \<and> list_all (as_caller token) es'"
  using caller_dispatch [of token artifact_id op_name body] caller_create [of token content_type body]
  by (auto simp: grows.keeps_def grows_by_def list_all_iff) metis


section \<open>The grant comes first\<close>

lemma get_artifact_state:
  fixes w :: gateway
  shows "get_artifact aid token h w = (x, w1) \<Longrightarrow> g_types w1 = g_types w"
  by (drule stateless.keepsD [OF stateless_mantle(2)]) (auto simp: same_gateway_def)

definition needed_grant :: "operation_spec \<Rightarrow> string" where
  "needed_grant op = (case py_or (os_requires_grant op) (VStr []) of VStr g \<Rightarrow> py_lower (py_strip g) | _ \<Rightarrow> [])"

text \<open>The run up to the point where the operation is known.\<close>

lemma run_to_grant:
  assumes "get_artifact aid token False w = (Inr (VDict art), w1)"
    and "py_or (dget art ''content_type'') (VStr []) = VStr ct"
    and "resolve_operation (g_types w) ct op_name = Some op"
  shows "run aid op_name body token w =
    bindM (check_grant op op_name aid token) (\<lambda>_. run_kind op ct aid art body token) w1"
  using assms get_artifact_state [OF assms(1)]
  by (simp add: run_def bindM_run(2) py_items_def as_str_def)

lemma check_grant_run:
  assumes "py_or (os_requires_grant op) (VStr []) = VStr g" and "needed_grant op \<noteq> []" and "needed_grant op \<noteq> ''read''"
  shows "check_grant op op_name aid token w =
    (let q = access_request aid (needed_grant op) token; a = w_net w (w_trace w) q
     in (case access_verdict a of
           Inl e \<Rightarrow> Inl e
         | Inr True \<Rightarrow> Inr ()
         | Inr False \<Rightarrow> Inl (HTTPException 403 (Detail ''Operation '{}' requires '{}' on this artifact''
             [VStr op_name, VStr (needed_grant op)])),
         w\<lparr>w_trace := w_trace w @ [EvHttp q a]\<rparr>))"
  using assms
  by (auto simp: check_grant_def needed_grant_def as_str_def Let_def bindM_def my_access_run
      split: sum.splits bool.splits)


definition ex_answers :: "pyval \<Rightarrow> request \<Rightarrow> response option" where
  "ex_answers access q = (if rq_path q = ''/grants/my-access'' then Some (reply 200 access)
     else Some (reply 200 (VDict [(''content_type'', VStr ''x/coll''), (''id'', VStr ''a1'')])))"



text \<open>an operation runs only if the artifact can be read and its type declares it: a missing
  artifact, an operation no type in the lineage declares, and a fetch that fails are errors (404, 404
  and the status Mantle gave), and after the fetch nothing else is asked and no state changes.\<close>

theorem dispatch_refusals:
  fixes w :: gateway and aid :: string and token :: "string option"
  defines "r \<equiv> get_artifact aid token False w"
  shows "(fst r = Inr VNone \<longrightarrow> dispatch aid op_name body token w = (Inl (HTTPException 404 (Detail ''Artifact not found'' [])), snd r))
    \<and> (\<forall>art ct. fst r = Inr (VDict art) \<and> py_or (dget art ''content_type'') (VStr []) = VStr ct
         \<and> (\<forall>td \<in> set (lineage (g_types w) ct). map_of (td_operations td) op_name = None)
       \<longrightarrow> dispatch aid op_name body token w = (Inl (HTTPException 404
             (Detail ''Operation '{}' is not declared for content_type {}'' [VStr op_name, VStr ct])), snd r))
    \<and> (\<forall>status path. fst r = Inl (HTTPStatusError status path)
       \<longrightarrow> dispatch aid op_name body token w = (Inl (HTTPException status
             (Detail ''upstream {} from {}'' [VInt status, VStr path])), snd r))"
proof -
  have get: "get_artifact aid token False w = (fst r, snd r)" by (simp add: r_def)
  have types: "g_types (snd r) = g_types w" using get_artifact_state [OF get] .
  have fail: "dispatch aid op_name body token w = (Inl (upstream e), w')"
    if "run aid op_name body token w = (Inl e, w')" for e w'
    using that by (simp add: dispatch_def catchM_def)
  show ?thesis
  proof (intro conjI allI impI)
    assume "fst r = Inr VNone"
    with get have g: "get_artifact aid token False w = (Inr VNone, snd r)" by simp
    show "dispatch aid op_name body token w = (Inl (HTTPException 404 (Detail ''Artifact not found'' [])), snd r)"
      by (subst fail [where e = "HTTPException 404 (Detail ''Artifact not found'' [])" and w' = "snd r"])
        (simp_all add: run_def bindM_run(2) [where m = "get_artifact aid token False", OF g] upstream_def)
  next
    fix art ct
    let ?e = "HTTPException 404 (Detail ''Operation '{}' is not declared for content_type {}'' [VStr op_name, VStr ct])"
    assume a: "fst r = Inr (VDict art) \<and> py_or (dget art ''content_type'') (VStr []) = VStr ct
      \<and> (\<forall>td \<in> set (lineage (g_types w) ct). map_of (td_operations td) op_name = None)"
    with get have g: "get_artifact aid token False w = (Inr (VDict art), snd r)" by simp
    have "resolve_operation (g_types (snd r)) ct op_name = None"
      using a by (simp add: types resolve_operation_def first_operation_None)
    with a show "dispatch aid op_name body token w = (Inl ?e, snd r)"
      by (subst fail [where e = ?e and w' = "snd r"])
        (simp_all add: run_def bindM_run(2) [where m = "get_artifact aid token False", OF g] upstream_def py_items_def as_str_def)
  next
    fix status path assume "fst r = Inl (HTTPStatusError status path)"
    with get have g: "get_artifact aid token False w = (Inl (HTTPStatusError status path), snd r)" by simp
    show "dispatch aid op_name body token w = (Inl (HTTPException status
             (Detail ''upstream {} from {}'' [VInt status, VStr path])), snd r)"
      by (subst fail [where e = "HTTPStatusError status path" and w' = "snd r"])
        (simp_all add: run_def bindM_run(1) [where m = "get_artifact aid token False", OF g] upstream_def)
  qed
qed

theorem dispatch_refusals_witness:
  "fst (dispatch ''a1'' ''nope'' [] None (ex_gateway (ex_answers VNone)))
     = Inl (HTTPException 404 (Detail ''Operation '{}' is not declared for content_type {}'' [VStr ''nope'', VStr ''x/coll'']))
   \<and> fst (dispatch ''a1'' ''read'' [] None (ex_gateway (\<lambda>_. Some (reply 403 VNone))))
     = Inl (HTTPException 403 (Detail ''upstream {} from {}'' [VInt 403, VStr ''/artifacts/a1'']))"
proof
  let ?w = "ex_gateway (ex_answers VNone)"
  have types: "g_types ?w = ex_registry"
    by (simp add: ex_gateway_def start_gateway_def gateway.defs world.defs)
  have fetch: "fst (get_artifact ''a1'' None False ?w) = Inr (VDict [(''content_type'', VStr ''x/coll''), (''id'', VStr ''a1'')])"
    by code_simp
  have ct: "py_or (dget [(''content_type'', VStr ''x/coll''), (''id'', VStr ''a1'')] ''content_type'') (VStr []) = VStr ''x/coll''"
    by code_simp
  have none: "resolve_operation ex_registry ''x/coll'' ''nope'' = None" by code_simp
  then have "\<forall>td \<in> set (lineage (g_types ?w) ''x/coll''). map_of (td_operations td) ''nope'' = None"
    by (simp add: resolve_operation_def first_operation_None types)
  then show "fst (dispatch ''a1'' ''nope'' [] None ?w)
     = Inl (HTTPException 404 (Detail ''Operation '{}' is not declared for content_type {}'' [VStr ''nope'', VStr ''x/coll'']))"
    using dispatch_refusals [of "''a1''" None ?w "''nope''" "[]", THEN conjunct2, THEN conjunct1, rule_format, OF conjI, OF fetch conjI, OF ct] by simp
  let ?w' = "ex_gateway (\<lambda>_. Some (reply 403 VNone))"
  have "fst (get_artifact ''a1'' None False ?w') = Inl (HTTPStatusError 403 ''/artifacts/a1'')" by code_simp
  then show "fst (dispatch ''a1'' ''read'' [] None ?w')
     = Inl (HTTPException 403 (Detail ''upstream {} from {}'' [VInt 403, VStr ''/artifacts/a1'']))"
    using dispatch_refusals [of "''a1''" None ?w' "''read''" "[]"] by simp
qed

section \<open>The operator gate stands before a persona's tool\<close>

lemma clears_grows: "clears w now token slug tool \<Longrightarrow> grows_by P w w' \<Longrightarrow> clears w' now token slug tool"
proof -
  assume c: "clears w now token slug tool" and g: "grows_by P w w'"
  from g obtain es where tr: "w_trace w' = w_trace w @ es" by (auto simp: grows_by_def)
  have key: "token_key w' t = token_key w t" for t using token_key_grows [OF g] .
  from c obtain t offered before after token' r items where
    at: "w_trace w = before @ [EvClock t, EvHttp (operators_request token') (Some r)] @ after"
    and rest: "now - t < TTL" "token_key w token' = token_key w token" "rs_ok r" "operators_in r = Inr items"
      "offered_of items [] = Inr offered"
      "(slug, tool) \<notin> item_pair ` set items \<or> (\<exists>i \<in> set items. item_pair i = (slug, tool) \<and> item_may i)"
    unfolding clears_def by blast
  have "w_trace w' = before @ [EvClock t, EvHttp (operators_request token') (Some r)] @ (after @ es)"
    by (simp add: tr at)
  then show ?thesis using rest unfolding clears_def key by blast
qed

lemma gate_reads: "grows.keeps reads (gate_check slug tool token)"
  by (intro grows_keeps_check reads_operators) (simp add: reads_def)



definition ex_ledger :: "(request \<Rightarrow> response option) \<Rightarrow> gateway" where
  "ex_ledger net = (ex_gateway net)\<lparr>g_topology := topology_register ''ledger'' ''http://ledger'' (Some ''ledger-id'') new_topology\<rparr>"

definition ex_services :: "request \<Rightarrow> response option" where
  "ex_services q = (if rq_peer q = Mantle then Some (reply 200 ex_operators)
     else Some (reply 200 (VDict [(''result'', VInt 1)])))"

lemma ex_ledger_inv: "gate_inv (ex_ledger net)"
proof -
  have "grows_by (\<lambda>_. True) (ex_gateway net) (ex_ledger net)" "g_seen (ex_ledger net) = g_seen (ex_gateway net)"
    by (simp_all add: ex_ledger_def grows_by_def same_outside_def)
  then show ?thesis using gate_inv_grows [OF ex_gateway_inv] by blast
qed


text \<open>The condition on the spelling of the name is needed: the gate looks a tool up under the name it is
  given, the topology under the trimmed name. So a reference to a withheld operator's persona with a
  space after it is cleared by the gate and still reaches that persona.\<close>

theorem gate_misses_padded_name:
  "fst (call_persona ''ledger'' ''reconcile'' (VDict []) (Some ''t'') (ex_ledger ex_services)) =
     Inl (HTTPException 403 (Detail ''{}.{} is the platform operator {!r}, which you may not invoke''
       [VStr ''ledger'', VStr ''reconcile'', VStr ''a'']))
   \<and> fst (call_persona ''ledger '' ''reconcile'' (VDict []) (Some ''t'') (ex_ledger ex_services)) = Inr (VInt 1)
   \<and> (\<exists>q a. EvHttp q a \<in> set (w_trace (snd (call_persona ''ledger '' ''reconcile'' (VDict []) (Some ''t'') (ex_ledger ex_services))))
        \<and> rq_peer q = Persona ''http://ledger''
        \<and> rq_body q = rpc 2 ''tools/call'' (VDict [(''name'', VStr ''reconcile''), (''arguments'', VDict [])]))"
proof (intro conjI)
  let ?r = "call_persona ''ledger '' ''reconcile'' (VDict []) (Some ''t'') (ex_ledger ex_services)"
  let ?p = "\<lambda>e. case e of EvHttp q a \<Rightarrow> rq_peer q = Persona ''http://ledger''
        \<and> rq_body q = rpc 2 ''tools/call'' (VDict [(''name'', VStr ''reconcile''), (''arguments'', VDict [])]) | _ \<Rightarrow> False"
  have "list_ex ?p (w_trace (snd ?r))" by code_simp
  then obtain e where "e \<in> set (w_trace (snd ?r))" "?p e" by (auto simp: list_ex_iff)
  then show "\<exists>q a. EvHttp q a \<in> set (w_trace (snd ?r)) \<and> rq_peer q = Persona ''http://ledger''
        \<and> rq_body q = rpc 2 ''tools/call'' (VDict [(''name'', VStr ''reconcile''), (''arguments'', VDict [])])"
    by (auto split: event.splits)
qed code_simp+

section \<open>Describers\<close>

text \<open>The window's table is an instance of the short-lived caches.\<close>

lemma describe_step_fresh:
  assumes "wf_dict s"
  shows "describe_step i now s = (case timed_fresh describe_ttl s i now of
      Some _ \<Rightarrow> (True, prune describe_ttl now s)
    | None \<Rightarrow> (False, timed_keep describe_ttl i now () s))"
proof (cases "map_of s i")
  case None
  then have "map_of (prune describe_ttl now s) i = None" by (simp add: map_of_prune [OF assms])
  with None show ?thesis by (simp add: describe_step_def timed_fresh_def timed_keep_def Let_def)
next
  case (Some e)
  obtain t where e: "e = (t, ())" by (cases e) auto
  show ?thesis
  proof (cases "now - t < describe_ttl")
    case True
    with Some e have "map_of (prune describe_ttl now s) i = Some (t, ())" by (simp add: map_of_prune [OF assms])
    with Some e True show ?thesis by (simp add: describe_step_def timed_fresh_def Let_def)
  next
    case False
    then have "map_of (prune describe_ttl now s) i \<in> {None, Some (t, ())}"
      using Some e by (simp add: map_of_prune [OF assms])
    with Some e False show ?thesis by (auto simp: describe_step_def timed_fresh_def timed_keep_def Let_def)
  qed
qed

text \<open>A run of visits: the describers that fire, with the times they fire at.\<close>

fun describe_run :: "(pyval \<times> rat) list \<Rightarrow> (pyval, unit) timed \<Rightarrow> (pyval \<times> rat) list" where
  "describe_run [] s = []"
| "describe_run ((i, now) # visits) s =
     (let (recent, s') = describe_step i now s
      in if recent then describe_run visits s' else (i, now) # describe_run visits s')"

lemma describe_step_wf: "wf_dict s \<Longrightarrow> wf_dict (snd (describe_step i now s))"
  by (simp add: describe_step_fresh wf_prune timed.ok_keep split: option.splits)

lemma describe_step_fires: "wf_dict s \<Longrightarrow> describe_step i now s = (False, s') \<Longrightarrow> map_of s' i = Some (now, ())"
  by (auto simp: describe_step_fresh timed_keep_def split: option.splits)

text \<open>Inside the window the entry stays and answers.\<close>

lemma describe_step_held:
  assumes wf: "wf_dict s" and at: "map_of s i = Some (t, ())" and fresh: "now - t < describe_ttl"
    and step: "describe_step j now s = (recent, s')"
  shows "map_of s' i = Some (t, ()) \<and> (j = i \<longrightarrow> recent)"
proof -
  have kept: "map_of (prune describe_ttl now s) i = Some (t, ())"
    using at fresh by (simp add: map_of_prune [OF wf])
  have hit: "timed_fresh describe_ttl s i now = Some ()"
    using at fresh by (simp add: timed_fresh_def)
  show ?thesis
    using step hit kept unfolding describe_step_fresh [OF wf]
    by (cases "j = i") (auto simp: timed_keep_def split: option.splits)
qed

lemma describe_run_visits: "wf_dict s \<Longrightarrow> set (describe_run visits s) \<subseteq> set visits"
proof (induction visits arbitrary: s)
  case (Cons v visits)
  obtain i now where v: "v = (i, now)" by (cases v)
  obtain recent s' where step: "describe_step i now s = (recent, s')" by (cases "describe_step i now s")
  then have "wf_dict s'" using describe_step_wf [OF Cons.prems, of i now] by simp
  from Cons.IH [OF this] show ?case by (auto simp: v step)
qed simp

lemma describe_run_spaced:
  assumes "wf_dict s" and "map_of s i = Some (t0, ())" and "sorted_wrt (\<le>) (map snd visits)"
  shows "(i, t) \<in> set (describe_run visits s) \<Longrightarrow> describe_ttl \<le> t - t0"
  using assms
proof (induction visits arbitrary: s)
  case (Cons v visits)
  obtain j now where v: "v = (j, now)" by (cases v)
  obtain recent s' where step: "describe_step j now s = (recent, s')" by (cases "describe_step j now s")
  have wf': "wf_dict s'" using describe_step_wf [OF Cons.prems(2), of j now] step by simp
  show ?case
  proof (cases "now - t0 < describe_ttl")
    case True
    from describe_step_held [OF Cons.prems(2,3) True step]
    have "map_of s' i = Some (t0, ())" "j = i \<longrightarrow> recent" by auto
    with Cons.IH [OF _ wf'] Cons.prems(1,4) show ?thesis by (auto simp: v step split: if_splits)
  next
    case False
    have "now \<le> t" using Cons.prems(1,4) describe_run_visits [OF wf'] by (force simp: v step split: if_splits)
    with False show ?thesis by simp
  qed
qed simp

lemma describe_run_sorted:
  "wf_dict s \<Longrightarrow> sorted_wrt (\<le>) (map snd visits)
    \<Longrightarrow> sorted_wrt (\<lambda>a b. fst a = fst b \<longrightarrow> describe_ttl \<le> snd b - snd a) (describe_run visits s)"
proof (induction visits arbitrary: s)
  case (Cons v visits)
  obtain j now where v: "v = (j, now)" by (cases v)
  obtain recent s' where step: "describe_step j now s = (recent, s')" by (cases "describe_step j now s")
  have wf': "wf_dict s'" using describe_step_wf [OF Cons.prems(1), of j now] step by simp
  have rest: "sorted_wrt (\<lambda>a b. fst a = fst b \<longrightarrow> describe_ttl \<le> snd b - snd a) (describe_run visits s')"
    using Cons.IH [OF wf'] Cons.prems(2) by simp
  show ?case
  proof (cases recent)
    case False
    then have "map_of s' j = Some (now, ())" using describe_step_fires [OF Cons.prems(1)] step by simp
    then show ?thesis
      using False rest describe_run_spaced [OF wf'] Cons.prems(2) by (auto simp: v step)
  qed (simp add: v step rest)
qed simp

text \<open>however often an artifact changes, inline or on the change feed, its describer runs at most
  once in any 15 seconds (so the write a describer makes does not set it off again), and an artifact
  not described for 15 seconds is described at the next change.\<close>

theorem describe_window:
  assumes "sorted_wrt (\<le>) (map snd visits)" and "wf_dict s"
  shows "sorted_wrt (\<lambda>a b. fst a = fst b \<longrightarrow> 15 \<le> snd b - snd a) (describe_run visits s)
    \<and> (\<forall>i now t. map_of s i = Some (t, ()) \<and> 15 \<le> now - t \<longrightarrow> \<not> fst (describe_step i now s))
    \<and> (\<forall>i now. map_of s i = None \<longrightarrow> \<not> fst (describe_step i now s))"
  using describe_run_sorted [OF assms(2,1)] describe_step_fresh [OF assms(2)]
  by (auto simp: describe_ttl_def timed_fresh_def)

theorem describe_window_witness:
  "describe_run [(VStr ''a'', 0), (VStr ''a'', 5), (VStr ''b'', 6), (VStr ''a'', 15)] []
     = [(VStr ''a'', 0), (VStr ''b'', 6), (VStr ''a'', 15)]
   \<and> sorted_wrt (\<lambda>a b. fst a = fst b \<longrightarrow> 15 \<le> snd b - snd a)
       (describe_run [(VStr ''a'', 0), (VStr ''a'', 5), (VStr ''b'', 6), (VStr ''a'', 15)] [])"
proof
  show "describe_run [(VStr ''a'', 0), (VStr ''a'', 5), (VStr ''b'', 6), (VStr ''a'', 15)] []
     = [(VStr ''a'', 0), (VStr ''b'', 6), (VStr ''a'', 15)]"
    by code_simp
  show "sorted_wrt (\<lambda>a b. fst a = fst b \<longrightarrow> 15 \<le> snd b - snd a)
       (describe_run [(VStr ''a'', 0), (VStr ''a'', 5), (VStr ''b'', 6), (VStr ''a'', 15)] [])"
    by (rule describe_window [THEN conjunct1]) simp_all
qed

text \<open>a describer never gets in the way. Whatever its definition, the topology and the persona's
  answer, running it returns; all it may do is one call to the persona its target names, with the
  token it was given, and the gateway's state is untouched.\<close>

theorem run_describer_best_effort:
  "\<exists>es. run_describer describer content_type artifact_id token w = (Inr (), w\<lparr>w_trace := w_trace w @ es\<rparr>)
     \<and> list_all (carries token) es"
proof -
  let ?m = "run_describer describer content_type artifact_id token"
  have returns: "fst (?m w) = Inr ()"
    by (simp add: run_describer_def catchM_def split: prod.splits sum.splits)
  have "stateless.keeps ?m"
    unfolding run_describer_def
    by (intro stateless_intros) (auto split: prod.splits option.splits intro!: stateless_intros stateless_mcp)
  then have state: "same_gateway w (snd (?m w))" by (simp add: stateless.keeps_def)
  have "grows.keeps (carries token) ?m"
    unfolding run_describer_def
    by (intro grows_keeps_intros) (auto split: prod.splits option.splits intro!: grows_keeps_intros mcp_keeps_carries)
  then have "grows_by (carries token) w (snd (?m w))" by (simp add: grows.keeps_def)
  with state returns prog_at [of ?m w "Inr ()"] show ?thesis
    by (auto simp: same_gateway_def grows_by_def list_all_iff)
qed

end
