(* ===== verification/Gateway_Main.thy ===== *)
theory Gateway_Main
  imports Dispatcher_Safety
begin

text \<open>
  \<open>src/src/crystal/main.py\<close>, \<open>events.py\<close> and \<open>type_publish.py\<close>: the gateway's routes, the
  credential each asks for, the check that comes before a body is parsed, the change feed, and the
  publication of type definitions. A route takes the \<open>Authorization\<close> header (\<open>None\<close> when absent)
  and the parsed body; the configuration, the trust anchors and the two token verifiers are the
  record \<open>settings\<close>. The web framework's routing, CORS and the model validation of the bodies are
  not modelled.
\<close>

section \<open>Credentials\<close>

record settings =
  st_keys_dir :: string
  st_anchors :: "pyval dict"
  st_decode :: "string \<Rightarrow> pyval \<Rightarrow> pyval dict option"
  st_access :: "string \<Rightarrow> bool"
  st_max_body :: int

definition bearer_of :: "string option \<Rightarrow> string option" where
  "bearer_of header =
     (let auth = (case header of None \<Rightarrow> [] | Some h \<Rightarrow> h)
      in if py_lower (take 7 auth) = ''bearer '' then Some (py_strip (drop 7 auth)) else None)"

definition require_bearer :: "string option \<Rightarrow> string res" where
  "require_bearer header = (case bearer_of header of
       Some t \<Rightarrow> if t = [] then Inl (HTTPException 401 (Detail ''Bearer token required'' [])) else Inr t
     | None \<Rightarrow> Inl (HTTPException 401 (Detail ''Bearer token required'' [])))"

definition require_reader :: "settings \<Rightarrow> string option \<Rightarrow> unit res" where
  "require_reader st header =
     (if st_anchors st = [] then
        if st_keys_dir st \<noteq> [] then Inl (HTTPException 503 (Detail ''gateway authority manifest unavailable'' []))
        else Inr ()
      else case bearer_of header of
        None \<Rightarrow> Inl (HTTPException 401 (Detail ''authentication required'' []))
      | Some token \<Rightarrow>
          if token = [] then Inl (HTTPException 401 (Detail ''authentication required'' []))
          else if verify_service_token (st_decode st) token (st_anchors st) then Inr ()
          else if st_access st token then Inr ()
          else Inl (HTTPException 401 (Detail ''invalid access token'' [])))"

definition require_platform_service :: "settings \<Rightarrow> string \<Rightarrow> string option \<Rightarrow> unit res" where
  "require_platform_service st static_key header =
     (if st_anchors st = [] then
        if st_keys_dir st \<noteq> [] then Inl (HTTPException 503 (Detail ''gateway authority manifest unavailable'' []))
        else Inr ()
      else case bearer_of header of
        None \<Rightarrow> Inl (HTTPException 401 (Detail ''authentication required'' []))
      | Some token \<Rightarrow>
          if token = [] then Inl (HTTPException 401 (Detail ''authentication required'' []))
          else if static_key \<noteq> [] \<and> token = static_key then Inr ()
          else if \<not> verify_service_token (st_decode st) token (st_anchors st)
          then Inl (HTTPException 401 (Detail ''invalid service token'' []))
          else Inr ())"

section \<open>Before the body is parsed\<close>

definition gated_route :: "string \<Rightarrow> bool" where
  "gated_route p \<longleftrightarrow> p = ''/register'' \<or> p = ''/create''
     \<or> (case py_split (CHR ''/'') p of
          [e, a, i, op, n] \<Rightarrow> e = [] \<and> a = ''artifacts'' \<and> i \<noteq> [] \<and> op = ''op'' \<and> n \<noteq> []
        | _ \<Rightarrow> False)"

text \<open>\<open>^/(?:register|create|artifacts/[^/]+/op/[^/]+)/?$\<close>.\<close>

definition gated_body :: "string \<Rightarrow> bool" where
  "gated_body path \<longleftrightarrow> (\<exists>p \<in> {path, before_newline path}.
     gated_route p \<or> (py_endswith p ''/'' \<and> gated_route (butlast p)))"

text \<open>What the server sends the application: a part of the body (and whether more follows), or the
  client going away.\<close>

datatype message = Part string bool | Disconnect

datatype gate_result =
    PassedOn "message list"
  | Answered int
  | ClientGone
  | StillReading
  | Handed string "message list"

fun read_body :: "int \<Rightarrow> int \<Rightarrow> string list \<Rightarrow> message list \<Rightarrow> gate_result" where
  "read_body limit sofar chunks [] = StillReading"
| "read_body limit sofar chunks (Disconnect # rest) = ClientGone"
| "read_body limit sofar chunks (Part body cont # rest) =
     (let total = sofar + int (length body) in
      if total > limit then Answered 413
      else if cont then read_body limit total (chunks @ [body]) rest
      else Handed (concat (chunks @ [body])) rest)"

definition status_of :: "exc \<Rightarrow> int" where
  "status_of e = (case e of HTTPException status _ \<Rightarrow> status | _ \<Rightarrow> 500)"

definition body_gate :: "settings \<Rightarrow> string \<Rightarrow> string \<Rightarrow> string \<Rightarrow> string option \<Rightarrow> string option
    \<Rightarrow> message list \<Rightarrow> gate_result" where
  "body_gate st kind mthd path header content_length messages =
     (if kind \<noteq> ''http'' \<or> mthd \<noteq> ''POST'' \<or> \<not> gated_body path then PassedOn messages
      else case (if rstrip_char (CHR ''/'') path = ''/register'' then require_platform_service st [] header
                 else res_bind (require_bearer header) (\<lambda>_. Inr ())) of
        Inl e \<Rightarrow> Answered (status_of e)
      | Inr _ \<Rightarrow>
          (case content_length of
             None \<Rightarrow> read_body (st_max_body st) 0 [] messages
           | Some declared \<Rightarrow>
               (case parse_int declared of
                  Inl _ \<Rightarrow> Answered 400
                | Inr n \<Rightarrow> if n > st_max_body st then Answered 413
                          else read_body (st_max_body st) 0 [] messages)))"

section \<open>Publishing type definitions\<close>

text \<open>\<open>publish_types\<close>: \<open>left\<close> attempts remain; a sleep stands between two.\<close>

fun publish_attempts :: "nat \<Rightarrow> string \<Rightarrow> pyval \<Rightarrow> string \<Rightarrow> ('a world_scheme, pyval) prog" where
  "publish_attempts 0 path body jwt = ret VNone"
| "publish_attempts (Suc left) path body jwt =
     bindM (catchM (bindM (mantle_put path body (Some jwt)) (\<lambda>v. ret (Inr v))) (\<lambda>e. ret (Inl e))) (\<lambda>answer.
     case answer of
       Inr result \<Rightarrow> bindM (liftR (py_get result ''refused'')) (\<lambda>_. ret result)
     | Inl e \<Rightarrow>
         if (case e of HTTPStatusError status _ \<Rightarrow> 400 \<le> status \<and> status < 500 | _ \<Rightarrow> False) then ret VNone
         else if left = 0 then ret VNone
         else bindM (sleep 6) (\<lambda>_. publish_attempts left path body jwt))"

definition ATTEMPTS :: nat where
  "ATTEMPTS = 5"

definition publish_types :: "(string \<Rightarrow> string) option \<Rightarrow> string \<Rightarrow> pyval list \<Rightarrow> ('a world_scheme, pyval) prog" where
  "publish_types identity server definitions = (case identity of
       None \<Rightarrow> ret VNone
     | Some service_jwt \<Rightarrow> publish_attempts ATTEMPTS (''/type-definitions/'' @ server)
         (VDict [(''types'', VList definitions)]) (service_jwt ''mantle''))"

definition publish_server_types :: "string \<Rightarrow> (gateway, unit) prog" where
  "publish_server_types server =
     bindM (getsM (\<lambda>w. definitions_from (g_types w) server)) (\<lambda>definitions.
     create_task (Task ''publish_types'' [VStr server, VList definitions]))"

section \<open>Starting up\<close>

definition lifespan :: "bool \<Rightarrow> (string \<times> string \<times> pyval option) list \<Rightarrow> (string \<Rightarrow> string) option \<Rightarrow> bool
    \<Rightarrow> world \<Rightarrow> gateway res" where
  "lifespan is_dir files identity events_enabled w =
     res_bind (load_builtin is_dir files new_registry) (\<lambda>(n, types).
     let g = snd (publish_server_types BUILTIN_SERVER (start_gateway w types identity))
     in Inr (if events_enabled \<and> identity \<noteq> None then snd (create_task (Task ''event_driver'' []) g) else g))"

section \<open>Routes\<close>

definition register_one :: "string \<Rightarrow> pyval \<Rightarrow> int \<Rightarrow> (gateway, int) prog" where
  "register_one server defn n =
     bindM (getsM (\<lambda>w. reg_register defn (Some server) (g_types w))) (\<lambda>r.
     bindM (liftR r) (\<lambda>(ok, reg).
     bindM (modifyM (\<lambda>w. w\<lparr>g_types := reg\<rparr>)) (\<lambda>_. ret (if ok then n + 1 else n))))"

definition register_server :: "settings \<Rightarrow> string option \<Rightarrow> string \<Rightarrow> string \<Rightarrow> string option \<Rightarrow> pyval list
    \<Rightarrow> (gateway, pyval) prog" where
  "register_server st header slug endpoint client_id types =
     bindM (liftR (require_platform_service st [] header)) (\<lambda>_.
     bindM (modifyM (\<lambda>w. w\<lparr>g_types := snd (remove_server slug (g_types w))\<rparr>)) (\<lambda>_.
     bindM (modifyM (\<lambda>w. w\<lparr>g_topology := topology_register slug endpoint client_id (g_topology w)\<rparr>)) (\<lambda>_.
     bindM (forM (register_one slug) types 0) (\<lambda>n.
     bindM (publish_server_types slug) (\<lambda>_.
     ret (VDict [(''registered'', VStr slug), (''endpoint'', VStr endpoint), (''types'', VInt n)]))))))"

definition health :: "(gateway, pyval) prog" where
  "health = bindM mantle_ping (\<lambda>up. bindM (getsM (\<lambda>w. (g_types w, g_topology w))) (\<lambda>(reg, topo).
     ret (VDict [(''status'', VStr ''ok''), (''mantle_reachable'', VBool up),
       (''types_known'', VInt (int (length (reg_known reg)))),
       (''personas_known'', VInt (int (length (topology_known topo))))])))"

definition operation_summary :: "operation_spec \<Rightarrow> pyval" where
  "operation_summary op = VDict [(''kind'', VStr (os_kind op)), (''target'', os_target op),
     (''requires_grant'', os_requires_grant op)]"

definition resolve_type :: "settings \<Rightarrow> string option \<Rightarrow> string \<Rightarrow> (gateway, pyval) prog" where
  "resolve_type st header content_type =
     bindM (liftR (require_reader st header)) (\<lambda>_.
     bindM (getsM g_types) (\<lambda>reg.
     case reg_resolve reg content_type of
       None \<Rightarrow> raise (HTTPException 404 (Detail ''No type definition for {}'' [VStr content_type]))
     | Some td \<Rightarrow> ret (VDict [(''content_type'', VStr (td_content_type td)), (''server'', vopt (td_server td)),
         (''operations'', VDict (map (\<lambda>(name, op). (name, operation_summary op)) (operations_of reg content_type))),
         (''describer'', td_describer td)])))"

definition type_entry :: "type_registry \<Rightarrow> string \<Rightarrow> pyval list" where
  "type_entry reg content_type = (case reg_resolve reg content_type of
       None \<Rightarrow> []
     | Some td \<Rightarrow> [VDict [(''content_type'', VStr (td_content_type td)), (''definition'', td_raw td),
                          (''server'', vopt (td_server td))]])"

definition list_all_types :: "settings \<Rightarrow> string option \<Rightarrow> (gateway, pyval) prog" where
  "list_all_types st header =
     bindM (liftR (require_reader st header)) (\<lambda>_.
     bindM (getsM g_types) (\<lambda>reg.
     ret (VDict [(''types'', VList (concat (map (type_entry reg) (reg_known reg))))])))"

definition create_artifact :: "string option \<Rightarrow> pyval dict \<Rightarrow> (gateway, pyval) prog" where
  "create_artifact header body =
     (if \<not> truthy (dget body ''content_type'')
      then raise (HTTPException 400 (Detail ''body.content_type is required'' []))
      else bindM (liftR (require_bearer header)) (\<lambda>token.
           bindM (liftR (as_str ''strip'' (dget body ''content_type''))) (\<lambda>content_type.
           create content_type body (Some token))))"

definition run_operation :: "string option \<Rightarrow> string \<Rightarrow> string \<Rightarrow> pyval dict \<Rightarrow> (gateway, pyval) prog" where
  "run_operation header artifact_id op_name body =
     bindM (liftR (require_bearer header)) (\<lambda>token. dispatch artifact_id op_name body (Some token))"

definition list_personas :: "string option \<Rightarrow> (gateway, pyval) prog" where
  "list_personas header =
     bindM (liftR (require_bearer header)) (\<lambda>token.
     bindM (persona_list (Some token)) (\<lambda>items. ret (VDict [(''items'', VList items)])))"

definition read_persona_resource :: "string option \<Rightarrow> string \<Rightarrow> pyval dict \<Rightarrow> (gateway, pyval) prog" where
  "read_persona_resource header slug body =
     (if \<not> truthy (dget body ''uri'') then raise (HTTPException 400 (Detail ''body.uri is required'' []))
      else bindM (liftR (require_bearer header)) (\<lambda>token.
           case dget body ''uri'' of
             VStr uri \<Rightarrow> read_resource slug uri (Some token)
           | v \<Rightarrow> bindM (persona_call slug ''resources/read'' (VDict [(''uri'', v)]) (Some token)) (\<lambda>result.
                    liftR (resource_info slug (py_str v) result))))"

definition call_persona_tool :: "string option \<Rightarrow> string \<Rightarrow> pyval dict \<Rightarrow> (gateway, pyval) prog" where
  "call_persona_tool header slug body =
     (if \<not> truthy (dget body ''name'') then raise (HTTPException 400 (Detail ''body.name is required'' []))
      else bindM (liftR (require_bearer header)) (\<lambda>token.
           let arguments = py_or (dget body ''arguments'') (VDict []) in
           case dget body ''name'' of
             VStr name \<Rightarrow> bindM (gate_check slug name (Some token)) (\<lambda>_.
               persona_call_tool slug name arguments (Some token))
           | v \<Rightarrow> bindM (if loose_uuid slug then ret ()
                         else bindM (gate_offered (Some token)) (\<lambda>_.
                                if hashable v then ret () else raise (TypeError ''unhashable''))) (\<lambda>_.
                  persona_call slug ''tools/call'' (VDict [(''name'', v), (''arguments'', arguments)]) (Some token))))"

section \<open>The change feed\<close>

definition mantle_ws_url :: "string \<Rightarrow> string" where
  "mantle_ws_url mantle_uri =
     (let base = rstrip_char (CHR ''/'') mantle_uri in
      if py_startswith base ''https://'' then ''wss://'' @ drop 8 base @ ''/events''
      else if py_startswith base ''http://'' then ''ws://'' @ drop 7 base @ ''/events''
      else base @ ''/events'')"

definition CHANGE_EVENTS :: "string list" where
  "CHANGE_EVENTS = [''artifact.created'', ''artifact.updated'']"

text \<open>The artifact a change is about: its content type and id, both present.\<close>

definition changed_artifact :: "pyval dict \<Rightarrow> (pyval \<times> pyval) option res" where
  "changed_artifact msg =
     (if dget msg ''event'' \<notin> VStr ` set CHANGE_EVENTS then Inr None
      else let payload = py_or (dget msg ''payload'') (VDict []) in
        res_bind (py_get payload ''artifact'') (\<lambda>inner.
        let art = (if is_dict inner then inner else payload) in
        case art of
          VDict d \<Rightarrow>
            let content_type = py_or (dget d ''content_type'') (VStr []);
                artifact_id = py_or (dget d ''id'') (dget d ''root_id'')
            in Inr (if truthy content_type \<and> truthy artifact_id then Some (content_type, artifact_id) else None)
        | _ \<Rightarrow> Inr None))"

definition handle_change :: "pyval dict \<Rightarrow> (gateway, unit) prog" where
  "handle_change msg =
     bindM (liftR (changed_artifact msg)) (\<lambda>change.
     case change of
       None \<Rightarrow> ret ()
     | Some (content_type, artifact_id) \<Rightarrow>
         catchM (bindM (liftR (as_str ''strip'' content_type)) (\<lambda>ct. fire_describer_for_resource ct artifact_id))
           (\<lambda>_. ret ()))"

text \<open>One message of the feed, as text.\<close>

definition feed_message :: "string \<Rightarrow> (gateway, unit) prog" where
  "feed_message raw =
     bindM (getsM w_loads) (\<lambda>loads.
     case loads raw of
       None \<Rightarrow> ret ()
     | Some msg \<Rightarrow> bindM (liftR (py_in ''event'' msg)) (\<lambda>has.
         if has then bindM (liftR (py_items msg)) handle_change else ret ()))"

end
