(* ===== verification/Gateway_Laws.thy ===== *)
theory Gateway_Laws
  imports Gateway_Main
begin

text \<open>
  What the routes guarantee: no body is parsed for an unauthenticated caller and none over the
  limit, no route acts without a credential, a registration replaces exactly what the persona
  registered before, and publishing is bounded.
\<close>

section \<open>The body gate\<close>

definition part_body :: "message \<Rightarrow> string" where
  "part_body m = (case m of Part body _ \<Rightarrow> body | Disconnect \<Rightarrow> [])"

lemma part_body_simps [simp]: "part_body (Part b cont) = b" "part_body Disconnect = []"
  by (simp_all add: part_body_def)

text \<open>The messages of one whole body.\<close>

fun whole_body :: "message list \<Rightarrow> bool" where
  "whole_body [] = False"
| "whole_body [Part body cont] = (\<not> cont)"
| "whole_body (Part body cont # rest) = (cont \<and> whole_body rest)"
| "whole_body (Disconnect # rest) = False"

lemma whole_body_Part: "whole_body (Part b cont # rest) = (if rest = [] then \<not> cont else cont \<and> whole_body rest)"
  by (cases rest) auto

lemma read_body_Handed:
  "read_body limit sofar chunks messages = Handed body rest \<Longrightarrow> \<exists>parts. messages = parts @ rest \<and> whole_body parts
     \<and> body = concat chunks @ concat (map part_body parts)
     \<and> sofar + int (length (concat (map part_body parts))) \<le> limit"
proof (induction limit sofar chunks messages rule: read_body.induct)
  case (3 limit sofar chunks b cont messages)
  let ?total = "sofar + int (length b)"
  from "3.prems" have small: "?total \<le> limit" by (auto simp: Let_def split: if_splits)
  show ?case
  proof (cases cont)
    case True
    with 3 small obtain parts where parts: "messages = parts @ rest" "whole_body parts"
      "body = concat (chunks @ [b]) @ concat (map part_body parts)"
      "?total + int (length (concat (map part_body parts))) \<le> limit"
      by (auto simp: Let_def)
    then have "parts \<noteq> []" by auto
    with parts True show ?thesis
      by (intro exI [of _ "Part b cont # parts"]) (auto simp: whole_body_Part)
  next
    case False
    with "3.prems" small show ?thesis
      by (intro exI [of _ "[Part b cont]"]) (auto simp: Let_def)
  qed
qed auto

lemma read_body_whole:
  "whole_body parts \<Longrightarrow> sofar + int (length (concat (map part_body parts))) \<le> limit
    \<Longrightarrow> read_body limit sofar chunks (parts @ rest) = Handed (concat chunks @ concat (map part_body parts)) rest"
proof (induction parts arbitrary: sofar chunks)
  case (Cons m parts)
  then obtain b cont where m: "m = Part b cont" by (cases m) auto
  show ?case
  proof (cases "parts = []")
    case True
    with Cons.prems m show ?thesis by (auto simp: Let_def)
  next
    case False
    with Cons.prems m have "cont" "whole_body parts" by (auto simp: whole_body_Part)
    then show ?thesis
      using Cons.IH [of "sofar + int (length b)" "chunks @ [b]"] Cons.prems(2)
      by (auto simp: m Let_def)
  qed
qed simp

text \<open>What the gate asks of the caller before it reads anything.\<close>

definition gate_credential :: "settings \<Rightarrow> string \<Rightarrow> string option \<Rightarrow> unit res" where
  "gate_credential st path header =
     (if rstrip_char (CHR ''/'') path = ''/register'' then require_platform_service st [] header
      else res_bind (require_bearer header) (\<lambda>_. Inr ()))"

text \<open>The paths the gate stands before, spelled out.\<close>

definition parses_here :: "string \<Rightarrow> bool" where
  "parses_here path \<longleftrightarrow> (\<exists>base. (path = base \<or> path = base @ ''/'')
     \<and> (base = ''/register'' \<or> base = ''/create''
        \<or> (\<exists>artifact op. base = ''/artifacts/'' @ artifact @ ''/op/'' @ op \<and> artifact \<noteq> [] \<and> op \<noteq> []
             \<and> CHR ''/'' \<notin> set artifact \<and> CHR ''/'' \<notin> set op)))"

lemma py_split_at: "c \<notin> set q \<Longrightarrow> py_split c (q @ c # t) = q # py_split c t"
  by (induction q) auto

lemma py_split_whole: "c \<notin> set q \<Longrightarrow> py_split c q = [q]"
  by (induction q) auto

lemma gated_operation:
  "artifact \<noteq> [] \<Longrightarrow> op \<noteq> [] \<Longrightarrow> CHR ''/'' \<notin> set artifact \<Longrightarrow> CHR ''/'' \<notin> set op
    \<Longrightarrow> gated_route (''/artifacts/'' @ artifact @ ''/op/'' @ op)"
  by (simp add: gated_route_def py_split_at py_split_whole)

lemma gated_fixed: "gated_route ''/register''" "gated_route ''/create''"
  by (simp_all add: gated_route_def)

lemma parses_here_gated: "parses_here path \<Longrightarrow> gated_body path"
proof -
  assume "parses_here path"
  then obtain base where path: "path = base \<or> path = base @ ''/''" and base: "gated_route base"
    unfolding parses_here_def using gated_operation gated_fixed by metis
  then show ?thesis
    unfolding gated_body_def by (intro bexI [of _ path]) (auto simp: py_endswith_def)
qed

text \<open>The two routes of a persona that parse a body are not among them.\<close>

lemma persona_body_ungated: "\<not> gated_body (''/personas/'' @ slug @ ''/'' @ what)"
proof -
  have no: "\<not> gated_route (''/personas/'' @ x)" for x
    by (cases "py_split (CHR ''/'') x") (auto simp: gated_route_def split: list.splits)
  have "before_newline (''/personas/'' @ slug @ ''/'' @ what) = ''/personas/'' @ slug @ ''/'' @ what
      \<or> (\<exists>x. before_newline (''/personas/'' @ slug @ ''/'' @ what) = ''/personas/'' @ x)"
    by (cases what rule: rev_cases) (auto simp: before_newline_def butlast_append)
  moreover have "butlast (''/personas/'' @ slug @ ''/'' @ what) = ''/personas/'' @ butlast (slug @ ''/'' @ what)"
    by (simp add: butlast_append)
  moreover have "\<not> (py_endswith (''/personas/'' @ x) ''/'' \<and> gated_route (butlast (''/personas/'' @ x)))" for x
  proof (cases x rule: rev_cases)
    case Nil
    then show ?thesis by (simp add: gated_route_def)
  next
    case (snoc y c)
    then have "butlast (''/personas/'' @ x) = ''/personas/'' @ y" by simp
    then show ?thesis using no by simp
  qed
  ultimately show ?thesis using no unfolding gated_body_def by auto
qed

text \<open>C4: on the three routes whose body the gate reads (registration, creation and the operations of an
  artifact, each with or without a final slash), the application is handed a body only after the
  caller's credential was accepted; it is then exactly the bytes of the messages read, no more than the
  limit, with the rest of the stream left to be read. A caller without the credential is answered at
  once, whatever it sends, and nothing is read; a declared length over the limit is a 413. The bodies of
  the two routes of a persona, \<open>tools/call\<close> and \<open>resources/read\<close>, are no business of the gate: their
  requests are passed on as they came, whatever the caller presents.\<close>

theorem body_gate_sound:
  assumes "parses_here path"
  shows "(\<forall>body rest. body_gate st ''http'' ''POST'' path header len messages = Handed body rest \<longrightarrow>
        gate_credential st path header = Inr () \<and> int (length body) \<le> st_max_body st
        \<and> (\<exists>parts. messages = parts @ rest \<and> whole_body parts \<and> body = concat (map part_body parts)))
    \<and> (\<forall>e. gate_credential st path header = Inl e \<longrightarrow>
        body_gate st ''http'' ''POST'' path header len messages = Answered (status_of e))
    \<and> (\<forall>d n. gate_credential st path header = Inr () \<and> len = Some d \<and> parse_int d = Inr n \<and> n > st_max_body st \<longrightarrow>
        body_gate st ''http'' ''POST'' path header len messages = Answered 413)
    \<and> (\<forall>messages'. body_gate st ''http'' ''POST'' path header len messages \<noteq> PassedOn messages')
    \<and> body_gate st ''http'' ''POST'' (''/personas/'' @ slug @ ''/tools/call'') header len messages = PassedOn messages
    \<and> body_gate st ''http'' ''POST'' (''/personas/'' @ slug @ ''/resources/read'') header len messages = PassedOn messages"
proof -
  have gate: "body_gate st ''http'' ''POST'' path header len messages =
      (case gate_credential st path header of Inl e \<Rightarrow> Answered (status_of e)
       | Inr _ \<Rightarrow> (case len of None \<Rightarrow> read_body (st_max_body st) 0 [] messages
          | Some d \<Rightarrow> (case parse_int d of Inl _ \<Rightarrow> Answered 400
             | Inr n \<Rightarrow> if n > st_max_body st then Answered 413 else read_body (st_max_body st) 0 [] messages)))"
    using parses_here_gated [OF assms] by (simp add: body_gate_def gate_credential_def)
  show ?thesis
  proof (intro conjI allI impI)
    fix body rest assume handed: "body_gate st ''http'' ''POST'' path header len messages = Handed body rest"
    then show cred: "gate_credential st path header = Inr ()"
      unfolding gate by (cases "gate_credential st path header") simp_all
    have read: "read_body (st_max_body st) 0 [] messages = Handed body rest"
    proof (cases len)
      case (Some d)
      with handed show ?thesis unfolding gate cred by (cases "parse_int d") (simp_all split: if_splits)
    next
      case None
      with handed show ?thesis unfolding gate cred by simp
    qed
    from read_body_Handed [OF read] obtain parts where parts: "messages = parts @ rest" "whole_body parts"
      and body: "body = concat (map part_body parts)" and small: "int (length (concat (map part_body parts))) \<le> st_max_body st"
      by auto
    show "int (length body) \<le> st_max_body st" using small unfolding body .
    show "\<exists>parts. messages = parts @ rest \<and> whole_body parts \<and> body = concat (map part_body parts)"
      using parts body by (intro exI [of _ parts] conjI)
  next
    fix e assume "gate_credential st path header = Inl e"
    then show "body_gate st ''http'' ''POST'' path header len messages = Answered (status_of e)"
      unfolding gate by simp
  next
    fix d n assume "gate_credential st path header = Inr () \<and> len = Some d \<and> parse_int d = Inr n \<and> n > st_max_body st"
    then show "body_gate st ''http'' ''POST'' path header len messages = Answered 413"
      unfolding gate by simp
  next
    have "read_body limit sofar chunks ms \<noteq> PassedOn ms'" for limit sofar chunks ms ms'
      by (induction limit sofar chunks ms rule: read_body.induct) (auto simp: Let_def)
    then show "body_gate st ''http'' ''POST'' path header len messages \<noteq> PassedOn messages'" for messages'
      unfolding gate by (auto split: sum.splits option.splits)
  qed (use persona_body_ungated [of slug "''tools/call''"] persona_body_ungated [of slug "''resources/read''"]
       in \<open>simp_all add: body_gate_def\<close>)
qed

definition ex_settings :: settings where
  "ex_settings = \<lparr> st_keys_dir = ''/keys'', st_anchors = [(''origin'', VInt 1)],
     st_decode = (\<lambda>t jwks. if t = ''svc'' then Some (service_claims ''crystal'' 0 300)
                          else if t = ''user'' then Some [(''sub'', VStr ''u'')] else None),
     st_access = (\<lambda>t. t = ''user''), st_max_body = 4 \<rparr>"

theorem body_gate_sound_witness:
  "body_gate ex_settings ''http'' ''POST'' ''/create'' (Some ''Bearer t'') None [Part ''ab'' True, Part ''cd'' False] = Handed ''abcd'' []
   \<and> gate_credential ex_settings ''/create'' (Some ''Bearer t'') = Inr ()
   \<and> body_gate ex_settings ''http'' ''POST'' ''/register/'' (Some ''Bearer user'') None [] = Answered 401"
proof (intro conjI)
  have create: "parses_here ''/create''" and register: "parses_here ''/register/''"
    by (auto simp: parses_here_def)
  show run: "body_gate ex_settings ''http'' ''POST'' ''/create'' (Some ''Bearer t'') None [Part ''ab'' True, Part ''cd'' False] = Handed ''abcd'' []"
    by code_simp
  show "gate_credential ex_settings ''/create'' (Some ''Bearer t'') = Inr ()"
    by (rule body_gate_sound [OF create, THEN conjunct1, rule_format, OF run, THEN conjunct1])
  have "gate_credential ex_settings ''/register/'' (Some ''Bearer user'') = Inl (HTTPException 401 (Detail ''invalid service token'' []))"
    by code_simp
  from body_gate_sound [OF register, THEN conjunct2, THEN conjunct1, rule_format, OF this]
  show "body_gate ex_settings ''http'' ''POST'' ''/register/'' (Some ''Bearer user'') None [] = Answered 401"
    by (simp add: status_of_def)
qed

section \<open>Routes and credentials\<close>

text \<open>The header carries a bearer token.\<close>

definition bears :: "string option \<Rightarrow> string \<Rightarrow> bool" where
  "bears header token \<longleftrightarrow> (\<exists>h. header = Some h \<and> py_lower (take 7 h) = ''bearer ''
     \<and> token = py_strip (drop 7 h) \<and> token \<noteq> [])"

lemma bearer_of_bears: "bears header token \<longleftrightarrow> bearer_of header = Some token \<and> token \<noteq> []"
  by (cases header) (auto simp: bears_def bearer_of_def Let_def py_lower_def)

lemma unborne:
  assumes "\<not> (\<exists>token. bears header token)"
  shows "bearer_of header = None \<or> bearer_of header = Some []"
    and "require_bearer header = Inl (HTTPException 401 (Detail ''Bearer token required'' []))"
proof -
  from assms have no: "bearer_of header \<noteq> Some t \<or> t = []" for t unfolding bearer_of_bears by blast
  then show "bearer_of header = None \<or> bearer_of header = Some []" by (cases "bearer_of header") auto
  then show "require_bearer header = Inl (HTTPException 401 (Detail ''Bearer token required'' []))"
    by (auto simp: require_bearer_def)
qed

lemma health_run:
  "\<exists>v. health w = (Inr v, w\<lparr>w_trace := w_trace w @ [EvHttp (mantle_request ''GET'' ''/status'' VNone [] VNone)
     (w_net w (w_trace w) (mantle_request ''GET'' ''/status'' VNone [] VNone))]\<rparr>)"
  by (auto simp: health_def mantle_ping_def bindM_def catchM_def http_run json_of_def py_get_def
      split: option.splits pyval.splits sum.splits)

text \<open>C6: what a caller without a bearer token can do. The five routes that act for a caller answer 401
  (or 400 where the body lacks its one required member). The three routes of the registry answer 401
  or 503 when trust is configured (trust anchors, or a key directory without usable ones); in the
  development mode, with neither, they are open. In every one of these answers no request is made and
  the gateway's state is what it was. The health route asks for no credential: it makes one request,
  which asks Mantle for its status with no credential, and leaves the state as it was.\<close>

theorem no_credential_no_effect:
  assumes "\<not> (\<exists>token. bears header token)"
  defines "e401 \<equiv> HTTPException 401 (Detail ''Bearer token required'' [])"
    and "ping \<equiv> mantle_request ''GET'' ''/status'' VNone [] VNone"
  shows "(\<exists>e. create_artifact header body w = (Inl e, w) \<and> status_of e \<in> {400, 401})
    \<and> run_operation header artifact_id op_name body w = (Inl e401, w)
    \<and> list_personas header w = (Inl e401, w)
    \<and> (\<exists>e. read_persona_resource header slug body w = (Inl e, w) \<and> status_of e \<in> {400, 401})
    \<and> (\<exists>e. call_persona_tool header slug body w = (Inl e, w) \<and> status_of e \<in> {400, 401})
    \<and> (st_anchors st \<noteq> [] \<or> st_keys_dir st \<noteq> [] \<longrightarrow>
        (\<exists>e. register_server st header slug endpoint client_id types w = (Inl e, w) \<and> status_of e \<in> {401, 503})
      \<and> (\<exists>e. resolve_type st header ct w = (Inl e, w) \<and> status_of e \<in> {401, 503})
      \<and> (\<exists>e. list_all_types st header w = (Inl e, w) \<and> status_of e \<in> {401, 503}))
    \<and> (\<exists>v. health w = (Inr v, w\<lparr>w_trace := w_trace w @ [EvHttp ping (w_net w (w_trace w) ping)]\<rparr>))
    \<and> rq_headers ping = []"
proof -
  note b = unborne(1) [OF assms(1)]
  have bearer: "require_bearer header = Inl e401" using unborne(2) [OF assms(1)] by (simp add: e401_def)
  have e: "status_of e401 = 401" by (simp add: e401_def status_of_def)
  have service: "st_anchors st \<noteq> [] \<or> st_keys_dir st \<noteq> [] \<Longrightarrow>
      \<exists>e. require_platform_service st [] header = Inl e \<and> status_of e \<in> {401, 503}"
    using b by (auto simp: require_platform_service_def status_of_def)
  have reader: "st_anchors st \<noteq> [] \<or> st_keys_dir st \<noteq> [] \<Longrightarrow>
      \<exists>e. require_reader st header = Inl e \<and> status_of e \<in> {401, 503}"
    using b by (auto simp: require_reader_def status_of_def)
  have s400: "status_of (HTTPException 400 d) = 400" for d by (simp add: status_of_def)
  have five: "\<exists>e. create_artifact header body w = (Inl e, w) \<and> status_of e \<in> {400, 401}"
      "run_operation header artifact_id op_name body w = (Inl e401, w)"
      "list_personas header w = (Inl e401, w)"
      "\<exists>e. read_persona_resource header slug body w = (Inl e, w) \<and> status_of e \<in> {400, 401}"
      "\<exists>e. call_persona_tool header slug body w = (Inl e, w) \<and> status_of e \<in> {400, 401}"
    using bearer e by (auto simp: create_artifact_def run_operation_def list_personas_def
        read_persona_resource_def call_persona_tool_def s400)
  have three: "st_anchors st \<noteq> [] \<or> st_keys_dir st \<noteq> [] \<longrightarrow>
        (\<exists>e. register_server st header slug endpoint client_id types w = (Inl e, w) \<and> status_of e \<in> {401, 503})
      \<and> (\<exists>e. resolve_type st header ct w = (Inl e, w) \<and> status_of e \<in> {401, 503})
      \<and> (\<exists>e. list_all_types st header w = (Inl e, w) \<and> status_of e \<in> {401, 503})"
    using service reader by (auto simp: register_server_def resolve_type_def list_all_types_def)
  show ?thesis
    using five three health_run [of w] by (simp add: ping_def mantle_request_def)
qed

theorem no_credential_no_effect_witness:
  "run_operation (Some ''Basic x'') ''a1'' ''delete'' [] (ex_gateway (\<lambda>_. None))
     = (Inl (HTTPException 401 (Detail ''Bearer token required'' [])), ex_gateway (\<lambda>_. None))"
proof -
  have "py_lower (take 7 ''Basic x'') \<noteq> ''bearer ''" by code_simp
  then have "\<not> (\<exists>token. bears (Some ''Basic x'') token)" by (simp add: bears_def)
  from no_credential_no_effect [OF this] show ?thesis by blast
qed

text \<open>Who may repoint a persona: a caller whose header bears a token that the first trust anchor able to
  verify it finds to be a platform service's.\<close>

definition service_caller :: "settings \<Rightarrow> string option \<Rightarrow> bool" where
  "service_caller st header \<longleftrightarrow> (\<exists>token before name jwks after claims. bears header token
     \<and> st_anchors st = before @ (name, jwks) # after
     \<and> list_all (\<lambda>a. st_decode st token (snd a) = None) before
     \<and> st_decode st token jwks = Some claims \<and> dget claims ''principal_type'' = VStr ''service'')"

lemma verify_first:
  "verify_service_token decode token anchors \<longleftrightarrow> (\<exists>before name jwks after claims.
     anchors = before @ (name, jwks) # after \<and> list_all (\<lambda>a. decode token (snd a) = None) before
     \<and> decode token jwks = Some claims \<and> dget claims ''principal_type'' = VStr ''service'')"
    (is "_ \<longleftrightarrow> ?P anchors")
proof (induction anchors)
  case (Cons a anchors)
  obtain name jwks where a: "a = (name, jwks)" by (cases a) auto
  show ?case
  proof (cases "decode token jwks")
    case None
    have "?P (a # anchors) \<longleftrightarrow> ?P anchors"
    proof
      assume "?P anchors"
      then obtain before name' jwks' after claims where at: "anchors = before @ (name', jwks') # after"
        "list_all (\<lambda>a. decode token (snd a) = None) before" "decode token jwks' = Some claims"
        "dget claims ''principal_type'' = VStr ''service''" by blast
      then show "?P (a # anchors)" using a None
        by (intro exI [of _ "a # before"] exI [of _ name'] exI [of _ jwks'] exI [of _ after] exI [of _ claims]) simp
    next
      assume "?P (a # anchors)"
      then obtain before name' jwks' after claims where at: "a # anchors = before @ (name', jwks') # after"
        "list_all (\<lambda>a. decode token (snd a) = None) before" "decode token jwks' = Some claims"
        "dget claims ''principal_type'' = VStr ''service''" by blast
      then obtain rest where "before = a # rest" using a None by (cases before) auto
      with at show "?P anchors"
        by (intro exI [of _ rest] exI [of _ name'] exI [of _ jwks'] exI [of _ after] exI [of _ claims]) simp
    qed
    then show ?thesis using Cons None a by simp
  next
    case (Some claims)
    have "?P (a # anchors) \<longleftrightarrow> dget claims ''principal_type'' = VStr ''service''"
    proof
      assume "dget claims ''principal_type'' = VStr ''service''"
      then show "?P (a # anchors)" using a Some
        by (intro exI [of _ "[]"] exI [of _ name] exI [of _ jwks] exI [of _ anchors] exI [of _ claims]) simp
    qed (use a Some in \<open>auto simp: Cons_eq_append_conv\<close>)
    then show ?thesis using a Some by simp
  qed
qed simp

lemma service_caller_decides:
  assumes "st_anchors st \<noteq> []"
  shows "require_platform_service st [] header = Inr () \<longleftrightarrow> service_caller st header"
    and "\<not> service_caller st header \<Longrightarrow> \<exists>d. require_platform_service st [] header = Inl (HTTPException 401 d)"
proof -
  have "service_caller st header \<longleftrightarrow>
      (\<exists>token. bears header token \<and> verify_service_token (st_decode st) token (st_anchors st))"
    unfolding service_caller_def verify_first by blast
  then show "require_platform_service st [] header = Inr () \<longleftrightarrow> service_caller st header"
    and "\<not> service_caller st header \<Longrightarrow> \<exists>d. require_platform_service st [] header = Inl (HTTPException 401 d)"
    using assms by (auto simp: require_platform_service_def bearer_of_bears split: option.splits)
qed

lemma register_all_topology:
  "g_topology (snd (forM (register_one slug) types n w)) = g_topology w"
proof (induction types arbitrary: n w)
  case (Cons d types)
  have "g_topology (snd (register_one slug d n w)) = g_topology w"
    by (auto simp: register_one_def bindM_def split: sum.splits prod.splits)
  then show ?case using Cons by (auto simp: bindM_def split: sum.splits prod.splits)
qed simp

text \<open>C10: who may repoint a persona: with trust anchors configured, a registration by anyone but a
  platform service (a caller whose header bears a token that the first anchor able to verify it finds
  to carry the claim of a service) is a 401 that changes nothing and asks nothing, whether the header
  is missing, of another scheme, empty, unverifiable or a user's; and a registration by a platform
  service takes effect: the persona's endpoint is the one it names.\<close>

theorem register_needs_service:
  assumes "st_anchors st \<noteq> []"
  shows "(\<not> service_caller st header \<longrightarrow>
        (\<exists>d. register_server st header slug endpoint client_id types w = (Inl (HTTPException 401 d), w)))
    \<and> (service_caller st header \<longrightarrow>
        g_topology (snd (register_server st header slug endpoint client_id types w))
          = topology_register slug endpoint client_id (g_topology w))"
proof (intro conjI impI)
  assume "\<not> service_caller st header"
  from service_caller_decides(2) [OF assms this]
  show "\<exists>d. register_server st header slug endpoint client_id types w = (Inl (HTTPException 401 d), w)"
    by (auto simp: register_server_def)
next
  assume "service_caller st header"
  then have ok: "require_platform_service st [] header = Inr ()" using service_caller_decides(1) [OF assms] by blast
  let ?w = "w\<lparr>g_types := snd (remove_server slug (g_types w)), g_topology := topology_register slug endpoint client_id (g_topology w)\<rparr>"
  have "g_topology (snd (forM (register_one slug) types 0 ?w)) = topology_register slug endpoint client_id (g_topology w)"
    unfolding register_all_topology by simp
  then show "g_topology (snd (register_server st header slug endpoint client_id types w))
          = topology_register slug endpoint client_id (g_topology w)"
    unfolding register_server_def ok
    by (auto simp: bindM_def publish_server_types_def create_task_def log_event_def split: sum.splits prod.splits)
qed

theorem register_needs_service_witness:
  "(\<exists>d. register_server ex_settings (Some ''Bearer user'') ''aria'' ''http://evil'' None [] (ex_gateway (\<lambda>_. None))
     = (Inl (HTTPException 401 d), ex_gateway (\<lambda>_. None)))
   \<and> (\<exists>d. register_server ex_settings None ''aria'' ''http://evil'' None [] (ex_gateway (\<lambda>_. None))
     = (Inl (HTTPException 401 d), ex_gateway (\<lambda>_. None)))
   \<and> topology_resolve (g_topology (snd (register_server ex_settings (Some ''bearer svc'') ''aria'' ''http://aria'' None []
        (ex_gateway (\<lambda>_. None))))) ''aria'' \<noteq> None"
proof -
  have anchors: "st_anchors ex_settings \<noteq> []" by (simp add: ex_settings_def)
  note needs = register_needs_service [OF anchors]
  have "require_platform_service ex_settings [] (Some ''Bearer user'') \<noteq> Inr ()" by code_simp
  then have user: "\<not> service_caller ex_settings (Some ''Bearer user'')"
    using service_caller_decides(1) [OF anchors] by blast
  have none: "\<not> service_caller ex_settings None" by (simp add: service_caller_def bears_def)
  have "require_platform_service ex_settings [] (Some ''bearer svc'') = Inr ()" by code_simp
  then have svc: "service_caller ex_settings (Some ''bearer svc'')"
    using service_caller_decides(1) [OF anchors] by blast
  have "topology_resolve (topology_register ''aria'' ''http://aria'' None t) ''aria'' \<noteq> None" for t
    by (simp add: topology_resolve_register py_strip_def py_lstrip_def py_rstrip_def py_isspace_def code_def)
  then show ?thesis
    using needs user none svc by simp
qed

section \<open>Registration\<close>

text \<open>The definitions a body brings, in order; a malformed one brings none.\<close>

definition pushed :: "string \<Rightarrow> pyval list \<Rightarrow> type_definition list" where
  "pushed slug types = concat (map (\<lambda>d. case parse_type_def d (Some slug) of Inr (Some td) \<Rightarrow> [td] | _ \<Rightarrow> []) types)"

lemma pushed_simps [simp]:
  "pushed slug [] = []"
  "pushed slug (d # types) = (case parse_type_def d (Some slug) of Inr (Some td) \<Rightarrow> [td] | _ \<Rightarrow> []) @ pushed slug types"
  by (simp_all add: pushed_def)

definition last_of :: "string \<Rightarrow> type_definition list \<Rightarrow> type_definition option" where
  "last_of ct tds = List.find (\<lambda>td. td_content_type td = ct) (rev tds)"

lemma last_of_append: "last_of ct (xs @ ys) = (case last_of ct ys of Some t \<Rightarrow> Some t | None \<Rightarrow> last_of ct xs)"
proof -
  have "List.find P (as @ bs) = (case List.find P as of Some t \<Rightarrow> Some t | None \<Rightarrow> List.find P bs)"
    for P and as bs :: "type_definition list" by (induction as) auto
  then show ?thesis unfolding last_of_def rev_append by blast
qed

lemma register_one_run:
  assumes "register_one slug d n w = (Inr n', w')"
  shows "\<exists>reg. w' = w\<lparr>g_types := reg\<rparr> \<and> tr_builtin reg = tr_builtin (g_types w)
    \<and> (wf_registry (g_types w) \<longrightarrow> wf_registry reg)
    \<and> n' = n + int (length (pushed slug [d]))
    \<and> (\<forall>ct. map_of (tr_cache reg) ct = (case last_of ct (pushed slug [d]) of Some td \<Rightarrow> Some td
         | None \<Rightarrow> map_of (tr_cache (g_types w)) ct))"
proof -
  from assms obtain ok reg where r: "reg_register d (Some slug) (g_types w) = Inr (ok, reg)"
    and w': "w' = w\<lparr>g_types := reg\<rparr>" and n': "n' = (if ok then n + 1 else n)"
    unfolding register_one_def by (auto simp: bindM_def split: prod.splits sum.splits)
  have wf: "wf_registry (g_types w) \<longrightarrow> wf_registry reg" using wf_reg_register [OF _ r] by blast
  from r show ?thesis
  proof (cases rule: reg_register_cases)
    case 1
    then show ?thesis using w' n' wf by (intro exI [of _ reg]) (simp add: last_of_def)
  next
    case (2 td)
    then show ?thesis using w' n' wf
      by (intro exI [of _ reg]) (auto simp: last_of_def cache_put_def)
  qed
qed

lemma register_all_run:
  "forM (register_one slug) types n w = (Inr n', w') \<Longrightarrow>
    \<exists>reg. w' = w\<lparr>g_types := reg\<rparr> \<and> tr_builtin reg = tr_builtin (g_types w)
    \<and> (wf_registry (g_types w) \<longrightarrow> wf_registry reg)
    \<and> n' = n + int (length (pushed slug types))
    \<and> (\<forall>ct. map_of (tr_cache reg) ct = (case last_of ct (pushed slug types) of Some td \<Rightarrow> Some td
         | None \<Rightarrow> map_of (tr_cache (g_types w)) ct))"
proof (induction types arbitrary: n w)
  case Nil
  then show ?case by (intro exI [of _ "g_types w"]) (simp add: last_of_def)
next
  case (Cons d types)
  from Cons.prems obtain n1 w1 where step: "register_one slug d n w = (Inr n1, w1)"
    and rest: "forM (register_one slug) types n1 w1 = (Inr n', w')" by (auto elim: bindM_E)
  from register_one_run [OF step] obtain reg1 where reg1: "w1 = w\<lparr>g_types := reg1\<rparr>"
    "tr_builtin reg1 = tr_builtin (g_types w)" "wf_registry (g_types w) \<longrightarrow> wf_registry reg1"
    "n1 = n + int (length (pushed slug [d]))"
    and look1: "\<forall>ct. map_of (tr_cache reg1) ct = (case last_of ct (pushed slug [d]) of Some td \<Rightarrow> Some td
         | None \<Rightarrow> map_of (tr_cache (g_types w)) ct)" by blast
  from Cons.IH [OF rest] obtain reg where reg: "w' = w1\<lparr>g_types := reg\<rparr>"
    "tr_builtin reg = tr_builtin (g_types w1)" "wf_registry (g_types w1) \<longrightarrow> wf_registry reg"
    "n' = n1 + int (length (pushed slug types))"
    and look: "\<forall>ct. map_of (tr_cache reg) ct = (case last_of ct (pushed slug types) of Some td \<Rightarrow> Some td
         | None \<Rightarrow> map_of (tr_cache (g_types w1)) ct)" by blast
  have last: "last_of ct (pushed slug (d # types)) = (case last_of ct (pushed slug types) of Some t \<Rightarrow> Some t
      | None \<Rightarrow> last_of ct (pushed slug [d]))" for ct
    using last_of_append [of ct "pushed slug [d]" "pushed slug types"] by simp
  have "map_of (tr_cache reg) ct = (case last_of ct (pushed slug (d # types)) of Some td \<Rightarrow> Some td
         | None \<Rightarrow> map_of (tr_cache (g_types w)) ct)" for ct
    using look look1 reg1(1) unfolding last by (simp split: option.splits)
  moreover have "n' = n + int (length (pushed slug (d # types)))" using reg(4) reg1(4) by simp
  ultimately show ?case using reg(1-3) reg1(1-3) by (intro exI [of _ reg] conjI) (simp_all del: pushed_simps)
qed

text \<open>a registration that is answered has put the persona's endpoint in the topology, and replaced
  everything it had registered before: afterwards a content type resolves to the last definition the
  body brings for it, or else to what another server or the gateway defines; the answer counts the
  definitions taken, and the registry stays well formed.\<close>

theorem register_replaces:
  assumes "wf_registry (g_types w)"
    and "register_server st header slug endpoint client_id types w = (Inr v, w')"
  shows "reg_resolve (g_types w') ct = (case last_of (normalize_ct ct) (pushed slug types) of
       Some td \<Rightarrow> Some td
     | None \<Rightarrow> (case map_of (tr_cache (g_types w)) (normalize_ct ct) of
         Some td \<Rightarrow> if td_server td = Some slug then map_of (tr_builtin (g_types w)) (normalize_ct ct) else Some td
       | None \<Rightarrow> map_of (tr_builtin (g_types w)) (normalize_ct ct)))
    \<and> wf_registry (g_types w') \<and> g_topology w' = topology_register slug endpoint client_id (g_topology w)
      \<and> v = VDict [(''registered'', VStr slug), (''endpoint'', VStr endpoint),
           (''types'', VInt (int (length (pushed slug types))))]
      \<and> w_trace w' = w_trace w @ [EvSpawn (Task ''publish_types'' [VStr slug, VList (definitions_from (g_types w') slug)])]"
proof -
  let ?w1 = "w\<lparr>g_types := snd (remove_server slug (g_types w)), g_topology := topology_register slug endpoint client_id (g_topology w)\<rparr>"
  from assms(2) obtain n w2 where loop: "forM (register_one slug) types 0 ?w1 = (Inr n, w2)"
    and w': "w' = snd (publish_server_types slug w2)"
    and v: "v = VDict [(''registered'', VStr slug), (''endpoint'', VStr endpoint), (''types'', VInt n)]"
    unfolding register_server_def
    by (auto simp: bindM_def create_task_def log_event_def publish_server_types_def split: sum.splits prod.splits)
  have wf1: "wf_registry (g_types ?w1)" using wf_remove_server [OF assms(1), of slug] by simp
  from register_all_run [OF loop] wf1 obtain reg where w2: "w2 = ?w1\<lparr>g_types := reg\<rparr>"
    and b1: "tr_builtin reg = tr_builtin (g_types ?w1)" and wf: "wf_registry reg"
    and n0: "n = 0 + int (length (pushed slug types))"
    and look: "\<forall>ct. map_of (tr_cache reg) ct = (case last_of ct (pushed slug types) of Some td \<Rightarrow> Some td
         | None \<Rightarrow> map_of (tr_cache (g_types ?w1)) ct)" by blast
  have b: "tr_builtin reg = tr_builtin (g_types w)" using b1 by (simp add: tr_builtin_remove_server)
  have n: "n = int (length (pushed slug types))" using n0 by simp
  have pub: "w' = w2\<lparr>w_trace := w_trace w2 @ [EvSpawn (Task ''publish_types'' [VStr slug, VList (definitions_from reg slug)])]\<rparr>"
    by (simp add: w' w2 publish_server_types_def create_task_def log_event_def)
  have types: "g_types w' = reg" by (simp add: pub w2)
  have second: "wf_registry (g_types w') \<and> g_topology w' = topology_register slug endpoint client_id (g_topology w)
      \<and> v = VDict [(''registered'', VStr slug), (''endpoint'', VStr endpoint),
           (''types'', VInt (int (length (pushed slug types))))]
      \<and> w_trace w' = w_trace w @ [EvSpawn (Task ''publish_types'' [VStr slug, VList (definitions_from (g_types w') slug)])]"
    unfolding types using wf v n by (simp add: pub w2)
  have old: "map_of (tr_cache (snd (remove_server slug (g_types w)))) c =
      (case map_of (tr_cache (g_types w)) c of None \<Rightarrow> None | Some td \<Rightarrow> if td_server td = Some slug then None else Some td)" for c
    using map_of_filter_value [of "tr_cache (g_types w)" "\<lambda>_ td. td_server td \<noteq> Some slug" c] assms(1)
    by (auto simp: tr_cache_remove_server wf_registry_def case_prod_beta' split: option.splits)
  have first: "reg_resolve (g_types w') ct = (case last_of (normalize_ct ct) (pushed slug types) of
       Some td \<Rightarrow> Some td
     | None \<Rightarrow> (case map_of (tr_cache (g_types w)) (normalize_ct ct) of
         Some td \<Rightarrow> if td_server td = Some slug then map_of (tr_builtin (g_types w)) (normalize_ct ct) else Some td
       | None \<Rightarrow> map_of (tr_builtin (g_types w)) (normalize_ct ct)))"
    unfolding types reg_resolve_def Let_def b using look old
    by (auto split: option.splits)
  from first second show ?thesis by (rule conjI)
qed

theorem register_replaces_witness:
  "\<exists>v w'. register_server ex_settings (Some ''Bearer svc'') ''aria'' ''http://aria'' None [] (ex_gateway (\<lambda>_. None)) = (Inr v, w')
     \<and> reg_resolve (g_types w') ''x/ws'' = None"
proof -
  let ?w = "ex_gateway (\<lambda>_. None)"
  let ?m = "register_server ex_settings (Some ''Bearer svc'') ''aria'' ''http://aria'' None []"
  have "fst (?m ?w) = Inr (VDict [(''registered'', VStr ''aria''), (''endpoint'', VStr ''http://aria''), (''types'', VInt 0)])"
    by code_simp
  then have run: "?m ?w = (Inr (VDict [(''registered'', VStr ''aria''), (''endpoint'', VStr ''http://aria''), (''types'', VInt 0)]), snd (?m ?w))"
    by (rule prog_at)
  have types: "g_types ?w = ex_registry" by (simp add: ex_gateway_def start_gateway_def gateway.defs world.defs)
  have wf: "wf_registry (g_types ?w)" unfolding types by (rule reg_reach_wf [OF ex_registry_reach])
  have "map_option td_server (map_of (tr_cache ex_registry) (normalize_ct ''x/ws'')) = Some (Some ''aria'')" by code_simp
  moreover have "map_of (tr_builtin ex_registry) (normalize_ct ''x/ws'') = None"
  proof -
    have "map_option td_content_type (map_of (tr_builtin ex_registry) (normalize_ct ''x/ws'')) = None" by code_simp
    then show ?thesis by simp
  qed
  ultimately have "reg_resolve (g_types (snd (?m ?w))) ''x/ws'' = None"
    using register_replaces [OF wf run, of "''x/ws''", THEN conjunct1] unfolding types by (auto simp: last_of_def)
  with run show ?thesis by blast
qed

section \<open>Publishing\<close>

definition is_put :: "string \<Rightarrow> string \<Rightarrow> pyval \<Rightarrow> event \<Rightarrow> bool" where
  "is_put path jwt body e = (\<exists>a. e = EvHttp (mantle_request ''PUT'' path VNone (mantle_headers (Some jwt)) body) a)"

definition is_http :: "event \<Rightarrow> bool" where
  "is_http e = (case e of EvHttp _ _ \<Rightarrow> True | _ \<Rightarrow> False)"

lemma mantle_put_run:
  "\<exists>a. snd (mantle_put path body token w) =
     w\<lparr>w_trace := w_trace w @ [EvHttp (mantle_request ''PUT'' path VNone (mantle_headers token) body) a]\<rparr>"
  by (auto simp: mantle_put_def mantle_send_def bindM_def http_run raise_for_status_def json_of_def
      split: option.splits)

text \<open>Everything a run of attempts does: at most so many requests, each the same.\<close>

definition attempted :: "nat \<Rightarrow> string \<Rightarrow> string \<Rightarrow> pyval \<Rightarrow> event list \<Rightarrow> bool" where
  "attempted n path jwt body es \<longleftrightarrow> length (filter is_http es) \<le> n
     \<and> (\<forall>e \<in> set es. is_put path jwt body e \<or> e = EvSleep 6)"

lemma attempted_put: "is_put path jwt body e \<Longrightarrow> attempted n path jwt body es \<Longrightarrow> attempted (Suc n) path jwt body (e # es)"
  by (auto simp: attempted_def)

lemma attempted_sleep: "attempted n path jwt body es \<Longrightarrow> attempted n path jwt body (EvSleep 6 # es)"
  by (simp add: attempted_def is_http_def)

lemma publish_attempts_bound:
  "\<exists>es. snd (publish_attempts n path body jwt w) = w\<lparr>w_trace := w_trace w @ es\<rparr> \<and> attempted n path jwt body es"
proof (induction n arbitrary: w)
  case 0
  then show ?case by (intro exI [of _ "[]"]) (simp add: attempted_def)
next
  case (Suc n)
  obtain a where put: "snd (mantle_put path body (Some jwt) w) =
      w\<lparr>w_trace := w_trace w @ [EvHttp (mantle_request ''PUT'' path VNone (mantle_headers (Some jwt)) body) a]\<rparr>"
    (is "_ = w\<lparr>w_trace := w_trace w @ [?e]\<rparr>")
    using mantle_put_run by blast
  let ?w1 = "w\<lparr>w_trace := w_trace w @ [?e]\<rparr>"
  have e: "is_put path jwt body ?e" by (auto simp: is_put_def)
  have one: "\<exists>es. ?w1 = w\<lparr>w_trace := w_trace w @ es\<rparr> \<and> attempted (Suc n) path jwt body es"
    using attempted_put [OF e, of n "[]"] by (intro exI [of _ "[?e]"]) (simp add: attempted_def)
  have again: "\<exists>es. snd (publish_attempts n path body jwt (?w1\<lparr>w_trace := w_trace ?w1 @ [EvSleep 6]\<rparr>)) = w\<lparr>w_trace := w_trace w @ es\<rparr>
      \<and> attempted (Suc n) path jwt body es"
  proof -
    from Suc.IH [of "?w1\<lparr>w_trace := w_trace ?w1 @ [EvSleep 6]\<rparr>"] obtain es where
      "snd (publish_attempts n path body jwt (?w1\<lparr>w_trace := w_trace ?w1 @ [EvSleep 6]\<rparr>)) = w\<lparr>w_trace := w_trace w @ ?e # EvSleep 6 # es\<rparr>"
      "attempted n path jwt body es" by auto
    then show ?thesis using attempted_put [OF e attempted_sleep] by blast
  qed
  obtain r where run: "mantle_put path body (Some jwt) w = (r, ?w1)"
    using put by (metis prod.collapse)
  have slept: "sleep 6 ?w1 = (Inr (), ?w1\<lparr>w_trace := w_trace ?w1 @ [EvSleep 6]\<rparr>)"
    by (simp add: sleep_def log_event_def)
  show ?case
  proof (cases r)
    case (Inr result)
    then have "snd (publish_attempts (Suc n) path body jwt w) = ?w1"
      using run by (auto simp: bindM_def catchM_def split: sum.splits)
    then show ?thesis using one by simp
  next
    case (Inl e')
    show ?thesis
    proof (cases "(case e' of HTTPStatusError status _ \<Rightarrow> 400 \<le> status \<and> status < 500 | _ \<Rightarrow> False) \<or> n = 0")
      case True
      then have "snd (publish_attempts (Suc n) path body jwt w) = ?w1"
        using run Inl by (auto simp: bindM_def catchM_def)
      then show ?thesis using one by simp
    next
      case False
      then have "publish_attempts (Suc n) path body jwt w
          = publish_attempts n path body jwt (?w1\<lparr>w_trace := w_trace ?w1 @ [EvSleep 6]\<rparr>)"
        using run Inl slept by (simp add: bindM_def catchM_def)
      then show ?thesis using again by simp
    qed
  qed
qed

lemma publish_refused:
  "mantle_put path body (Some jwt) w = (Inl (HTTPStatusError status p), w1) \<Longrightarrow> 400 \<le> status \<Longrightarrow> status < 500
    \<Longrightarrow> 0 < n \<Longrightarrow> publish_attempts n path body jwt w = (Inr VNone, w1)"
  by (cases n) (simp_all add: bindM_def catchM_def)

text \<open>publishing is bounded and speaks for the gateway only: it makes at most five requests, each the
  one \<open>PUT\<close> of the server's definitions under the gateway's own service token, waits between them, does
  nothing at all without an identity, and stops at the first refusal.\<close>

theorem publish_types_bounded:
  "(\<exists>es. snd (publish_types identity server definitions w) = w\<lparr>w_trace := w_trace w @ es\<rparr>
      \<and> (case identity of None \<Rightarrow> es = [] \<and> fst (publish_types identity server definitions w) = Inr VNone
         | Some jwt \<Rightarrow> attempted 5 (''/type-definitions/'' @ server) (jwt ''mantle'')
             (VDict [(''types'', VList definitions)]) es))
   \<and> (\<forall>jwt status path w1. identity = Some jwt \<and> 400 \<le> status \<and> status < 500
        \<and> mantle_put (''/type-definitions/'' @ server) (VDict [(''types'', VList definitions)]) (Some (jwt ''mantle'')) w
            = (Inl (HTTPStatusError status path), w1)
      \<longrightarrow> publish_types identity server definitions w = (Inr VNone, w1))"
proof (rule conjI)
  show "\<exists>es. snd (publish_types identity server definitions w) = w\<lparr>w_trace := w_trace w @ es\<rparr>
      \<and> (case identity of None \<Rightarrow> es = [] \<and> fst (publish_types identity server definitions w) = Inr VNone
         | Some jwt \<Rightarrow> attempted 5 (''/type-definitions/'' @ server) (jwt ''mantle'')
             (VDict [(''types'', VList definitions)]) es)"
  proof (cases identity)
    case None
    then show ?thesis by (intro exI [of _ "[]"]) (simp add: publish_types_def)
  next
    case (Some jwt)
    then show ?thesis
      using publish_attempts_bound [of 5 "''/type-definitions/'' @ server" "VDict [(''types'', VList definitions)]" "jwt ''mantle''" w]
      by (simp add: publish_types_def ATTEMPTS_def)
  qed
  show "\<forall>jwt status path w1. identity = Some jwt \<and> 400 \<le> status \<and> status < 500
        \<and> mantle_put (''/type-definitions/'' @ server) (VDict [(''types'', VList definitions)]) (Some (jwt ''mantle'')) w
            = (Inl (HTTPStatusError status path), w1)
      \<longrightarrow> publish_types identity server definitions w = (Inr VNone, w1)"
    unfolding publish_types_def ATTEMPTS_def by (auto intro!: publish_refused)
qed

theorem publish_types_bounded_witness:
  "fst (publish_types (Some (\<lambda>a. a)) ''aria'' [] (ex_world (\<lambda>_. Some (reply 403 VNone)))) = Inr VNone"
proof -
  let ?w = "ex_world (\<lambda>_. Some (reply 403 VNone))"
  let ?m = "mantle_put (''/type-definitions/'' @ ''aria'') (VDict [(''types'', VList [])]) (Some ''mantle'')"
  have "fst (?m ?w) = Inl (HTTPStatusError 403 ''/type-definitions/aria'')" by code_simp
  then have run: "?m ?w = (Inl (HTTPStatusError 403 ''/type-definitions/aria''), snd (?m ?w))" by (rule prog_at)
  have "publish_types (Some (\<lambda>a. a)) ''aria'' [] ?w = (Inr VNone, snd (?m ?w))"
    by (rule publish_types_bounded [THEN conjunct2, rule_format, of "Some (\<lambda>a. a)" "\<lambda>a. a" 403 "''aria''" "[]" ?w
          "''/type-definitions/aria''"]) (use run in simp)
  then show ?thesis by simp
qed

section \<open>The route to a persona's tool\<close>

text \<open>the direct route to a persona's tool goes through the same gate: whenever a call of a tool by
  the name of its persona (not one that reads as an id) returns, the caller sent a bearer token and the gate cleared that tool for that token.\<close>

theorem persona_route_gated:
  assumes "gate_inv w" and "dget body ''name'' = VStr name" and "\<not> loose_uuid slug"
    and "call_persona_tool header slug body w = (Inr v, w')"
  shows "\<exists>token. require_bearer header = Inr token \<and> token \<noteq> [] \<and> clears w' (w_clock w (w_trace w)) (Some token) slug name \<and> gate_inv w'"
proof -
  from assms(2,4) obtain token w1 where token: "require_bearer header = Inr token"
    and check: "gate_check slug name (Some token) w = (Inr (), w1)"
    and call: "persona_call_tool slug name (py_or (dget body ''arguments'') (VDict [])) (Some token) w1 = (Inr v, w')"
    by (auto simp: call_persona_tool_def Let_def bindM_def split: if_splits sum.splits prod.splits)
  from gate_check_sound' [OF assms(1) check assms(3)] have clear: "clears w1 (w_clock w (w_trace w)) (Some token) slug name" "gate_inv w1" by auto
  have "same_gateway w1 w'" using stateless.keepsD [OF stateless_persona(3) call] .
  then have "grows_by (\<lambda>_. True) w1 w'" "g_seen w' = g_seen w1" using same_gateway_grows by auto
  with clear have "clears w' (w_clock w (w_trace w)) (Some token) slug name" "gate_inv w'"
    using clears_grows gate_inv_grows by blast+
  moreover have "token \<noteq> []" using token by (auto simp: require_bearer_def split: option.splits if_splits)
  ultimately show ?thesis using token by blast
qed

theorem persona_route_gated_witness:
  "\<exists>w'. clears w' 0 (Some ''t'') ''ledger'' ''inbox''"
proof -
  let ?m = "call_persona_tool (Some ''Bearer t'') ''ledger'' [(''name'', VStr ''inbox'')]"
  let ?w = "ex_ledger ex_services"
  have "fst (?m ?w) = Inr (VInt 1)" by code_simp
  then have run: "?m ?w = (Inr (VInt 1), snd (?m ?w))" by (rule prog_at)
  have name: "dget [(''name'', VStr ''inbox'')] ''name'' = VStr ''inbox''" by (simp add: dget_def)
  have "\<not> loose_uuid ''ledger''" by code_simp
  from persona_route_gated [OF ex_ledger_inv name this run] obtain token where
    "require_bearer (Some ''Bearer t'') = Inr token" "clears (snd (?m ?w)) (w_clock ?w (w_trace ?w)) (Some token) ''ledger'' ''inbox''" by blast
  moreover have "w_clock ?w (w_trace ?w) = 0" by code_simp
  moreover have "require_bearer (Some ''Bearer t'') = Inr ''t''" by code_simp
  ultimately show ?thesis by auto
qed

end
