(* ===== verification/Gateway_Client.thy ===== *)
theory Gateway_Client
  imports Mcp_Client Ttl_Cache
begin

text \<open>
  \<open>src/src/crystal/mantle_client.py\<close>: the client the universal MCP gateway asks for artifacts,
  the persona registry and grants, under the host's own service token (\<open>c_sign\<close>, the token signed
  for an audience). Answers are kept for a minute; the grant check fails closed. The persona map of
  \<open>gateway_middleware.py\<close> is part of the same state.
\<close>

record persona_map =
  pm_slug_to_uuid :: "(pyval \<times> pyval) list"
  pm_uuid_to_slug :: "(pyval \<times> pyval) list"
  pm_loaded :: bool
  pm_next_retry :: rat
  pm_last_miss :: "rat option"

record chorus = world +
  c_sign :: "string \<Rightarrow> string"
  c_artifacts :: "(string, pyval) timed"
  c_grants :: "(string \<times> string \<times> string, bool) timed"
  c_map :: persona_map

section \<open>Entries that carry when they expire\<close>

definition expiring_fresh :: "('k, 'v) timed \<Rightarrow> 'k \<Rightarrow> rat \<Rightarrow> 'v option" where
  "expiring_fresh s k now = (case map_of s k of
       None \<Rightarrow> None
     | Some (expires, v) \<Rightarrow> if now < expires then Some v else None)"

definition expiring_keep :: "rat \<Rightarrow> 'k \<Rightarrow> rat \<Rightarrow> 'v \<Rightarrow> ('k, 'v) timed \<Rightarrow> ('k, 'v) timed" where
  "expiring_keep ttl k t v s = AList.update k (t + ttl, v) s"

interpretation expiring: ttl_cache "[]" "\<lambda>_. True" expiring_fresh "expiring_keep ttl" ttl for ttl
  by unfold_locales (auto simp: expiring_fresh_def expiring_keep_def split: if_splits)

definition CACHE_TTL :: rat where
  "CACHE_TTL = 60"

text \<open>Where the client finds Mantle and Origin: what it is given, else the environment, else the default.\<close>

definition base_uri :: "string option \<Rightarrow> string option \<Rightarrow> string \<Rightarrow> string" where
  "base_uri given env default_uri = rstrip_char (CHR ''/'') (first_nonempty given (first_nonempty env default_uri))"

section \<open>The client\<close>

definition service_headers :: "'a chorus_scheme \<Rightarrow> string \<Rightarrow> string dict" where
  "service_headers w audience =
     [(''Authorization'', ''Bearer '' @ c_sign w audience), (''Content-Type'', ''application/json'')]"

definition service_request :: "'a chorus_scheme \<Rightarrow> peer \<Rightarrow> string \<Rightarrow> string \<Rightarrow> pyval \<Rightarrow> request" where
  "service_request w peer audience path params =
     \<lparr> rq_peer = peer, rq_method = ''GET'', rq_path = path, rq_params = params,
       rq_headers = service_headers w audience, rq_body = VNone \<rparr>"

text \<open>A request whose failure to reach the peer is a value.\<close>

definition try_http :: "request \<Rightarrow> ('a world_scheme, response option) prog" where
  "try_http q = catchM (bindM (http q) (\<lambda>r. ret (Some r)))
     (\<lambda>e. case e of TransportError \<Rightarrow> ret None | _ \<Rightarrow> raise e)"

definition lookup_artifact :: "string \<Rightarrow> ('a chorus_scheme, pyval) prog" where
  "lookup_artifact server_id =
     bindM monotonic (\<lambda>now.
     bindM (getsM c_artifacts) (\<lambda>cache.
     case expiring_fresh cache server_id now of
       Some artifact \<Rightarrow> ret artifact
     | None \<Rightarrow>
         bindM (getsM (\<lambda>w. service_request w Mantle ''mantle'' (''/artifacts/'' @ server_id) VNone)) (\<lambda>q.
         bindM (try_http q) (\<lambda>answer.
         case answer of
           None \<Rightarrow> ret VNone
         | Some resp \<Rightarrow>
             if rs_status resp = 404 then
               bindM (modifyM (\<lambda>w. w\<lparr>c_artifacts := expiring_keep CACHE_TTL server_id now VNone (c_artifacts w)\<rparr>)) (\<lambda>_. ret VNone)
             else if rs_status resp \<noteq> 200 then ret VNone
             else (case rs_json resp of
                 None \<Rightarrow> ret VNone
               | Some artifact \<Rightarrow>
                   bindM (modifyM (\<lambda>w. w\<lparr>c_artifacts := expiring_keep CACHE_TTL server_id now artifact (c_artifacts w)\<rparr>))
                     (\<lambda>_. ret artifact))))))"

definition invalidate_artifact :: "string \<Rightarrow> ('a chorus_scheme, unit) prog" where
  "invalidate_artifact server_id = modifyM (\<lambda>w. w\<lparr>c_artifacts := AList.delete server_id (c_artifacts w)\<rparr>)"

definition list_registered :: "('a chorus_scheme, pyval list) prog" where
  "list_registered =
     bindM (getsM (\<lambda>w. service_request w Mantle ''mantle'' ''/internal/personas'' VNone)) (\<lambda>q.
     bindM (try_http q) (\<lambda>answer.
     case answer of
       None \<Rightarrow> ret []
     | Some resp \<Rightarrow>
         if rs_status resp \<noteq> 200 then ret []
         else (case rs_json resp of
             None \<Rightarrow> ret []
           | Some payload \<Rightarrow> bindM (liftR (py_get payload ''personas'')) (\<lambda>ps.
               liftR (py_list (py_or ps (VList [])))))))"

definition grant_request :: "'a chorus_scheme \<Rightarrow> string \<Rightarrow> string \<Rightarrow> string \<Rightarrow> request" where
  "grant_request w who resource action = service_request w Origin ''origin'' ''/auth/grants/check''
     (VDict [(''principal'', VStr who), (''resource'', VStr resource), (''action'', VStr action)])"

definition check_origin_grant :: "string \<Rightarrow> string \<Rightarrow> string \<Rightarrow> ('a chorus_scheme, bool) prog" where
  "check_origin_grant who resource action =
     (let key = (who, resource, action) in
      bindM monotonic (\<lambda>now.
      bindM (getsM c_grants) (\<lambda>cache.
      case expiring_fresh cache key now of
        Some allowed \<Rightarrow> ret allowed
      | None \<Rightarrow>
          bindM (getsM (\<lambda>w. grant_request w who resource action)) (\<lambda>q.
          bindM (try_http q) (\<lambda>answer.
          case answer of
            None \<Rightarrow> ret False
          | Some resp \<Rightarrow>
              if rs_status resp \<noteq> 200 then
                bindM (modifyM (\<lambda>w. w\<lparr>c_grants := expiring_keep CACHE_TTL key now False (c_grants w)\<rparr>)) (\<lambda>_. ret False)
              else (case rs_json resp of
                  None \<Rightarrow> ret False
                | Some payload \<Rightarrow> bindM (liftR (py_get payload ''allowed'')) (\<lambda>a.
                    bindM (modifyM (\<lambda>w. w\<lparr>c_grants := expiring_keep CACHE_TTL key now (truthy a) (c_grants w)\<rparr>))
                      (\<lambda>_. ret (truthy a)))))))))"

definition can_invoke :: "string \<Rightarrow> string \<Rightarrow> ('a chorus_scheme, bool) prog" where
  "can_invoke principal_id server_id = check_origin_grant principal_id server_id ''invoke''"

definition is_uuid_like :: "string \<Rightarrow> bool" where
  "is_uuid_like s \<longleftrightarrow> length s = 36
     \<and> s ! 8 = CHR ''-'' \<and> s ! 13 = CHR ''-'' \<and> s ! 18 = CHR ''-'' \<and> s ! 23 = CHR ''-''
     \<and> list_all (\<lambda>c. is_digit c \<or> (97 \<le> code c \<and> code c \<le> 102) \<or> c = CHR ''-'') (py_lower s)"

section \<open>A grant is Origin's word\<close>

text \<open>A kept verdict was read from Origin's answer to that question; only a 200 that says so is a yes.\<close>

definition says_allowed :: "response \<Rightarrow> bool" where
  "says_allowed r \<longleftrightarrow> rs_status r = 200
     \<and> (case rs_json r of Some (VDict d) \<Rightarrow> truthy (dget d ''allowed'') | _ \<Rightarrow> False)"

definition grant_seen :: "'a chorus_scheme \<Rightarrow> string \<times> string \<times> string \<Rightarrow> rat \<Rightarrow> bool \<Rightarrow> bool" where
  "grant_seen w key t allowed \<longleftrightarrow> (\<exists>before after r. case key of (p, res, a) \<Rightarrow>
     w_trace w = before @ [EvClock t, EvHttp (grant_request w p res a) (Some r)] @ after \<and> says_allowed r = allowed)"

definition grants_ok :: "chorus \<Rightarrow> bool" where
  "grants_ok w \<longleftrightarrow> expiring.entries_ok CACHE_TTL (grant_seen w) (c_grants w)"

lemma grant_request_trace [simp]:
  "grant_request (w\<lparr>w_trace := tr\<rparr>) p r a = grant_request w p r a"
  "grant_request (w\<lparr>c_grants := g\<rparr>) p r a = grant_request w p r a"
  "grant_request (w\<lparr>w_trace := tr, c_grants := g\<rparr>) p r a = grant_request w p r a"
  by (simp_all add: grant_request_def service_request_def service_headers_def)

lemma grant_seen_append: "grant_seen w key t v \<Longrightarrow> grant_seen (w\<lparr>w_trace := w_trace w @ es\<rparr>) key t v"
proof -
  assume "grant_seen w key t v"
  then obtain before after r where "case key of (p, res, a) \<Rightarrow>
     w_trace w = before @ [EvClock t, EvHttp (grant_request w p res a) (Some r)] @ after \<and> says_allowed r = v"
    unfolding grant_seen_def by blast
  then have "case key of (p, res, a) \<Rightarrow> w_trace (w\<lparr>w_trace := w_trace w @ es\<rparr>) = before
      @ [EvClock t, EvHttp (grant_request (w\<lparr>w_trace := w_trace w @ es\<rparr>) p res a) (Some r)] @ (after @ es)
      \<and> says_allowed r = v" by (cases key) simp
  then show ?thesis unfolding grant_seen_def by blast
qed

lemma grant_seen_grants [simp]: "grant_seen (w\<lparr>c_grants := g\<rparr>) = grant_seen w"
  by (simp add: fun_eq_iff grant_seen_def)

lemma grants_ok_append: "grants_ok w \<Longrightarrow> grants_ok (w\<lparr>w_trace := w_trace w @ es\<rparr>)"
  by (auto simp: grants_ok_def intro: expiring.entries_ok_mono grant_seen_append)

text \<open>One check, in full.\<close>

lemma check_origin_grant_cases:
  assumes "check_origin_grant p r a w = (x, w')"
  obtains (hit) now allowed where "x = Inr allowed" "expiring_fresh (c_grants w) (p, r, a) now = Some allowed"
      "w' = w\<lparr>w_trace := w_trace w @ [EvClock now]\<rparr>"
  | (failed) now answer where "x = Inr False \<or> (\<exists>e. x = Inl e)"
      "w' = w\<lparr>w_trace := w_trace w @ [EvClock now, EvHttp (grant_request w p r a) answer]\<rparr>"
  | (asked) now resp where "x = Inr (says_allowed resp)"
      "w' = w\<lparr>w_trace := w_trace w @ [EvClock now, EvHttp (grant_request w p r a) (Some resp)],
             c_grants := expiring_keep CACHE_TTL (p, r, a) now (says_allowed resp) (c_grants w)\<rparr>"
proof -
  define now where "now = w_clock w (w_trace w)"
  define w1 where "w1 = w\<lparr>w_trace := w_trace w @ [EvClock now]\<rparr>"
  define q where "q = grant_request w p r a"
  define answer where "answer = w_net w (w_trace w1) q"
  define w2 where "w2 = w\<lparr>w_trace := w_trace w @ [EvClock now, EvHttp q answer]\<rparr>"
  have look: "monotonic w = (Inr now, w1)" by (simp add: monotonic_def now_def w1_def Let_def)
  have fields: "c_grants w1 = c_grants w" "grant_request w1 p r a = q" "c_grants w2 = c_grants w"
    by (simp_all add: w1_def w2_def q_def)
  have tried: "try_http q w1 = (Inr answer, w2)"
    by (auto simp: try_http_def catchM_def bindM_def http_run answer_def w1_def w2_def split: option.splits)
  show thesis
  proof (cases "expiring_fresh (c_grants w) (p, r, a) now")
    case (Some allowed)
    then have "check_origin_grant p r a w = (Inr allowed, w1)"
      by (simp add: check_origin_grant_def bindM_def look fields Let_def)
    then show ?thesis using assms Some by (intro hit) (simp_all add: w1_def)
  next
    case None
    have run: "check_origin_grant p r a w = (case answer of
        None \<Rightarrow> ret False
      | Some resp \<Rightarrow>
          if rs_status resp \<noteq> 200 then
            bindM (modifyM (\<lambda>w. w\<lparr>c_grants := expiring_keep CACHE_TTL (p, r, a) now False (c_grants w)\<rparr>)) (\<lambda>_. ret False)
          else (case rs_json resp of
              None \<Rightarrow> ret False
            | Some payload \<Rightarrow> bindM (liftR (py_get payload ''allowed'')) (\<lambda>a'.
                bindM (modifyM (\<lambda>w. w\<lparr>c_grants := expiring_keep CACHE_TTL (p, r, a) now (truthy a') (c_grants w)\<rparr>))
                  (\<lambda>_. ret (truthy a'))))) w2"
      using None by (simp add: check_origin_grant_def bindM_def look fields tried Let_def)
    show ?thesis
    proof (cases answer)
      case None
      with run assms show ?thesis by (intro failed) (auto simp: w2_def q_def)
    next
      case (Some resp)
      show ?thesis
      proof (cases "rs_status resp = 200 \<and> (rs_json resp = None \<or> (\<forall>d. rs_json resp \<noteq> Some (VDict d)))")
        case True
        with run Some assms show ?thesis
          by (intro failed) (auto simp: w2_def q_def py_get_def bindM_def split: pyval.splits option.splits)
      next
        case False
        have "x = Inr (says_allowed resp)"
          "w' = w2\<lparr>c_grants := expiring_keep CACHE_TTL (p, r, a) now (says_allowed resp) (c_grants w)\<rparr>"
          using False run Some assms
          by (auto simp: fields says_allowed_def py_get_def bindM_def split: pyval.splits option.splits if_splits)
        then show ?thesis using Some by (intro asked) (simp_all add: w2_def q_def)
      qed
    qed
  qed
qed

section \<open>Properties\<close>

text \<open>A caller may invoke a server only on Origin's word: when the check says yes, Origin answered
  that very question (that principal, that resource, \<open>invoke\<close>), under the host's own service token,
  with an explicit yes less than a minute before; no answer, an error status or an unreadable body
  is a no; and the cache stays that way.\<close>

theorem can_invoke_sound:
  assumes "grants_ok w" and "can_invoke who server w = (x, w')"
  shows "grants_ok w' \<and> (x = Inr True \<longrightarrow> (\<exists>before after t now r.
     w_trace w' = before @ [EvClock t, EvHttp (grant_request w who server ''invoke'') (Some r)] @ after
     \<and> EvClock now \<in> set (w_trace w') \<and> now - t < 60 \<and> says_allowed r))"
proof -
  let ?key = "(who, server, ''invoke'')"
  from assms(2) have run: "check_origin_grant who server ''invoke'' w = (x, w')"
    by (simp add: can_invoke_def)
  from run show ?thesis
  proof (cases rule: check_origin_grant_cases)
    case (hit now allowed)
    from assms(1) hit(2) obtain t where seen: "grant_seen w ?key t allowed" "now - t < CACHE_TTL"
      using expiring.entries_okD unfolding grants_ok_def by fast
    then have "grant_seen w' ?key t allowed" unfolding hit(3) by (intro grant_seen_append)
    then obtain before after r where at: "w_trace w' = before @ [EvClock t, EvHttp (grant_request w' who server ''invoke'') (Some r)] @ after"
      and said: "says_allowed r = allowed" unfolding grant_seen_def by auto
    have same: "grant_request w' who server ''invoke'' = grant_request w who server ''invoke''"
      and clock: "EvClock now \<in> set (w_trace w')" by (simp_all add: hit(3))
    have "grants_ok w'" unfolding hit(3) by (rule grants_ok_append [OF assms(1)])
    moreover have "now - t < 60" using seen(2) by (simp add: CACHE_TTL_def)
    ultimately show ?thesis using at [unfolded same] said clock hit(1) by blast
  next
    case (failed now answer)
    then show ?thesis using grants_ok_append [OF assms(1)] by auto
  next
    case (asked now resp)
    let ?es = "[EvClock now, EvHttp (grant_request w who server ''invoke'') (Some resp)]"
    let ?w2 = "w\<lparr>w_trace := w_trace w @ ?es\<rparr>"
    have w': "w' = ?w2\<lparr>c_grants := expiring_keep CACHE_TTL ?key now (says_allowed resp) (c_grants ?w2)\<rparr>"
      using asked by simp
    have "w_trace ?w2 = w_trace w @ ?es @ []" by simp
    then have "grant_seen ?w2 ?key now (says_allowed resp)" unfolding grant_seen_def by force
    then have "grants_ok w'"
      using grants_ok_append [OF assms(1), of ?es] unfolding w' grants_ok_def
      by (simp add: expiring.entries_ok_keep)
    moreover have "w_trace w' = w_trace w @ ?es @ []" by (simp add: w')
    moreover have "EvClock now \<in> set (w_trace w')" by (simp add: w')
    ultimately show ?thesis using asked(1) by (metis diff_self sum.inject(2) zero_less_numeral)
  qed
qed

definition ex_chorus :: "(request \<Rightarrow> response option) \<Rightarrow> chorus" where
  "ex_chorus net = world.extend (ex_world net) (chorus.fields (\<lambda>a. a) [] []
     \<lparr> pm_slug_to_uuid = [], pm_uuid_to_slug = [], pm_loaded = False, pm_next_retry = 0, pm_last_miss = None \<rparr>)"

lemma ex_chorus_grants: "grants_ok (ex_chorus net)"
  by (simp add: grants_ok_def ex_chorus_def world.defs chorus.defs expiring.entries_ok_none)

theorem can_invoke_sound_witness:
  "\<exists>w'. can_invoke ''u1'' ''s1'' (ex_chorus (\<lambda>_. Some (reply 200 (VDict [(''allowed'', VBool True)])))) = (Inr True, w')
     \<and> grants_ok w'"
proof -
  let ?w = "ex_chorus (\<lambda>_. Some (reply 200 (VDict [(''allowed'', VBool True)])))" and ?m = "can_invoke ''u1'' ''s1''"
  have "fst (?m ?w) = Inr True" by code_simp
  then have run: "?m ?w = (Inr True, snd (?m ?w))" by (rule prog_at)
  from can_invoke_sound [OF ex_chorus_grants run] run show ?thesis by blast
qed

end
