(* ===== verification/Base64.thy ===== *)
theory Base64
  imports Py_Values
begin

text \<open>
  \<open>base64.b64encode\<close> and \<open>base64.b64decode\<close> of the standard library, over strings whose
  characters are the bytes: the relay carries request and response bodies this way. Decoding is
  the lenient one: characters outside the alphabet are skipped and the padding ends the input.
\<close>

definition sextet_char :: "nat \<Rightarrow> char" where
  "sextet_char n = (if n < 26 then char_of (65 + n) else if n < 52 then char_of (71 + n)
     else if n < 62 then char_of (n - 4) else if n = 62 then CHR ''+'' else CHR ''/'')"

definition char_sextet :: "char \<Rightarrow> nat option" where
  "char_sextet c = (let n = code c in
     if 65 \<le> n \<and> n \<le> 90 then Some (n - 65)
     else if 97 \<le> n \<and> n \<le> 122 then Some (n - 71)
     else if 48 \<le> n \<and> n \<le> 57 then Some (n + 4)
     else if n = 43 then Some 62
     else if n = 47 then Some 63
     else None)"

fun b64_sextets :: "nat list \<Rightarrow> nat list \<times> nat" where
  "b64_sextets [] = ([], 0)"
| "b64_sextets [a] = ([a div 4, (a mod 4) * 16], 2)"
| "b64_sextets [a, b] = ([a div 4, (a mod 4) * 16 + b div 16, (b mod 16) * 4], 1)"
| "b64_sextets (a # b # c # bs) =
     (let (s, pad) = b64_sextets bs
      in ([a div 4, (a mod 4) * 16 + b div 16, (b mod 16) * 4 + c div 64, c mod 64] @ s, pad))"

definition b64encode :: "string \<Rightarrow> string" where
  "b64encode s = (let (sextets, pad) = b64_sextets (map code s)
     in map sextet_char sextets @ replicate pad (CHR ''=''))"

text \<open>The decoder's state: where it is in a group of four, the bits left over, the padding seen.\<close>

fun b64_read :: "nat \<Rightarrow> nat \<Rightarrow> nat \<Rightarrow> string \<Rightarrow> nat list res" where
  "b64_read q left pads [] = (if q \<noteq> 0 then Inl (ValueError ''padding'') else Inr [])"
| "b64_read q left pads (c # s) =
     (if c = CHR ''='' then
        (if 2 \<le> q \<and> 4 \<le> q + pads + 1 then Inr []
         else b64_read q left (if 2 \<le> q then pads + 1 else pads) s)
      else case char_sextet c of
        None \<Rightarrow> b64_read q left pads s
      | Some v \<Rightarrow>
          if q = 0 then b64_read 1 v 0 s
          else if q = 1 then res_bind (b64_read 2 (v mod 16) 0 s) (\<lambda>r. Inr ((left * 4 + v div 16) mod 256 # r))
          else if q = 2 then res_bind (b64_read 3 (v mod 4) 0 s) (\<lambda>r. Inr ((left * 16 + v div 4) mod 256 # r))
          else res_bind (b64_read 0 0 0 s) (\<lambda>r. Inr ((left * 64 + v) mod 256 # r)))"

definition b64decode :: "string \<Rightarrow> string res" where
  "b64decode s = (if \<exists>c \<in> set s. 128 \<le> code c then Inl (ValueError ''ascii'')
     else res_bind (b64_read 0 0 0 s) (\<lambda>bytes. Inr (map char_of bytes)))"

section \<open>Round trip\<close>

lemma sextet_code: "n < 64 \<Longrightarrow> code (sextet_char n) = (if n < 26 then 65 + n else if n < 52 then 71 + n
    else if n < 62 then n - 4 else if n = 62 then 43 else 47)"
proof -
  have "code (CHR ''+'') = 43" "code (CHR ''/'') = 47" by code_simp+
  then show ?thesis by (simp add: sextet_char_def)
qed

lemma sextet_cases: "n < 64 \<Longrightarrow> char_sextet (sextet_char n) = Some n \<and> sextet_char n \<noteq> CHR ''='' \<and> code (sextet_char n) < 128"
proof -
  assume n: "n < 64"
  have "code (CHR ''='') = 61" by code_simp
  then have "sextet_char n \<noteq> CHR ''=''" using sextet_code [OF n] by (auto split: if_splits)
  then show ?thesis using n by (auto simp: char_sextet_def sextet_code Let_def)
qed

lemma read_pad: "b64_read q left pads (CHR ''='' # s) =
   (if 2 \<le> q \<and> 4 \<le> q + pads + 1 then Inr [] else b64_read q left (if 2 \<le> q then pads + 1 else pads) s)"
  by simp

lemma read_sextet:
  "n < 64 \<Longrightarrow> b64_read q left pads (sextet_char n # s) =
     (if q = 0 then b64_read 1 n 0 s
      else if q = 1 then res_bind (b64_read 2 (n mod 16) 0 s) (\<lambda>r. Inr ((left * 4 + n div 16) mod 256 # r))
      else if q = 2 then res_bind (b64_read 3 (n mod 4) 0 s) (\<lambda>r. Inr ((left * 16 + n div 4) mod 256 # r))
      else res_bind (b64_read 0 0 0 s) (\<lambda>r. Inr ((left * 64 + n) mod 256 # r)))"
  using sextet_cases by simp

declare b64_read.simps(2) [simp del]

lemma b64_group:
  fixes a b c :: nat
  assumes "a < 256" "b < 256" "c < 256"
  shows "a div 4 < 64" "(a mod 4) * 16 + b div 16 < 64" "(b mod 16) * 4 + c div 64 < 64" "c mod 64 < 64"
    "((a div 4) * 4 + ((a mod 4) * 16 + b div 16) div 16) mod 256 = a"
    "((((a mod 4) * 16 + b div 16) mod 16) * 16 + ((b mod 16) * 4 + c div 64) div 4) mod 256 = b"
    "((((b mod 16) * 4 + c div 64) mod 4) * 64 + c mod 64) mod 256 = c"
proof -
  show "a div 4 < 64" "(a mod 4) * 16 + b div 16 < 64" "(b mod 16) * 4 + c div 64 < 64" "c mod 64 < 64"
    using assms by auto
  have b16: "b div 16 < 16" and c64: "c div 64 < 4" using assms by auto
  show "((a div 4) * 4 + ((a mod 4) * 16 + b div 16) div 16) mod 256 = a"
    using assms b16 by simp
  have "((a mod 4) * 16 + b div 16) mod 16 = b div 16" using b16 by simp
  moreover have "((b mod 16) * 4 + c div 64) div 4 = b mod 16" using c64 by simp
  ultimately show "((((a mod 4) * 16 + b div 16) mod 16) * 16 + ((b mod 16) * 4 + c div 64) div 4) mod 256 = b"
    using assms by simp
  have "((b mod 16) * 4 + c div 64) mod 4 = c div 64" using c64 by simp
  then show "((((b mod 16) * 4 + c div 64) mod 4) * 64 + c mod 64) mod 256 = c"
    using assms by simp
qed

lemma b64_read_encoded:
  "list_all (\<lambda>b. b < 256) bs \<Longrightarrow>
   b64_read 0 left pads (map sextet_char (fst (b64_sextets bs)) @ replicate (snd (b64_sextets bs)) (CHR ''='')) = Inr bs"
proof (induction bs arbitrary: left pads rule: b64_sextets.induct)
  case (2 a)
  then show ?case
    using b64_group [of a 0 0] by (simp add: read_sextet read_pad numeral_2_eq_2)
next
  case (3 a b)
  then show ?case
    using b64_group [of a b 0] by (simp add: read_sextet read_pad)
next
  case (4 a b c bs)
  then show ?case
    using b64_group [of a b c] by (simp add: read_sextet case_prod_beta)
qed simp

lemma b64encode_ascii: "\<forall>c \<in> set (b64encode s). code c < 128"
proof -
  have "list_all (\<lambda>b. b < 256) bs \<Longrightarrow> \<forall>n \<in> set (fst (b64_sextets bs)). n < 64" for bs
    by (induction bs rule: b64_sextets.induct) (use b64_group in \<open>auto simp: case_prod_beta\<close>)
  moreover have "list_all (\<lambda>b. b < 256) (map code s)" by (simp add: list_all_iff code_def)
  ultimately have "\<forall>n \<in> set (fst (b64_sextets (map code s))). n < 64" by blast
  moreover have "code (CHR ''='') < 128" by code_simp
  ultimately show ?thesis
    using sextet_cases by (auto simp: b64encode_def case_prod_beta)
qed

lemma b64_round_trip: "b64decode (b64encode s) = Inr s"
proof -
  have bytes: "list_all (\<lambda>b. b < 256) (map code s)" by (simp add: list_all_iff code_def)
  have "b64_read 0 0 0 (b64encode s) = Inr (map code s)"
    using b64_read_encoded [OF bytes] by (simp add: b64encode_def case_prod_beta)
  moreover have "\<not> (\<exists>c \<in> set (b64encode s). 128 \<le> code c)" using b64encode_ascii [of s] by (auto simp: not_le)
  ultimately show ?thesis by (simp add: b64decode_def code_def comp_def)
qed

end
