(* ===== verification/Relay_Manager.thy ===== *)
theory Relay_Manager
  imports Base64
begin

text \<open>
  \<open>src/src/crystal/relay_manager.py\<close>: sessions of desktop runtimes over web sockets, and the
  requests waiting for an answer on each. Handlers interleave wherever the code awaits, so the
  manager is a state with one function per stretch of code between two awaits and a step relation
  over them; \<open>relay_calls\<close> are the \<open>forward_mcp_request\<close> coroutines in progress, each with the
  future it waits on. \<open>uuid4\<close> gives ids not given before (\<open>relay_used\<close>); of a user's sessions,
  held in a set, any may be the one iterated first. A result remembers the session it came in on,
  which the code's future does not hold: it is read in the properties only.
\<close>

datatype future = Waiting | Result string "pyval dict" | Failed exc

record relay_session =
  se_user :: string
  se_pending :: "string list"

record relay_call =
  ca_session :: string
  ca_user :: string
  ca_future :: future

record relay =
  relay_sessions :: "relay_session dict"
  relay_by_user :: "string list dict"
  relay_calls :: "relay_call dict"
  relay_used :: "string list"

definition new_relay :: relay where
  "new_relay = \<lparr> relay_sessions = [], relay_by_user = [], relay_calls = [], relay_used = [] \<rparr>"

section \<open>Sessions\<close>

definition user_ids :: "relay \<Rightarrow> string \<Rightarrow> string list" where
  "user_ids r user = (case map_of (relay_by_user r) user of None \<Rightarrow> [] | Some ids \<Rightarrow> ids)"

definition relay_connect :: "string \<Rightarrow> string \<Rightarrow> relay \<Rightarrow> relay" where
  "relay_connect sid user r = r\<lparr>
     relay_sessions := AList.update sid \<lparr> se_user = user, se_pending = [] \<rparr> (relay_sessions r),
     relay_by_user := AList.update user (List.insert sid (user_ids r user)) (relay_by_user r),
     relay_used := sid # relay_used r\<rparr>"

definition fail_waiting :: "string list \<Rightarrow> relay_call dict \<Rightarrow> relay_call dict" where
  "fail_waiting ids calls = map (\<lambda>(rid, c). (rid,
     if rid \<in> set ids \<and> ca_future c = Waiting
     then c\<lparr>ca_future := Failed (RuntimeError ''Relay session disconnected'')\<rparr> else c)) calls"

definition drop_index :: "string \<Rightarrow> string \<Rightarrow> string list dict \<Rightarrow> string list dict" where
  "drop_index user sid by_user = (case map_of by_user user of
       None \<Rightarrow> by_user
     | Some ids \<Rightarrow> (let left = removeAll sid ids in
         if left = [] then AList.delete user by_user else AList.update user left by_user))"

definition relay_disconnect :: "string \<Rightarrow> relay \<Rightarrow> relay" where
  "relay_disconnect sid r = (case map_of (relay_sessions r) sid of
       None \<Rightarrow> r
     | Some session \<Rightarrow> r\<lparr>
         relay_sessions := AList.delete sid (relay_sessions r),
         relay_calls := fail_waiting (se_pending session) (relay_calls r),
         relay_by_user := drop_index (se_user session) sid (relay_by_user r)\<rparr>)"

definition get_session :: "relay \<Rightarrow> string \<Rightarrow> relay_session option" where
  "get_session r sid = map_of (relay_sessions r) sid"

text \<open>The sessions \<open>get_active_session_for_user\<close> may return.\<close>

definition active_sessions :: "relay \<Rightarrow> string \<Rightarrow> string list" where
  "active_sessions r user = filter (\<lambda>sid. get_session r sid \<noteq> None) (user_ids r user)"

definition session_count :: "relay \<Rightarrow> nat" where
  "session_count r = length (relay_sessions r)"

section \<open>Requests\<close>

definition request_envelope :: "string \<Rightarrow> int \<Rightarrow> string \<Rightarrow> pyval \<Rightarrow> string \<Rightarrow> string \<Rightarrow> string dict \<Rightarrow> string \<Rightarrow> int \<Rightarrow> pyval" where
  "request_envelope rid ts server_id mcp_server mthd path headers body deadline_ms =
     VDict [(''type'', VStr ''mcp_request''), (''v'', VInt 1), (''id'', VStr rid), (''ts'', VInt ts),
       (''payload'', VDict [(''server_id'', VStr server_id), (''mcp_server'', py_or mcp_server (VDict [])),
          (''method'', VStr mthd), (''path'', VStr path),
          (''headers'', VDict (map (\<lambda>(k, v). (k, VStr v)) headers)),
          (''body'', VStr (b64encode body)), (''deadline_ms'', VInt deadline_ms)])]"

text \<open>\<open>forward_mcp_request\<close> up to its first await, on the session chosen: the future is registered.\<close>

definition forward_start :: "string \<Rightarrow> string \<Rightarrow> string \<Rightarrow> relay \<Rightarrow> relay res" where
  "forward_start user sid rid r =
     (if active_sessions r user = [] then Inl (LookupError user)
      else case get_session r sid of
        None \<Rightarrow> Inl (LookupError user)
      | Some session \<Rightarrow> Inr (r\<lparr>
          relay_sessions := AList.update sid (session\<lparr>se_pending := se_pending session @ [rid]\<rparr>) (relay_sessions r),
          relay_calls := AList.update rid \<lparr> ca_session = sid, ca_user = user, ca_future = Waiting \<rparr> (relay_calls r),
          relay_used := rid # relay_used r\<rparr>))"

text \<open>\<open>handle_response_envelope\<close>: the receive loop of a session read an envelope.\<close>

definition relay_response :: "string \<Rightarrow> pyval dict \<Rightarrow> relay \<Rightarrow> relay" where
  "relay_response sid envelope r =
     (if dget envelope ''type'' \<noteq> VStr ''mcp_response'' then r
      else case get_session r sid of
        None \<Rightarrow> r
      | Some session \<Rightarrow>
          let request_id = dget envelope ''id''; rid = py_str request_id in
          if \<not> truthy request_id \<or> rid \<notin> set (se_pending session) then r
          else case map_of (relay_calls r) rid of
            None \<Rightarrow> r
          | Some c \<Rightarrow> if ca_future c \<noteq> Waiting then r
              else r\<lparr>relay_calls := AList.update rid (c\<lparr>ca_future := Result sid envelope\<rparr>) (relay_calls r)\<rparr>)"

text \<open>What a response envelope is worth to the caller.\<close>

definition response_payload :: "pyval dict \<Rightarrow> pyval res" where
  "response_payload envelope =
     (let payload = py_or (dget envelope ''payload'') (VDict []) in
      res_bind (py_get payload ''ok'') (\<lambda>ok.
      if truthy ok then Inr payload
      else res_bind (py_get payload ''error'') (\<lambda>err.
           res_bind (py_get (py_or err (VDict [])) ''message'') (\<lambda>m.
           Inl (ValueError (py_str (py_or m (VStr ''Relay desktop returned error envelope''))))))))"

text \<open>How the wait ends: the future is done, the time is up, or sending or waiting raised.\<close>

datatype wake = Done | TimedOut | Raised exc

definition forward_result :: "wake \<Rightarrow> future \<Rightarrow> pyval res option" where
  "forward_result wk f = (case wk of
       Done \<Rightarrow> (case f of Waiting \<Rightarrow> None | Result _ envelope \<Rightarrow> Some (response_payload envelope) | Failed e \<Rightarrow> Some (Inl e))
     | TimedOut \<Rightarrow> Some (Inl (TimeoutError ''Relay request timed out''))
     | Raised e \<Rightarrow> Some (Inl e))"

text \<open>The \<open>finally\<close> clause.\<close>

definition forward_finish :: "string \<Rightarrow> relay \<Rightarrow> relay" where
  "forward_finish rid r = (case map_of (relay_calls r) rid of
       None \<Rightarrow> r
     | Some c \<Rightarrow> r\<lparr>
         relay_sessions := (case get_session r (ca_session c) of
            None \<Rightarrow> relay_sessions r
          | Some session \<Rightarrow> AList.update (ca_session c)
              (session\<lparr>se_pending := removeAll rid (se_pending session)\<rparr>) (relay_sessions r)),
         relay_calls := AList.delete rid (relay_calls r)\<rparr>)"

section \<open>The step relation\<close>

inductive relay_step :: "relay \<Rightarrow> relay \<Rightarrow> bool" where
  connect: "sid \<notin> set (relay_used r) \<Longrightarrow> relay_step r (relay_connect sid user r)"
| disconnect: "relay_step r (relay_disconnect sid r)"
| start: "sid \<in> set (active_sessions r user) \<Longrightarrow> rid \<notin> set (relay_used r)
    \<Longrightarrow> forward_start user sid rid r = Inr r' \<Longrightarrow> relay_step r r'"
| response: "relay_step r (relay_response sid envelope r)"
| finish: "map_of (relay_calls r) rid = Some c \<Longrightarrow> forward_result wk (ca_future c) = Some v
    \<Longrightarrow> relay_step r (forward_finish rid r)"

inductive relay_reach :: "relay \<Rightarrow> bool" where
  init: "relay_reach new_relay"
| step: "relay_reach r \<Longrightarrow> relay_step r r' \<Longrightarrow> relay_reach r'"

inductive_cases relay_stepE: "relay_step r r'"

section \<open>The invariant\<close>

text \<open>The index by user lists exactly the connected sessions, no user without one.\<close>

definition index_ok :: "relay \<Rightarrow> bool" where
  "index_ok r \<longleftrightarrow> (\<forall>user sid. sid \<in> set (user_ids r user)
       \<longleftrightarrow> (\<exists>s. map_of (relay_sessions r) sid = Some s \<and> se_user s = user))
     \<and> (\<forall>user ids. map_of (relay_by_user r) user = Some ids \<longrightarrow> ids \<noteq> [])"

text \<open>A call in progress is pending on its session while that is connected, and its session is its
  user's; once the session is gone nothing waits. A result came in on the call's own session, as a
  response to the call's id.\<close>

definition call_ok :: "relay \<Rightarrow> string \<Rightarrow> relay_call \<Rightarrow> bool" where
  "call_ok r rid c \<longleftrightarrow> rid \<in> set (relay_used r) \<and> ca_session c \<in> set (relay_used r)
     \<and> (case map_of (relay_sessions r) (ca_session c) of
          Some s \<Rightarrow> se_user s = ca_user c \<and> rid \<in> set (se_pending s)
        | None \<Rightarrow> ca_future c \<noteq> Waiting)
     \<and> (\<forall>sid envelope. ca_future c = Result sid envelope \<longrightarrow> sid = ca_session c
          \<and> dget envelope ''type'' = VStr ''mcp_response'' \<and> py_str (dget envelope ''id'') = rid)"

definition session_ok :: "relay \<Rightarrow> string \<Rightarrow> relay_session \<Rightarrow> bool" where
  "session_ok r sid s \<longleftrightarrow> sid \<in> set (relay_used r)
     \<and> (\<forall>rid \<in> set (se_pending s). \<exists>c. map_of (relay_calls r) rid = Some c \<and> ca_session c = sid)"

definition relay_ok :: "relay \<Rightarrow> bool" where
  "relay_ok r \<longleftrightarrow> wf_dict (relay_sessions r) \<and> wf_dict (relay_by_user r) \<and> wf_dict (relay_calls r) \<and> index_ok r
     \<and> (\<forall>rid c. map_of (relay_calls r) rid = Some c \<longrightarrow> call_ok r rid c)
     \<and> (\<forall>sid s. map_of (relay_sessions r) sid = Some s \<longrightarrow> session_ok r sid s)"

lemma relay_okI:
  assumes "wf_dict (relay_sessions r)" "wf_dict (relay_by_user r)" "wf_dict (relay_calls r)" "index_ok r"
    and "\<And>rid c. map_of (relay_calls r) rid = Some c \<Longrightarrow> call_ok r rid c"
    and "\<And>sid s. map_of (relay_sessions r) sid = Some s \<Longrightarrow> session_ok r sid s"
  shows "relay_ok r"
  using assms by (simp add: relay_ok_def)

lemma relay_okD:
  assumes "relay_ok r"
  shows "wf_dict (relay_sessions r)" "wf_dict (relay_by_user r)" "wf_dict (relay_calls r)" "index_ok r"
    "\<And>rid c. map_of (relay_calls r) rid = Some c \<Longrightarrow> call_ok r rid c"
    "\<And>sid s. map_of (relay_sessions r) sid = Some s \<Longrightarrow> session_ok r sid s"
  using assms by (simp_all add: relay_ok_def)

lemma relay_ok_new: "relay_ok new_relay"
  by (simp add: relay_ok_def new_relay_def index_ok_def user_ids_def)


lemma user_ids_connect: "user_ids (relay_connect sid user r) u =
    (if u = user then List.insert sid (user_ids r user) else user_ids r u)"
  by (simp add: user_ids_def relay_connect_def)

lemma relay_ok_connect:
  assumes ok: "relay_ok r" and new: "sid \<notin> set (relay_used r)"
  shows "relay_ok (relay_connect sid user r)"
proof -
  note o = relay_okD [OF ok]
  have fresh: "map_of (relay_sessions r) sid = None"
    using o(6) [of sid] new by (cases "map_of (relay_sessions r) sid") (auto simp: session_ok_def)
  have sessions: "map_of (relay_sessions (relay_connect sid user r)) i =
      (if i = sid then Some \<lparr> se_user = user, se_pending = [] \<rparr> else map_of (relay_sessions r) i)" for i
    by (simp add: relay_connect_def)
  show ?thesis
  proof (rule relay_okI)
    have "List.insert sid xs \<noteq> []" for xs :: "string list"
      by (metis in_set_insert length_pos_if_in_set list.set_intros(1) list.size(3) not_less_zero set_insert insertI1)
    then show "index_ok (relay_connect sid user r)"
      using o(4) fresh unfolding index_ok_def user_ids_connect sessions
      by (auto simp: relay_connect_def)
  next
    fix rid c assume "map_of (relay_calls (relay_connect sid user r)) rid = Some c"
    then have c: "call_ok r rid c" using o(5) by (simp add: relay_connect_def)
    then have "ca_session c \<noteq> sid" using new by (auto simp: call_ok_def)
    with c show "call_ok (relay_connect sid user r) rid c"
      by (simp add: call_ok_def sessions) (simp add: relay_connect_def)
  next
    fix i s assume "map_of (relay_sessions (relay_connect sid user r)) i = Some s"
    then show "session_ok (relay_connect sid user r) i s"
      using o(6) by (auto simp: sessions session_ok_def relay_connect_def split: if_splits)
  qed (use o in \<open>simp_all add: relay_connect_def\<close>)
qed

lemma map_of_fail_waiting:
  "map_of (fail_waiting ids calls) rid = map_option (\<lambda>c. if rid \<in> set ids \<and> ca_future c = Waiting
     then c\<lparr>ca_future := Failed (RuntimeError ''Relay session disconnected'')\<rparr> else c) (map_of calls rid)"
  by (induction calls) (auto simp: fail_waiting_def)

lemma wf_fail_waiting: "wf_dict (fail_waiting ids calls) = wf_dict calls"
proof -
  have "map fst (fail_waiting ids calls) = map fst calls" by (auto simp: fail_waiting_def)
  then show ?thesis by simp
qed

lemma map_of_drop_index:
  "map_of (drop_index user sid d) u = (if u = user \<and> map_of d user \<noteq> None
     then (let left = removeAll sid (the (map_of d user)) in if left = [] then None else Some left) else map_of d u)"
  by (auto simp: drop_index_def Let_def split: option.splits)

lemma relay_ok_disconnect:
  assumes ok: "relay_ok r"
  shows "relay_ok (relay_disconnect sid r)"
proof (cases "map_of (relay_sessions r) sid")
  case None
  then show ?thesis using ok by (simp add: relay_disconnect_def)
next
  case (Some session)
  note o = relay_okD [OF ok]
  let ?r = "relay_disconnect sid r"
  have r: "?r = r\<lparr>relay_sessions := AList.delete sid (relay_sessions r),
         relay_calls := fail_waiting (se_pending session) (relay_calls r),
         relay_by_user := drop_index (se_user session) sid (relay_by_user r)\<rparr>"
    using Some by (simp add: relay_disconnect_def)
  have ids: "user_ids ?r u = (if u = se_user session then removeAll sid (user_ids r u) else user_ids r u)" for u
    by (auto simp: user_ids_def r map_of_drop_index Let_def split: option.splits)
  show ?thesis
  proof (rule relay_okI)
    show "index_ok ?r"
      using o(4) Some unfolding index_ok_def ids
      by (auto simp: r map_of_drop_index Let_def split: if_splits)
    show "wf_dict (relay_by_user ?r)"
      using o(2) by (auto simp: r drop_index_def Let_def split: option.splits)
  next
    fix rid c assume "map_of (relay_calls ?r) rid = Some c"
    then obtain c0 where c0: "map_of (relay_calls r) rid = Some c0"
      and c: "c = (if rid \<in> set (se_pending session) \<and> ca_future c0 = Waiting
        then c0\<lparr>ca_future := Failed (RuntimeError ''Relay session disconnected'')\<rparr> else c0)"
      by (auto simp: r map_of_fail_waiting)
    from o(5) [OF c0] Some show "call_ok ?r rid c"
      unfolding call_ok_def c by (auto simp: r split: option.splits)
  next
    fix i s assume "map_of (relay_sessions ?r) i = Some s"
    then have "session_ok r i s" using o(6) by (simp add: r split: if_splits)
    moreover have "\<exists>c'. map_of (relay_calls ?r) p = Some c' \<and> ca_session c' = ca_session c"
      if "map_of (relay_calls r) p = Some c" for p c
      using that by (simp add: r map_of_fail_waiting)
    moreover have "relay_used ?r = relay_used r" by (simp add: r)
    ultimately show "session_ok ?r i s" unfolding session_ok_def by metis
  qed (use o in \<open>simp_all add: r wf_fail_waiting\<close>)
qed

lemma user_ids_sessions [simp]:
  "user_ids (r\<lparr>relay_sessions := ss, relay_calls := cs, relay_used := us\<rparr>) u = user_ids r u"
  "user_ids (r\<lparr>relay_sessions := ss, relay_calls := cs\<rparr>) u = user_ids r u"
  "user_ids (r\<lparr>relay_calls := cs\<rparr>) u = user_ids r u"
  "user_ids (r\<lparr>relay_sessions := ss\<rparr>) u = user_ids r u"
  by (simp_all add: user_ids_def)

lemma active_session_user:
  "relay_ok r \<Longrightarrow> sid \<in> set (active_sessions r user) \<Longrightarrow> \<exists>s. map_of (relay_sessions r) sid = Some s \<and> se_user s = user"
  using relay_okD(4) [of r] by (auto simp: active_sessions_def index_ok_def)

lemma relay_ok_start:
  assumes ok: "relay_ok r" and active: "sid \<in> set (active_sessions r user)" and new: "rid \<notin> set (relay_used r)"
    and start: "forward_start user sid rid r = Inr r'"
  shows "relay_ok r'"
proof -
  note o = relay_okD [OF ok]
  obtain s where s: "map_of (relay_sessions r) sid = Some s" "se_user s = user"
    using active_session_user [OF ok active] by blast
  have r': "r' = r\<lparr>relay_sessions := AList.update sid (s\<lparr>se_pending := se_pending s @ [rid]\<rparr>) (relay_sessions r),
      relay_calls := AList.update rid \<lparr> ca_session = sid, ca_user = user, ca_future = Waiting \<rparr> (relay_calls r),
      relay_used := rid # relay_used r\<rparr>"
    using start s(1) by (auto simp: forward_start_def get_session_def split: if_splits)
  have fresh: "map_of (relay_calls r) rid = None"
    using o(5) [of rid] new by (cases "map_of (relay_calls r) rid") (auto simp: call_ok_def)
  have used: "sid \<in> set (relay_used r)" using o(6) [OF s(1)] by (simp add: session_ok_def)
  show ?thesis
  proof (rule relay_okI)
    show "index_ok r'"
      using o(4) s unfolding index_ok_def r' user_ids_sessions by (auto simp: s)
  next
    fix i c assume c: "map_of (relay_calls r') i = Some c"
    show "call_ok r' i c"
    proof (cases "i = rid")
      case True
      with c show ?thesis using s used by (auto simp: r' call_ok_def)
    next
      case False
      with c have "call_ok r i c" using o(5) by (simp add: r')
      then show ?thesis using s by (auto simp: call_ok_def r' split: option.splits)
    qed
  next
    fix i s' assume s': "map_of (relay_sessions r') i = Some s'"
    have old: "\<exists>c. map_of (relay_calls r) p = Some c \<and> ca_session c = i" "p \<noteq> rid"
      if "map_of (relay_sessions r) i = Some t" "p \<in> set (se_pending t)" for t p
      using o(6) [OF that(1)] that(2) fresh by (fastforce simp: session_ok_def)+
    show "session_ok r' i s'"
    proof (cases "i = sid")
      case True
      with s' s used old [OF _ , of s] show ?thesis by (auto simp: r' session_ok_def)
    next
      case False
      with s' have "map_of (relay_sessions r) i = Some s'" by (simp add: r')
      with old o(6) [OF this] show ?thesis by (auto simp: r' session_ok_def)
    qed
  qed (use o in \<open>simp_all add: r'\<close>)
qed

lemma relay_ok_response:
  assumes ok: "relay_ok r"
  shows "relay_ok (relay_response sid envelope r)"
proof (cases "relay_response sid envelope r = r")
  case False
  note o = relay_okD [OF ok]
  from False obtain s c where s: "map_of (relay_sessions r) sid = Some s"
    and pend: "py_str (dget envelope ''id'') \<in> set (se_pending s)"
    and ty: "dget envelope ''type'' = VStr ''mcp_response''"
    and c: "map_of (relay_calls r) (py_str (dget envelope ''id'')) = Some c"
    and r': "relay_response sid envelope r = r\<lparr>relay_calls := AList.update (py_str (dget envelope ''id''))
        (c\<lparr>ca_future := Result sid envelope\<rparr>) (relay_calls r)\<rparr>" (is "_ = ?r")
    by (auto simp: relay_response_def get_session_def Let_def split: option.splits if_splits)
  have cs: "ca_session c = sid" using o(6) [OF s] pend c by (auto simp: session_ok_def)
  have "relay_ok ?r"
  proof (rule relay_okI)
    show "index_ok ?r" using o(4) unfolding index_ok_def user_ids_sessions by simp
  next
    fix i c' assume c': "map_of (relay_calls ?r) i = Some c'"
    show "call_ok ?r i c'"
    proof (cases "i = py_str (dget envelope ''id'')")
      case True
      with c' o(5) [OF c] s cs ty show ?thesis by (auto simp: call_ok_def)
    next
      case False
      with c' o(5) [of i c'] show ?thesis by (simp add: call_ok_def)
    qed
  next
    fix i s' assume "map_of (relay_sessions ?r) i = Some s'"
    then have "session_ok r i s'" using o(6) by simp
    then show "session_ok ?r i s'" using c by (fastforce simp: session_ok_def)
  qed (use o in simp_all)
  then show ?thesis by (simp add: r')
qed (use ok in simp)

lemma relay_ok_finish:
  assumes ok: "relay_ok r"
  shows "relay_ok (forward_finish rid r)"
proof (cases "map_of (relay_calls r) rid")
  case None
  then show ?thesis using ok by (simp add: forward_finish_def)
next
  case (Some c)
  note o = relay_okD [OF ok]
  define ss where "ss = (case get_session r (ca_session c) of None \<Rightarrow> relay_sessions r
      | Some session \<Rightarrow> AList.update (ca_session c) (session\<lparr>se_pending := removeAll rid (se_pending session)\<rparr>) (relay_sessions r))"
  have r': "forward_finish rid r = r\<lparr>relay_sessions := ss, relay_calls := AList.delete rid (relay_calls r)\<rparr>" (is "_ = ?r")
    using Some by (simp add: forward_finish_def ss_def)
  have sessions: "map_of ss i = map_option (\<lambda>s. if i = ca_session c
      then s\<lparr>se_pending := removeAll rid (se_pending s)\<rparr> else s) (map_of (relay_sessions r) i)" for i
    by (cases "map_of (relay_sessions r) (ca_session c)"; cases "map_of (relay_sessions r) i")
      (auto simp: ss_def get_session_def)
  have "relay_ok ?r"
  proof (rule relay_okI)
    have "(\<exists>s. map_of ss i = Some s \<and> se_user s = u) \<longleftrightarrow> (\<exists>s. map_of (relay_sessions r) i = Some s \<and> se_user s = u)" for i u
      by (cases "map_of (relay_sessions r) i") (simp_all add: sessions)
    then show "index_ok ?r" using o(4) unfolding index_ok_def user_ids_sessions by simp
    show "wf_dict (relay_sessions ?r)" using o(1) by (simp add: ss_def split: option.splits)
  next
    fix i c' assume "map_of (relay_calls ?r) i = Some c'"
    then have "call_ok r i c'" "i \<noteq> rid" using o(5) by (auto split: if_splits)
    then show "call_ok ?r i c'" by (auto simp: call_ok_def sessions split: option.splits)
  next
    fix i s' assume "map_of (relay_sessions ?r) i = Some s'"
    then obtain s where s: "map_of (relay_sessions r) i = Some s"
      and s': "s' = (if i = ca_session c then s\<lparr>se_pending := removeAll rid (se_pending s)\<rparr> else s)"
      by (auto simp: sessions)
    have "p \<noteq> rid" if "p \<in> set (se_pending s')" for p
      using that o(6) [OF s] Some by (fastforce simp: s' session_ok_def split: if_splits)
    then show "session_ok ?r i s'"
      using o(6) [OF s] by (auto simp: session_ok_def s')
  qed (use o in simp_all)
  then show ?thesis by (simp add: r')
qed

lemma relay_step_ok: "relay_step r r' \<Longrightarrow> relay_ok r \<Longrightarrow> relay_ok r'"
  by (induction rule: relay_step.induct)
    (auto intro: relay_ok_connect relay_ok_disconnect relay_ok_start relay_ok_response relay_ok_finish)

lemma relay_reach_ok: "relay_reach r \<Longrightarrow> relay_ok r"
  by (induction rule: relay_reach.induct) (auto intro: relay_ok_new relay_step_ok)


text \<open>One user, one session, one request, answered; and the session gone.\<close>

definition ex_envelope :: "pyval dict" where
  "ex_envelope = [(''type'', VStr ''mcp_response''), (''id'', VStr ''q1''),
     (''payload'', VDict [(''ok'', VBool True), (''status'', VInt 200)])]"

definition ex_asked :: relay where
  "ex_asked = (case forward_start ''ann'' ''s1'' ''q1'' (relay_connect ''s1'' ''ann'' new_relay) of
     Inr r \<Rightarrow> r | Inl _ \<Rightarrow> new_relay)"

lemma ex_asked_start: "forward_start ''ann'' ''s1'' ''q1'' (relay_connect ''s1'' ''ann'' new_relay) = Inr ex_asked"
  by (simp add: ex_asked_def forward_start_def active_sessions_def user_ids_def get_session_def
      relay_connect_def new_relay_def)

lemma ex_asked_eq: "ex_asked = \<lparr> relay_sessions = [(''s1'', \<lparr> se_user = ''ann'', se_pending = [''q1''] \<rparr>)],
   relay_by_user = [(''ann'', [''s1''])],
   relay_calls = [(''q1'', \<lparr> ca_session = ''s1'', ca_user = ''ann'', ca_future = Waiting \<rparr>)],
   relay_used = [''q1'', ''s1''] \<rparr>"
  by (simp add: ex_asked_def forward_start_def active_sessions_def user_ids_def get_session_def
      relay_connect_def new_relay_def)

lemma ex_asked_calls: "relay_calls ex_asked = [(''q1'', \<lparr> ca_session = ''s1'', ca_user = ''ann'', ca_future = Waiting \<rparr>)]"
  by (simp add: ex_asked_eq)

lemma ex_asked_reach: "relay_reach ex_asked"
proof -
  have one: "relay_reach (relay_connect ''s1'' ''ann'' new_relay)"
    by (rule relay_reach.step [OF relay_reach.init], rule relay_step.connect) (simp add: new_relay_def)
  show ?thesis
    by (rule relay_reach.step [OF one], rule relay_step.start [OF _ _ ex_asked_start])
      (simp_all add: active_sessions_def user_ids_def get_session_def relay_connect_def new_relay_def)
qed

section \<open>Properties\<close>

text \<open>C11: in every state the relay can reach, under any interleaving of connections, disconnections,
  requests and answers, the index by user lists exactly the connected sessions of each user, every
  pending id on a session is a request in progress there, and the user a request is forwarded for is
  the user whose desktop it was sent to.\<close>

theorem relay_invariant:
  assumes "relay_reach r"
  shows "(\<forall>user sid. sid \<in> set (active_sessions r user) \<longleftrightarrow> (\<exists>s. get_session r sid = Some s \<and> se_user s = user))
    \<and> (\<forall>sid s rid. get_session r sid = Some s \<and> rid \<in> set (se_pending s) \<longrightarrow>
         (\<exists>c. map_of (relay_calls r) rid = Some c \<and> ca_session c = sid \<and> ca_user c = se_user s))"
proof (intro conjI allI impI)
  have ok: "relay_ok r" using assms by (rule relay_reach_ok)
  show "sid \<in> set (active_sessions r user) \<longleftrightarrow> (\<exists>s. get_session r sid = Some s \<and> se_user s = user)" for user sid
    using relay_okD(4) [OF ok] by (auto simp: active_sessions_def get_session_def index_ok_def)
  fix sid s rid assume s: "get_session r sid = Some s \<and> rid \<in> set (se_pending s)"
  then obtain c where c: "map_of (relay_calls r) rid = Some c" "ca_session c = sid"
    using relay_okD(6) [OF ok, of sid s] by (auto simp: session_ok_def get_session_def)
  with s relay_okD(5) [OF ok c(1)] show "\<exists>c. map_of (relay_calls r) rid = Some c \<and> ca_session c = sid \<and> ca_user c = se_user s"
    by (auto simp: call_ok_def get_session_def)
qed

theorem relay_invariant_witness:
  "active_sessions ex_asked ''ann'' = [''s1''] \<and> (\<exists>s. get_session ex_asked ''s1'' = Some s \<and> se_user s = ''ann'')"
proof -
  have "active_sessions ex_asked ''ann'' = [''s1'']"
    by (simp add: ex_asked_eq active_sessions_def user_ids_def get_session_def)
  with relay_invariant [OF ex_asked_reach, THEN conjunct1, rule_format, of "''s1''" "''ann''"] show ?thesis by simp
qed

text \<open>C7: no user's desktop answers for another. When a forwarded request returns a payload, or the
  desktop's error, the envelope was a response, to that request's id, received on the session the
  request was sent over, which was opened by the user the request was forwarded for.\<close>

theorem relay_answers_own_request:
  assumes "relay_reach r" and "map_of (relay_calls r) rid = Some c"
    and "ca_future c = Result sid envelope"
  shows "sid = ca_session c \<and> dget envelope ''type'' = VStr ''mcp_response'' \<and> py_str (dget envelope ''id'') = rid
    \<and> forward_result Done (ca_future c) = Some (response_payload envelope)
    \<and> (\<forall>s. get_session r sid = Some s \<longrightarrow> se_user s = ca_user c)"
  using relay_okD(5) [OF relay_reach_ok [OF assms(1)] assms(2)] assms(3)
  by (auto simp: call_ok_def forward_result_def get_session_def)

theorem relay_answers_own_request_witness:
  "\<exists>r c. relay_reach r \<and> map_of (relay_calls r) ''q1'' = Some c \<and> ca_future c = Result ''s1'' ex_envelope
     \<and> ca_session c = ''s1''
     \<and> forward_result Done (ca_future c) = Some (Inr (VDict [(''ok'', VBool True), (''status'', VInt 200)]))"
proof -
  let ?r = "relay_response ''s1'' ex_envelope ex_asked"
  have reach: "relay_reach ?r" by (rule relay_reach.step [OF ex_asked_reach]) (rule relay_step.response)
  have "relay_calls ?r = [(''q1'', \<lparr> ca_session = ''s1'', ca_user = ''ann'', ca_future = Result ''s1'' ex_envelope \<rparr>)]"
    by (simp add: ex_asked_eq relay_response_def ex_envelope_def dget_def get_session_def Let_def)
  then have c: "map_of (relay_calls ?r) ''q1'' = Some \<lparr> ca_session = ''s1'', ca_user = ''ann'', ca_future = Result ''s1'' ex_envelope \<rparr>"
    (is "_ = Some ?c") by simp
  have f: "ca_future ?c = Result ''s1'' ex_envelope" by simp
  have "response_payload ex_envelope = Inr (VDict [(''ok'', VBool True), (''status'', VInt 200)])" by code_simp
  with relay_answers_own_request [OF reach c f] reach c show ?thesis by (intro exI [of _ ?r] exI [of _ ?c]) simp
qed

text \<open>nobody waits on a desktop that is gone: once a session is no longer connected, every request
  sent over it has its answer or has failed, so it ends without waiting for its time-out.\<close>

theorem relay_no_orphans:
  assumes "relay_reach r" and "map_of (relay_calls r) rid = Some c" and "get_session r (ca_session c) = None"
  shows "\<exists>v. forward_result Done (ca_future c) = Some v"
  using relay_okD(5) [OF relay_reach_ok [OF assms(1)] assms(2)] assms(3)
  by (cases "ca_future c") (auto simp: call_ok_def forward_result_def get_session_def)

theorem relay_no_orphans_witness:
  "\<exists>c. map_of (relay_calls (relay_disconnect ''s1'' ex_asked)) ''q1'' = Some c \<and> forward_result Done (ca_future c) \<noteq> None"
proof -
  let ?r = "relay_disconnect ''s1'' ex_asked"
  have reach: "relay_reach ?r" by (rule relay_reach.step [OF ex_asked_reach]) (rule relay_step.disconnect)
  have gone: "get_session ?r ''s1'' = None" by (auto simp: relay_disconnect_def get_session_def split: option.splits)
  have "\<exists>c. map_of (relay_calls ?r) ''q1'' = Some c \<and> ca_session c = ''s1''"
    by (auto simp: relay_disconnect_def ex_asked_calls map_of_fail_waiting split: option.splits)
  then obtain c where c: "map_of (relay_calls ?r) ''q1'' = Some c" "ca_session c = ''s1''" by blast
  with relay_no_orphans [OF reach c(1)] gone show ?thesis by auto
qed

text \<open>an envelope that is not a response, has no id, names a request not pending on that very session,
  or one already answered, changes nothing; a first response is delivered once, and to that request
  only.\<close>

theorem relay_response_once:
  assumes "relay_reach r"
  shows "relay_response sid envelope r = r
    \<or> (\<exists>rid c. rid = py_str (dget envelope ''id'') \<and> map_of (relay_calls r) rid = Some c \<and> ca_session c = sid
         \<and> ca_future c = Waiting \<and> dget envelope ''type'' = VStr ''mcp_response''
         \<and> map_of (relay_calls (relay_response sid envelope r)) rid = Some (c\<lparr>ca_future := Result sid envelope\<rparr>)
         \<and> (\<forall>other. other \<noteq> rid \<longrightarrow> map_of (relay_calls (relay_response sid envelope r)) other = map_of (relay_calls r) other)
         \<and> (py_str (dget envelope' ''id'') = rid \<longrightarrow>
              relay_response sid envelope' (relay_response sid envelope r) = relay_response sid envelope r))"
proof (cases "relay_response sid envelope r = r")
  case False
  have ok: "relay_ok r" using assms by (rule relay_reach_ok)
  let ?rid = "py_str (dget envelope ''id'')"
  from False obtain s c where s: "map_of (relay_sessions r) sid = Some s" "?rid \<in> set (se_pending s)"
    and c: "map_of (relay_calls r) ?rid = Some c" "ca_future c = Waiting"
    and ty: "dget envelope ''type'' = VStr ''mcp_response''"
    and r': "relay_response sid envelope r = r\<lparr>relay_calls := AList.update ?rid (c\<lparr>ca_future := Result sid envelope\<rparr>) (relay_calls r)\<rparr>"
    by (auto simp: relay_response_def get_session_def Let_def split: option.splits if_splits)
  have "ca_session c = sid" using relay_okD(6) [OF ok s(1)] s(2) c(1) by (auto simp: session_ok_def)
  moreover have "py_str (dget envelope' ''id'') = ?rid \<longrightarrow>
      relay_response sid envelope' (relay_response sid envelope r) = relay_response sid envelope r"
    unfolding r' by (auto simp: relay_response_def get_session_def Let_def split: option.splits)
  ultimately show ?thesis using c ty by (auto simp: r')
qed simp

theorem relay_response_once_witness:
  "relay_response ''s2'' ex_envelope ex_asked = ex_asked
   \<and> relay_response ''s1'' ex_envelope ex_asked \<noteq> ex_asked"
proof
  have "get_session ex_asked ''s2'' = None"
    by (simp add: ex_asked_eq active_sessions_def user_ids_def get_session_def)
  then have "\<not> (\<exists>c. map_of (relay_calls ex_asked) (py_str (dget ex_envelope ''id'')) = Some c \<and> ca_session c = ''s2'')"
    by (simp add: ex_asked_calls)
  with relay_response_once [OF ex_asked_reach, of "''s2''" ex_envelope ex_envelope]
  show "relay_response ''s2'' ex_envelope ex_asked = ex_asked" by blast
  have "relay_calls (relay_response ''s1'' ex_envelope ex_asked)
      = [(''q1'', \<lparr> ca_session = ''s1'', ca_user = ''ann'', ca_future = Result ''s1'' ex_envelope \<rparr>)]"
    by (simp add: ex_asked_eq relay_response_def ex_envelope_def dget_def get_session_def Let_def)
  then show "relay_response ''s1'' ex_envelope ex_asked \<noteq> ex_asked" using ex_asked_calls by auto
qed

text \<open>a body survives the trip: what the desktop decodes from the envelope is the body that was
  sent, whatever its bytes.\<close>

theorem relay_body_round_trip:
  "b64decode (b64encode body) = Inr body
   \<and> (\<exists>d p. request_envelope rid ts server_id mcp mthd path headers body deadline = VDict d
        \<and> map_of d ''payload'' = Some (VDict p) \<and> map_of p ''body'' = Some (VStr (b64encode body))
        \<and> map_of d ''id'' = Some (VStr rid))"
  by (simp add: b64_round_trip request_envelope_def)

end
