(* ===== verification/Gateway_Middleware.thy ===== *)
theory Gateway_Middleware
  imports Gateway_Client Gateway_Main Relay_Manager
begin

text \<open>
  \<open>src/src/crystal/gateway_middleware.py\<close>: requests to \<open>/{server id}/...\<close> go to the persona
  whose id that is, to the caller's desktop over the relay, or nowhere. The middleware's verdict on
  a request is a value (\<open>routed\<close>); handing it to the inner application or to the relay is the
  caller's step. The user resolver is what it returned: \<open>None\<close> where no resolver is configured.
\<close>

section \<open>The persona map\<close>

definition REFRESH_BACKOFF :: rat where
  "REFRESH_BACKOFF = 30"

definition MISS_REFRESH_INTERVAL :: rat where
  "MISS_REFRESH_INTERVAL = 30"

definition set_map :: "(persona_map \<Rightarrow> persona_map) \<Rightarrow> (chorus, unit) prog" where
  "set_map f = modifyM (\<lambda>w. w\<lparr>c_map := f (c_map w)\<rparr>)"

fun build_maps :: "pyval list \<Rightarrow> (pyval \<times> pyval) list \<times> (pyval \<times> pyval) list
    \<Rightarrow> ((pyval \<times> pyval) list \<times> (pyval \<times> pyval) list) res" where
  "build_maps [] maps = Inr maps"
| "build_maps (entry # rest) (s2u, u2s) =
     res_bind (py_get entry ''slug'') (\<lambda>slug.
     res_bind (py_get entry ''artifact_id'') (\<lambda>uid.
     if truthy slug \<and> truthy uid then
       (if hashable slug \<and> hashable uid
        then build_maps rest (AList.update slug uid s2u, AList.update uid slug u2s)
        else Inl (TypeError ''unhashable''))
     else build_maps rest (s2u, u2s)))"

definition map_refresh :: "(chorus, bool) prog" where
  "map_refresh =
     bindM monotonic (\<lambda>now.
     bindM (getsM c_map) (\<lambda>pm.
     if now < pm_next_retry pm then ret (pm_loaded pm)
     else bindM (catchM (bindM list_registered (\<lambda>ps. ret (Some ps))) (\<lambda>_. ret None)) (\<lambda>answer.
       case answer of
         None \<Rightarrow> bindM (set_map (\<lambda>m. m\<lparr>pm_next_retry := now + REFRESH_BACKOFF\<rparr>)) (\<lambda>_. ret False)
       | Some [] \<Rightarrow> bindM (set_map (\<lambda>m. m\<lparr>pm_next_retry := now + REFRESH_BACKOFF\<rparr>)) (\<lambda>_. ret False)
       | Some personas \<Rightarrow>
           bindM (liftR (build_maps personas ([], []))) (\<lambda>(s2u, u2s).
           bindM (set_map (\<lambda>m. m\<lparr>pm_slug_to_uuid := s2u, pm_uuid_to_slug := u2s, pm_loaded := True,
                                 pm_next_retry := 0\<rparr>)) (\<lambda>_. ret True)))))"

definition slug_for_uuid :: "string \<Rightarrow> (chorus, pyval option) prog" where
  "slug_for_uuid server_id =
     bindM (getsM (\<lambda>w. pm_loaded (c_map w))) (\<lambda>loaded.
     bindM (if loaded then ret True else map_refresh) (\<lambda>ready.
     if \<not> ready then ret None
     else bindM (getsM (\<lambda>w. map_of (pm_uuid_to_slug (c_map w)) (VStr server_id))) (\<lambda>known.
       case known of
         Some slug \<Rightarrow> ret (Some slug)
       | None \<Rightarrow>
           bindM monotonic (\<lambda>now.
           bindM (getsM (\<lambda>w. pm_last_miss (c_map w))) (\<lambda>last_miss.
           if (case last_miss of None \<Rightarrow> False | Some t \<Rightarrow> now - t < MISS_REFRESH_INTERVAL) then ret None
           else bindM (set_map (\<lambda>m. m\<lparr>pm_last_miss := Some now\<rparr>)) (\<lambda>_.
             bindM map_refresh (\<lambda>ok.
             if ok then getsM (\<lambda>w. map_of (pm_uuid_to_slug (c_map w)) (VStr server_id)) else ret None)))))))"

definition all_personas :: "persona_map \<Rightarrow> (pyval \<times> pyval) list" where
  "all_personas pm = sort_key (\<lambda>su. py_str (fst su)) (pm_slug_to_uuid pm)"

section \<open>The verdict on a request\<close>

datatype routed =
    ToInner string
  | Refused int detail
  | ToRelay string string pyval

definition context_of :: "(string \<Rightarrow> pyval option) \<Rightarrow> pyval \<Rightarrow> pyval" where
  "context_of loads raw = (case py_or raw (VStr ''{}'') of
       VStr s \<Rightarrow> (case loads s of None \<Rightarrow> VDict [] | Some v \<Rightarrow> v)
     | _ \<Rightarrow> VDict [])"

text \<open>What an artifact that is not a persona allows.\<close>

definition route_artifact :: "(string \<Rightarrow> pyval option) \<Rightarrow> bool \<Rightarrow> string option \<Rightarrow> bool \<Rightarrow> string \<Rightarrow> pyval \<Rightarrow> routed res" where
  "route_artifact loads has_resolver user has_relay server_id artifact =
     (if artifact = VNone then Inr (Refused 404 (Detail ''Unknown server_id'' []))
      else res_bind (py_get artifact ''context'') (\<lambda>raw.
      res_bind (py_get (context_of loads raw) ''mcp_server'') (\<lambda>m.
      let mcp_server = py_or m (VDict []) in
      res_bind (py_items mcp_server) (\<lambda>d.
      let kind = (case map_of d ''kind'' of None \<Rightarrow> VStr [] | Some k \<Rightarrow> k) in
      if kind = VStr ''external''
      then Inr (Refused 501 (Detail ''external upstreams are not proxied (no-models rule, universal incl. BYOK)'' []))
      else if kind = VStr ''relay'' then
        (if \<not> has_relay \<or> \<not> has_resolver
         then Inr (Refused 501 (Detail ''Relay dispatch is not configured on this Chorus instance'' []))
         else case user of
           None \<Rightarrow> Inr (Refused 401 (Detail ''Relay dispatch requires an authenticated user'' []))
         | Some u \<Rightarrow> if u = [] then Inr (Refused 401 (Detail ''Relay dispatch requires an authenticated user'' []))
                     else Inr (ToRelay u server_id mcp_server))
      else Inr (Refused 502 (Detail ''Unknown mcp-server kind: {!r}'' [kind]))))))"

definition middleware ::
  "string list \<Rightarrow> bool \<Rightarrow> string option option \<Rightarrow> string \<Rightarrow> string \<Rightarrow> (chorus, routed) prog" where
  "middleware local has_relay resolver kind path =
     (if kind \<noteq> ''http'' \<or> \<not> py_startswith path ''/'' then ret (ToInner path)
      else let (first, sep, tail) = py_partition (CHR ''/'') (drop 1 path) in
        if sep = [] \<or> \<not> is_uuid_like first then ret (ToInner path)
        else bindM (slug_for_uuid first) (\<lambda>slug.
          case slug of
            Some slug \<Rightarrow>
              if slug \<notin> VStr ` set local
              then ret (Refused 502 (Detail ''Persona '{}' is registered in Mantle but not loaded in this Chorus build'' [slug]))
              else let new_path = ''/'' @ py_str slug @ ''/'' @ tail in
                if \<exists>c \<in> set new_path. 128 \<le> code c then raise (ValueError ''ascii'') else ret (ToInner new_path)
          | None \<Rightarrow>
              if resolver \<noteq> None \<and> (the resolver = None \<or> the resolver = Some [])
              then ret (Refused 401 (Detail ''Unknown server_id, or one that requires an authenticated user'' []))
              else bindM (lookup_artifact first) (\<lambda>artifact.
                bindM (getsM w_loads) (\<lambda>loads.
                liftR (route_artifact loads (resolver \<noteq> None)
                  (case resolver of None \<Rightarrow> None | Some u \<Rightarrow> u) has_relay first artifact)))))"

section \<open>Over the relay\<close>

definition NOT_RELAYED :: "string list" where
  "NOT_RELAYED = [''authorization'', ''cookie'', ''proxy-authorization'',
    ''x-forwarded-for'', ''x-forwarded-proto'', ''x-forwarded-host'', ''x-real-ip'', ''forwarded'',
    ''connection'', ''keep-alive'', ''te'', ''trailer'', ''transfer-encoding'', ''upgrade'', ''host'',
    ''content-length'']"

fun relayed_headers :: "(string \<times> string) list \<Rightarrow> string dict \<Rightarrow> string dict" where
  "relayed_headers [] hs = hs"
| "relayed_headers ((name, v) # rest) hs =
     relayed_headers rest (if py_lower name \<in> set NOT_RELAYED then hs else AList.update name v hs)"

definition relayed_path :: "string \<Rightarrow> string \<Rightarrow> string" where
  "relayed_path path query = (if query \<noteq> [] then path @ ''?'' @ query else path)"

text \<open>The body that is forwarded; what was read so far when the client goes away.\<close>

fun drain_body :: "string \<Rightarrow> message list \<Rightarrow> string option" where
  "drain_body body [] = None"
| "drain_body body (Disconnect # rest) = Some body"
| "drain_body body (Part b cont # rest) = (if cont then drain_body (body @ b) rest else Some (body @ b))"

definition relay_failure :: "exc \<Rightarrow> (int \<times> detail) option" where
  "relay_failure e = (case e of
       LookupError _ \<Rightarrow> Some (502, Detail ''No active relay session for this user'' [])
     | KeyError _ \<Rightarrow> Some (502, Detail ''No active relay session for this user'' [])
     | TimeoutError _ \<Rightarrow> Some (504, Detail ''Relay request timed out'' [])
     | RuntimeError m \<Rightarrow> Some (502, Detail ''Relay forward failed: {}'' [VStr m])
     | ValueError m \<Rightarrow> Some (502, Detail ''Relay forward failed: {}'' [VStr m])
     | _ \<Rightarrow> None)"

fun outbound_headers :: "pyval dict \<Rightarrow> (string \<times> string) list" where
  "outbound_headers [] = []"
| "outbound_headers ((k, v) # rest) =
     (let lk = py_lower k in
      if lk \<in> {''transfer-encoding'', ''connection'', ''content-length''} then outbound_headers rest
      else (lk, py_str v) # outbound_headers rest)"

text \<open>The response to the client: status, headers, body.\<close>

definition relay_response_out :: "pyval \<Rightarrow> (int \<times> (string \<times> string) list \<times> string) res" where
  "relay_response_out payload =
     res_bind (py_items payload) (\<lambda>d.
     res_bind (py_int (py_or (dget d ''status'') (VInt 200))) (\<lambda>status.
     res_bind (py_items (py_or (dget d ''headers'') (VDict []))) (\<lambda>hs.
     res_bind (case py_or (dget d ''body'') (VStr []) of
         VStr b \<Rightarrow> if b = [] then Inr [] else b64decode b
       | _ \<Rightarrow> Inl (TypeError ''base64'')) (\<lambda>body.
     Inr (status, outbound_headers hs @ [(''content-length'', nat_str (length body))], body)))))"

text \<open>\<open>_send_json_status\<close>: \<open>dumps\<close> is \<open>json.dumps\<close>.\<close>

definition send_json_status :: "(pyval \<Rightarrow> string) \<Rightarrow> int \<Rightarrow> pyval dict \<Rightarrow> int \<times> (string \<times> string) list \<times> string" where
  "send_json_status dumps status body = (let payload = dumps (VDict body) in
     (status, [(''content-type'', ''application/json''), (''content-length'', nat_str (length payload))], payload))"

section \<open>What the verdicts rest on\<close>

definition asks_artifact :: "event \<Rightarrow> bool" where
  "asks_artifact e = (case e of EvHttp q _ \<Rightarrow> rq_path q \<noteq> ''/internal/personas'' | _ \<Rightarrow> False)"

lemma keeps_try: "(\<And>a. P (EvHttp q a)) \<Longrightarrow> grows.keeps P (try_http q)"
  unfolding try_http_def
  by (intro grows_keeps_intros) (auto split: exc.splits intro!: grows_keeps_intros)

lemma keeps_registered:
  assumes "\<And>(w :: chorus) a. P (EvHttp (service_request w Mantle ''mantle'' ''/internal/personas'' VNone) a)"
  shows "grows.keeps P (list_registered :: (chorus, pyval list) prog)"
proof (rule grows.keepsI)
  fix w :: chorus and x w' assume run: "list_registered w = (x, w')"
  let ?q = "service_request w Mantle ''mantle'' ''/internal/personas'' VNone"
  let ?m = "bindM (try_http ?q) (\<lambda>answer. case answer of None \<Rightarrow> ret []
     | Some resp \<Rightarrow> if rs_status resp \<noteq> 200 then ret []
         else (case rs_json resp of None \<Rightarrow> ret []
           | Some payload \<Rightarrow> bindM (liftR (py_get payload ''personas'')) (\<lambda>ps. liftR (py_list (py_or ps (VList []))))))"
  have "grows.keeps P (?m :: (chorus, pyval list) prog)"
    by (intro grows_keeps_intros keeps_try assms) (auto split: option.splits intro!: grows_keeps_intros)
  moreover have "?m w = (x, w')" using run by (simp add: list_registered_def)
  ultimately show "grows_by P w w'" by (rule grows.keepsD)
qed

lemma keeps_set_map: "grows.keeps P (set_map f)"
  by (simp add: set_map_def grows.keeps_def grows_by_def same_outside_def)

lemma keeps_slug:
  assumes "\<And>t. P (EvClock t)" "\<And>(w :: chorus) a. P (EvHttp (service_request w Mantle ''mantle'' ''/internal/personas'' VNone) a)"
  shows "grows.keeps P (slug_for_uuid server_id)"
proof -
  have refresh: "grows.keeps P map_refresh"
    unfolding map_refresh_def
    by (intro grows_keeps_intros assms keeps_registered)
      (auto split: option.splits list.splits prod.splits intro!: grows_keeps_intros keeps_set_map)
  show ?thesis
    unfolding slug_for_uuid_def
    by (intro grows_keeps_intros refresh)
      (auto split: option.splits intro!: grows_keeps_intros refresh keeps_set_map assms)
qed

lemma slug_asks_registry: "grows.keeps (\<lambda>e. \<not> asks_artifact e) (slug_for_uuid server_id)"
  by (rule keeps_slug) (simp_all add: asks_artifact_def service_request_def)

lemma route_artifact_relay:
  "route_artifact loads has_resolver user has_relay sid artifact = Inr (ToRelay u s m) \<Longrightarrow>
     has_resolver \<and> has_relay \<and> user = Some u \<and> u \<noteq> [] \<and> s = sid
     \<and> (\<exists>d. m = VDict d \<and> map_of d ''kind'' = Some (VStr ''relay''))"
  by (auto simp: route_artifact_def Let_def res_bind_eq_Inr py_items_def
      split: if_splits option.splits pyval.splits)

lemma route_artifact_inner: "route_artifact loads has_resolver user has_relay sid artifact \<noteq> Inr (ToInner p)"
  by (auto simp: route_artifact_def Let_def res_bind_eq_Inr split: if_splits option.splits)

section \<open>Properties\<close>

definition refused :: "routed res \<Rightarrow> bool" where
  "refused r \<longleftrightarrow> (case r of Inr (Refused _ _) \<Rightarrow> True | Inl _ \<Rightarrow> True | _ \<Rightarrow> False)"

lemma middleware_uuid:
  assumes "py_startswith path ''/''" and "py_partition (CHR ''/'') (drop 1 path) = (first, sep, tail)"
    and "sep \<noteq> []" and "is_uuid_like first"
  shows "middleware local has_relay resolver ''http'' path w =
    (case slug_for_uuid first w of
       (Inl e, w1) \<Rightarrow> (Inl e, w1)
     | (Inr (Some slug), w1) \<Rightarrow>
         (if slug \<notin> VStr ` set local
          then Inr (Refused 502 (Detail ''Persona '{}' is registered in Mantle but not loaded in this Chorus build'' [slug]))
          else if \<exists>c \<in> set (''/'' @ py_str slug @ ''/'' @ tail). 128 \<le> code c then Inl (ValueError ''ascii'')
          else Inr (ToInner (''/'' @ py_str slug @ ''/'' @ tail)), w1)
     | (Inr None, w1) \<Rightarrow>
         (if resolver \<noteq> None \<and> (the resolver = None \<or> the resolver = Some [])
          then (Inr (Refused 401 (Detail ''Unknown server_id, or one that requires an authenticated user'' [])), w1)
          else case lookup_artifact first w1 of
            (Inl e, w2) \<Rightarrow> (Inl e, w2)
          | (Inr artifact, w2) \<Rightarrow> (route_artifact (w_loads w2) (resolver \<noteq> None)
              (case resolver of None \<Rightarrow> None | Some u \<Rightarrow> u) has_relay first artifact, w2)))"
  using assms
  by (auto simp: middleware_def bindM_def Let_def split: prod.splits sum.splits option.splits)

lemma outcome_if: "outcome m v Q R \<Longrightarrow> outcome n v Q R \<Longrightarrow> outcome (if b then m else n) v Q R"
  by simp

lemma slug_mapped:
  assumes "slug_for_uuid sid w = (Inr (Some slug), w1)"
  shows "map_of (pm_uuid_to_slug (c_map w1)) (VStr sid) = Some slug"
proof -
  have look: "outcome (getsM (\<lambda>w. map_of (pm_uuid_to_slug (c_map w)) (VStr sid))) v
      (\<lambda>r v'. \<forall>s. r = Some s \<longrightarrow> map_of (pm_uuid_to_slug (c_map v')) (VStr sid) = Some s) (\<lambda>_. True)" for v :: chorus
    by (simp add: outcome_def)
  have any: "outcome m v (\<lambda>_ _. True) (\<lambda>_. True)" for m :: "(chorus, 'x) prog" and v
    by (simp add: outcome_def split: prod.split sum.split)
  have none: "outcome (ret None) v (\<lambda>r v'. \<forall>s. r = Some s \<longrightarrow> map_of (pm_uuid_to_slug (c_map v')) (VStr sid) = Some s) (\<lambda>_. True)"
    for v :: chorus by (simp add: outcome_def)
  have free: "outcome (bindM m f) v Q (\<lambda>_. True)" if "\<And>x v'. outcome (f x) v' Q (\<lambda>_. True)"
    for m :: "(chorus, 'x) prog" and f and v and Q :: "pyval option \<Rightarrow> chorus \<Rightarrow> bool"
    by (rule outcome_bind, rule outcome_mono [OF any]) (simp_all add: that)
  have known: "outcome (bindM (getsM (\<lambda>w. map_of (pm_uuid_to_slug (c_map w)) (VStr sid))) (\<lambda>known.
      case known of Some slug \<Rightarrow> ret (Some slug) | None \<Rightarrow> f)) v
      (\<lambda>r v'. \<forall>s. r = Some s \<longrightarrow> map_of (pm_uuid_to_slug (c_map v')) (VStr sid) = Some s) (\<lambda>_. True)"
    if "\<And>v'. outcome f v' (\<lambda>r v'. \<forall>s. r = Some s \<longrightarrow> map_of (pm_uuid_to_slug (c_map v')) (VStr sid) = Some s) (\<lambda>_. True)"
    for f and v :: chorus
    using that [of v] by (cases "map_of (pm_uuid_to_slug (c_map v)) (VStr sid)") (simp_all add: outcome_def bindM_def)
  have "outcome (slug_for_uuid sid) w
      (\<lambda>r v'. \<forall>s. r = Some s \<longrightarrow> map_of (pm_uuid_to_slug (c_map v')) (VStr sid) = Some s) (\<lambda>_. True)"
    unfolding slug_for_uuid_def
    by (rule free, rule free, rule outcome_if, rule none, rule known, rule free, rule free, rule outcome_if, rule none,
        rule free, rule free, rule outcome_if, rule look, rule none)
  from outcomeD [OF this assms] show ?thesis by simp
qed

text \<open>The verdict a request addressed to \<open>/sid/tail\<close> must get, by what the persona map and Mantle say of \<open>sid\<close>.\<close>

definition verdict_for :: "string list \<Rightarrow> bool \<Rightarrow> string option option \<Rightarrow> string \<Rightarrow> string \<Rightarrow> chorus \<Rightarrow> routed res \<Rightarrow> bool" where
  "verdict_for local has_relay resolver sid tail w verdict \<longleftrightarrow> (case slug_for_uuid sid w of
       (Inl e, w1) \<Rightarrow> verdict = Inl e
     | (Inr (Some slug), w1) \<Rightarrow> map_of (pm_uuid_to_slug (c_map w1)) (VStr sid) = Some slug
         \<and> (if \<exists>name \<in> set local. slug = VStr name
            then verdict = Inr (ToInner (''/'' @ py_str slug @ ''/'' @ tail))
              \<or> verdict = Inl (ValueError ''ascii'') \<and> (\<exists>c \<in> set (''/'' @ py_str slug @ ''/'' @ tail). 128 \<le> code c)
            else \<exists>d. verdict = Inr (Refused 502 d))
     | (Inr None, w1) \<Rightarrow>
         (if resolver = Some None \<or> resolver = Some (Some []) then \<exists>d. verdict = Inr (Refused 401 d)
          else case fst (lookup_artifact sid w1) of
            Inl e \<Rightarrow> verdict = Inl e
          | Inr artifact \<Rightarrow> (case verdict of
              Inl e \<Rightarrow> artifact \<noteq> VNone
            | Inr (ToInner p) \<Rightarrow> False
            | Inr (Refused status d) \<Rightarrow> if artifact = VNone then status = 404 else status \<in> {401, 501, 502}
            | Inr (ToRelay u s m) \<Rightarrow> artifact \<noteq> VNone \<and> has_relay \<and> resolver = Some (Some u) \<and> u \<noteq> [] \<and> s = sid
                \<and> (\<exists>d. m = VDict d \<and> map_of d ''kind'' = Some (VStr ''relay'')))))"

lemma route_artifact_verdict:
  "case route_artifact loads has_resolver user has_relay sid artifact of
     Inl e \<Rightarrow> artifact \<noteq> VNone
   | Inr (ToInner p) \<Rightarrow> False
   | Inr (Refused status d) \<Rightarrow> if artifact = VNone then status = 404 else status \<in> {401, 501, 502}
   | Inr (ToRelay u s m) \<Rightarrow> artifact \<noteq> VNone \<and> has_resolver \<and> has_relay \<and> user = Some u \<and> u \<noteq> [] \<and> s = sid
       \<and> (\<exists>d. m = VDict d \<and> map_of d ''kind'' = Some (VStr ''relay''))"
proof (cases "artifact = VNone")
  case False
  let ?r = "route_artifact loads has_resolver user has_relay sid artifact"
  have codes: "?r = Inr (Refused status d) \<Longrightarrow> status \<in> {401, 501, 502}" for status d
    using False by (auto simp: route_artifact_def Let_def res_bind_eq_Inr split: if_splits option.splits)
  show ?thesis
  proof (cases ?r)
    case (Inr v)
    then show ?thesis using False codes route_artifact_relay [of loads has_resolver user has_relay sid artifact]
        route_artifact_inner [of loads has_resolver user has_relay sid artifact] by (cases v) auto
  qed (simp add: False)
qed (simp add: route_artifact_def)

lemma split_first: "CHR ''/'' \<notin> set sid \<Longrightarrow> py_partition (CHR ''/'') (sid @ ''/'' @ tail) = (sid, ''/'', tail)"
proof -
  assume sid: "CHR ''/'' \<notin> set sid"
  then have "takeWhile (\<lambda>d. d \<noteq> CHR ''/'') (sid @ ''/'' @ tail) = sid" "dropWhile (\<lambda>d. d \<noteq> CHR ''/'') (sid @ ''/'' @ tail) = ''/'' @ tail"
    by (induction sid) auto
  then show ?thesis by (simp add: py_partition_def)
qed

text \<open>A request addressed by an id: over HTTP, to a path whose first segment looks like a UUID and is followed
  by another.\<close>

definition addressed :: "string \<Rightarrow> string \<Rightarrow> string \<Rightarrow> string \<Rightarrow> bool" where
  "addressed kind path sid tail \<longleftrightarrow> kind = ''http'' \<and> path = ''/'' @ sid @ ''/'' @ tail \<and> CHR ''/'' \<notin> set sid \<and> is_uuid_like sid"

lemma partition_addressed:
  assumes "py_startswith path ''/''" "py_partition (CHR ''/'') (drop 1 path) = (first, sep, tail)" "sep \<noteq> []"
  shows "path = ''/'' @ first @ ''/'' @ tail \<and> CHR ''/'' \<notin> set first"
proof -
  obtain rest where path: "path = ''/'' @ rest" using assms(1) by (auto simp: py_startswith_iff)
  then have slash: "CHR ''/'' \<in> set rest" and parts: "first = takeWhile (\<lambda>d. d \<noteq> CHR ''/'') rest" "tail = tl (dropWhile (\<lambda>d. d \<noteq> CHR ''/'') rest)"
    using assms(2,3) by (auto simp: py_partition_def split: if_splits)
  from slash have "dropWhile (\<lambda>d. d \<noteq> CHR ''/'') rest \<noteq> []" "hd (dropWhile (\<lambda>d. d \<noteq> CHR ''/'') rest) = CHR ''/''"
    using hd_dropWhile [of "\<lambda>d. d \<noteq> CHR ''/''" rest] by (auto simp: dropWhile_eq_Nil_conv)
  then have "dropWhile (\<lambda>d. d \<noteq> CHR ''/'') rest = ''/'' @ tail" unfolding parts by (cases "dropWhile (\<lambda>d. d \<noteq> CHR ''/'') rest") auto
  then have "rest = first @ ''/'' @ tail" using takeWhile_dropWhile_id [of "\<lambda>d. d \<noteq> CHR ''/''" rest] unfolding parts(1) by simp
  moreover have "CHR ''/'' \<notin> set first" unfolding parts(1) by (auto dest: set_takeWhileD)
  ultimately show ?thesis using path by simp
qed

text \<open>C18: where a request goes. One that is not addressed by an id (its path has no first segment that looks like
  a UUID with another after it, or it is no HTTP request) goes to the inner application as it came. One that
  is gets exactly one of these: an id the persona map knows and this build has loaded, the inner application
  under that persona's own path (an exception where the path is no ASCII); an id it knows and this build has
  not loaded, a 502; any other id, a 401 for a caller the gateway can tell apart and does not know, else a 404
  where Mantle knows no such artifact and a 401, 501 or 502 where the artifact is nothing to forward to, and
  only for an artifact Mantle describes as a relay server, and an authenticated caller, that caller's relay.
  An id that is no loaded persona never reaches an inner application, and an external upstream is never
  called.\<close>

theorem middleware_verdicts:
  "(if \<exists>sid tail. addressed kind path sid tail
    then \<exists>sid tail. addressed kind path sid tail
      \<and> verdict_for local has_relay resolver sid tail w (fst (middleware local has_relay resolver kind path w))
    else middleware local has_relay resolver kind path w = (Inr (ToInner path), w))"
proof -
  obtain first sep tail where parts: "py_partition (CHR ''/'') (drop 1 path) = (first, sep, tail)"
    by (cases "py_partition (CHR ''/'') (drop 1 path)") auto
  show ?thesis
  proof (cases "\<exists>sid tail. addressed kind path sid tail")
    case False
    then have "\<not> (kind = ''http'' \<and> py_startswith path ''/'' \<and> sep \<noteq> [] \<and> is_uuid_like first)"
      using partition_addressed [OF _ parts] unfolding addressed_def by blast
    then have "middleware local has_relay resolver kind path w = (Inr (ToInner path), w)"
      using parts by (auto simp: middleware_def)
    then show ?thesis using False by simp
  next
    case True
    then obtain sid tl where at: "addressed kind path sid tl" by blast
    then have http: "kind = ''http''" and path: "path = ''/'' @ sid @ ''/'' @ tl" and uuid: "is_uuid_like sid"
      and split: "py_partition (CHR ''/'') (drop 1 path) = (sid, ''/'', tl)"
      using split_first [of sid tl] by (simp_all add: addressed_def)
    have run: "middleware local has_relay resolver kind path w = (case slug_for_uuid sid w of
       (Inl e, w1) \<Rightarrow> (Inl e, w1)
     | (Inr (Some slug), w1) \<Rightarrow>
         (if slug \<notin> VStr ` set local
          then Inr (Refused 502 (Detail ''Persona '{}' is registered in Mantle but not loaded in this Chorus build'' [slug]))
          else if \<exists>c \<in> set (''/'' @ py_str slug @ ''/'' @ tl). 128 \<le> code c then Inl (ValueError ''ascii'')
          else Inr (ToInner (''/'' @ py_str slug @ ''/'' @ tl)), w1)
     | (Inr None, w1) \<Rightarrow>
         (if resolver \<noteq> None \<and> (the resolver = None \<or> the resolver = Some [])
          then (Inr (Refused 401 (Detail ''Unknown server_id, or one that requires an authenticated user'' [])), w1)
          else case lookup_artifact sid w1 of
            (Inl e, w2) \<Rightarrow> (Inl e, w2)
          | (Inr artifact, w2) \<Rightarrow> (route_artifact (w_loads w2) (resolver \<noteq> None)
              (case resolver of None \<Rightarrow> None | Some u \<Rightarrow> u) has_relay sid artifact, w2)))"
      unfolding http by (rule middleware_uuid [OF _ split _ uuid]) (simp_all add: path py_startswith_def)
    have "verdict_for local has_relay resolver sid tl w (fst (middleware local has_relay resolver kind path w))"
    proof (cases "slug_for_uuid sid w")
      case (Pair r w1)
      show ?thesis
      proof (cases "r = Inr None \<and> \<not> (resolver = Some None \<or> resolver = Some (Some []))")
        case True
        then have r: "r = Inr None" and who: "\<not> (resolver \<noteq> None \<and> (the resolver = None \<or> the resolver = Some []))"
          "\<not> (resolver = Some None \<or> resolver = Some (Some []))" by auto
        obtain x w2 where x: "lookup_artifact sid w1 = (x, w2)" by (cases "lookup_artifact sid w1")
        show ?thesis
        proof (cases x)
          case (Inl e)
          have out: "fst (middleware local has_relay resolver kind path w) = Inl e"
            using who(1) by (auto simp: run Pair r x Inl)
          show ?thesis using who(2) by (simp add: out verdict_for_def Pair r x Inl)
        next
          case (Inr artifact)
          let ?route = "route_artifact (w_loads w2) (resolver \<noteq> None) (case resolver of None \<Rightarrow> None | Some u \<Rightarrow> u) has_relay sid artifact"
          have out: "fst (middleware local has_relay resolver kind path w) = ?route"
            using who(1) by (auto simp: run Pair r x Inr)
          show ?thesis
            using route_artifact_verdict [where loads = "w_loads w2" and has_resolver = "resolver \<noteq> None"
                and user = "case resolver of None \<Rightarrow> None | Some u \<Rightarrow> u" and has_relay = has_relay and sid = sid and artifact = artifact] who(2)
            by (cases ?route) (auto simp: out verdict_for_def Pair r x Inr split: routed.splits option.splits)
        qed
      next
        case False
        then show ?thesis
        proof (cases r)
          case (Inr s)
          then show ?thesis using False slug_mapped [of sid w _ w1] Pair
            by (cases s) (auto simp: run verdict_for_def py_str_def image_iff)
        qed (simp add: run verdict_for_def Pair)
      qed
    qed
    with at show ?thesis by auto
  qed
qed

theorem middleware_verdicts_witness:
  "fst (middleware [''aria''] True (Some (Some ''u'')) ''http'' ''/01234567-89ab-cdef-0123-456789abcdef/mcp'' (ex_chorus (\<lambda>_. None)))
     = Inr (Refused 404 (Detail ''Unknown server_id'' []))
   \<and> middleware [''aria''] True None ''http'' ''/aria/mcp'' (ex_chorus (\<lambda>_. None)) = (Inr (ToInner ''/aria/mcp''), ex_chorus (\<lambda>_. None))"
proof
  show "fst (middleware [''aria''] True (Some (Some ''u'')) ''http'' ''/01234567-89ab-cdef-0123-456789abcdef/mcp'' (ex_chorus (\<lambda>_. None)))
     = Inr (Refused 404 (Detail ''Unknown server_id'' []))" by code_simp
  have "\<not> is_uuid_like ''aria''" by code_simp
  moreover have "''/aria/mcp'' = ''/'' @ sid @ ''/'' @ tail \<Longrightarrow> CHR ''/'' \<notin> set sid \<Longrightarrow> sid = ''aria''" for sid tail
    by (auto simp: Cons_eq_append_conv)
  ultimately have "\<not> (\<exists>sid tail. addressed ''http'' ''/aria/mcp'' sid tail)" unfolding addressed_def by blast
  then show "middleware [''aria''] True None ''http'' ''/aria/mcp'' (ex_chorus (\<lambda>_. None)) = (Inr (ToInner ''/aria/mcp''), ex_chorus (\<lambda>_. None))"
    using middleware_verdicts [of "''http''" "''/aria/mcp''" "[''aria'']" True None "ex_chorus (\<lambda>_. None)"] by simp
qed

text \<open>a stranger costs no artifact lookup. When the gateway can tell callers apart and this one is
  nobody, a request for any id is answered after at most a look at the persona registry: no artifact
  is asked for, and a server that is not a loaded persona is a refusal.\<close>

theorem unauthenticated_no_lookup:
  assumes "resolver = Some None \<or> resolver = Some (Some [])"
  shows "\<exists>es. w_trace (snd (middleware local has_relay resolver kind path w)) = w_trace w @ es
    \<and> list_all (\<lambda>e. \<not> asks_artifact e) es"
proof -
  have "grows.keeps (\<lambda>e. \<not> asks_artifact e) (middleware local has_relay resolver kind path)"
    unfolding middleware_def Let_def case_prod_beta
    using assms
    by (intro grows_keeps_intros slug_asks_registry)
      (auto split: option.splits intro!: grows_keeps_intros)
  then show ?thesis by (auto simp: grows.keeps_def grows_by_def list_all_iff)
qed

theorem unauthenticated_no_lookup_witness:
  "\<exists>es. w_trace (snd (middleware [''aria''] True (Some None) ''http'' ''/01234567-89ab-cdef-0123-456789abcdef/mcp''
       (ex_chorus (\<lambda>_. None)))) = es \<and> list_all (\<lambda>e. \<not> asks_artifact e) es"
  using unauthenticated_no_lookup [of "Some None" "[''aria'']" True "''http''" "''/01234567-89ab-cdef-0123-456789abcdef/mcp''"
      "ex_chorus (\<lambda>_. None)"]
  by (simp add: ex_chorus_def ex_world_def world.defs chorus.defs)

lemma relayed_headers_spec:
  "map_of (relayed_headers headers hs) name = (if \<exists>v. (name, v) \<in> set headers \<and> py_lower name \<notin> set NOT_RELAYED
     then map_of (rev headers) name else map_of hs name)"
proof (induction headers arbitrary: hs)
  case (Cons nv headers)
  obtain n v where nv: "nv = (n, v)" by (cases nv)
  have "map_of (rev headers @ [(n, v)]) name = (case map_of (rev headers) name of Some x \<Rightarrow> Some x | None \<Rightarrow> if n = name then Some v else None)"
    by (auto simp: map_add_def split: option.splits)
  moreover have "map_of (rev headers) name = None \<longleftrightarrow> (\<forall>v. (name, v) \<notin> set headers)"
    by (force simp: map_of_eq_None_iff)
  ultimately show ?case
    using Cons.IH unfolding nv by (auto split: option.splits)
qed simp

text \<open>the caller's credentials stay here: no header that authenticates the caller or describes this
  hop is in the request relayed to the desktop, in whatever case it is written; every other header
  is, with the last value given for it.\<close>

theorem relayed_headers_stripped:
  "map_of (relayed_headers headers []) name =
     (if py_lower name \<in> set NOT_RELAYED then None else map_of (rev headers) name)"
proof -
  have "map_of (rev headers) name = None" if "\<not> (\<exists>v. (name, v) \<in> set headers)"
    using that by (force simp: map_of_eq_None_iff)
  then show ?thesis by (auto simp: relayed_headers_spec)
qed

text \<open>An artifact whose context is handed back as an object, which the dispatcher accepts, is read as
  if it had none: a relay server in that shape is refused.\<close>

lemma object_context_not_relayed:
  "route_artifact loads True (Some ''u'') True sid
     (VDict [(''context'', VDict [(''mcp_server'', VDict [(''kind'', VStr ''relay'')])])])
   = Inr (Refused 502 (Detail ''Unknown mcp-server kind: {!r}'' [VStr []]))"
  by (simp add: route_artifact_def context_of_def py_get_def py_items_def py_or_def dget_def Let_def)

end
