(* ===== verification/Ontology.thy ===== *)
theory Ontology
  imports Py_Values
begin

text \<open>
  The concept structure of \<open>ontology/driver.py\<close>: a \<open>Synset\<close>, the index it is resolved in, the is-a
  graph the index carries, and the two traversals of it: the closure of a synset
  (\<open>Synset._closure\<close>, \<open>common_hypernyms\<close>) and the intrinsic information content derived from the
  graph (\<open>derive_intrinsic_ic\<close>).

  A float is a real number or not finite; rounding is not modelled. The store behind a synset is
  represented by what \<open>_resolve\<close> answers from it: the index of the synsets it holds, in order.
  \<open>sy_oid\<close> is the identity of the Python object, so that equality of two synsets that are alive
  at the same time is \<open>is\<close>.
\<close>

section \<open>Synsets\<close>

datatype pyfloat = Fin real | NonFinite

record synset =
  sy_oid :: nat
  sy_name :: string
  sy_pos :: string
  sy_hyper :: "string list"
  sy_inst :: "string list"
  sy_ic :: "pyfloat option"
  sy_se :: "pyfloat option"
  sy_counts :: "int dict"

text \<open>\<open>Synset.ic\<close>: an absent value reads as 0; \<open>has_ic\<close> tells the two apart.\<close>

definition synset_ic :: "synset \<Rightarrow> pyfloat" where
  "synset_ic s = (case sy_ic s of Some v \<Rightarrow> v | None \<Rightarrow> Fin 0)"

definition has_ic :: "synset \<Rightarrow> bool" where
  "has_ic s \<longleftrightarrow> sy_ic s \<noteq> None"

definition has_ic_se :: "synset \<Rightarrow> bool" where
  "has_ic_se s \<longleftrightarrow> sy_se s \<noteq> None"

definition synset_lemmas :: "synset \<Rightarrow> (string \<times> int) list" where
  "synset_lemmas s = sy_counts s"

type_synonym index = "synset dict"

definition wf_index :: "index \<Rightarrow> bool" where
  "wf_index idx \<longleftrightarrow> wf_dict idx \<and> list_all (\<lambda>(n, s). sy_name s = n) idx"

definition hypernyms :: "index \<Rightarrow> synset \<Rightarrow> synset list" where
  "hypernyms idx s = List.map_filter (map_of idx) (sy_hyper s)"

definition instance_hypernyms :: "index \<Rightarrow> synset \<Rightarrow> synset list" where
  "instance_hypernyms idx s = List.map_filter (map_of idx) (sy_inst s)"

definition parents :: "index \<Rightarrow> synset \<Rightarrow> synset list" where
  "parents idx s = hypernyms idx s @ instance_hypernyms idx s"

lemma set_map_filter_map_of:
  "p \<in> set (List.map_filter (map_of idx) ns) \<longleftrightarrow> (\<exists>n \<in> set ns. map_of idx n = Some p)"
  by (induction ns) (auto simp: List.map_filter_def split: option.splits)

lemma set_parents: "p \<in> set (parents idx s) \<longleftrightarrow> (\<exists>n \<in> set (sy_hyper s @ sy_inst s). map_of idx n = Some p)"
  by (auto simp: parents_def hypernyms_def instance_hypernyms_def set_map_filter_map_of)

lemma parent_in_index: "p \<in> set (parents idx s) \<Longrightarrow> p \<in> ran (map_of idx)"
  by (auto simp: set_parents ran_def)

lemma wf_index_name: "wf_index idx \<Longrightarrow> map_of idx n = Some s \<Longrightarrow> sy_name s = n"
  by (auto simp: wf_index_def list_all_iff dest: map_of_SomeD)

lemma wf_index_ran: "wf_index idx \<Longrightarrow> s \<in> ran (map_of idx) \<Longrightarrow> map_of idx (sy_name s) = Some s"
  by (auto simp: ran_def dest: wf_index_name)

lemma wf_index_parent: "wf_index idx \<Longrightarrow> p \<in> set (parents idx s) \<Longrightarrow> map_of idx (sy_name p) = Some p"
  by (auto intro: wf_index_ran parent_in_index)

text \<open>The names of the synsets an index can hand out: what bounds every walk up the graph.\<close>

definition index_names :: "index \<Rightarrow> string set" where
  "index_names idx = sy_name ` ran (map_of idx)"

lemma finite_index_names [simp]: "finite (index_names idx)"
proof -
  have "ran (map_of idx) \<subseteq> snd ` set idx" by (force simp: ran_def dest: map_of_SomeD)
  then have "finite (ran (map_of idx))" by (rule finite_subset) simp
  then show ?thesis by (simp add: index_names_def)
qed

lemma parent_index_names: "p \<in> set (parents idx s) \<Longrightarrow> sy_name p \<in> index_names idx"
  by (simp add: index_names_def parent_in_index)

section \<open>The closure of a synset\<close>

text \<open>
  \<open>Synset._closure\<close>: a stack of synsets, popped at its end. The stack of the model has its top
  first. \<open>seen\<close> is the dictionary, in insertion order.
\<close>

function closure_loop :: "index \<Rightarrow> synset list \<Rightarrow> index \<Rightarrow> index" where
  "closure_loop idx [] seen = seen"
| "closure_loop idx (s # stack) seen =
     (if map_of seen (sy_name s) \<noteq> None then closure_loop idx stack seen
      else closure_loop idx (rev (parents idx s) @ stack) (seen @ [(sy_name s, s)]))"
  by pat_completeness auto

lemma new_name_shrinks:
  assumes "finite A" "n \<in> A" "n \<notin> B"
  shows "card (A - insert n B) < card (A - B)"
proof -
  have "A - insert n B \<subset> A - B" using assms by blast
  then show ?thesis by (rule psubset_card_mono [rotated]) (simp add: assms)
qed

definition stack_names :: "index \<Rightarrow> synset list \<Rightarrow> string set" where
  "stack_names idx stack = index_names idx \<union> sy_name ` set stack"

lemma parents_stack_names:
  "stack_names idx (rev (parents idx s) @ stack) = stack_names idx stack"
  by (auto simp: stack_names_def dest: parent_index_names)

termination closure_loop
proof (relation "measures [\<lambda>(idx, stack, seen). card (stack_names idx stack - fst ` set seen),
    \<lambda>(idx, stack, seen). length stack]", goal_cases)
  case (2 idx s stack seen)
  have "stack_names idx stack - fst ` set seen = stack_names idx (s # stack) - fst ` set seen"
    using 2 by (auto simp: stack_names_def map_of_eq_None_iff)
  then show ?case by simp
next
  case (3 idx s stack seen)
  let ?A = "stack_names idx (s # stack)"
  have new: "sy_name s \<notin> fst ` set seen" using 3 by (simp add: map_of_eq_None_iff)
  have "card (?A - insert (sy_name s) (fst ` set seen)) < card (?A - fst ` set seen)"
    by (rule new_name_shrinks) (use new in \<open>auto simp: stack_names_def\<close>)
  moreover have "card (stack_names idx (rev (parents idx s) @ stack) - insert (sy_name s) (fst ` set seen))
      \<le> card (?A - insert (sy_name s) (fst ` set seen))"
    by (rule card_mono) (auto simp: stack_names_def dest: parent_index_names)
  ultimately show ?case by (simp add: insert_commute)
qed simp

definition closure :: "index \<Rightarrow> synset \<Rightarrow> index" where
  "closure idx s = closure_loop idx [s] []"

definition common_hypernyms :: "index \<Rightarrow> synset \<Rightarrow> synset \<Rightarrow> synset list" where
  "common_hypernyms idx s other = (let a = closure idx s; b = closure idx other in
     map snd (filter (\<lambda>(n, _). map_of b n \<noteq> None) a))"

lemma closure_loop_keeps: "set seen \<subseteq> set (closure_loop idx stack seen)"
  by (induction idx stack seen rule: closure_loop.induct) auto

lemma closure_loop_stack:
  "s \<in> set stack \<Longrightarrow> sy_name s \<in> fst ` set (closure_loop idx stack seen)"
proof (induction idx stack seen rule: closure_loop.induct)
  case (2 idx t stack seen)
  show ?case
  proof (cases "map_of seen (sy_name t) = None")
    case True
    then show ?thesis
      using 2 closure_loop_keeps [of "seen @ [(sy_name t, t)]" idx "rev (parents idx t) @ stack"] by force
  next
    case False
    then have "sy_name t \<in> fst ` set seen" by (simp add: map_of_eq_None_iff)
    then show ?thesis using 2 False closure_loop_keeps [of seen idx stack] by auto
  qed
qed simp

text \<open>What the loop maintains: a parent of a synset that was seen was seen too, or waits.\<close>

lemma closure_loop_closed:
  assumes "\<And>n x p. (n, x) \<in> set seen \<Longrightarrow> p \<in> set (parents idx x) \<Longrightarrow>
      sy_name p \<in> fst ` set seen \<union> sy_name ` set stack"
    and "(n, x) \<in> set (closure_loop idx stack seen)" "p \<in> set (parents idx x)"
  shows "sy_name p \<in> fst ` set (closure_loop idx stack seen)"
  using assms
proof (induction idx stack seen rule: closure_loop.induct)
  case (1 idx seen)
  then show ?case by fastforce
next
  case (2 idx s stack seen)
  show ?case
  proof (cases "map_of seen (sy_name s) = None")
    case True
    have inv: "sy_name q \<in> fst ` set (seen @ [(sy_name s, s)]) \<union> sy_name ` set (rev (parents idx s) @ stack)"
      if "(m, y) \<in> set (seen @ [(sy_name s, s)])" "q \<in> set (parents idx y)" for m y q
      using that "2.prems"(1) [of m y q] by auto
    have step: "closure_loop idx (s # stack) seen
        = closure_loop idx (rev (parents idx s) @ stack) (seen @ [(sy_name s, s)])"
      using True by simp
    have "\<not> map_of seen (sy_name s) \<noteq> None" using True by simp
    from "2.IH"(2) [OF this inv "2.prems"(2) [unfolded step] "2.prems"(3)] show ?thesis
      unfolding step .
  next
    case False
    then have seen: "sy_name s \<in> fst ` set seen" by (simp add: map_of_eq_None_iff)
    have inv: "sy_name q \<in> fst ` set seen \<union> sy_name ` set stack"
      if "(m, y) \<in> set seen" "q \<in> set (parents idx y)" for m y q
    proof -
      have "sy_name q \<in> fst ` set seen \<union> insert (sy_name s) (sy_name ` set stack)"
        using "2.prems"(1) [OF that] by simp
      then show ?thesis using seen by (metis Un_iff insertE)
    qed
    have step: "closure_loop idx (s # stack) seen = closure_loop idx stack seen"
      using False by simp
    from "2.IH"(1) [OF False inv "2.prems"(2) [unfolded step] "2.prems"(3)] show ?thesis
      unfolding step .
  qed
qed

lemma closure_loop_wf:
  assumes "wf_index idx" "\<And>x. x \<in> set stack \<Longrightarrow> map_of idx (sy_name x) = Some x"
    "\<And>n x. (n, x) \<in> set seen \<Longrightarrow> map_of idx n = Some x" "(n, x) \<in> set (closure_loop idx stack seen)"
  shows "map_of idx n = Some x"
  using assms
proof (induction idx stack seen rule: closure_loop.induct)
  case (2 idx s stack seen)
  show ?case
  proof (cases "map_of seen (sy_name s) = None")
    case True
    show ?thesis
    proof (rule "2.IH"(2))
      show "\<not> map_of seen (sy_name s) \<noteq> None" using True by simp
      show "map_of idx (sy_name y) = Some y" if "y \<in> set (rev (parents idx s) @ stack)" for y
        using that "2.prems"(1,2) by (auto intro: wf_index_parent)
      show "map_of idx m = Some y" if "(m, y) \<in> set (seen @ [(sy_name s, s)])" for m y
        using that "2.prems"(2,3) by auto
      show "(n, x) \<in> set (closure_loop idx (rev (parents idx s) @ stack) (seen @ [(sy_name s, s)]))"
        using "2.prems"(4) True by simp
    qed (rule "2.prems")
  next
    case False
    then show ?thesis using 2 by simp
  qed
qed simp

text \<open>
  Over a well-formed index the closure of one of its synsets holds the synset, is closed under
  \<open>parents\<close>, and holds nothing but synsets of the index under their names.
\<close>

lemma closure_self: "sy_name s \<in> fst ` set (closure idx s)"
  unfolding closure_def by (rule closure_loop_stack) simp

lemma closure_in_index:
  "wf_index idx \<Longrightarrow> map_of idx (sy_name s) = Some s \<Longrightarrow> (n, x) \<in> set (closure idx s) \<Longrightarrow> map_of idx n = Some x"
  unfolding closure_def by (rule closure_loop_wf [of idx "[s]" "[]"]) auto

lemma closure_parent:
  assumes "(n, x) \<in> set (closure idx s)" "p \<in> set (parents idx x)"
  shows "sy_name p \<in> fst ` set (closure idx s)"
  using closure_loop_closed [of "[]" idx "[s]" n x p] assms by (simp add: closure_def)

section \<open>Intrinsic information content\<close>

text \<open>
  \<open>derive_intrinsic_ic\<close>. For every name the synsets above it are collected by a stack of names,
  popped at its end; a name the index does not hold is dropped. \<open>above idx q\<close> is
  \<open>list(idx[q]._hyper) + list(idx[q]._inst)\<close>.
\<close>

definition above :: "index \<Rightarrow> string \<Rightarrow> string list" where
  "above idx q = (case map_of idx q of None \<Rightarrow> [] | Some s \<Rightarrow> sy_hyper s @ sy_inst s)"

function climb :: "index \<Rightarrow> string list \<Rightarrow> string list \<Rightarrow> string list" where
  "climb idx [] seen = seen"
| "climb idx (q # stack) seen =
     (if q \<in> set seen \<or> map_of idx q = None then climb idx stack seen
      else climb idx (rev (above idx q) @ stack) (q # seen))"
  by pat_completeness auto

termination climb
proof (relation "measures [\<lambda>(idx, stack, seen). card (dom (map_of idx) - set seen),
    \<lambda>(idx, stack, seen). length stack]", goal_cases)
  case (3 idx q stack seen)
  then have "card (dom (map_of idx) - insert q (set seen)) < card (dom (map_of idx) - set seen)"
    by (intro new_name_shrinks) (auto simp: finite_dom_map_of)
  then show ?case by simp
qed simp_all

definition ancestors :: "index \<Rightarrow> string \<Rightarrow> string list" where
  "ancestors idx n = climb idx (rev (above idx n)) []"

definition credit :: "string \<Rightarrow> nat dict \<Rightarrow> nat dict" where
  "credit q desc = AList.update q ((case map_of desc q of None \<Rightarrow> 0 | Some k \<Rightarrow> k) + 1) desc"

definition descendants :: "index \<Rightarrow> nat dict" where
  "descendants idx = fold (\<lambda>(n, _) desc. fold credit (ancestors idx n) desc) idx []"

definition INTRINSIC_IC_SOURCE :: string where
  "INTRINSIC_IC_SOURCE = ''intrinsic''"

definition derive_intrinsic_ic :: "index \<Rightarrow> (string \<times> real) list" where
  "derive_intrinsic_ic idx = (let desc = descendants idx; logN = ln (real (length idx) + 1) in
     map (\<lambda>(n, _). (n, 1 - ln (real (case map_of desc n of None \<Rightarrow> 0 | Some k \<Rightarrow> k) + 1) / logN)) idx)"

section \<open>An index for the examples\<close>

definition ex_synset :: "nat \<Rightarrow> string \<Rightarrow> string list \<Rightarrow> real \<Rightarrow> string \<times> synset" where
  "ex_synset k n hs v = (n, \<lparr> sy_oid = k, sy_name = n, sy_pos = ''n'', sy_hyper = hs, sy_inst = [],
     sy_ic = Some (Fin v), sy_se = None, sy_counts = [(n, 1)] \<rparr>)"

definition ex_index :: index where
  "ex_index = [ex_synset 0 ''entity'' [] 0, ex_synset 7 ''animal'' [''entity''] 1,
     ex_synset 2 ''dog'' [''animal''] 5, ex_synset 3 ''cat'' [''animal''] 10]"

lemma wf_ex_index [simp]: "wf_index ex_index"
  by (simp add: wf_index_def ex_index_def ex_synset_def)

end
