(* ===== verification/Ontology_Driver.thy ===== *)
theory Ontology_Driver
  imports Ontology Effects
begin

text \<open>
  The keyed half of \<open>ontology/driver.py\<close> with \<open>ontology/freshness.py\<close>: which store is read, when a
  cache built from it may still be used, and the reading of one synset by name.

  A store is its artifacts face: what it answers when asked for its write mark, an artifact, the
  version and edge mark of an artifact, its edges. A store handle is a number; \<open>dr_stores\<close> gives what
  the handle answers now, and changes when the store is written. The other fields are the globals of
  the module, with a write mark represented by a number, \<open>dr_next\<close> the identity the next \<open>Synset\<close> gets, and \<open>dr_float\<close> what \<open>float()\<close> makes of a
  string. An operation runs to its end before the store changes.
\<close>

section \<open>Stores and their freshness\<close>

record edge =
  ed_src :: string
  ed_dst :: string
  ed_label :: string
  ed_props :: "pyval dict"

record store =
  so_mark :: "int option"
  so_get :: "string \<Rightarrow> pyval dict option res"
  so_list :: "(string \<Rightarrow> pyval dict list) option"
  so_version :: "(string \<Rightarrow> int option res) option"
  so_edge_mark :: "(string \<Rightarrow> (nat \<times> int \<times> bool) res) option"
  so_edges :: "edge list option"

type_synonym stamp = "int option \<times> (nat \<times> int) option"

text \<open>\<open>freshness.stamp\<close>: a face that cannot answer is unverifiable, never unchanged.\<close>

definition stamp :: "store \<Rightarrow> string \<Rightarrow> bool \<Rightarrow> stamp option" where
  "stamp s aid edges = (case so_version s of
       None \<Rightarrow> None
     | Some ver_fn \<Rightarrow> (case ver_fn aid of
         Inl e \<Rightarrow> None
       | Inr ver \<Rightarrow>
           if \<not> edges then Some (ver, None)
           else (case so_edge_mark s of
                   None \<Rightarrow> None
                 | Some mark_fn \<Rightarrow> (case mark_fn aid of
                     Inl e \<Rightarrow> None
                   | Inr (n, hi, exhaustive) \<Rightarrow> if \<not> exhaustive then None else Some (ver, Some (n, hi))))))"

text \<open>\<open>freshness.set_stamp\<close>: \<open>mark_fn\<close> is the \<open>content_type_mark\<close> of the face, where it publishes one.\<close>

definition set_stamp :: "(string \<Rightarrow> int \<Rightarrow> (int \<times> int \<times> bool) res) option \<Rightarrow> string \<Rightarrow> int option \<Rightarrow> (int \<times> int) option" where
  "set_stamp mark_fn content_type cap = (case cap of
       None \<Rightarrow> None
     | Some n \<Rightarrow> (case mark_fn of
         None \<Rightarrow> None
       | Some f \<Rightarrow> (case f content_type n of
           Inr (rows, hi, exhaustive) \<Rightarrow> if exhaustive then Some (rows, hi) else None
         | Inl e \<Rightarrow> None)))"

section \<open>The state of the module\<close>

type_synonym word_index = "((string \<times> string) \<times> string list) list"

record driver =
  dr_stores :: "nat \<Rightarrow> store"
  dr_float :: "string \<Rightarrow> pyfloat res"
  dr_source :: "nat option"
  dr_provider :: "nat option option"
  dr_default :: "nat option"
  dr_warned :: bool
  dr_mark :: "int option"
  dr_gen :: int
  dr_index :: "(index \<times> word_index) option"
  dr_index_gen :: int
  dr_foreign :: bool
  dr_ic_stats :: "int dict option"
  dr_exc :: "((string \<times> string) \<times> string) list"
  dr_cache :: "(string \<times> int \<times> stamp \<times> synset \<times> string) list"
  dr_ready :: "bool option"
  dr_spec :: "pyval dict option"
  dr_spec_gen :: int
  dr_spec_stamp :: "stamp option"
  dr_next :: nat

definition driver_start :: "(nat \<Rightarrow> store) \<Rightarrow> (string \<Rightarrow> pyfloat res) \<Rightarrow> driver" where
  "driver_start stores fl = \<lparr> dr_stores = stores, dr_float = fl, dr_source = None, dr_provider = None,
     dr_default = None, dr_warned = False, dr_mark = None, dr_gen = 0, dr_index = None, dr_index_gen = - 1,
     dr_foreign = False, dr_ic_stats = None, dr_exc = [], dr_cache = [], dr_ready = None, dr_spec = None,
     dr_spec_gen = - 1, dr_spec_stamp = None, dr_next = 0 \<rparr>"

section \<open>Which store\<close>

definition store_required :: exc where
  "store_required = PyError ''OntologyStoreRequired'' []"

definition invalidate_caches :: "bool \<Rightarrow> driver \<Rightarrow> driver" where
  "invalidate_caches keep_installed w =
     (let kept = keep_installed \<and> dr_foreign w \<and> dr_index w \<noteq> None in
      w\<lparr>dr_foreign := (if kept then dr_foreign w else False), dr_index := (if kept then dr_index w else None),
        dr_ic_stats := None, dr_ready := None, dr_spec := None, dr_spec_stamp := None, dr_mark := None,
        dr_gen := dr_gen w + 1, dr_cache := [], dr_exc := []\<rparr>)"

definition set_default_store_provider :: "nat option option \<Rightarrow> driver \<Rightarrow> driver" where
  "set_default_store_provider fn w = w\<lparr>dr_provider := fn, dr_default := None\<rparr>"

text \<open>\<open>_arts\<close>: the store that was passed, the bound one, the host's default; an error without any.\<close>

definition arts :: "nat option \<Rightarrow> (driver, nat) prog" where
  "arts store w = (case store of
       None \<Rightarrow>
         (case dr_source w of
            Some s \<Rightarrow> (Inr s, w)
          | None \<Rightarrow> (case dr_provider w of
              None \<Rightarrow> (Inl store_required, w)
            | Some produced \<Rightarrow>
                let w1 = w\<lparr>dr_warned := True\<rparr> in
                (case dr_default w1 of
                   Some d \<Rightarrow> (Inr d, w1)
                 | None \<Rightarrow> (case produced of
                     None \<Rightarrow> (Inl store_required, w1)
                   | Some s \<Rightarrow> (Inr s, w1\<lparr>dr_default := Some s\<rparr>)))))
     | Some a \<Rightarrow>
         if dr_source w = Some a then (Inr a, w)
         else
           let built = dr_index w \<noteq> None \<or> dr_cache w \<noteq> [] \<or> dr_exc w \<noteq> [] \<or> dr_ready w \<noteq> None
                 \<or> dr_spec w \<noteq> None;
               w1 = (if built then invalidate_caches True w else w)
           in (Inr a, w1\<lparr>dr_source := Some a\<rparr>))"

definition release :: "driver \<Rightarrow> driver" where
  "release w = invalidate_caches False (w\<lparr>dr_source := None, dr_default := None\<rparr>)"

definition bind_store :: "nat option \<Rightarrow> (driver, unit) prog" where
  "bind_store store = (case store of
       Some s \<Rightarrow> bindM (arts (Some s)) (\<lambda>_. ret ())
     | None \<Rightarrow> modifyM release)"

definition install_index :: "index \<Rightarrow> word_index \<Rightarrow> int dict option \<Rightarrow> driver \<Rightarrow> driver" where
  "install_index idx word stats w = w\<lparr>dr_index := Some (idx, word),
     dr_ic_stats := (case stats of Some d \<Rightarrow> if d = [] then None else Some d | None \<Rightarrow> None), dr_foreign := True\<rparr>"

section \<open>The gate\<close>

definition gate :: "nat \<Rightarrow> driver \<Rightarrow> driver" where
  "gate a w =
     (let m = so_mark (dr_stores w a) in
      if m \<noteq> None \<and> m = dr_mark w then w
      else
        let w1 = w\<lparr>dr_mark := m, dr_gen := dr_gen w + 1\<rparr> in
        if dr_foreign w1 then w1
        else if dr_index w1 \<noteq> None \<or> dr_ic_stats w1 \<noteq> None
        then w1\<lparr>dr_index := None, dr_ic_stats := None, dr_exc := []\<rparr>
        else w1)"

definition observe_store :: "nat option \<Rightarrow> (driver, nat) prog" where
  "observe_store store = bindM (arts store) (\<lambda>a. bindM (modifyM (gate a)) (\<lambda>_. ret a))"

section \<open>The transducer's specification\<close>

definition TRANSDUCER_ID :: string where
  "TRANSDUCER_ID = ''op.transducer.language.en''"

definition spec_fresh :: "nat \<Rightarrow> driver \<Rightarrow> driver" where
  "spec_fresh a w =
     (if dr_spec_gen w = dr_gen w then w
      else
        let st = stamp (dr_stores w a) TRANSDUCER_ID False;
            w1 = (if st = None \<or> st \<noteq> dr_spec_stamp w
                  then w\<lparr>dr_ready := None, dr_spec := None, dr_spec_stamp := st\<rparr> else w)
        in w1\<lparr>dr_spec_gen := dr_gen w1\<rparr>)"

definition installed_index_answers :: "nat option \<Rightarrow> driver \<Rightarrow> bool" where
  "installed_index_answers store w \<longleftrightarrow> store = None \<and> dr_source w = None \<and> dr_foreign w \<and> dr_index w \<noteq> None"

definition keyed_ready :: "nat option \<Rightarrow> (driver, bool) prog" where
  "keyed_ready store = bindM (getsM (installed_index_answers store)) (\<lambda>installed.
     if installed then ret False
     else bindM (arts store) (\<lambda>a. bindM (modifyM (spec_fresh a)) (\<lambda>_. bindM (getsM dr_ready) (\<lambda>ready.
       case ready of
         Some b \<Rightarrow> ret b
       | None \<Rightarrow> bindM (observe_store store) (\<lambda>a. bindM (getsM (\<lambda>w.
             case so_get (dr_stores w a) TRANSDUCER_ID of Inl e \<Rightarrow> False | Inr doc \<Rightarrow> doc \<noteq> None)) (\<lambda>b.
           bindM (modifyM (\<lambda>w. w\<lparr>dr_ready := Some b\<rparr>)) (\<lambda>_. ret b)))))))"

text \<open>\<open>dict((doc.get("spec") or {}))\<close>; a specification that is there and no object is an error.\<close>

definition spec_of :: "pyval dict \<Rightarrow> pyval dict res" where
  "spec_of doc = (case dget doc ''spec'' of
       VDict d \<Rightarrow> Inr d
     | v \<Rightarrow> if truthy v then Inl (TypeError ''dict'') else Inr [])"

definition lang_spec :: "nat option \<Rightarrow> (driver, pyval dict) prog" where
  "lang_spec store = bindM (arts store) (\<lambda>a. bindM (modifyM (spec_fresh a)) (\<lambda>_. bindM (getsM dr_spec) (\<lambda>sp.
     case sp of
       Some d \<Rightarrow> ret d
     | None \<Rightarrow> bindM (observe_store store) (\<lambda>a. bindM (getsM (\<lambda>w.
           case so_get (dr_stores w a) TRANSDUCER_ID of Inl e \<Rightarrow> [] | Inr None \<Rightarrow> [] | Inr (Some doc) \<Rightarrow> doc)) (\<lambda>doc.
         bindM (liftR (spec_of doc)) (\<lambda>d. bindM (modifyM (\<lambda>w. w\<lparr>dr_spec := Some d\<rparr>)) (\<lambda>_. ret d)))))))"

definition ONTOLOGY_DEFAULTS :: "pyval dict" where
  "ONTOLOGY_DEFAULTS = [
     (''id_prefix'', VStr ''wn-''), (''content_type'', VStr ''text/x-wordnet''),
     (''pos_order'', VList (map VStr [''n'', ''v'', ''a'', ''r'', ''s''])),
     (''isa_labels'', VList [VStr ''hypernym'']),
     (''instance_labels'', VList [VStr ''instance_of'', VStr ''instance_hypernym'']),
     (''entry_label'', VStr ''lex:en''), (''lemma_prefix'', VStr ''lemma:'')]"

definition spec_str_of :: "pyval dict \<Rightarrow> string \<Rightarrow> string" where
  "spec_str_of sp key = (case dget sp key of
       VStr (c # s) \<Rightarrow> c # s
     | _ \<Rightarrow> py_str (dget ONTOLOGY_DEFAULTS key))"

definition spec_list_of :: "pyval dict \<Rightarrow> string \<Rightarrow> string list" where
  "spec_list_of sp key = (case dget sp key of
       VList (x # xs) \<Rightarrow> map py_str (filter truthy (x # xs))
     | _ \<Rightarrow> (case dget ONTOLOGY_DEFAULTS key of VList xs \<Rightarrow> map py_str xs | _ \<Rightarrow> []))"

definition spec_str :: "string \<Rightarrow> nat option \<Rightarrow> (driver, string) prog" where
  "spec_str key store = bindM (lang_spec store) (\<lambda>sp. ret (spec_str_of sp key))"

definition spec_list :: "string \<Rightarrow> nat option \<Rightarrow> (driver, string list) prog" where
  "spec_list key store = bindM (lang_spec store) (\<lambda>sp. ret (spec_list_of sp key))"

section \<open>Names and ids\<close>

definition strip_prefix :: "string \<Rightarrow> string \<Rightarrow> string" where
  "strip_prefix p x = (if p \<noteq> [] \<and> py_startswith x p then drop (length p) x else x)"

definition n_of :: "pyval \<Rightarrow> nat option \<Rightarrow> (driver, string) prog" where
  "n_of x store = bindM (spec_str ''id_prefix'' store) (\<lambda>p. ret (strip_prefix p (py_str (py_or x (VStr [])))))"

definition ids_of :: "string \<Rightarrow> string \<Rightarrow> string list" where
  "ids_of p n = (if n = [] then []
     else if p \<noteq> [] \<and> py_startswith n p then [n]
     else if p \<noteq> [] then [p @ n, n] else [n])"

definition concept_ids :: "string \<Rightarrow> nat option \<Rightarrow> (driver, string list) prog" where
  "concept_ids name store = bindM (spec_str ''id_prefix'' store) (\<lambda>p. ret (ids_of p name))"

definition is_lemma_id :: "pyval \<Rightarrow> nat option \<Rightarrow> (driver, bool) prog" where
  "is_lemma_id x store = bindM (spec_str ''lemma_prefix'' store) (\<lambda>p.
     ret (p \<noteq> [] \<and> py_startswith (py_str (py_or x (VStr []))) p))"

fun first_doc :: "store \<Rightarrow> string list \<Rightarrow> pyval dict res" where
  "first_doc s [] = Inr []"
| "first_doc s (aid # aids) = res_bind (so_get s aid) (\<lambda>doc. case doc of
     Some (kv # d) \<Rightarrow> Inr (kv # d) | _ \<Rightarrow> first_doc s aids)"

definition concept_artifact :: "string \<Rightarrow> nat option \<Rightarrow> (driver, pyval dict) prog" where
  "concept_artifact name store = bindM (observe_store store) (\<lambda>a. bindM (concept_ids name store) (\<lambda>ids.
     bindM (getsM (\<lambda>w. first_doc (dr_stores w a) ids)) liftR))"

section \<open>One synset by name\<close>

definition py_float :: "(string \<Rightarrow> pyfloat res) \<Rightarrow> pyval \<Rightarrow> pyfloat res" where
  "py_float fl v = (case v of
       VInt n \<Rightarrow> Inr (Fin (real_of_int n))
     | VBool b \<Rightarrow> Inr (Fin (if b then 1 else 0))
     | VFloat r q \<Rightarrow> Inr (Fin (real_of_rat q))
     | VStr s \<Rightarrow> fl s
     | _ \<Rightarrow> Inl (TypeError ''float''))"

definition float_or_none :: "(string \<Rightarrow> pyfloat res) \<Rightarrow> pyval \<Rightarrow> pyfloat option res" where
  "float_or_none fl v = (if v = VNone then Inr None else res_bind (py_float fl v) (\<lambda>x. Inr (Some x)))"

text \<open>The lemmas a row carries with their counts: \<open>lemma_counts\<close>, or \<open>lemmas\<close> with count 0.\<close>

definition listed_lemmas :: "pyval dict \<Rightarrow> int dict res" where
  "listed_lemmas doc = res_bind (py_list (py_or (dget doc ''lemmas'') (VList []))) (\<lambda>xs.
     Inr (dict_update [] (map (\<lambda>x. (py_str x, 0)) (filter truthy xs))))"

definition counts_of :: "pyval dict \<Rightarrow> int dict res" where
  "counts_of doc = (case dget doc ''lemma_counts'' of
       VDict (kv # d) \<Rightarrow> res_bind (res_map (\<lambda>(k, v). res_bind (py_int v) (\<lambda>n. Inr (k, n))) (kv # d)) (\<lambda>cs.
         Inr (dict_update [] cs))
     | _ \<Rightarrow> listed_lemmas doc)"

text \<open>\<open>name.rsplit(".", 2)[-2]\<close> when the name has two dots.\<close>

definition pos_of_name :: "string \<Rightarrow> string" where
  "pos_of_name name = (let ps = py_split (CHR ''.'') name in
     if 3 \<le> length ps then ps ! (length ps - 2) else ''n'')"

definition out_edges :: "store \<Rightarrow> string \<Rightarrow> edge list option" where
  "out_edges s src = map_option (filter (\<lambda>e. ed_src e = src)) (so_edges s)"

fun n_of_list :: "pyval list \<Rightarrow> nat option \<Rightarrow> (driver, string list) prog" where
  "n_of_list [] store = ret []"
| "n_of_list (x # xs) store = bindM (n_of x store) (\<lambda>n. bindM (n_of_list xs store) (\<lambda>ns. ret (n # ns)))"

fun split_rows :: "string list \<Rightarrow> edge list \<Rightarrow> string list \<Rightarrow> string list \<Rightarrow> nat option
    \<Rightarrow> (driver, string list \<times> string list) prog" where
  "split_rows inst_labels [] hyper inst store = ret (hyper, inst)"
| "split_rows inst_labels (e # es) hyper inst store = bindM (n_of (VStr (ed_dst e)) store) (\<lambda>n.
     if ed_label e \<in> set inst_labels then split_rows inst_labels es hyper (inst @ [n]) store
     else split_rows inst_labels es (hyper @ [n]) inst store)"

definition parents_from_edges :: "string \<Rightarrow> nat option \<Rightarrow> (driver, string list \<times> string list) prog" where
  "parents_from_edges aid store = bindM (spec_list ''isa_labels'' store) (\<lambda>isa.
     bindM (spec_list ''instance_labels'' store) (\<lambda>inst_labels.
     bindM (observe_store store) (\<lambda>a. bindM (getsM (\<lambda>w. out_edges (dr_stores w a) aid)) (\<lambda>rows.
       split_rows inst_labels (case rows of None \<Rightarrow> []
         | Some es \<Rightarrow> filter (\<lambda>e. ed_label e \<in> set (isa @ inst_labels)) es) [] [] store))))"

definition new_oid :: "(driver, nat) prog" where
  "new_oid w = (Inr (dr_next w), w\<lparr>dr_next := dr_next w + 1\<rparr>)"

definition synset_from_doc :: "string \<Rightarrow> pyval dict \<Rightarrow> nat option \<Rightarrow> string \<Rightarrow> (driver, synset) prog" where
  "synset_from_doc name doc store aid =
     bindM (getsM dr_float) (\<lambda>fl.
     bindM (liftR (counts_of doc)) (\<lambda>counts.
     bindM (liftR (float_or_none fl (dget doc ''ic''))) (\<lambda>ic.
     bindM (liftR (float_or_none fl (dget doc ''ic_se''))) (\<lambda>se.
     bindM (liftR (py_list (py_or (dget doc ''hypernyms'') (VList [])))) (\<lambda>hs.
     bindM (n_of_list hs store) (\<lambda>hyper.
     bindM (liftR (py_list (py_or (dget doc ''instance_hypernyms'') (VList [])))) (\<lambda>is.
     bindM (n_of_list is store) (\<lambda>inst.
     bindM (if hyper = [] \<and> inst = [] then parents_from_edges aid store else ret (hyper, inst)) (\<lambda>(hyper, inst).
     bindM new_oid (\<lambda>oid.
       ret \<lparr> sy_oid = oid, sy_name = name,
             sy_pos = (if truthy (dget doc ''pos'') then py_str (dget doc ''pos'') else pos_of_name name),
             sy_hyper = hyper, sy_inst = inst, sy_ic = ic, sy_se = se, sy_counts = counts \<rparr>))))))))))"

text \<open>
  \<open>_get_synset\<close>. An entry verified at this generation is served without touching the store; an older
  one is verified against the stamp of the artifact it came from; a store that cannot stamp is read
  and not cached.
\<close>

definition synset_cache_put :: "string \<Rightarrow> int \<Rightarrow> stamp \<Rightarrow> synset \<Rightarrow> string \<Rightarrow> driver \<Rightarrow> driver" where
  "synset_cache_put name gen st s aid w = w\<lparr>dr_cache := AList.update name (gen, st, s, aid) (dr_cache w)\<rparr>"

definition unchanged :: "(int \<times> stamp \<times> synset \<times> string) option \<Rightarrow> stamp option \<Rightarrow> synset option" where
  "unchanged ent st = (case ent of
       Some (g0, st0, s0, aid0) \<Rightarrow> if st = Some st0 then Some s0 else None
     | None \<Rightarrow> None)"

fun try_ids :: "string \<Rightarrow> nat option \<Rightarrow> nat \<Rightarrow> int \<Rightarrow> (int \<times> stamp \<times> synset \<times> string) option \<Rightarrow> string list
    \<Rightarrow> (driver, synset option) prog" where
  "try_ids name store a gen ent [] =
     bindM (modifyM (\<lambda>w. w\<lparr>dr_cache := AList.delete name (dr_cache w)\<rparr>)) (\<lambda>_. ret None)"
| "try_ids name store a gen ent (aid # aids) =
     bindM (getsM (\<lambda>w. stamp (dr_stores w a) aid True)) (\<lambda>st.
       case unchanged ent st of
         Some s0 \<Rightarrow> bindM (modifyM (case st of Some st1 \<Rightarrow> synset_cache_put name gen st1 s0 aid | None \<Rightarrow> (\<lambda>w. w))) (\<lambda>_. ret (Some s0))
       | None \<Rightarrow>
           bindM (getsM (\<lambda>w. so_get (dr_stores w a) aid)) (\<lambda>r. bindM (liftR r) (\<lambda>doc.
             case doc of
               Some (kv # d) \<Rightarrow> bindM (synset_from_doc name (kv # d) store aid) (\<lambda>s.
                 bindM (modifyM (case st of Some st1 \<Rightarrow> synset_cache_put name gen st1 s aid | None \<Rightarrow> (\<lambda>w. w))) (\<lambda>_. ret (Some s)))
             | _ \<Rightarrow> try_ids name store a gen ent aids)))"

definition get_synset :: "string \<Rightarrow> nat option \<Rightarrow> (driver, synset option) prog" where
  "get_synset name store = bindM (getsM (\<lambda>w. (map_of (dr_cache w) name, dr_gen w))) (\<lambda>(ent, now).
     case ent of
       Some (g, st, s, aid) \<Rightarrow>
         if g = now then ret (Some s)
         else bindM (observe_store store) (\<lambda>a. bindM (getsM dr_gen) (\<lambda>gen. try_ids name store a gen ent [aid]))
     | None \<Rightarrow> bindM (observe_store store) (\<lambda>a. bindM (getsM dr_gen) (\<lambda>gen.
         bindM (concept_ids name store) (\<lambda>ids. try_ids name store a gen None ids))))"

end
