(* ===== verification/Ontology_Index.thy ===== *)
theory Ontology_Index
  imports Ontology_Driver "HOL-Library.Product_Lexorder"
begin

text \<open>
  The whole-corpus half of \<open>ontology/driver.py\<close>: the index \<open>_load_index\<close> builds from every artifact of
  the content type and from the edges, the decision to re-derive the information content, and
  \<open>_index\<close>, which says when a built index may still be used.

  A rank is a pair, so that a missing one (\<open>float("inf")\<close>) sorts behind every stored one. The rows of
  the lexicon carry strings for ids, positions and hypernyms.
\<close>

section \<open>The basis of the information content\<close>

definition IC_BASIS_ID :: string where
  "IC_BASIS_ID = ''geom.ic-basis''"

definition ic_basis :: "nat option \<Rightarrow> (driver, pyval dict) prog" where
  "ic_basis store = catchM (bindM (observe_store store) (\<lambda>a. bindM (getsM (\<lambda>w. so_get (dr_stores w a) IC_BASIS_ID)) (\<lambda>r.
     bindM (liftR r) (\<lambda>doc. ret (case doc of None \<Rightarrow> [] | Some d \<Rightarrow>
       (case dget d ''basis'' of VDict b \<Rightarrow> b | _ \<Rightarrow> [])))))) (\<lambda>_. ret [])"

text \<open>\<open>v == len(idx)\<close>.\<close>

definition num_eq :: "pyval \<Rightarrow> int \<Rightarrow> bool" where
  "num_eq v k = (case v of
       VInt n \<Rightarrow> n = k
     | VBool b \<Rightarrow> (if b then 1 else 0) = k
     | VFloat r q \<Rightarrow> q = of_int k
     | _ \<Rightarrow> False)"

text \<open>An external measurement stands; an intrinsic one only for a corpus of the same size, complete.\<close>

definition ic_fresh :: "pyval dict \<Rightarrow> nat \<Rightarrow> nat \<Rightarrow> bool" where
  "ic_fresh b n missing = (let src = dget b ''source'' in
     if truthy src \<and> src \<noteq> VStr INTRINSIC_IC_SOURCE then True
     else src = VStr INTRINSIC_IC_SOURCE \<and> num_eq (dget b ''n'') (int n) \<and> missing = 0)"

definition set_intrinsic :: "index \<Rightarrow> index" where
  "set_intrinsic idx = (let vs = derive_intrinsic_ic idx in
     map (\<lambda>(n, s). (n, case map_of vs n of None \<Rightarrow> s | Some v \<Rightarrow> s\<lparr>sy_ic := Some (Fin v)\<rparr>)) idx)"

section \<open>One row\<close>

type_synonym rank = "nat \<times> rat"
type_synonym sense = "int \<times> rank \<times> string"
type_synonym senses = "((string \<times> string) \<times> sense list) list"

definition no_rank :: rank where
  "no_rank = (1, 0)"

definition rank_of :: "pyval \<Rightarrow> rank" where
  "rank_of v = (case v of
       VInt n \<Rightarrow> (0, of_int n)
     | VBool b \<Rightarrow> (0, if b then 1 else 0)
     | VFloat r q \<Rightarrow> (0, q)
     | _ \<Rightarrow> no_rank)"

text \<open>\<open>s.lower().replace(" ", "_")\<close>.\<close>

definition underscored :: "string \<Rightarrow> string" where
  "underscored s = map (\<lambda>c. if c = CHR '' '' then CHR ''_'' else c) (py_lower s)"

definition exc_set :: "string \<Rightarrow> string \<Rightarrow> pyval list \<Rightarrow> driver \<Rightarrow> driver" where
  "exc_set pos lm fs w = w\<lparr>dr_exc := fold (\<lambda>f e. let k = (underscored (py_str f), pos) in
     if map_of e k = None then e @ [(k, underscored lm)] else e) fs (dr_exc w)\<rparr>"

fun add_forms :: "string \<Rightarrow> pyval dict \<Rightarrow> (driver, unit) prog" where
  "add_forms pos [] = ret ()"
| "add_forms pos ((lm, fs) # forms) = bindM (liftR (py_list (py_or fs (VList [])))) (\<lambda>xs.
     bindM (modifyM (exc_set pos lm xs)) (\<lambda>_. add_forms pos forms))"

definition by_lower :: "pyval dict \<Rightarrow> (string \<times> string \<times> pyval) list" where
  "by_lower ranks = dict_update [] (map (\<lambda>(k, v). (py_lower k, k, v)) ranks)"

definition sense_of :: "string \<Rightarrow> pyval dict \<Rightarrow> string \<Rightarrow> sense" where
  "sense_of name ranks lm = (let (written, r) = (case map_of (by_lower ranks) (py_lower lm) of
       None \<Rightarrow> (lm, VNone) | Some wr \<Rightarrow> wr)
     in (if written \<noteq> py_lower written then 1 else 0, rank_of r, name))"

definition append_at :: "'k \<Rightarrow> 'v \<Rightarrow> ('k \<times> 'v list) list \<Rightarrow> ('k \<times> 'v list) list" where
  "append_at k v d = AList.update k ((case map_of d k of None \<Rightarrow> [] | Some vs \<Rightarrow> vs) @ [v]) d"

fun add_senses :: "string \<Rightarrow> string \<Rightarrow> pyval dict \<Rightarrow> pyval list \<Rightarrow> senses \<Rightarrow> senses res" where
  "add_senses name pos ranks [] word = Inr word"
| "add_senses name pos ranks (v # vs) word = res_bind (as_str ''lower'' v) (\<lambda>lm.
     add_senses name pos ranks vs (append_at (underscored lm, pos) (sense_of name ranks lm) word))"

definition lemma_names :: "pyval dict \<Rightarrow> int dict \<Rightarrow> pyval list res" where
  "lemma_names doc counts = (if counts \<noteq> [] then Inr (map (\<lambda>kv. VStr (fst kv)) counts)
     else py_list (py_or (dget doc ''lemmas'') (VList [])))"

record loading =
  ld_idx :: index
  ld_word :: senses
  ld_no_ic :: nat
  ld_no_se :: nat

definition row_name :: "string \<Rightarrow> pyval dict \<Rightarrow> string" where
  "row_name p doc = strip_prefix p (py_str (py_or (dget doc ''id'') (VStr [])))"

definition add_row :: "string \<Rightarrow> pyval dict \<Rightarrow> loading \<Rightarrow> (driver, loading) prog" where
  "add_row p doc l = (let name = row_name p doc;
       pos = (if truthy (dget doc ''pos'') then py_str (dget doc ''pos'') else pos_of_name name) in
     if name = [] then ret l
     else
       bindM (getsM dr_float) (\<lambda>fl.
       bindM (liftR (counts_of doc)) (\<lambda>counts.
       bindM (liftR (float_or_none fl (dget doc ''ic''))) (\<lambda>ic.
       bindM (liftR (float_or_none fl (dget doc ''ic_se''))) (\<lambda>se.
       bindM (liftR (py_list (py_or (dget doc ''hypernyms'') (VList [])))) (\<lambda>hs.
       bindM (liftR (py_list (py_or (dget doc ''instance_hypernyms'') (VList [])))) (\<lambda>is.
       bindM new_oid (\<lambda>oid.
       let node = \<lparr> sy_oid = oid, sy_name = name, sy_pos = pos, sy_hyper = map py_str hs,
             sy_inst = map py_str is, sy_ic = ic, sy_se = se, sy_counts = counts \<rparr> in
       bindM (liftR (lemma_names doc counts)) (\<lambda>lms.
       bindM (liftR (py_items (py_or (dget doc ''forms'') (VDict [])))) (\<lambda>forms.
       bindM (add_forms pos forms) (\<lambda>_.
       bindM (liftR (py_items (py_or (dget doc ''sense_ranks'') (VDict [])))) (\<lambda>ranks.
       bindM (liftR (add_senses name pos ranks lms (ld_word l))) (\<lambda>word.
         ret \<lparr> ld_idx = AList.update name node (ld_idx l), ld_word = word,
               ld_no_ic = ld_no_ic l + (if ic = None then 1 else 0),
               ld_no_se = ld_no_se l + (if se = None then 1 else 0) \<rparr>)))))))))))))"

section \<open>The edges\<close>

definition add_edge :: "string \<Rightarrow> string list \<Rightarrow> edge \<Rightarrow> index \<Rightarrow> index" where
  "add_edge p inst_labels e idx = (let n = strip_prefix p (ed_src e); target = strip_prefix p (ed_dst e) in
     case map_of idx n of
       None \<Rightarrow> idx
     | Some node \<Rightarrow>
         if ed_label e \<in> set inst_labels
         then (if target \<in> set (sy_inst node) then idx
               else AList.update n (node\<lparr>sy_inst := sy_inst node @ [target]\<rparr>) idx)
         else (if target \<in> set (sy_hyper node) then idx
               else AList.update n (node\<lparr>sy_hyper := sy_hyper node @ [target]\<rparr>) idx))"

definition label_rows :: "store \<Rightarrow> string list \<Rightarrow> edge list" where
  "label_rows s labels = (case so_edges s of None \<Rightarrow> [] | Some es \<Rightarrow> filter (\<lambda>e. ed_label e \<in> set labels) es)"

section \<open>The whole corpus\<close>

definition word_index_of :: "senses \<Rightarrow> word_index" where
  "word_index_of word = map (\<lambda>(k, ss). (k, map (\<lambda>(proper, r, n). n) (sort ss))) word"

definition stats_of :: "nat \<Rightarrow> nat \<Rightarrow> nat \<Rightarrow> int dict" where
  "stats_of n no_ic no_se = [(''synsets'', int n), (''with_ic'', int n - int no_ic), (''without_ic'', int no_ic),
     (''with_ic_se'', int n - int no_se), (''without_ic_se'', int no_se)]"

definition list_artifacts :: "store \<Rightarrow> string \<Rightarrow> pyval dict list res" where
  "list_artifacts s ct = (case so_list s of None \<Rightarrow> Inl (AttributeError ''list_artifacts'') | Some f \<Rightarrow> Inr (f ct))"

definition load_index :: "nat option \<Rightarrow> (driver, unit) prog" where
  "load_index store =
     bindM (observe_store store) (\<lambda>a.
     bindM (spec_str ''id_prefix'' store) (\<lambda>p.
     bindM (spec_str ''content_type'' store) (\<lambda>ct.
     bindM (getsM (\<lambda>w. list_artifacts (dr_stores w a) ct)) (\<lambda>r.
     bindM (liftR r) (\<lambda>docs.
     bindM (forM (add_row p) docs \<lparr> ld_idx = [], ld_word = [], ld_no_ic = 0, ld_no_se = 0 \<rparr>) (\<lambda>l.
     bindM (spec_list ''isa_labels'' store) (\<lambda>isa.
     bindM (spec_list ''instance_labels'' store) (\<lambda>inst_labels.
     bindM (getsM (\<lambda>w. label_rows (dr_stores w a) (isa @ inst_labels))) (\<lambda>rows.
     let idx = fold (add_edge p inst_labels) rows (ld_idx l) in
     bindM (ic_basis store) (\<lambda>b.
     let derive = (idx \<noteq> [] \<and> \<not> ic_fresh b (length idx) (ld_no_ic l));
         idx' = (if derive then set_intrinsic idx else idx);
         no_ic = (if derive then 0 else ld_no_ic l) in
     modifyM (\<lambda>w. w\<lparr>dr_ic_stats := Some (stats_of (length idx) no_ic (ld_no_se l)),
                    dr_index := Some (idx', word_index_of (ld_word l))\<rparr>)))))))))))"

definition cannot_serve :: "store \<Rightarrow> bool" where
  "cannot_serve s \<longleftrightarrow> so_list s = None \<or> so_edges s = None"

definition both_indexes :: "(driver, index \<times> word_index) prog" where
  "both_indexes = bindM (getsM dr_index) (\<lambda>i. case i of Some iw \<Rightarrow> ret iw | None \<Rightarrow> raise (TypeError ''_INDEX''))"

definition index_stale :: "driver \<Rightarrow> bool" where
  "index_stale w \<longleftrightarrow> dr_index w = None \<or> \<not> dr_foreign w \<and> dr_index_gen w \<noteq> dr_gen w"

definition answers_for_dumb_store :: "nat option \<Rightarrow> driver \<Rightarrow> bool" where
  "answers_for_dumb_store store w = (case store of None \<Rightarrow> False
     | Some a \<Rightarrow> dr_foreign w \<and> dr_index w \<noteq> None \<and> cannot_serve (dr_stores w a))"

definition load_indexes :: "nat option \<Rightarrow> (driver, index \<times> word_index) prog" where
  "load_indexes store =
     bindM (getsM (\<lambda>w. installed_index_answers store w \<or> answers_for_dumb_store store w)) (\<lambda>installed.
       if installed then both_indexes
       else bindM (observe_store store) (\<lambda>_. bindM (getsM index_stale) (\<lambda>stale.
         if stale
         then bindM (getsM dr_gen) (\<lambda>g. bindM (load_index store) (\<lambda>_.
                bindM (modifyM (\<lambda>w. w\<lparr>dr_index_gen := g, dr_foreign := False\<rparr>)) (\<lambda>_. both_indexes)))
         else both_indexes)))"

definition load_synsets :: "nat option \<Rightarrow> (driver, index) prog" where
  "load_synsets store = bindM (load_indexes store) (\<lambda>(idx, word). ret idx)"

definition load_words :: "nat option \<Rightarrow> (driver, word_index) prog" where
  "load_words store = bindM (load_indexes store) (\<lambda>(idx, word). ret word)"

definition resolve :: "string \<Rightarrow> nat option \<Rightarrow> (driver, synset option) prog" where
  "resolve name store = bindM (keyed_ready store) (\<lambda>ready.
     if ready then get_synset name store
     else bindM (load_synsets store) (\<lambda>idx. ret (map_of idx name)))"

section \<open>What the corpus carries\<close>

definition no_stats :: "int dict" where
  "no_stats = [(''synsets'', 0), (''with_ic'', 0), (''without_ic'', 0), (''with_ic_se'', 0), (''without_ic_se'', 0)]"

definition stat :: "int dict \<Rightarrow> string \<Rightarrow> int" where
  "stat st k = (case map_of st k of None \<Rightarrow> 0 | Some n \<Rightarrow> n)"

definition coverage_of :: "int dict \<Rightarrow> string \<Rightarrow> rat option" where
  "coverage_of st k = (if stat st ''synsets'' = 0 then None
     else Some (round4 (of_int (stat st k) / of_int (stat st ''synsets''))))"

definition ic_coverage :: "nat option \<Rightarrow> (driver, int dict \<times> rat option \<times> rat option) prog" where
  "ic_coverage store = bindM (load_synsets store) (\<lambda>_. bindM (getsM dr_ic_stats) (\<lambda>s.
     let st = (case s of None \<Rightarrow> no_stats | Some st \<Rightarrow> if st = [] then no_stats else st) in
     ret (st, coverage_of st ''with_ic'', coverage_of st ''with_ic_se'')))"

definition all_synsets :: "string option \<Rightarrow> nat option \<Rightarrow> (driver, synset list) prog" where
  "all_synsets pos store = bindM (load_synsets store) (\<lambda>idx.
     ret (filter (\<lambda>s. pos = None \<or> pos = Some (sy_pos s)) (map snd idx)))"

end
