(* ===== verification/Ontology_Words.thy ===== *)
theory Ontology_Words
  imports Ontology_Index
begin

text \<open>
  The entry of the language transducer and the words of \<open>ontology/driver.py\<close>: the senses a surface
  form has, in the order of the source (\<open>_entry_names\<close>), the range read that tells whether a longer
  window can still match (\<open>entry_prefix_exists\<close>), and the public reads \<open>synset\<close>, \<open>synsets\<close> and
  \<open>morphy\<close>. The properties of an edge are the object its JSON text holds.
\<close>

section \<open>The entry\<close>

definition edges_of :: "store \<Rightarrow> edge list res" where
  "edges_of s = (case so_edges s of None \<Rightarrow> Inl (AttributeError ''read'') | Some es \<Rightarrow> Inr es)"

text \<open>\<open>{p: i for i, p in enumerate(order)}.get(pos, len(order))\<close>.\<close>

definition pos_rank :: "string list \<Rightarrow> pyval \<Rightarrow> nat res" where
  "pos_rank order v = (if \<not> hashable v then Inl (TypeError ''unhashable'')
     else Inr (case v of
         VStr s \<Rightarrow> (case map_of (rev (zip order [0..<length order])) s of None \<Rightarrow> length order | Some i \<Rightarrow> i)
       | _ \<Rightarrow> length order))"

type_synonym entry = "nat \<times> int \<times> rank \<times> string"

definition proper_of :: "pyval dict \<Rightarrow> int res" where
  "proper_of p = (case map_of p ''proper'' of None \<Rightarrow> Inr 0 | Some v \<Rightarrow> py_int v)"

fun entry_rows :: "string list \<Rightarrow> string option \<Rightarrow> edge list \<Rightarrow> nat option \<Rightarrow> (driver, entry list) prog" where
  "entry_rows order pos [] store = ret []"
| "entry_rows order pos (e # es) store = (let v = dget (ed_props e) ''pos'' in
     if pos \<noteq> None \<and> v \<noteq> vopt pos then entry_rows order pos es store
     else bindM (liftR (pos_rank order v)) (\<lambda>i.
          bindM (liftR (proper_of (ed_props e))) (\<lambda>proper.
          bindM (n_of (VStr (ed_dst e)) store) (\<lambda>n.
          bindM (entry_rows order pos es store) (\<lambda>out.
            ret ((i, proper, rank_of (dget (ed_props e) ''rank''), n) # out))))))"

definition unranked :: "entry list \<Rightarrow> bool" where
  "unranked out \<longleftrightarrow> out \<noteq> [] \<and> list_all (\<lambda>(i, proper, r, n). r = no_rank) out"

definition rank_unavailable :: exc where
  "rank_unavailable = PyError ''RankUnavailable'' []"

definition entry_edges :: "edge list \<Rightarrow> string \<Rightarrow> string \<Rightarrow> edge list" where
  "entry_edges es src label = filter (\<lambda>e. ed_src e = src \<and> ed_label e = label) es"

definition entry_names :: "string \<Rightarrow> string option \<Rightarrow> nat option \<Rightarrow> (driver, string list) prog" where
  "entry_names word pos store =
     bindM (spec_list ''pos_order'' store) (\<lambda>order.
     bindM (observe_store store) (\<lambda>a.
     bindM (getsM (\<lambda>w. edges_of (dr_stores w a))) (\<lambda>r. bindM (liftR r) (\<lambda>es.
     bindM (spec_str ''lemma_prefix'' store) (\<lambda>p.
     bindM (spec_str ''entry_label'' store) (\<lambda>label.
     bindM (entry_rows order pos (entry_edges es (p @ word) label) store) (\<lambda>out.
       if unranked out then raise rank_unavailable
       else ret (map (\<lambda>(i, proper, r, n). n) (sort out)))))))))"

text \<open>
  \<open>src >= p AND src < p + "\U0010FFFF"\<close>: texts compare by their code points, and the last one is
  above every character.
\<close>

definition points :: "string \<Rightarrow> nat list" where
  "points s = map of_char s"

definition in_range :: "string \<Rightarrow> string \<Rightarrow> bool" where
  "in_range p src \<longleftrightarrow> points p \<le> points src \<and> points src < points p @ [0x10FFFF]"

definition entry_prefix_exists :: "string \<Rightarrow> nat option \<Rightarrow> (driver, bool) prog" where
  "entry_prefix_exists surface store =
     bindM (spec_str ''lemma_prefix'' store) (\<lambda>lp.
       catchM (bindM (observe_store store) (\<lambda>a. bindM (getsM (\<lambda>w. edges_of (dr_stores w a))) (\<lambda>r.
         bindM (liftR r) (\<lambda>es. ret (list_ex (\<lambda>e. in_range (lp @ surface) (ed_src e)) es)))))
       (\<lambda>_. ret False))"

section \<open>The base form of a word\<close>

definition RULES :: "(string \<times> (string \<times> string) list) list" where
  "RULES = [
     (''n'', [(''s'', ''''), (''ses'', ''s''), (''xes'', ''x''), (''zes'', ''z''), (''ches'', ''ch''), (''shes'', ''sh''),
              (''men'', ''man''), (''ies'', ''y'')]),
     (''v'', [(''s'', ''''), (''ies'', ''y''), (''es'', ''e''), (''es'', ''''), (''ed'', ''e''), (''ed'', ''''),
              (''ing'', ''e''), (''ing'', '''')]),
     (''a'', [(''er'', ''''), (''est'', ''''), (''er'', ''e''), (''est'', ''e'')]),
     (''r'', [])]"

definition detach :: "string \<Rightarrow> string \<Rightarrow> string list" where
  "detach w p = map (\<lambda>(suf, repl). take (length w - length suf) w @ repl)
     (filter (\<lambda>(suf, repl). py_endswith w suf) (case map_of RULES p of None \<Rightarrow> [] | Some rs \<Rightarrow> rs))"

definition detached :: "string \<Rightarrow> string list \<Rightarrow> (string \<times> string) list" where
  "detached w poss = concat (map (\<lambda>p. map (\<lambda>c. (c, p)) (detach w p)) poss)"

text \<open>The source's irregular form: \<open>exc.get(w + "|" + p) or (exc.get(w) if it is a str)\<close>.\<close>

definition irregular :: "pyval dict \<Rightarrow> string \<Rightarrow> string \<Rightarrow> string option res" where
  "irregular exc w p = (case py_or (dget exc (w @ ''|'' @ p)) (if is_str (dget exc w) then dget exc w else VNone) of
       VStr b \<Rightarrow> Inr (if b = [] then None else Some b)
     | v \<Rightarrow> if truthy v then Inl (TypeError ''can only concatenate str'') else Inr None)"

fun first_known :: "(string \<Rightarrow> string \<Rightarrow> (driver, bool) prog) \<Rightarrow> (string option res \<times> string) list
    \<Rightarrow> (driver, string option) prog" where
  "first_known known [] = ret None"
| "first_known known ((r, p) # cs) = bindM (liftR r) (\<lambda>c. case c of
       None \<Rightarrow> first_known known cs
     | Some b \<Rightarrow> bindM (known b p) (\<lambda>yes. if yes then ret (Some b) else first_known known cs))"

definition candidates :: "string \<Rightarrow> string list \<Rightarrow> (string \<Rightarrow> string option res) \<Rightarrow> (string option res \<times> string) list" where
  "candidates w poss irr = map (\<lambda>p. (Inr (Some w), p)) poss @ map (\<lambda>p. (irr p, p)) poss
     @ map (\<lambda>(c, p). (Inr (Some c), p)) (detached w poss)"

definition keyed_known :: "nat option \<Rightarrow> string \<Rightarrow> string \<Rightarrow> (driver, bool) prog" where
  "keyed_known store cand p = bindM (entry_names cand (Some p) store) (\<lambda>ns. ret (ns \<noteq> []))"

definition some_nonempty :: "string option \<Rightarrow> string option" where
  "some_nonempty b = (if b = Some [] then None else b)"

definition rule_tags :: "string option \<Rightarrow> nat option \<Rightarrow> (driver, string list) prog" where
  "rule_tags pos store = (case some_nonempty pos of
       Some p \<Rightarrow> ret [p]
     | None \<Rightarrow> bindM (spec_list ''pos_order'' store) (\<lambda>order.
         ret (filter (\<lambda>p. map_of RULES p \<noteq> None) order)))"

definition exceptions_of :: "nat option \<Rightarrow> (driver, pyval dict) prog" where
  "exceptions_of store = bindM (lang_spec store) (\<lambda>sp. case py_or (dget sp ''exceptions'') (VDict []) of
       VDict d \<Rightarrow> ret d
     | _ \<Rightarrow> raise (AttributeError ''get''))"

definition morphy :: "string \<Rightarrow> string option \<Rightarrow> nat option \<Rightarrow> (driver, string option) prog" where
  "morphy word pos store =
     bindM (observe_store store) (\<lambda>_. let w = underscored word in
     bindM (rule_tags pos store) (\<lambda>poss.
     bindM (keyed_ready store) (\<lambda>ready.
       if ready
       then bindM (exceptions_of store) (\<lambda>exc. first_known (keyed_known store) (candidates w poss (irregular exc w)))
       else bindM (load_words store) (\<lambda>wi. bindM (getsM dr_exc) (\<lambda>exc.
         first_known (\<lambda>c p. ret (map_of wi (c, p) \<noteq> None))
           (candidates w poss (\<lambda>p. Inr (some_nonempty (map_of exc (w, p))))))))))"

section \<open>Reading synsets\<close>

definition wordnet_error :: exc where
  "wordnet_error = PyError ''WordNetError'' []"

definition synset_named :: "string \<Rightarrow> nat option \<Rightarrow> (driver, synset) prog" where
  "synset_named name store = bindM (observe_store store) (\<lambda>_. bindM (resolve name store) (\<lambda>s.
     case s of None \<Rightarrow> raise wordnet_error | Some s \<Rightarrow> ret s))"

fun get_synsets :: "string list \<Rightarrow> nat option \<Rightarrow> (driver, synset list) prog" where
  "get_synsets [] store = ret []"
| "get_synsets (n # ns) store = bindM (get_synset n store) (\<lambda>s. bindM (get_synsets ns store) (\<lambda>ss.
     ret (case s of None \<Rightarrow> ss | Some s \<Rightarrow> s # ss)))"

definition indexed_names :: "word_index \<Rightarrow> string list \<Rightarrow> string option \<Rightarrow> string \<Rightarrow> string list" where
  "indexed_names wi poss pos w = (let held = (\<lambda>p. case map_of wi (w, p) of None \<Rightarrow> [] | Some ns \<Rightarrow> ns) in
     case pos of Some p \<Rightarrow> held p | None \<Rightarrow> concat (map held poss))"

text \<open>\<open>if not names: base = morphy(...); if base and base != w: names = read(base)\<close>.\<close>

definition or_base :: "string list \<Rightarrow> string \<Rightarrow> string option \<Rightarrow> nat option \<Rightarrow> (string \<Rightarrow> (driver, string list) prog)
    \<Rightarrow> (driver, string list) prog" where
  "or_base names w pos store read = (if names \<noteq> [] then ret names
     else bindM (morphy w pos store) (\<lambda>b. case some_nonempty b of
       None \<Rightarrow> ret names
     | Some b \<Rightarrow> if b \<noteq> w then read b else ret names))"

definition synsets :: "string \<Rightarrow> string option \<Rightarrow> nat option \<Rightarrow> (driver, synset list) prog" where
  "synsets word pos store =
     bindM (observe_store store) (\<lambda>_. let w = underscored word in
     bindM (keyed_ready store) (\<lambda>ready.
       if ready
       then bindM (entry_names w pos store) (\<lambda>names.
            bindM (or_base names w pos store (\<lambda>b. entry_names b pos store)) (\<lambda>names.
              get_synsets names store))
       else bindM (load_words store) (\<lambda>wi. bindM (spec_list ''pos_order'' store) (\<lambda>poss.
            bindM (or_base (indexed_names wi poss pos w) w pos store (\<lambda>b. ret (indexed_names wi poss pos b))) (\<lambda>names.
            bindM (load_synsets store) (\<lambda>idx.
              ret (List.map_filter (map_of idx) names)))))))"

end
