(* ===== verification/Ontology_Driver_Laws.thy ===== *)
theory Ontology_Driver_Laws
  imports Ontology_Words
begin

text \<open>
  What the caches of the keyed reads may serve. The store is the other side: \<open>S\<close> is the set of the
  contents it takes over time, and \<open>honest S\<close> is what it promises about its bookkeeping (every write
  moves the write mark; a write to an artifact or to the edges out of it moves its stamp). The
  invariant \<open>observed\<close> relates the caches to the contents last observed; it is kept by every read and
  by every write of the store, and after an observation it gives the contents of the moment.
\<close>

section \<open>What the store promises\<close>

definition honest :: "store set \<Rightarrow> bool" where
  "honest S \<longleftrightarrow> (\<forall>s \<in> S. \<forall>s' \<in> S. (so_mark s \<noteq> None \<and> so_mark s = so_mark s' \<longrightarrow> s = s')
     \<and> (\<forall>aid. stamp s aid True \<noteq> None \<and> stamp s aid True = stamp s' aid True
          \<longrightarrow> so_get s aid = so_get s' aid \<and> out_edges s aid = out_edges s' aid))"

text \<open>The transducer artifact stays what it is: \<open>D\<close>, with the specification \<open>sp\<close>.\<close>

definition speaks :: "store set \<Rightarrow> pyval dict \<Rightarrow> bool" where
  "speaks S sp \<longleftrightarrow> (\<exists>D. spec_of D = Inr sp \<and> (\<forall>s \<in> S. so_get s TRANSDUCER_ID = Inr (Some D)))"

section \<open>The synset an artifact holds\<close>

definition edge_parents :: "pyval dict \<Rightarrow> store \<Rightarrow> string \<Rightarrow> string list \<times> string list" where
  "edge_parents sp s aid = (let inst_labels = spec_list_of sp ''instance_labels'';
       rows = (case out_edges s aid of None \<Rightarrow> []
         | Some es \<Rightarrow> filter (\<lambda>e. ed_label e \<in> set (spec_list_of sp ''isa_labels'' @ inst_labels)) es);
       dsts = (\<lambda>es. map (\<lambda>e. strip_prefix (spec_str_of sp ''id_prefix'') (ed_dst e)) es)
     in (dsts (filter (\<lambda>e. ed_label e \<notin> set inst_labels) rows), dsts (filter (\<lambda>e. ed_label e \<in> set inst_labels) rows)))"

definition field_names :: "pyval dict \<Rightarrow> pyval dict \<Rightarrow> string \<Rightarrow> string list res" where
  "field_names sp doc k = res_bind (py_list (py_or (dget doc k) (VList []))) (\<lambda>xs.
     Inr (map (\<lambda>x. strip_prefix (spec_str_of sp ''id_prefix'') (py_str (py_or x (VStr [])))) xs))"

definition doc_parents :: "pyval dict \<Rightarrow> pyval dict \<Rightarrow> store \<Rightarrow> string \<Rightarrow> (string list \<times> string list) res" where
  "doc_parents sp doc s aid = res_bind (field_names sp doc ''hypernyms'') (\<lambda>hyper.
     res_bind (field_names sp doc ''instance_hypernyms'') (\<lambda>inst.
       Inr (if hyper = [] \<and> inst = [] then edge_parents sp s aid else (hyper, inst))))"

definition is_synset_of :: "pyval dict \<Rightarrow> (string \<Rightarrow> pyfloat res) \<Rightarrow> pyval dict \<Rightarrow> store \<Rightarrow> string \<Rightarrow> string \<Rightarrow> synset \<Rightarrow> bool" where
  "is_synset_of sp fl doc s aid name syn \<longleftrightarrow> sy_name syn = name
     \<and> sy_pos syn = (if truthy (dget doc ''pos'') then py_str (dget doc ''pos'') else pos_of_name name)
     \<and> counts_of doc = Inr (sy_counts syn)
     \<and> float_or_none fl (dget doc ''ic'') = Inr (sy_ic syn) \<and> float_or_none fl (dget doc ''ic_se'') = Inr (sy_se syn)
     \<and> doc_parents sp doc s aid = Inr (sy_hyper syn, sy_inst syn)"

definition holds :: "pyval dict \<Rightarrow> (string \<Rightarrow> pyfloat res) \<Rightarrow> store \<Rightarrow> string \<Rightarrow> string \<Rightarrow> synset \<Rightarrow> bool" where
  "holds sp fl s aid name syn \<longleftrightarrow> (\<exists>doc. so_get s aid = Inr (Some doc) \<and> doc \<noteq> [] \<and> is_synset_of sp fl doc s aid name syn)"

lemma holds_same:
  assumes "so_get s aid = so_get s' aid" "out_edges s aid = out_edges s' aid"
  shows "holds sp fl s aid name syn = holds sp fl s' aid name syn"
  unfolding holds_def is_synset_of_def doc_parents_def edge_parents_def assms ..

section \<open>The invariant of the caches\<close>

definition cache_ok :: "pyval dict \<Rightarrow> (string \<Rightarrow> pyfloat res) \<Rightarrow> store set \<Rightarrow> store \<Rightarrow> driver \<Rightarrow> bool" where
  "cache_ok sp fl S obs w \<longleftrightarrow> (\<forall>name g st syn aid. map_of (dr_cache w) name = Some (g, st, syn, aid) \<longrightarrow>
     g \<le> dr_gen w \<and> aid \<in> set (ids_of (spec_str_of sp ''id_prefix'') name)
     \<and> (\<exists>s \<in> S. stamp s aid True = Some st \<and> holds sp fl s aid name syn)
     \<and> (g = dr_gen w \<longrightarrow> stamp obs aid True = Some st))"

definition observed :: "pyval dict \<Rightarrow> (string \<Rightarrow> pyfloat res) \<Rightarrow> store set \<Rightarrow> nat \<Rightarrow> store \<Rightarrow> driver \<Rightarrow> bool" where
  "observed sp fl S a obs w \<longleftrightarrow> dr_source w = Some a \<and> dr_float w = fl \<and> obs \<in> S \<and> dr_stores w a \<in> S
     \<and> (dr_mark w \<noteq> None \<longrightarrow> dr_mark w = so_mark obs) \<and> dr_spec w \<in> {None, Some sp} \<and> dr_ready w \<in> {None, Some True}
     \<and> cache_ok sp fl S obs w"

text \<open>\<open>current\<close>: the contents observed are the contents the store has.\<close>

definition current :: "pyval dict \<Rightarrow> (string \<Rightarrow> pyfloat res) \<Rightarrow> store set \<Rightarrow> nat \<Rightarrow> store \<Rightarrow> driver \<Rightarrow> bool" where
  "current sp fl S a s w \<longleftrightarrow> observed sp fl S a s w \<and> dr_stores w a = s"

definition earlier :: "pyval dict \<Rightarrow> (string \<Rightarrow> pyfloat res) \<Rightarrow> store set \<Rightarrow> nat \<Rightarrow> store \<Rightarrow> driver \<Rightarrow> bool" where
  "earlier sp fl S a s w \<longleftrightarrow> (\<exists>obs. observed sp fl S a obs w) \<and> dr_stores w a = s"

lemma current_earlier: "current sp fl S a s w \<Longrightarrow> earlier sp fl S a s w"
  unfolding current_def earlier_def by blast

lemma cache_ok_older:
  assumes "cache_ok sp fl S obs w" "dr_cache w' = dr_cache w" "dr_gen w < dr_gen w'"
  shows "cache_ok sp fl S obs' w'"
  unfolding cache_ok_def
proof (intro allI impI)
  fix name g st syn aid
  assume "map_of (dr_cache w') name = Some (g, st, syn, aid)"
  then have e: "map_of (dr_cache w) name = Some (g, st, syn, aid)" using assms(2) by simp
  show "g \<le> dr_gen w' \<and> aid \<in> set (ids_of (spec_str_of sp ''id_prefix'') name)
     \<and> (\<exists>s \<in> S. stamp s aid True = Some st \<and> holds sp fl s aid name syn) \<and> (g = dr_gen w' \<longrightarrow> stamp obs' aid True = Some st)"
    using assms(1) [unfolded cache_ok_def, rule_format, OF e] assms(3) by auto
qed

lemma cache_ok_same:
  "cache_ok sp fl S obs w \<Longrightarrow> dr_cache w' = dr_cache w \<Longrightarrow> dr_gen w' = dr_gen w \<Longrightarrow> cache_ok sp fl S obs w'"
  by (simp add: cache_ok_def)

lemma observed_same:
  assumes "observed sp fl S a obs w" "dr_source w' = dr_source w" "dr_float w' = dr_float w" "dr_stores w' = dr_stores w"
    "dr_mark w' = dr_mark w" "dr_spec w' \<in> {None, Some sp}" "dr_ready w' \<in> {None, Some True}" "dr_cache w' = dr_cache w" "dr_gen w' = dr_gen w"
  shows "observed sp fl S a obs w'"
  using assms cache_ok_same [of sp fl S obs w w'] unfolding observed_def by simp

lemma gate_observes:
  assumes "honest S" "observed sp fl S a obs w" "dr_stores w a = s"
  shows "current sp fl S a s (gate a w)"
proof -
  have parts: "dr_source w = Some a" "dr_float w = fl" "obs \<in> S" "s \<in> S" "dr_mark w \<noteq> None \<longrightarrow> dr_mark w = so_mark obs"
      "dr_spec w \<in> {None, Some sp}" "dr_ready w \<in> {None, Some True}" "cache_ok sp fl S obs w"
    using assms(2,3) unfolding observed_def by auto
  show ?thesis
  proof (cases "so_mark s \<noteq> None \<and> so_mark s = dr_mark w")
    case True
    then have "s = obs" using assms(1) parts unfolding honest_def by metis
    moreover have "gate a w = w" using True assms(3) by (auto simp: gate_def Let_def)
    ultimately show ?thesis using assms unfolding current_def by simp
  next
    case False
    let ?w = "gate a w"
    have fields: "dr_source ?w = dr_source w" "dr_float ?w = dr_float w" "dr_stores ?w = dr_stores w" "dr_mark ?w = so_mark s"
        "dr_spec ?w = dr_spec w" "dr_ready ?w = dr_ready w" "dr_cache ?w = dr_cache w" "dr_gen ?w = dr_gen w + 1"
      using False assms(3) unfolding gate_def Let_def by auto
    have "cache_ok sp fl S s ?w" by (rule cache_ok_older [OF parts(8)]) (simp_all add: fields)
    then show ?thesis using parts assms(3) unfolding current_def observed_def fields by simp
  qed
qed


section \<open>The reads keep it\<close>

text \<open>The two conditions a read may start from: what was observed is the contents of the moment, or it
  is some earlier one.\<close>

definition either_view :: "pyval dict \<Rightarrow> (string \<Rightarrow> pyfloat res) \<Rightarrow> store set \<Rightarrow> nat \<Rightarrow> store \<Rightarrow> (driver \<Rightarrow> bool) \<Rightarrow> bool" where
  "either_view sp fl S a s K \<longleftrightarrow> K = current sp fl S a s \<or> K = earlier sp fl S a s"

lemma view_current: "either_view sp fl S a s (current sp fl S a s)"
  by (simp add: either_view_def)

lemma view_earlier: "either_view sp fl S a s (earlier sp fl S a s)"
  by (simp add: either_view_def)

lemma viewD:
  assumes "either_view sp fl S a s K" "K w"
  shows "dr_source w = Some a" "dr_stores w a = s" "s \<in> S" "dr_float w = fl" "dr_spec w \<in> {None, Some sp}"
    "dr_ready w \<in> {None, Some True}" "earlier sp fl S a s w"
  using assms unfolding either_view_def current_def earlier_def observed_def by blast+

lemma view_weakens: "either_view sp fl S a s K \<Longrightarrow> current sp fl S a s w \<Longrightarrow> K w"
  by (auto simp: either_view_def current_earlier)

lemma view_same:
  assumes "either_view sp fl S a s K" "K w" "dr_source w' = dr_source w" "dr_float w' = dr_float w" "dr_stores w' = dr_stores w"
    "dr_mark w' = dr_mark w" "dr_spec w' \<in> {None, Some sp}" "dr_ready w' \<in> {None, Some True}" "dr_cache w' = dr_cache w" "dr_gen w' = dr_gen w"
  shows "K w'"
proof -
  have step: "observed sp fl S a obs w \<Longrightarrow> observed sp fl S a obs w'" for obs
    by (erule observed_same) (use assms in auto)
  show ?thesis using assms(1,2,5) step unfolding either_view_def current_def earlier_def by auto
qed

lemma arts_bound: "dr_source w = Some a \<Longrightarrow> store \<in> {None, Some a} \<Longrightarrow> arts store w = (Inr a, w)"
  by (auto simp: arts_def)

definition reads_from :: "pyval dict \<Rightarrow> store set \<Rightarrow> nat \<Rightarrow> nat option \<Rightarrow> bool" where
  "reads_from sp S a store \<longleftrightarrow> honest S \<and> speaks S sp \<and> store \<in> {None, Some a}"

lemma reads_fromD:
  "reads_from sp S a store \<Longrightarrow> honest S" "reads_from sp S a store \<Longrightarrow> speaks S sp" "reads_from sp S a store \<Longrightarrow> store \<in> {None, Some a}"
  by (simp_all only: reads_from_def)

lemma does_arts:
  assumes "reads_from sp S a store" "either_view sp fl S a s K"
  shows "does K (arts store) K (\<lambda>x. x = a)"
  using arts_bound [OF viewD(1) [OF assms(2)] reads_fromD(3) [OF assms(1)]] by (simp add: does_def)

lemma gate_current:
  assumes "reads_from sp S a store" "either_view sp fl S a s K" "K w"
  shows "current sp fl S a s (gate a w)"
proof -
  obtain obs where "observed sp fl S a obs w" using viewD(7) [OF assms(2,3)] unfolding earlier_def by blast
  then show ?thesis using gate_observes [OF reads_fromD(1) [OF assms(1)]] viewD(2) [OF assms(2,3)] by blast
qed

lemma does_observe:
  assumes "reads_from sp S a store" "either_view sp fl S a s K"
  shows "does K (observe_store store) (current sp fl S a s) (\<lambda>x. x = a)"
proof -
  have "observe_store store w = (Inr a, gate a w)" if "K w" for w
    using arts_bound [OF viewD(1) [OF assms(2) that] reads_fromD(3) [OF assms(1)]]
    by (simp add: observe_store_def bindM_def modifyM_def ret_def)
  then show ?thesis using gate_current [OF assms] by (simp add: does_def)
qed

lemma does_observe_current:
  "reads_from sp S a store \<Longrightarrow> does (current sp fl S a s) (observe_store store) (current sp fl S a s) (\<lambda>x. x = a)"
  by (rule does_observe [OF _ view_current])

lemma spec_fresh_view:
  assumes "either_view sp fl S a s K" "K w"
  shows "K (spec_fresh a w)"
  by (rule view_same [OF assms]) (use viewD(5,6) [OF assms] in \<open>auto simp: spec_fresh_def Let_def\<close>)

lemma does_spec_fresh: "either_view sp fl S a s K \<Longrightarrow> does K (modifyM (spec_fresh a)) K (\<lambda>_. True)"
  by (rule does_modify) (rule spec_fresh_view)

lemma speaks_doc:
  assumes "reads_from sp S a store" "s \<in> S"
  obtains D where "spec_of D = Inr sp" "so_get s TRANSDUCER_ID = Inr (Some D)"
  using reads_fromD(2) [OF assms(1)] assms(2) unfolding speaks_def by blast

lemma does_set_spec: "does (current sp fl S a s) (bindM (modifyM (\<lambda>w. w\<lparr>dr_spec := Some sp\<rparr>)) (\<lambda>_. ret sp)) (current sp fl S a s) (\<lambda>d. d = sp)"
proof (rule does_keep)
  show "does (current sp fl S a s) (modifyM (\<lambda>w. w\<lparr>dr_spec := Some sp\<rparr>)) (current sp fl S a s) (\<lambda>_. True)"
    by (rule does_modify, rule view_same [OF view_current]) (auto dest: viewD(6) [OF view_current])
qed (rule does_ret, rule refl)

lemma does_read_spec:
  assumes src: "reads_from sp S a store"
  shows "does (current sp fl S a s) (bindM (getsM (\<lambda>w.
           case so_get (dr_stores w a) TRANSDUCER_ID of Inl e \<Rightarrow> [] | Inr None \<Rightarrow> [] | Inr (Some doc) \<Rightarrow> doc)) (\<lambda>doc.
         bindM (liftR (spec_of doc)) (\<lambda>d. bindM (modifyM (\<lambda>w. w\<lparr>dr_spec := Some d\<rparr>)) (\<lambda>_. ret d))))
       (current sp fl S a s) (\<lambda>d. d = sp)" (is "does ?I _ _ _")
proof (rule does_keep [where P = "\<lambda>doc. spec_of doc = Inr sp"])
  show "does ?I (getsM (\<lambda>w. case so_get (dr_stores w a) TRANSDUCER_ID of Inl e \<Rightarrow> [] | Inr None \<Rightarrow> [] | Inr (Some doc) \<Rightarrow> doc)) ?I
      (\<lambda>doc. spec_of doc = Inr sp)"
  proof (rule does_gets)
    fix w assume w: "?I w"
    obtain D where "spec_of D = Inr sp" "so_get s TRANSDUCER_ID = Inr (Some D)"
      using speaks_doc [OF src viewD(3) [OF view_current w]] .
    then show "spec_of (case so_get (dr_stores w a) TRANSDUCER_ID of Inl e \<Rightarrow> [] | Inr None \<Rightarrow> [] | Inr (Some doc) \<Rightarrow> doc) = Inr sp"
      using viewD(2) [OF view_current w] by simp
  qed
next
  fix doc assume d: "spec_of doc = Inr sp"
  show "does ?I (bindM (liftR (spec_of doc)) (\<lambda>d. bindM (modifyM (\<lambda>w. w\<lparr>dr_spec := Some d\<rparr>)) (\<lambda>_. ret d))) ?I (\<lambda>d. d = sp)"
    using does_set_spec by (simp add: d liftR_def bindM_def)
qed

lemma does_lang_spec:
  assumes src: "reads_from sp S a store" and K: "either_view sp fl S a s K"
  shows "does K (lang_spec store) K (\<lambda>d. d = sp)"
  unfolding lang_spec_def
proof (rule does_keep [OF does_arts [OF assms]], rule does_keep [where P = "\<lambda>_. True"])
  fix x assume x: "x = a"
  show "does K (modifyM (spec_fresh x)) K (\<lambda>_. True)" unfolding x by (rule does_spec_fresh [OF K])
next
  fix x and u :: unit assume x: "x = a"
  show "does K (bindM (getsM dr_spec) (\<lambda>sp. case sp of Some d \<Rightarrow> ret d | None \<Rightarrow> bindM (observe_store store) (\<lambda>a.
      bindM (getsM (\<lambda>w. case so_get (dr_stores w a) TRANSDUCER_ID of Inl e \<Rightarrow> [] | Inr None \<Rightarrow> [] | Inr (Some doc) \<Rightarrow> doc)) (\<lambda>doc.
        bindM (liftR (spec_of doc)) (\<lambda>d. bindM (modifyM (\<lambda>w. w\<lparr>dr_spec := Some d\<rparr>)) (\<lambda>_. ret d)))))) K (\<lambda>d. d = sp)"
  proof (rule does_keep [where P = "\<lambda>x. x \<in> {None, Some sp}"])
    show "does K (getsM dr_spec) K (\<lambda>x. x \<in> {None, Some sp})" by (rule does_gets) (rule viewD(5) [OF K])
  next
    fix y assume y: "y \<in> {None, Some sp}"
    let ?m = "bindM (observe_store store) (\<lambda>a.
      bindM (getsM (\<lambda>w. case so_get (dr_stores w a) TRANSDUCER_ID of Inl e \<Rightarrow> [] | Inr None \<Rightarrow> [] | Inr (Some doc) \<Rightarrow> doc)) (\<lambda>doc.
        bindM (liftR (spec_of doc)) (\<lambda>d. bindM (modifyM (\<lambda>w. w\<lparr>dr_spec := Some d\<rparr>)) (\<lambda>_. ret d))))"
    have "does K ?m (current sp fl S a s) (\<lambda>d. d = sp)"
      by (rule does_bind [OF does_observe [OF assms]]) (simp_all add: does_read_spec [OF src])
    then have m: "does K ?m K (\<lambda>d. d = sp)" by (rule does_cons) (auto intro: view_weakens [OF K])
    show "does K (case y of Some d \<Rightarrow> ret d | None \<Rightarrow> ?m) K (\<lambda>d. d = sp)"
      using y m by (auto intro: does_ret)
  qed
qed

lemma does_spec_str:
  assumes "reads_from sp S a store" "either_view sp fl S a s K"
  shows "does K (spec_str key store) K (\<lambda>x. x = spec_str_of sp key)"
  unfolding spec_str_def by (rule does_keep [OF does_lang_spec [OF assms]]) (simp add: does_ret)

lemma does_spec_list:
  assumes "reads_from sp S a store" "either_view sp fl S a s K"
  shows "does K (spec_list key store) K (\<lambda>x. x = spec_list_of sp key)"
  unfolding spec_list_def by (rule does_keep [OF does_lang_spec [OF assms]]) (simp add: does_ret)

lemma does_n_of:
  assumes "reads_from sp S a store" "either_view sp fl S a s K"
  shows "does K (n_of x store) K (\<lambda>n. n = strip_prefix (spec_str_of sp ''id_prefix'') (py_str (py_or x (VStr []))))"
  unfolding n_of_def by (rule does_keep [OF does_spec_str [OF assms]]) (simp add: does_ret)

lemma does_concept_ids:
  assumes "reads_from sp S a store" "either_view sp fl S a s K"
  shows "does K (concept_ids name store) K (\<lambda>ids. ids = ids_of (spec_str_of sp ''id_prefix'') name)"
  unfolding concept_ids_def by (rule does_keep [OF does_spec_str [OF assms]]) (simp add: does_ret)

lemma does_n_of_list:
  assumes "reads_from sp S a store" "either_view sp fl S a s K"
  shows "does K (n_of_list xs store) K
    (\<lambda>ns. ns = map (\<lambda>x. strip_prefix (spec_str_of sp ''id_prefix'') (py_str (py_or x (VStr [])))) xs)"
proof (induction xs)
  case Nil
  show ?case unfolding n_of_list.simps by (rule does_ret) simp
next
  case (Cons x xs)
  show ?case unfolding n_of_list.simps
    by (rule does_keep [OF does_n_of [OF assms]], rule does_keep [OF Cons.IH], rule does_ret) simp
qed

lemma does_split_rows:
  assumes "reads_from sp S a store" "either_view sp fl S a s K"
  defines "dsts \<equiv> (\<lambda>es. map (\<lambda>e. strip_prefix (spec_str_of sp ''id_prefix'') (ed_dst e)) es)"
  shows "does K (split_rows inst_labels es hyper inst store) K (\<lambda>r. r =
    (hyper @ dsts (filter (\<lambda>e. ed_label e \<notin> set inst_labels) es), inst @ dsts (filter (\<lambda>e. ed_label e \<in> set inst_labels) es)))"
proof (induction es arbitrary: hyper inst)
  case Nil
  show ?case unfolding split_rows.simps by (rule does_ret) (simp add: dsts_def)
next
  case (Cons e es)
  have n: "does K (n_of (VStr (ed_dst e)) store) K (\<lambda>n. n = strip_prefix (spec_str_of sp ''id_prefix'') (ed_dst e))"
    using does_n_of [OF assms(1,2), of "VStr (ed_dst e)"] by (cases "ed_dst e") (simp_all add: py_or_def)
  show ?case unfolding split_rows.simps
  proof (rule does_keep [OF n])
    fix n assume n: "n = strip_prefix (spec_str_of sp ''id_prefix'') (ed_dst e)"
    show "does K (if ed_label e \<in> set inst_labels then split_rows inst_labels es hyper (inst @ [n]) store
        else split_rows inst_labels es (hyper @ [n]) inst store) K (\<lambda>r. r =
      (hyper @ dsts (filter (\<lambda>e. ed_label e \<notin> set inst_labels) (e # es)), inst @ dsts (filter (\<lambda>e. ed_label e \<in> set inst_labels) (e # es))))"
      using Cons.IH [of hyper "inst @ [n]"] Cons.IH [of "hyper @ [n]" inst] by (simp add: dsts_def n)
  qed
qed

lemma does_parents_from_edges:
  assumes src: "reads_from sp S a store"
  shows "does (current sp fl S a s) (parents_from_edges aid store) (current sp fl S a s) (\<lambda>r. r = edge_parents sp s aid)"
    (is "does ?I _ _ _")
  unfolding parents_from_edges_def
proof (rule does_keep [OF does_spec_list [OF src view_current]], rule does_keep [OF does_spec_list [OF src view_current]],
    rule does_keep [OF does_observe_current [OF src]])
  fix isa inst_labels b
  assume isa: "isa = spec_list_of sp ''isa_labels''" "inst_labels = spec_list_of sp ''instance_labels''" and b: "b = a"
  let ?split = "\<lambda>rows. split_rows inst_labels (case rows of None \<Rightarrow> [] | Some es \<Rightarrow>
      filter (\<lambda>e. ed_label e \<in> set (isa @ inst_labels)) es) [] [] store"
  show "does ?I (bindM (getsM (\<lambda>w. out_edges (dr_stores w b) aid)) ?split) ?I (\<lambda>r. r = edge_parents sp s aid)"
  proof (rule does_keep [where P = "\<lambda>rows. rows = out_edges s aid"])
    show "does ?I (getsM (\<lambda>w. out_edges (dr_stores w b) aid)) ?I (\<lambda>rows. rows = out_edges s aid)"
      by (rule does_gets) (simp add: b viewD(2) [OF view_current])
  next
    fix rows assume rows: "rows = out_edges s aid"
    show "does ?I (?split rows) ?I (\<lambda>r. r = edge_parents sp s aid)"
      unfolding rows isa by (rule does_cons [OF does_split_rows [OF src view_current]]) (simp_all only: edge_parents_def Let_def append_Nil)
  qed
qed

lemma does_new_oid: "does (current sp fl S a s) new_oid (current sp fl S a s) (\<lambda>_. True)"
  unfolding does_def
proof (intro allI impI conjI)
  fix w assume w: "current sp fl S a s w"
  show "current sp fl S a s (snd (new_oid w))"
    by (rule view_same [OF view_current w]) (use viewD(5,6) [OF view_current w] in \<open>simp_all add: new_oid_def\<close>)
qed simp

lemma does_or_edges:
  assumes "reads_from sp S a store"
  shows "does (current sp fl S a s) (if hyper = [] \<and> inst = [] then parents_from_edges aid store else ret (hyper, inst)) (current sp fl S a s)
    (\<lambda>r. r = (if hyper = [] \<and> inst = [] then edge_parents sp s aid else (hyper, inst)))"
  by (auto intro: does_ret does_parents_from_edges [OF assms])

lemma does_lift_eq: "does I (liftR r) I (\<lambda>x. r = Inr x)"
  by (rule does_lift)

lemma does_float: "does (current sp fl S a s) (getsM dr_float) (current sp fl S a s) (\<lambda>x. x = fl)"
  by (rule does_gets) (rule viewD(4) [OF view_current])

lemma does_synset_from_doc:
  assumes src: "reads_from sp S a store"
  shows "does (current sp fl S a s) (synset_from_doc name doc store aid) (current sp fl S a s)
    (\<lambda>syn. is_synset_of sp fl doc s aid name syn)"
  unfolding synset_from_doc_def
  apply (rule does_keep [OF does_float])
  apply (rule does_keep [OF does_lift_eq])+
  apply (rule does_keep [OF does_n_of_list [OF src view_current]])
  apply (rule does_keep [OF does_lift_eq])
  apply (rule does_keep [OF does_n_of_list [OF src view_current]])
  apply (rule does_keep [OF does_or_edges [OF src]])
  apply (unfold split_beta, rule does_keep [OF does_new_oid])
  apply (rule does_ret)
  apply (simp add: is_synset_of_def doc_parents_def field_names_def)
  done


section \<open>The generation only grows\<close>

interpretation gens: world_relation "\<lambda>w w'. dr_gen w \<le> dr_gen (w' :: driver)"
  by unfold_locales auto

lemma gens_modify: "(\<And>w. dr_gen w \<le> dr_gen (f w)) \<Longrightarrow> gens.keeps (modifyM f)"
  by (simp add: gens.keeps_def modifyM_def)

lemma gens_case_option: "gens.keeps m \<Longrightarrow> (\<And>x. gens.keeps (f x)) \<Longrightarrow> gens.keeps (case v of None \<Rightarrow> m | Some x \<Rightarrow> f x)"
  by (cases v) auto

lemma gens_arts: "gens.keeps (arts store)"
  by (auto simp: gens.keeps_def arts_def invalidate_caches_def Let_def split: option.splits)

lemma gens_gate: "dr_gen w \<le> dr_gen (gate a w)"
  by (simp add: gate_def Let_def)

lemma gens_spec_fresh: "dr_gen w \<le> dr_gen (spec_fresh a w)"
  by (simp add: spec_fresh_def Let_def)

lemma gens_new_oid: "gens.keeps new_oid"
  by (simp add: gens.keeps_def new_oid_def)

lemmas gens_intros = gens.keeps_basic gens.keeps_bind gens.keeps_catch gens.keeps_if gens_arts gens_case_option
  gens_modify gens_gate gens_spec_fresh gens_new_oid

lemma gens_observe: "gens.keeps (observe_store store)"
  unfolding observe_store_def by (intro gens_intros)

lemma gens_lang_spec: "gens.keeps (lang_spec store)"
  unfolding lang_spec_def by (intro gens_intros gens_observe) auto

lemma gens_keyed_ready: "gens.keeps (keyed_ready store)"
  unfolding keyed_ready_def by (intro gens_intros gens_observe) auto

lemma gens_spec: "gens.keeps (spec_str key store)" "gens.keeps (spec_list key store)"
  unfolding spec_str_def spec_list_def by (intro gens_intros gens_lang_spec)+

lemma gens_names: "gens.keeps (n_of x store)" "gens.keeps (concept_ids name store)"
  unfolding n_of_def concept_ids_def by (intro gens_intros gens_spec)+

lemma gens_n_of_list: "gens.keeps (n_of_list xs store)"
  by (induction xs) (auto simp only: n_of_list.simps intro: gens_intros gens_names)

lemma gens_split_rows: "gens.keeps (split_rows ls es hyper inst store)"
proof (induction es arbitrary: hyper inst)
  case Nil
  show ?case unfolding split_rows.simps by (intro gens_intros)
next
  case (Cons e es)
  show ?case unfolding split_rows.simps by (intro gens_intros gens_names Cons.IH)
qed

lemma gens_parents_from_edges: "gens.keeps (parents_from_edges aid store)"
  unfolding parents_from_edges_def by (intro gens_intros gens_spec gens_observe gens_split_rows)

lemma gens_synset_from_doc: "gens.keeps (synset_from_doc name doc store aid)"
  unfolding synset_from_doc_def split_beta by (intro gens_intros gens_n_of_list gens_parents_from_edges)

lemma does_gen:
  assumes "does I m J P" "gens.keeps m"
  shows "does (\<lambda>w. I w \<and> n \<le> dr_gen w) m (\<lambda>w. J w \<and> n \<le> dr_gen w) P"
  using assms unfolding does_def gens.keeps_def by (meson order_trans)


section \<open>One synset by name\<close>

definition absent :: "store \<Rightarrow> string \<Rightarrow> bool" where
  "absent s aid \<longleftrightarrow> so_get s aid = Inr None \<or> so_get s aid = Inr (Some [])"

definition found :: "pyval dict \<Rightarrow> (string \<Rightarrow> pyfloat res) \<Rightarrow> store \<Rightarrow> string list \<Rightarrow> string \<Rightarrow> synset option \<Rightarrow> bool" where
  "found sp fl s ids name r = (case r of
       Some syn \<Rightarrow> (\<exists>aid \<in> set ids. holds sp fl s aid name syn)
     | None \<Rightarrow> (\<forall>aid \<in> set ids. absent s aid))"

lemma cache_ok_put:
  assumes "cache_ok sp fl S s w" "gen \<le> dr_gen w" "aid \<in> set (ids_of (spec_str_of sp ''id_prefix'') name)" "s \<in> S"
    "stamp s aid True = Some st" "holds sp fl s aid name syn"
  shows "cache_ok sp fl S s (synset_cache_put name gen st syn aid w)"
  using assms unfolding cache_ok_def synset_cache_put_def by (auto simp: update_conv)

lemma cache_ok_delete:
  assumes "cache_ok sp fl S s w"
  shows "cache_ok sp fl S s (w\<lparr>dr_cache := AList.delete name (dr_cache w)\<rparr>)"
proof -
  have "map_of (AList.delete name (dr_cache w)) n = (if n = name then None else map_of (dr_cache w) n)" for n
    by (simp add: delete_conv)
  then show ?thesis using assms unfolding cache_ok_def by auto
qed

lemma current_put:
  assumes "current sp fl S a s w" "gen \<le> dr_gen w" "aid \<in> set (ids_of (spec_str_of sp ''id_prefix'') name)"
    "stamp s aid True = Some st" "holds sp fl s aid name syn"
  shows "current sp fl S a s (synset_cache_put name gen st syn aid w)"
  using assms cache_ok_put [of sp fl S s w gen aid name st syn]
  unfolding current_def observed_def synset_cache_put_def by simp

lemma current_delete: "current sp fl S a s w \<Longrightarrow> current sp fl S a s (w\<lparr>dr_cache := AList.delete name (dr_cache w)\<rparr>)"
  using cache_ok_delete [of sp fl S s w name] unfolding current_def observed_def by simp

text \<open>The entry a lookup starts from: nothing, or one verified against contents the store once had.\<close>

definition entry_ok :: "pyval dict \<Rightarrow> (string \<Rightarrow> pyfloat res) \<Rightarrow> store set \<Rightarrow> string \<Rightarrow> (int \<times> stamp \<times> synset \<times> string) option \<Rightarrow> string list \<Rightarrow> bool" where
  "entry_ok sp fl S name ent ids \<longleftrightarrow> set ids \<subseteq> set (ids_of (spec_str_of sp ''id_prefix'') name)
     \<and> (case ent of None \<Rightarrow> True | Some (g, st, syn, aid) \<Rightarrow> set ids \<subseteq> {aid}
         \<and> (\<exists>s \<in> S. stamp s aid True = Some st \<and> holds sp fl s aid name syn))"

lemma unchanged_holds:
  assumes "honest S" "s \<in> S" "entry_ok sp fl S name ent ids" "aid \<in> set ids" "unchanged ent (stamp s aid True) = Some syn"
  shows "holds sp fl s aid name syn"
proof -
  obtain g st aid0 where ent: "ent = Some (g, st, syn, aid0)" and st: "stamp s aid True = Some st"
    using assms(5) by (auto simp: unchanged_def split: option.splits if_splits)
  have "aid0 = aid" using assms(3,4) by (auto simp: entry_ok_def ent)
  then obtain s' where s': "s' \<in> S" "stamp s' aid True = Some st" "holds sp fl s' aid name syn"
    using assms(3) by (auto simp: entry_ok_def ent)
  then have "so_get s aid = so_get s' aid \<and> out_edges s aid = out_edges s' aid"
    using assms(1,2) st unfolding honest_def by (metis option.distinct(1))
  then show ?thesis using s'(3) holds_same by blast
qed

lemma does_put:
  assumes "aid \<in> set (ids_of (spec_str_of sp ''id_prefix'') name)" "stamp s aid True = st" "holds sp fl s aid name syn"
  shows "does (\<lambda>w. current sp fl S a s w \<and> gen \<le> dr_gen w)
    (bindM (modifyM (case st of Some st1 \<Rightarrow> synset_cache_put name gen st1 syn aid | None \<Rightarrow> (\<lambda>w. w))) (\<lambda>_. ret (Some syn)))
    (\<lambda>w. current sp fl S a s w \<and> gen \<le> dr_gen w) (\<lambda>r. r = Some syn)"
proof (rule does_keep)
  show "does (\<lambda>w. current sp fl S a s w \<and> gen \<le> dr_gen w)
      (modifyM (case st of Some st1 \<Rightarrow> synset_cache_put name gen st1 syn aid | None \<Rightarrow> (\<lambda>w. w)))
      (\<lambda>w. current sp fl S a s w \<and> gen \<le> dr_gen w) (\<lambda>_. True)"
    using assms current_put [OF _ _ assms(1) _ assms(3)]
    by (intro does_modify) (auto simp: synset_cache_put_def split: option.splits)
qed (simp add: does_ret)

lemma does_try_ids:
  assumes src: "reads_from sp S a store" and "s \<in> S" and "entry_ok sp fl S name ent ids"
  shows "does (\<lambda>w. current sp fl S a s w \<and> gen \<le> dr_gen w) (try_ids name store a gen ent ids)
    (\<lambda>w. current sp fl S a s w \<and> gen \<le> dr_gen w) (found sp fl s ids name)" (is "does ?I _ _ _")
  using assms(3)
proof (induction ids)
  case Nil
  have "does ?I (modifyM (\<lambda>w. w\<lparr>dr_cache := AList.delete name (dr_cache w)\<rparr>)) ?I (\<lambda>_. True)"
    by (rule does_modify) (simp add: current_delete)
  then show ?case unfolding try_ids.simps by (rule does_keep) (rule does_ret, simp add: found_def)
next
  case (Cons aid aids)
  have ids: "aid \<in> set (ids_of (spec_str_of sp ''id_prefix'') name)" using Cons.prems by (simp add: entry_ok_def)
  have rest: "does ?I (try_ids name store a gen ent aids) ?I (found sp fl s aids name)"
    by (rule Cons.IH) (use Cons.prems in \<open>auto simp: entry_ok_def split: option.splits\<close>)
  have here: "found sp fl s (aid # aids) name (Some syn)" if "holds sp fl s aid name syn" for syn
    using that by (auto simp: found_def)
  show ?case unfolding try_ids.simps
  proof (rule does_keep [where P = "\<lambda>st. st = stamp s aid True"])
    show "does ?I (getsM (\<lambda>w. stamp (dr_stores w a) aid True)) ?I (\<lambda>st. st = stamp s aid True)"
      by (rule does_gets) (simp add: current_def)
  next
    fix st assume st: "st = stamp s aid True"
    let ?build = "\<lambda>doc. bindM (synset_from_doc name doc store aid) (\<lambda>syn.
        bindM (modifyM (case st of Some st1 \<Rightarrow> synset_cache_put name gen st1 syn aid | None \<Rightarrow> (\<lambda>w. w))) (\<lambda>_. ret (Some syn)))"
    let ?read = "bindM (getsM (\<lambda>w. so_get (dr_stores w a) aid)) (\<lambda>r. bindM (liftR r) (\<lambda>doc.
        case doc of Some (kv # d) \<Rightarrow> ?build (kv # d) | _ \<Rightarrow> try_ids name store a gen ent aids))"
    have build: "does ?I (?build doc) ?I (found sp fl s (aid # aids) name)"
      if "so_get s aid = Inr (Some doc)" "doc \<noteq> []" for doc
    proof (rule does_keep [OF does_gen [OF does_synset_from_doc [OF src] gens_synset_from_doc]])
      fix syn assume "is_synset_of sp fl doc s aid name syn"
      then have syn: "holds sp fl s aid name syn" using that by (auto simp: holds_def)
      show "does ?I (bindM (modifyM (case st of Some st1 \<Rightarrow> synset_cache_put name gen st1 syn aid | None \<Rightarrow> (\<lambda>w. w)))
          (\<lambda>_. ret (Some syn))) ?I (found sp fl s (aid # aids) name)"
        by (rule does_cons [OF does_put [OF ids st [symmetric] syn]]) (auto intro: here [OF syn])
    qed
    have read: "does ?I ?read ?I (found sp fl s (aid # aids) name)"
    proof (rule does_keep [where P = "\<lambda>r. r = so_get s aid"])
      show "does ?I (getsM (\<lambda>w. so_get (dr_stores w a) aid)) ?I (\<lambda>r. r = so_get s aid)"
        by (rule does_gets) (simp add: current_def)
    next
      fix r assume r: "r = so_get s aid"
      show "does ?I (bindM (liftR r) (\<lambda>doc. case doc of Some (kv # d) \<Rightarrow> ?build (kv # d) | _ \<Rightarrow> try_ids name store a gen ent aids)) ?I
          (found sp fl s (aid # aids) name)"
      proof (rule does_keep [OF does_lift_eq])
        fix doc assume doc: "r = Inr doc"
        have none: "does ?I (try_ids name store a gen ent aids) ?I (found sp fl s (aid # aids) name)" if "absent s aid"
          by (rule does_cons [OF rest]) (use that in \<open>auto simp: found_def split: option.splits\<close>)
        show "does ?I (case doc of Some (kv # d) \<Rightarrow> ?build (kv # d) | _ \<Rightarrow> try_ids name store a gen ent aids) ?I
            (found sp fl s (aid # aids) name)"
        proof (cases "doc = None \<or> doc = Some []")
          case True
          then have "absent s aid" using doc r by (auto simp: absent_def)
          then show ?thesis using none True by auto
        next
          case False
          then obtain kv d where "doc = Some (kv # d)" by (metis list.exhaust option.exhaust)
          then show ?thesis using build [of "kv # d"] doc r by simp
        qed
      qed
    qed
    show "does ?I (case unchanged ent st of
         Some s0 \<Rightarrow> bindM (modifyM (case st of Some st1 \<Rightarrow> synset_cache_put name gen st1 s0 aid | None \<Rightarrow> (\<lambda>w. w))) (\<lambda>_. ret (Some s0))
       | None \<Rightarrow> ?read) ?I (found sp fl s (aid # aids) name)"
    proof (cases "unchanged ent st")
      case None
      then show ?thesis using read by simp
    next
      case (Some syn)
      then have syn: "holds sp fl s aid name syn"
        using unchanged_holds [OF reads_fromD(1) [OF src] assms(2) Cons.prems, of aid syn] st by simp
      have "does ?I (bindM (modifyM (case st of Some st1 \<Rightarrow> synset_cache_put name gen st1 syn aid | None \<Rightarrow> (\<lambda>w. w)))
          (\<lambda>_. ret (Some syn))) ?I (found sp fl s (aid # aids) name)"
        by (rule does_cons [OF does_put [OF ids st [symmetric] syn]]) (auto intro: here [OF syn])
      then show ?thesis using Some by simp
    qed
  qed
qed


lemma does_at_gen:
  assumes "\<And>g. does (\<lambda>w. I w \<and> g \<le> dr_gen w) (f g) J P"
  shows "does I (bindM (getsM dr_gen) f) J P"
  unfolding does_def
proof (intro allI impI)
  fix w assume "I w"
  moreover have "bindM (getsM dr_gen) f w = f (dr_gen w) w" by (simp add: bindM_def getsM_def)
  ultimately show "J (snd (bindM (getsM dr_gen) f w)) \<and> (\<forall>x. fst (bindM (getsM dr_gen) f w) = Inr x \<longrightarrow> P x)"
    using assms [of "dr_gen w"] unfolding does_def by fastforce
qed

text \<open>Reading the store: what is found is what the store holds now.\<close>

lemma does_fetch:
  assumes src: "reads_from sp S a store" and K: "either_view sp fl S a s K" and "s \<in> S" and "entry_ok sp fl S name ent ids"
  shows "does K (bindM (observe_store store) (\<lambda>a. bindM (getsM dr_gen) (\<lambda>gen. try_ids name store a gen ent ids))) K
    (found sp fl s ids name)"
proof (rule does_bind [OF does_observe [OF src K]])
  fix b assume b: "b = a"
  have "does (current sp fl S a s) (bindM (getsM dr_gen) (\<lambda>gen. try_ids name store a gen ent ids)) (current sp fl S a s)
      (found sp fl s ids name)"
    by (rule does_at_gen, rule does_cons [OF does_try_ids [OF src assms(3,4)]]) auto
  then show "does (current sp fl S a s) (bindM (getsM dr_gen) (\<lambda>gen. try_ids name store b gen ent ids)) K (found sp fl s ids name)"
    unfolding b by (rule does_cons) (auto intro: view_weakens [OF K])
qed (rule view_weakens [OF K])

lemma does_fetch_named:
  assumes src: "reads_from sp S a store" and K: "either_view sp fl S a s K" and "s \<in> S"
  shows "does K (bindM (observe_store store) (\<lambda>a. bindM (getsM dr_gen) (\<lambda>gen.
      bindM (concept_ids name store) (\<lambda>ids. try_ids name store a gen None ids)))) K
    (found sp fl s (ids_of (spec_str_of sp ''id_prefix'') name) name)"
proof (rule does_bind [OF does_observe [OF src K]])
  fix b assume b: "b = a"
  let ?ids = "ids_of (spec_str_of sp ''id_prefix'') name"
  have ok: "entry_ok sp fl S name None ?ids" by (simp add: entry_ok_def)
  have "does (current sp fl S a s) (bindM (getsM dr_gen) (\<lambda>gen. bindM (concept_ids name store) (\<lambda>ids.
      try_ids name store a gen None ids))) (current sp fl S a s) (found sp fl s ?ids name)"
    by (rule does_at_gen, rule does_bind [OF does_gen [OF does_concept_ids [OF src view_current] gens_names(2)]])
      (auto intro: does_cons [OF does_try_ids [OF src assms(3) ok]])
  then show "does (current sp fl S a s) (bindM (getsM dr_gen) (\<lambda>gen. bindM (concept_ids name store) (\<lambda>ids.
      try_ids name store b gen None ids))) K (found sp fl s ?ids name)"
    unfolding b by (rule does_cons) (auto intro: view_weakens [OF K])
qed (rule view_weakens [OF K])

text \<open>What a cache entry says, at the observation \<open>obs\<close>.\<close>

definition entry_says :: "pyval dict \<Rightarrow> (string \<Rightarrow> pyfloat res) \<Rightarrow> store set \<Rightarrow> store \<Rightarrow> string
    \<Rightarrow> (int \<times> stamp \<times> synset \<times> string) option \<times> int \<Rightarrow> bool" where
  "entry_says sp fl S obs name r = (case fst r of None \<Rightarrow> True
     | Some (g, st, syn, aid) \<Rightarrow> entry_ok sp fl S name (fst r) [aid] \<and> (g = snd r \<longrightarrow> stamp obs aid True = Some st))"

lemma cache_ok_entry: "cache_ok sp fl S obs w \<Longrightarrow> entry_says sp fl S obs name (map_of (dr_cache w) name, dr_gen w)"
  by (auto simp: entry_says_def entry_ok_def cache_ok_def split: option.splits)

lemma entry_now_holds:
  assumes "honest S" "s \<in> S" "entry_says sp fl S s name (Some (now, st, syn, aid), now)"
  shows "holds sp fl s aid name syn" "aid \<in> set (ids_of (spec_str_of sp ''id_prefix'') name)"
proof -
  have ok: "entry_ok sp fl S name (Some (now, st, syn, aid)) [aid]" and "stamp s aid True = Some st"
    using assms(3) by (auto simp: entry_says_def)
  then show "holds sp fl s aid name syn"
    using unchanged_holds [OF assms(1,2) ok, of aid syn] by (simp add: unchanged_def)
  show "aid \<in> set (ids_of (spec_str_of sp ''id_prefix'') name)" using ok by (simp add: entry_ok_def)
qed

text \<open>
  The promise of a lookup: a synset it returns is the one the artifact at one of the ids of its name
  holds now; it returns none only if an id of the name, with nothing cached all of them, is empty.
\<close>

definition served :: "pyval dict \<Rightarrow> (string \<Rightarrow> pyfloat res) \<Rightarrow> store \<Rightarrow> string \<Rightarrow> synset option \<Rightarrow> bool" where
  "served sp fl s name r \<longleftrightarrow> (\<exists>ids. set ids \<subseteq> set (ids_of (spec_str_of sp ''id_prefix'') name) \<and> found sp fl s ids name r
     \<and> (ids = [] \<longrightarrow> ids_of (spec_str_of sp ''id_prefix'') name = []))"

lemma does_get_synset_from:
  assumes src: "reads_from sp S a store" and K: "either_view sp fl S a s K" and s: "s \<in> S" and says: "entry_says sp fl S obs name (ent, now)"
    and cur: "K = current sp fl S a s \<Longrightarrow> obs = s"
  shows "does K (case ent of
       Some (g, st, syn, aid) \<Rightarrow>
         if g = now then ret (Some syn)
         else bindM (observe_store store) (\<lambda>a. bindM (getsM dr_gen) (\<lambda>gen. try_ids name store a gen ent [aid]))
     | None \<Rightarrow> bindM (observe_store store) (\<lambda>a. bindM (getsM dr_gen) (\<lambda>gen.
         bindM (concept_ids name store) (\<lambda>ids. try_ids name store a gen None ids)))) K
    (\<lambda>r. K = current sp fl S a s \<longrightarrow> served sp fl s name r)"
proof (cases ent)
  case None
  have "does K (bindM (observe_store store) (\<lambda>a. bindM (getsM dr_gen) (\<lambda>gen.
         bindM (concept_ids name store) (\<lambda>ids. try_ids name store a gen None ids)))) K
       (\<lambda>r. K = current sp fl S a s \<longrightarrow> served sp fl s name r)"
    by (rule does_cons [OF does_fetch_named [OF src K s]]) (auto simp: served_def)
  then show ?thesis using None by simp
next
  case (Some e)
  obtain g st syn aid where e: "e = (g, st, syn, aid)" by (cases e)
  have ok: "entry_ok sp fl S name ent [aid]" using says by (simp add: entry_says_def Some e)
  have sub: "set [aid] \<subseteq> set (ids_of (spec_str_of sp ''id_prefix'') name)" using ok by (simp add: entry_ok_def)
  show ?thesis
  proof (cases "g = now")
    case True
    have now: "served sp fl s name (Some syn)" if "K = current sp fl S a s"
    proof -
      have "holds sp fl s aid name syn"
        by (rule entry_now_holds(1) [OF reads_fromD(1) [OF src] s])
          (use says cur [OF that] in \<open>simp add: Some e True\<close>)
      then show ?thesis using sub unfolding served_def found_def by (intro exI [of _ "[aid]"]) auto
    qed
    have "does K (ret (Some syn)) K (\<lambda>r. K = current sp fl S a s \<longrightarrow> served sp fl s name r)"
      by (rule does_ret) (rule impI, erule now)
    then show ?thesis using True Some e by simp
  next
    case False
    have "does K (bindM (observe_store store) (\<lambda>a. bindM (getsM dr_gen) (\<lambda>gen. try_ids name store a gen ent [aid]))) K
       (\<lambda>r. K = current sp fl S a s \<longrightarrow> served sp fl s name r)"
      by (rule does_cons [OF does_fetch [OF src K s ok]]) (use sub in \<open>auto simp only: served_def list.distinct\<close>)
    then show ?thesis using False Some e by simp
  qed
qed


lemma get_synset_run:
  "get_synset name store w = (case map_of (dr_cache w) name of
       Some (g, st, syn, aid) \<Rightarrow>
         if g = dr_gen w then ret (Some syn)
         else bindM (observe_store store) (\<lambda>a. bindM (getsM dr_gen) (\<lambda>gen. try_ids name store a gen (map_of (dr_cache w) name) [aid]))
     | None \<Rightarrow> bindM (observe_store store) (\<lambda>a. bindM (getsM dr_gen) (\<lambda>gen.
         bindM (concept_ids name store) (\<lambda>ids. try_ids name store a gen None ids)))) w"
  by (simp add: get_synset_def bindM_def getsM_def split: option.splits)

lemma does_get_synset:
  assumes src: "reads_from sp S a store" and K: "either_view sp fl S a s K"
  shows "does K (get_synset name store) K (\<lambda>r. K = current sp fl S a s \<longrightarrow> served sp fl s name r)"
  unfolding does_def
proof (intro allI impI)
  fix w assume w: "K w"
  have s: "s \<in> S" by (rule viewD(3) [OF K w])
  obtain obs where obs: "cache_ok sp fl S obs w" and cur: "K = current sp fl S a s \<Longrightarrow> obs = s"
  proof (cases "K = current sp fl S a s")
    case True
    then show ?thesis using w that [of s] by (auto simp: current_def observed_def)
  next
    case False
    then show ?thesis using viewD(7) [OF K w] that by (auto simp: earlier_def observed_def)
  qed
  show "K (snd (get_synset name store w)) \<and> (\<forall>x. fst (get_synset name store w) = Inr x \<longrightarrow>
      (K = current sp fl S a s \<longrightarrow> served sp fl s name x))"
    using does_get_synset_from [OF src K s cache_ok_entry [OF obs] cur] w
    unfolding does_def get_synset_run [of name store w] by blast
qed

lemma does_keyed_ready:
  assumes src: "reads_from sp S a store" and K: "either_view sp fl S a s K"
  shows "does K (keyed_ready store) K (\<lambda>b. b)"
  unfolding keyed_ready_def
proof (rule does_keep [where P = "\<lambda>b. \<not> b"])
  show "does K (getsM (installed_index_answers store)) K (\<lambda>b. \<not> b)"
    by (rule does_gets) (simp add: installed_index_answers_def viewD(1) [OF K])
next
  fix b :: bool assume "\<not> b"
  let ?set = "\<lambda>b. bindM (modifyM (\<lambda>w. w\<lparr>dr_ready := Some b\<rparr>)) (\<lambda>_. ret b)"
  let ?look = "bindM (observe_store store) (\<lambda>a. bindM (getsM (\<lambda>w.
             case so_get (dr_stores w a) TRANSDUCER_ID of Inl e \<Rightarrow> False | Inr doc \<Rightarrow> doc \<noteq> None)) ?set)"
  have set: "does (current sp fl S a s) (?set True) (current sp fl S a s) (\<lambda>b. b)"
  proof (rule does_keep)
    show "does (current sp fl S a s) (modifyM (\<lambda>w. w\<lparr>dr_ready := Some True\<rparr>)) (current sp fl S a s) (\<lambda>_. True)"
      by (rule does_modify, rule view_same [OF view_current]) (auto dest: viewD(5) [OF view_current])
  qed (rule does_ret, simp)
  have there: "does (current sp fl S a s) (getsM (\<lambda>w. case so_get (dr_stores w a) TRANSDUCER_ID of Inl e \<Rightarrow> False | Inr doc \<Rightarrow> doc \<noteq> None))
      (current sp fl S a s) (\<lambda>b. b)"
  proof (rule does_gets)
    fix w assume w: "current sp fl S a s w"
    obtain D where "so_get s TRANSDUCER_ID = Inr (Some D)" using speaks_doc [OF src viewD(3) [OF view_current w]] .
    then show "case so_get (dr_stores w a) TRANSDUCER_ID of Inl e \<Rightarrow> False | Inr doc \<Rightarrow> doc \<noteq> None"
      using viewD(2) [OF view_current w] by simp
  qed
  have look: "does K ?look K (\<lambda>b. b)"
  proof (rule does_bind [OF does_observe [OF src K]])
    fix x assume x: "x = a"
    show "does (current sp fl S a s) (bindM (getsM (\<lambda>w.
        case so_get (dr_stores w x) TRANSDUCER_ID of Inl e \<Rightarrow> False | Inr doc \<Rightarrow> doc \<noteq> None)) ?set) K (\<lambda>b. b)"
      unfolding x by (rule does_cons [OF does_keep [OF there]]) (use set in \<open>auto intro: view_weakens [OF K]\<close>)
  qed (rule view_weakens [OF K])
  have ready: "does K (getsM dr_ready) K (\<lambda>r. r \<in> {None, Some True})"
    by (rule does_gets) (rule viewD(6) [OF K])
  have "does K (bindM (arts store) (\<lambda>a. bindM (modifyM (spec_fresh a)) (\<lambda>_. bindM (getsM dr_ready) (\<lambda>ready.
      case ready of Some b \<Rightarrow> ret b | None \<Rightarrow> ?look)))) K (\<lambda>b. b)"
  proof (rule does_keep [OF does_arts [OF src K]], rule does_keep [where P = "\<lambda>_. True"])
    fix x assume x: "x = a"
    show "does K (modifyM (spec_fresh x)) K (\<lambda>_. True)" unfolding x by (rule does_spec_fresh [OF K])
  next
    show "does K (bindM (getsM dr_ready) (\<lambda>ready. case ready of Some b \<Rightarrow> ret b | None \<Rightarrow> ?look)) K (\<lambda>b. b)"
      by (rule does_keep [OF ready]) (auto intro: does_ret look)
  qed
  then show "does K (if b then ret False else bindM (arts store) (\<lambda>a. bindM (modifyM (spec_fresh a)) (\<lambda>_. bindM (getsM dr_ready) (\<lambda>ready.
      case ready of Some b \<Rightarrow> ret b | None \<Rightarrow> ?look)))) K (\<lambda>b. b)"
    using \<open>\<not> b\<close> by simp
qed

lemma does_resolve:
  assumes src: "reads_from sp S a store" and K: "either_view sp fl S a s K"
  shows "does K (resolve name store) K (\<lambda>r. K = current sp fl S a s \<longrightarrow> served sp fl s name r)"
  unfolding resolve_def
proof (rule does_keep [OF does_keyed_ready [OF assms]])
  fix ready assume "ready"
  then show "does K (if ready then get_synset name store else bindM (load_synsets store) (\<lambda>idx. ret (map_of idx name))) K
      (\<lambda>r. K = current sp fl S a s \<longrightarrow> served sp fl s name r)"
    using does_get_synset [OF assms] by simp
qed


lemma served_SomeD:
  "served sp fl s name (Some syn) \<Longrightarrow> \<exists>aid \<in> set (ids_of (spec_str_of sp ''id_prefix'') name). holds sp fl s aid name syn"
  unfolding served_def found_def by auto

lemma does_synset_named:
  assumes src: "reads_from sp S a store"
  shows "does (earlier sp fl S a s) (synset_named name store) (current sp fl S a s)
    (\<lambda>syn. \<exists>aid \<in> set (ids_of (spec_str_of sp ''id_prefix'') name). holds sp fl s aid name syn)"
proof -
  let ?P = "\<lambda>syn. \<exists>aid \<in> set (ids_of (spec_str_of sp ''id_prefix'') name). holds sp fl s aid name syn"
  have run: "synset_named name store w = (case resolve name store (gate a w) of
      (Inl e, w') \<Rightarrow> (Inl e, w') | (Inr None, w') \<Rightarrow> (Inl wordnet_error, w') | (Inr (Some syn), w') \<Rightarrow> (Inr syn, w'))"
    if "earlier sp fl S a s w" for w
    using arts_bound [OF viewD(1) [OF view_earlier that] reads_fromD(3) [OF src]]
    by (simp add: synset_named_def observe_store_def bindM_def modifyM_def ret_def raise_def split: prod.splits sum.splits option.splits)
  show ?thesis unfolding does_def
  proof (intro allI impI)
    fix w assume w: "earlier sp fl S a s w"
    have cur: "current sp fl S a s (gate a w)" by (rule gate_current [OF src view_earlier w])
    obtain r w' where res: "resolve name store (gate a w) = (r, w')" by fastforce
    have cur': "current sp fl S a s w'" by (rule doesD [OF does_resolve [OF src view_current] cur res])
    have syn: "?P syn" if "r = Inr (Some syn)" for syn
      by (rule served_SomeD) (use does_result [OF does_resolve [OF src view_current] cur res [unfolded that]] in simp)
    show "current sp fl S a s (snd (synset_named name store w)) \<and> (\<forall>x. fst (synset_named name store w) = Inr x \<longrightarrow> ?P x)"
      unfolding run [OF w] res using cur' syn by (cases r) (auto split: option.splits)
  qed
qed

section \<open>Histories\<close>

text \<open>
  What happens to the module once a store is bound: the store is written, it is observed, a synset is
  read by its public read or by the walk to the parents, and the caches are dropped.
\<close>

inductive lookups :: "store set \<Rightarrow> nat \<Rightarrow> (string \<Rightarrow> pyfloat res) \<Rightarrow> driver \<Rightarrow> bool" for S a fl where
  bound: "stores a \<in> S \<Longrightarrow> lookups S a fl (snd (bind_store (Some a) (driver_start stores fl)))"
| written: "lookups S a fl w \<Longrightarrow> stores a \<in> S \<Longrightarrow> lookups S a fl (w\<lparr>dr_stores := stores\<rparr>)"
| seen: "lookups S a fl w \<Longrightarrow> store \<in> {None, Some a} \<Longrightarrow> lookups S a fl (snd (observe_store store w))"
| read: "lookups S a fl w \<Longrightarrow> store \<in> {None, Some a} \<Longrightarrow> lookups S a fl (snd (synset_named n store w))"
| parent: "lookups S a fl w \<Longrightarrow> store \<in> {None, Some a} \<Longrightarrow> lookups S a fl (snd (resolve n store w))"
| dropped: "lookups S a fl w \<Longrightarrow> lookups S a fl (invalidate_caches False w)"

lemma earlier_bound: "stores a \<in> S \<Longrightarrow> earlier sp fl S a (stores a) (snd (bind_store (Some a) (driver_start stores fl)))"
  by (auto simp: bind_store_def bindM_def ret_def arts_def driver_start_def earlier_def observed_def cache_ok_def Let_def)

lemma earlier_written:
  assumes "earlier sp fl S a s w" "stores a \<in> S"
  shows "earlier sp fl S a (stores a) (w\<lparr>dr_stores := stores\<rparr>)"
  using assms unfolding earlier_def observed_def cache_ok_def by auto

lemma earlier_dropped:
  assumes "earlier sp fl S a s w"
  shows "earlier sp fl S a s (invalidate_caches False w)"
  using assms unfolding earlier_def observed_def cache_ok_def invalidate_caches_def by (auto simp: Let_def)

lemma lookups_earlier:
  assumes "lookups S a fl w" and store: "honest S" "speaks S sp"
  shows "earlier sp fl S a (dr_stores w a) w"
  using assms(1)
proof induction
  case (bound stores)
  then show ?case using earlier_bound [of stores a S sp fl] viewD(2) [OF view_earlier] by metis
next
  case (written w stores)
  then show ?case using earlier_written [of sp fl S a "dr_stores w a" w stores] by simp
next
  case (seen w store)
  have src: "reads_from sp S a store" using seen.hyps store by (simp add: reads_from_def)
  have "earlier sp fl S a (dr_stores w a) (snd (observe_store store w))"
    using does_observe [OF src view_earlier] seen.IH current_earlier unfolding does_def by blast
  then show ?case using viewD(2) [OF view_earlier] by metis
next
  case (read w store n)
  have src: "reads_from sp S a store" using read.hyps store by (simp add: reads_from_def)
  have "earlier sp fl S a (dr_stores w a) (snd (synset_named n store w))"
    using does_synset_named [OF src] read.IH current_earlier unfolding does_def by blast
  then show ?case using viewD(2) [OF view_earlier] by metis
next
  case (parent w store n)
  have src: "reads_from sp S a store" using parent.hyps store by (simp add: reads_from_def)
  have "earlier sp fl S a (dr_stores w a) (snd (resolve n store w))"
    using does_resolve [OF src view_earlier] parent.IH unfolding does_def by blast
  then show ?case using viewD(2) [OF view_earlier] by metis
next
  case (dropped w)
  then show ?case using earlier_dropped viewD(2) [OF view_earlier] by metis
qed

text \<open>C5: Whatever was read and written before, the synset a public read returns is the one the
  artifact under an id of its name holds at that moment: its lemmas, its information content, and the
  parents of its fields or of the edges out of it. The store must move its marks on every write and
  keep the transducer artifact; the caches are only used where the marks say nothing was written.\<close>

theorem synset_never_stale:
  assumes "honest S" "speaks S sp" "lookups S a fl w" "store \<in> {None, Some a}"
    and "synset_named name store w = (Inr syn, w')"
  shows "\<exists>aid \<in> set (ids_of (spec_str_of sp ''id_prefix'') name). holds sp fl (dr_stores w a) aid name syn"
proof -
  have src: "reads_from sp S a store" using assms by (simp add: reads_from_def)
  show ?thesis by (rule does_result [OF does_synset_named [OF src] lookups_earlier [OF assms(3,1,2)] assms(5)])
qed



section \<open>An example\<close>

lemma synset_named_keyed:
  assumes "fst (observe_store store w) = Inr a" "fst (keyed_ready store (snd (observe_store store w))) = Inr True"
  shows "synset_named n store w = (let r = get_synset n store (snd (keyed_ready store (snd (observe_store store w)))) in
    (case fst r of Inl e \<Rightarrow> Inl e | Inr None \<Rightarrow> Inl wordnet_error | Inr (Some s) \<Rightarrow> Inr s, snd r))"
proof -
  obtain w1 where o: "observe_store store w = (Inr a, w1)" using assms(1) by (cases "observe_store store w") auto
  obtain w2 where k: "keyed_ready store w1 = (Inr True, w2)" using assms(2) o by (cases "keyed_ready store w1") auto
  obtain r w3 where g: "get_synset n store w2 = (r, w3)" by fastforce
  show ?thesis by (cases r) (auto simp: synset_named_def resolve_def bindM_def ret_def raise_def o k g Let_def split: option.splits)
qed

text \<open>The artifact of \<open>dog\<close> after its \<open>m\<close>-th write.\<close>

definition ex_dog_store :: "int \<Rightarrow> store" where
  "ex_dog_store m = \<lparr> so_mark = Some m,
     so_get = (\<lambda>aid. if aid = TRANSDUCER_ID then Inr (Some [(''id'', VStr TRANSDUCER_ID)])
       else if aid = ''wn-dog'' then Inr (Some [(''id'', VStr ''wn-dog''), (''pos'', VStr ''n''), (''ic'', VInt m)])
       else Inr None),
     so_list = None, so_version = Some (\<lambda>aid. Inr (if aid = ''wn-dog'' then Some m else Some 0)),
     so_edge_mark = Some (\<lambda>_. Inr (7, 0, True)),
     so_edges = Some [\<lparr> ed_src = ''wn-dog'', ed_dst = ''wn-animal'', ed_label = ''hypernym'', ed_props = [] \<rparr>] \<rparr>"

definition ex_no_float :: "string \<Rightarrow> pyfloat res" where
  "ex_no_float s = Inl (ValueError ''float'')"

definition ex_bound :: driver where
  "ex_bound = snd (bind_store (Some 7) (driver_start (\<lambda>_. ex_dog_store 1) ex_no_float))"

definition ex_read :: driver where
  "ex_read = snd (get_synset ''dog'' None (snd (keyed_ready None (snd (observe_store None ex_bound)))))"

definition ex_written :: driver where
  "ex_written = ex_read\<lparr>dr_stores := (\<lambda>_. ex_dog_store 2)\<rparr>"

lemma ex_first_run: "fst (observe_store None ex_bound) = Inr 7" "fst (keyed_ready None (snd (observe_store None ex_bound))) = Inr True"
  by code_simp+

lemma ex_second_run: "fst (observe_store None ex_written) = Inr 7"
  "fst (keyed_ready None (snd (observe_store None ex_written))) = Inr True"
  "(case fst (get_synset ''dog'' None (snd (keyed_ready None (snd (observe_store None ex_written))))) of
     Inr (Some s) \<Rightarrow> sy_ic s = Some (Fin 2) | _ \<Rightarrow> False)"
  by code_simp+

lemma ex_read_is: "ex_read = snd (synset_named ''dog'' None ex_bound)"
  by (simp add: synset_named_keyed [OF ex_first_run] ex_read_def Let_def)

lemma ex_honest: "honest {ex_dog_store 1, ex_dog_store 2}"
  by (auto simp: honest_def ex_dog_store_def stamp_def out_edges_def split: if_splits)

lemma ex_speaks: "speaks {ex_dog_store 1, ex_dog_store 2} []"
proof -
  have "spec_of [(''id'', VStr TRANSDUCER_ID)] = Inr []" by code_simp
  then show ?thesis unfolding speaks_def by (intro exI [of _ "[(''id'', VStr TRANSDUCER_ID)]"]) (simp add: ex_dog_store_def)
qed

lemma ex_lookups: "lookups {ex_dog_store 1, ex_dog_store 2} 7 ex_no_float ex_written"
  unfolding ex_written_def ex_read_is ex_bound_def by (intro lookups.written lookups.read lookups.bound) auto

theorem synset_never_stale_witness:
  "\<exists>syn w'. synset_named ''dog'' None ex_written = (Inr syn, w') \<and> sy_ic syn = Some (Fin 2)
     \<and> (\<exists>aid \<in> set (ids_of (spec_str_of [] ''id_prefix'') ''dog''). holds [] ex_no_float (ex_dog_store 2) aid ''dog'' syn)"
proof -
  obtain syn w' where run: "synset_named ''dog'' None ex_written = (Inr syn, w')" and ic: "sy_ic syn = Some (Fin 2)"
    using ex_second_run(3) unfolding synset_named_keyed [OF ex_second_run(1,2)]
    by (auto simp: Let_def split: sum.splits option.splits)
  have "dr_stores ex_written 7 = ex_dog_store 2" by (simp add: ex_written_def)
  then show ?thesis
    using synset_never_stale [OF ex_honest ex_speaks ex_lookups _ run] run ic by auto
qed

section \<open>What the caches do not see\<close>

text \<open>
  A concept that moves from its bare id to the prefixed one between two reads: the second read asks
  only the id the cached synset came from, and answers that there is no such synset.
\<close>

definition ex_moved_store :: "string \<Rightarrow> int \<Rightarrow> store" where
  "ex_moved_store at_id m = (ex_dog_store m)\<lparr>so_get := (\<lambda>aid.
     if aid = TRANSDUCER_ID then Inr (Some [(''id'', VStr TRANSDUCER_ID)])
     else if aid = at_id then Inr (Some [(''id'', VStr at_id), (''ic'', VInt m)]) else Inr None),
   so_version := Some (\<lambda>aid. Inr (if aid = TRANSDUCER_ID \<or> aid = at_id then Some m else None))\<rparr>"

definition ex_reread :: "string \<Rightarrow> store \<Rightarrow> store \<Rightarrow> synset option res" where
  "ex_reread name before after = (let w = snd (bind_store (Some 7) (driver_start (\<lambda>_. before) ex_no_float));
     w1 = snd (get_synset name None w) in fst (get_synset name None (snd (observe_store None (w1\<lparr>dr_stores := (\<lambda>_. after)\<rparr>)))))"

lemma moved_concept_not_found:
  "ex_reread ''dog'' (ex_moved_store ''dog'' 1) (ex_moved_store ''wn-dog'' 2) = Inr None"
  "first_doc (ex_moved_store ''wn-dog'' 2) (ids_of ''wn-'' ''dog'') = Inr [(''id'', VStr ''wn-dog''), (''ic'', VInt 2)]"
  by code_simp+

definition ex_respec_store :: "int \<Rightarrow> pyval dict \<Rightarrow> store" where
  "ex_respec_store m sp = (ex_dog_store 1)\<lparr>so_mark := Some m, so_get := (\<lambda>aid.
     if aid = TRANSDUCER_ID then Inr (Some [(''id'', VStr TRANSDUCER_ID), (''spec'', VDict sp)])
     else if aid = ''wn-dog'' then Inr (Some [(''id'', VStr ''wn-dog'')]) else Inr None),
   so_version := Some (\<lambda>aid. Inr (if aid = TRANSDUCER_ID then Some m else Some 0))\<rparr>"

text \<open>The specification names another is-a label; the synset read under the old one is still served.\<close>

lemma old_labels_served:
  "(case ex_reread ''dog'' (ex_respec_store 1 []) (ex_respec_store 2 [(''isa_labels'', VList [VStr ''kind_of''])]) of
     Inr (Some s) \<Rightarrow> sy_hyper s = [''animal''] | _ \<Rightarrow> False)"
  "(case ex_reread ''dog'' (ex_respec_store 2 [(''isa_labels'', VList [VStr ''kind_of''])]) (ex_respec_store 2 [(''isa_labels'', VList [VStr ''kind_of''])]) of
     Inr (Some s) \<Rightarrow> sy_hyper s = [] | _ \<Rightarrow> False)"
  by code_simp+

end
