(* ===== verification/Ontology_Words_Laws.thy ===== *)
theory Ontology_Words_Laws
  imports Ontology_Driver_Laws
begin

text \<open>
  The words of the ontology: no store, no answer; ids and names; the range read of the lexicon is the
  set of entries with a prefix; \<open>morphy\<close> returns only words the lexicon holds; the index of the whole
  corpus is closed, so that a sense it lists is a synset it has.
\<close>

section \<open>No store\<close>

definition storeless :: "driver \<Rightarrow> bool" where
  "storeless w \<longleftrightarrow> dr_source w = None \<and> dr_index w = None
     \<and> (dr_provider w = None \<or> dr_provider w = Some None \<and> dr_default w = None)"

lemma arts_storeless: "storeless w \<Longrightarrow> fst (arts None w) = Inl store_required"
  by (auto simp: storeless_def arts_def Let_def)

lemma bind_error: "fst (m w) = Inl e \<Longrightarrow> fst (bindM m f w) = Inl e"
  by (auto simp: bindM_def split: prod.splits)

lemma observe_storeless: "storeless w \<Longrightarrow> fst (observe_store None w) = Inl store_required"
  unfolding observe_store_def by (rule bind_error [OF arts_storeless])

lemma bindM_gets: "bindM (getsM f) g w = g (f w) w"
  by (simp add: bindM_def getsM_def)

lemma load_indexes_storeless: "storeless w \<Longrightarrow> fst (load_indexes None w) = Inl store_required"
proof -
  assume w: "storeless w"
  let ?load = "\<lambda>stale. if stale then bindM (getsM dr_gen) (\<lambda>g. bindM (load_index None) (\<lambda>_.
      bindM (modifyM (\<lambda>w. w\<lparr>dr_index_gen := g, dr_foreign := False\<rparr>)) (\<lambda>_. both_indexes))) else both_indexes"
  have "fst (load_indexes None w) = fst (bindM (observe_store None) (\<lambda>_. bindM (getsM index_stale) ?load) w)"
    using w by (simp add: load_indexes_def bindM_gets installed_index_answers_def answers_for_dumb_store_def storeless_def)
  also have "fst (bindM (observe_store None) (\<lambda>_. bindM (getsM index_stale) ?load) w) = Inl store_required"
    by (rule bind_error) (rule observe_storeless [OF w])
  finally show ?thesis .
qed

lemma ic_basis_storeless: "storeless w \<Longrightarrow> fst (ic_basis None w) = Inr []"
proof -
  have caught: "fst (m w) = Inl e \<Longrightarrow> fst (catchM m (\<lambda>_. ret v) w) = Inr v" for m :: "(driver, 'a) prog" and e v
    by (auto simp: catchM_def ret_def split: prod.splits)
  assume w: "storeless w"
  have failing: "fst (bindM (observe_store None) f w) = Inl store_required" for f :: "nat \<Rightarrow> (driver, pyval dict) prog"
    by (rule bind_error) (rule observe_storeless [OF w])
  show ?thesis unfolding ic_basis_def by (rule caught, rule failing)
qed

text \<open>C17: With no store passed, bound or registered, and no index installed, the six reads of synsets, of base forms,
  of the coverage of the information content and of the artifact of a concept do not answer: each raises
  \<open>OntologyStoreRequired\<close>, none gives an empty ontology. The read of the record of the measurement, which
  catches every error, answers that there is none.\<close>

theorem no_store_no_answer:
  assumes "storeless w"
  shows "fst (synset_named name None w) = Inl store_required \<and> fst (synsets word pos None w) = Inl store_required
    \<and> fst (morphy word pos None w) = Inl store_required \<and> fst (all_synsets pos None w) = Inl store_required
    \<and> fst (ic_coverage None w) = Inl store_required \<and> fst (concept_artifact name None w) = Inl store_required
    \<and> fst (ic_basis None w) = Inr []"
  unfolding synset_named_def synsets_def morphy_def all_synsets_def ic_coverage_def concept_artifact_def load_synsets_def
  by (intro conjI bind_error observe_storeless load_indexes_storeless ic_basis_storeless assms)

theorem no_store_no_answer_witness:
  "storeless (driver_start (\<lambda>_. ex_dog_store 1) ex_no_float)
    \<and> fst (synsets ''dog'' None None (driver_start (\<lambda>_. ex_dog_store 1) ex_no_float)) = Inl store_required"
proof -
  have "storeless (driver_start (\<lambda>_. ex_dog_store 1) ex_no_float)" by (simp add: storeless_def driver_start_def)
  then show ?thesis using no_store_no_answer by blast
qed

section \<open>Ids and names\<close>

text \<open>Every id but the bare prefix, and one that carries the prefix twice, is among the ids of the
  name it is stripped to; so the synset of an id is found again under its name.\<close>

theorem concept_ids_round_trip:
  assumes "x \<noteq> []" "x \<noteq> p" "p \<noteq> [] \<longrightarrow> \<not> py_startswith x (p @ p)"
  shows "x \<in> set (ids_of p (strip_prefix p x)) \<and> (\<forall>y \<in> set (ids_of p (strip_prefix p x)). strip_prefix p y = strip_prefix p x)"
proof (cases "p \<noteq> [] \<and> py_startswith x p")
  case True
  then obtain t where x: "x = p @ t" by (auto simp: py_startswith_iff)
  then have t: "t \<noteq> []" "\<not> py_startswith t p" using assms True by (auto simp: py_startswith_iff)
  have "strip_prefix p x = t" "strip_prefix p t = t" "strip_prefix p (p @ t) = t"
    using True x t by (simp_all add: strip_prefix_def)
  then show ?thesis using True t by (simp add: ids_of_def x)
next
  case False
  then have "strip_prefix p x = x" by (auto simp: strip_prefix_def)
  then show ?thesis using False assms by (auto simp: ids_of_def strip_prefix_def)
qed

theorem concept_ids_round_trip_witness:
  "strip_prefix ''wn-'' ''wn-dog'' = ''dog'' \<and> ''wn-dog'' \<in> set (ids_of ''wn-'' (strip_prefix ''wn-'' ''wn-dog''))
    \<and> list_all (\<lambda>y. strip_prefix ''wn-'' y = ''dog'') (ids_of ''wn-'' ''dog'')"
proof -
  have dog: "strip_prefix ''wn-'' ''wn-dog'' = ''dog''" by (simp add: strip_prefix_def py_startswith_def)
  have "''wn-dog'' \<in> set (ids_of ''wn-'' (strip_prefix ''wn-'' ''wn-dog''))
    \<and> (\<forall>y \<in> set (ids_of ''wn-'' (strip_prefix ''wn-'' ''wn-dog'')). strip_prefix ''wn-'' y = strip_prefix ''wn-'' ''wn-dog'')"
    by (rule concept_ids_round_trip) (simp_all add: py_startswith_def)
  then show ?thesis unfolding dog by (simp add: list_all_iff)
qed

section \<open>The range read\<close>

lemma points_less: "n \<in> set (points s) \<Longrightarrow> n < 0x10FFFF"
proof -
  assume "n \<in> set (points s)"
  then obtain c where "n = code c" by (auto simp: points_def code_def)
  moreover have "code c < 256" by (rule code_less)
  ultimately show ?thesis by linarith
qed

lemma points_inj: "points s = points t \<longleftrightarrow> s = t"
  unfolding points_def by (metis (no_types) inj_map_eq_map inj_def char_of_char)

lemma range_is_prefix: "points p \<le> points src \<and> points src < points p @ [0x10FFFF] \<longleftrightarrow> (\<exists>t. src = p @ t)"
proof (induction p arbitrary: src)
  case Nil
  show ?case
  proof (cases src)
    case (Cons c s)
    then have "of_char c < (0x10FFFF :: nat)" using points_less [of "of_char c" src] by (simp add: points_def)
    then show ?thesis using Cons by (simp add: points_def)
  qed (simp add: points_def)
next
  case (Cons c p)
  show ?case
  proof (cases src)
    case Nil
    then show ?thesis by (simp add: points_def)
  next
    case src: (Cons d s)
    have "(of_char c :: nat) = of_char d \<longleftrightarrow> c = d" by simp
    then show ?thesis using Cons.IH [of s] src by (auto simp: points_def)
  qed
qed

lemma in_range_startswith: "in_range p src \<longleftrightarrow> py_startswith src p"
  by (simp add: in_range_def range_is_prefix py_startswith_iff)

text \<open>The range read answers whether the lexicon holds an entry whose surface starts with the text;
  a store that cannot be read holds none.\<close>

theorem entry_prefix_decides:
  assumes "spec_str ''lemma_prefix'' store w = (Inr lp, w1)" "observe_store store w1 = (Inr a, w2)"
  shows "fst (entry_prefix_exists surface store w) = Inr (case so_edges (dr_stores w2 a) of
     None \<Rightarrow> False | Some es \<Rightarrow> list_ex (\<lambda>e. py_startswith (ed_src e) (lp @ surface)) es)"
  using assms by (cases "so_edges (dr_stores w2 a)")
    (simp_all add: entry_prefix_exists_def bindM_def catchM_def getsM_def liftR_def ret_def edges_of_def in_range_startswith)

definition ex_lexicon :: driver where
  "ex_lexicon = snd (bind_store (Some 7) (driver_start (\<lambda>_. (ex_dog_store 1)\<lparr>so_edges := Some
     [\<lparr> ed_src = ''lemma:doghouse'', ed_dst = ''wn-doghouse.n.01'', ed_label = ''lex:en'',
        ed_props = [(''pos'', VStr ''n''), (''rank'', VInt 2)] \<rparr>]\<rparr>) ex_no_float))"

lemma pair_of_fst: "fst r = x \<Longrightarrow> r = (x, snd r)"
  by auto

theorem entry_prefix_decides_witness:
  "fst (entry_prefix_exists ''dog'' None ex_lexicon) = Inr True"
proof -
  have lp: "spec_str ''lemma_prefix'' None ex_lexicon = (Inr ''lemma:'', snd (spec_str ''lemma_prefix'' None ex_lexicon))"
    by (rule pair_of_fst) code_simp
  have a: "observe_store None (snd (spec_str ''lemma_prefix'' None ex_lexicon))
      = (Inr 7, snd (observe_store None (snd (spec_str ''lemma_prefix'' None ex_lexicon))))"
    by (rule pair_of_fst) code_simp
  have held: "(case so_edges (dr_stores (snd (observe_store None (snd (spec_str ''lemma_prefix'' None ex_lexicon)))) 7) of
     None \<Rightarrow> False | Some es \<Rightarrow> list_ex (\<lambda>e. py_startswith (ed_src e) (''lemma:'' @ ''dog'')) es) = True" by code_simp
  show ?thesis unfolding entry_prefix_decides [OF lp a] held ..
qed


section \<open>The entry of a word\<close>

definition entry_of :: "pyval dict \<Rightarrow> store \<Rightarrow> string \<Rightarrow> string option \<Rightarrow> edge \<Rightarrow> bool" where
  "entry_of sp s word pos e \<longleftrightarrow> (\<exists>es. so_edges s = Some es \<and> e \<in> set es)
     \<and> ed_src e = spec_str_of sp ''lemma_prefix'' @ word \<and> ed_label e = spec_str_of sp ''entry_label''
     \<and> (pos = None \<or> dget (ed_props e) ''pos'' = vopt pos)"

definition row_of :: "pyval dict \<Rightarrow> string option \<Rightarrow> edge list \<Rightarrow> entry \<Rightarrow> bool" where
  "row_of sp pos es r \<longleftrightarrow> (\<exists>e \<in> set es. (pos = None \<or> dget (ed_props e) ''pos'' = vopt pos)
     \<and> snd (snd (snd r)) = strip_prefix (spec_str_of sp ''id_prefix'') (ed_dst e))"

lemma row_of_Cons: "row_of sp pos es r \<Longrightarrow> row_of sp pos (e # es) r"
  by (auto simp: row_of_def)

lemma py_or_str: "py_str (py_or (VStr s) (VStr [])) = s"
  by (cases s) (simp_all add: py_or_def)

lemma does_entry_rows:
  assumes "reads_from sp S a store" "either_view sp fl S a s K"
  shows "does K (entry_rows order pos es store) K (list_all (row_of sp pos es))"
proof (induction es)
  case Nil
  show ?case unfolding entry_rows.simps by (rule does_ret) simp
next
  case (Cons e es)
  let ?v = "dget (ed_props e) ''pos''"
  have skip: "does K (entry_rows order pos es store) K (list_all (row_of sp pos (e # es)))"
    by (rule does_cons [OF Cons.IH]) (auto simp: list_all_iff intro: row_of_Cons)
  have take: "does K (bindM (liftR (pos_rank order ?v)) (\<lambda>i. bindM (liftR (proper_of (ed_props e))) (\<lambda>proper.
      bindM (n_of (VStr (ed_dst e)) store) (\<lambda>n. bindM (entry_rows order pos es store) (\<lambda>out.
        ret ((i, proper, rank_of (dget (ed_props e) ''rank''), n) # out)))))) K (list_all (row_of sp pos (e # es)))"
    if "pos = None \<or> ?v = vopt pos"
  proof (rule does_keep [OF does_lift_eq], rule does_keep [OF does_lift_eq], rule does_keep [OF does_n_of [OF assms]],
      rule does_keep [OF Cons.IH], rule does_ret)
    fix i proper n out
    assume "n = strip_prefix (spec_str_of sp ''id_prefix'') (py_str (py_or (VStr (ed_dst e)) (VStr [])))" "list_all (row_of sp pos es) out"
    then show "list_all (row_of sp pos (e # es)) ((i, proper, rank_of (dget (ed_props e) ''rank''), n) # out)"
      using that by (auto simp: list_all_iff row_of_def py_or_str)
  qed
  show ?case using skip take by (auto simp: Let_def)
qed

lemma does_edges_of:
  "either_view sp fl S a s K \<Longrightarrow> does K (getsM (\<lambda>w. edges_of (dr_stores w a))) K (\<lambda>r. r = edges_of s)"
  by (rule does_gets) (simp add: viewD(2))

lemma does_entry_names:
  assumes src: "reads_from sp S a store"
  shows "does (current sp fl S a s) (entry_names word pos store) (current sp fl S a s)
    (\<lambda>ns. \<forall>n \<in> set ns. \<exists>e. entry_of sp s word pos e \<and> n = strip_prefix (spec_str_of sp ''id_prefix'') (ed_dst e))"
    (is "does ?I _ _ ?P")
  unfolding entry_names_def
proof (rule does_keep [OF does_spec_list [OF src view_current]], rule does_keep [OF does_observe_current [OF src]])
  fix order b assume b: "b = a"
  show "does ?I (bindM (getsM (\<lambda>w. edges_of (dr_stores w b))) (\<lambda>r. bindM (liftR r) (\<lambda>es.
     bindM (spec_str ''lemma_prefix'' store) (\<lambda>p. bindM (spec_str ''entry_label'' store) (\<lambda>label.
     bindM (entry_rows order pos (entry_edges es (p @ word) label) store) (\<lambda>out.
       if unranked out then raise rank_unavailable else ret (map (\<lambda>(i, proper, r, n). n) (sort out)))))))) ?I ?P"
    unfolding b
  proof (rule does_keep [OF does_edges_of [OF view_current]], rule does_keep [OF does_lift_eq],
      rule does_keep [OF does_spec_str [OF src view_current]], rule does_keep [OF does_spec_str [OF src view_current]],
      rule does_keep [OF does_entry_rows [OF src view_current]])
    fix r es p label out
    assume r: "r = edges_of s" "r = Inr es" and p: "p = spec_str_of sp ''lemma_prefix''" "label = spec_str_of sp ''entry_label''"
      and out: "list_all (row_of sp pos (entry_edges es (p @ word) label)) out"
    have es: "so_edges s = Some es" using r by (auto simp: edges_of_def split: option.splits)
    have "?P (map (\<lambda>(i, proper, r, n). n) (sort out))"
    proof
      fix n assume "n \<in> set (map (\<lambda>(i, proper, r, n). n) (sort out))"
      then obtain row where "row \<in> set out" "n = snd (snd (snd row))" by auto
      then obtain e where "e \<in> set (entry_edges es (p @ word) label)" "pos = None \<or> dget (ed_props e) ''pos'' = vopt pos"
          "n = strip_prefix (spec_str_of sp ''id_prefix'') (ed_dst e)"
        using out by (auto simp: list_all_iff row_of_def)
      then show "\<exists>e. entry_of sp s word pos e \<and> n = strip_prefix (spec_str_of sp ''id_prefix'') (ed_dst e)"
        using es p by (auto simp: entry_of_def entry_edges_def)
    qed
    then have "does ?I (ret (map (\<lambda>(i, proper, r, n). n) (sort out))) ?I ?P"
      by (rule does_ret [where P = ?P])
    then show "does ?I (if unranked out then raise rank_unavailable else ret (map (\<lambda>(i, proper, r, n). n) (sort out))) ?I ?P"
      by (cases "unranked out") (simp_all only: if_True if_False does_raise)
  qed
qed

section \<open>The base form\<close>

lemma does_first_known:
  assumes "\<And>b p. does I (known b p) I (\<lambda>yes. yes \<longrightarrow> Q b p)"
  shows "does I (first_known known cs) I (\<lambda>r. \<forall>b. r = Some b \<longrightarrow> (\<exists>p. (Inr (Some b), p) \<in> set cs \<and> Q b p))"
proof (induction cs)
  case Nil
  show ?case unfolding first_known.simps by (rule does_ret) simp
next
  case (Cons c cs)
  obtain r p where c: "c = (r, p)" by fastforce
  let ?P = "\<lambda>v. \<forall>b. v = Some b \<longrightarrow> (\<exists>p. (Inr (Some b), p) \<in> set (c # cs) \<and> Q b p)"
  have rest: "does I (first_known known cs) I ?P" by (rule does_cons [OF Cons.IH]) auto
  have one: "does I (bindM (known b p) (\<lambda>yes. if yes then ret (Some b) else first_known known cs)) I ?P" if "r = Inr (Some b)" for b
  proof (rule does_keep [OF assms])
    fix yes assume yes: "yes \<longrightarrow> Q b p"
    show "does I (if yes then ret (Some b) else first_known known cs) I ?P"
    proof (cases yes)
      case True
      then have "?P (Some b)" using yes that c by auto
      then have "does I (ret (Some b)) I ?P" by (rule does_ret [where P = ?P])
      then show ?thesis using True by (simp only: if_True)
    next
      case False
      then show ?thesis using rest by (simp only: if_False)
    qed
  qed
  have "does I (bindM (liftR r) (\<lambda>v. case v of None \<Rightarrow> first_known known cs
       | Some b \<Rightarrow> bindM (known b p) (\<lambda>yes. if yes then ret (Some b) else first_known known cs))) I ?P"
  proof (rule does_keep [OF does_lift_eq])
    fix v assume v: "r = Inr v"
    show "does I (case v of None \<Rightarrow> first_known known cs
       | Some b \<Rightarrow> bindM (known b p) (\<lambda>yes. if yes then ret (Some b) else first_known known cs)) I ?P"
      using rest one v by (cases v) (simp_all only: option.case)
  qed
  then show ?case unfolding c first_known.simps .
qed

lemma does_keyed_known:
  assumes "reads_from sp S a store"
  shows "does (current sp fl S a s) (keyed_known store b p) (current sp fl S a s)
    (\<lambda>yes. yes \<longrightarrow> (\<exists>e. entry_of sp s b (Some p) e))"
  unfolding keyed_known_def
proof (rule does_keep [OF does_entry_names [OF assms]])
  fix ns assume "\<forall>n \<in> set ns. \<exists>e. entry_of sp s b (Some p) e \<and> n = strip_prefix (spec_str_of sp ''id_prefix'') (ed_dst e)"
  then have "ns \<noteq> [] \<longrightarrow> (\<exists>e. entry_of sp s b (Some p) e)" by (cases ns) auto
  then show "does (current sp fl S a s) (ret (ns \<noteq> [])) (current sp fl S a s) (\<lambda>yes. yes \<longrightarrow> (\<exists>e. entry_of sp s b (Some p) e))"
    by (rule does_ret [where P = "\<lambda>yes. yes \<longrightarrow> (\<exists>e. entry_of sp s b (Some p) e)"])
qed

text \<open>Where a base form comes from: the word itself, the source's irregulars, or a detachment rule.\<close>

definition base_of :: "pyval dict \<Rightarrow> string \<Rightarrow> string \<Rightarrow> string \<Rightarrow> bool" where
  "base_of exc w b p \<longleftrightarrow> b = w \<or> irregular exc w p = Inr (Some b) \<or> b \<in> set (detach w p)"

lemma candidate_base: "(Inr (Some b), p) \<in> set (candidates w poss (irregular exc w)) \<Longrightarrow> p \<in> set poss \<and> base_of exc w b p"
  by (auto simp: candidates_def base_of_def detached_def)

definition exceptions_in :: "pyval dict \<Rightarrow> pyval dict" where
  "exceptions_in sp = (case py_or (dget sp ''exceptions'') (VDict []) of VDict d \<Rightarrow> d | _ \<Rightarrow> [])"

lemma does_exceptions:
  assumes "reads_from sp S a store"
  shows "does (current sp fl S a s) (exceptions_of store) (current sp fl S a s) (\<lambda>exc. exc = exceptions_in sp)"
  unfolding exceptions_of_def
proof (rule does_keep [OF does_lang_spec [OF assms view_current]])
  fix d assume d: "d = sp"
  show "does (current sp fl S a s) (case py_or (dget d ''exceptions'') (VDict []) of VDict d \<Rightarrow> ret d | _ \<Rightarrow> raise (AttributeError ''get''))
      (current sp fl S a s) (\<lambda>exc. exc = exceptions_in sp)"
    unfolding d exceptions_in_def
    by (cases "py_or (dget sp ''exceptions'') (VDict [])") (simp_all add: does_def ret_def raise_def)
qed

lemma does_rule_tags:
  assumes "reads_from sp S a store"
  shows "does (current sp fl S a s) (rule_tags pos store) (current sp fl S a s) (\<lambda>_. True)"
proof (cases "some_nonempty pos")
  case None
  show ?thesis unfolding rule_tags_def None option.case
    by (rule does_keep [OF does_spec_list [OF assms view_current]]) (rule does_ret, simp)
next
  case (Some p)
  show ?thesis unfolding rule_tags_def Some option.case by (rule does_ret) simp
qed

lemma does_morphy:
  assumes src: "reads_from sp S a store"
  shows "does (earlier sp fl S a s) (morphy word pos store) (\<lambda>w. earlier sp fl S a s w)
    (\<lambda>r. \<forall>b. r = Some b \<longrightarrow> (\<exists>p e. entry_of sp s b (Some p) e \<and> base_of (exceptions_in sp) (underscored word) b p))"
    (is "does _ _ _ ?P")
  unfolding morphy_def Let_def
proof (rule does_bind [OF does_observe [OF src view_earlier]])
  let ?I = "current sp fl S a s"
  let ?w = "underscored word"
  let ?rest = "\<lambda>poss. bindM (keyed_ready store) (\<lambda>ready.
       if ready then bindM (exceptions_of store) (\<lambda>exc. first_known (keyed_known store) (candidates ?w poss (irregular exc ?w)))
       else bindM (load_words store) (\<lambda>wi. bindM (getsM dr_exc) (\<lambda>exc.
         first_known (\<lambda>c p. ret (map_of wi (c, p) \<noteq> None)) (candidates ?w poss (\<lambda>p. Inr (some_nonempty (map_of exc (?w, p))))))))"
  have rest: "does ?I (?rest poss) ?I ?P" for poss
  proof (rule does_keep [OF does_keyed_ready [OF src view_current]])
    fix ready assume ready: "ready"
    have "does ?I (bindM (exceptions_of store) (\<lambda>exc. first_known (keyed_known store) (candidates ?w poss (irregular exc ?w)))) ?I ?P"
    proof (rule does_keep [OF does_exceptions [OF src]])
      fix exc assume exc: "exc = exceptions_in sp"
      show "does ?I (first_known (keyed_known store) (candidates ?w poss (irregular exc ?w))) ?I ?P"
        by (rule does_cons [OF does_first_known [OF does_keyed_known [OF src]]]) (use candidate_base exc in blast)+
    qed
    then show "does ?I (if ready then bindM (exceptions_of store) (\<lambda>exc. first_known (keyed_known store) (candidates ?w poss (irregular exc ?w)))
       else bindM (load_words store) (\<lambda>wi. bindM (getsM dr_exc) (\<lambda>exc.
         first_known (\<lambda>c p. ret (map_of wi (c, p) \<noteq> None)) (candidates ?w poss (\<lambda>p. Inr (some_nonempty (map_of exc (?w, p)))))))) ?I ?P"
      using ready by (simp only: if_True)
  qed
  have "does ?I (bindM (rule_tags pos store) ?rest) ?I ?P" by (rule does_keep [OF does_rule_tags [OF src]]) (rule rest)
  then show "does ?I (bindM (rule_tags pos store) ?rest) (earlier sp fl S a s) ?P" by (rule does_cons) (auto intro: current_earlier)
qed (rule current_earlier)

text \<open>C19: A base form is never guessed: what \<open>morphy\<close> returns is a word for which the lexicon holds an
  entry of the tag now, and it is the word asked, its irregular form, or the result of a rule.\<close>

theorem morphy_known:
  assumes "honest S" "speaks S sp" "lookups S a fl w" "store \<in> {None, Some a}" "morphy word pos store w = (Inr (Some b), w')"
  shows "\<exists>p e. entry_of sp (dr_stores w a) b (Some p) e \<and> base_of (exceptions_in sp) (underscored word) b p"
proof -
  have src: "reads_from sp S a store" using assms by (simp add: reads_from_def)
  show ?thesis using does_result [OF does_morphy [OF src] lookups_earlier [OF assms(3,1,2)] assms(5)] by blast
qed


lemma morphy_keyed:
  assumes "fst (observe_store store w) = Inr a" "fst (rule_tags pos store (snd (observe_store store w))) = Inr poss"
    "fst (keyed_ready store (snd (rule_tags pos store (snd (observe_store store w))))) = Inr True"
  shows "morphy word pos store w = bindM (exceptions_of store) (\<lambda>exc. first_known (keyed_known store)
    (candidates (underscored word) poss (irregular exc (underscored word))))
    (snd (keyed_ready store (snd (rule_tags pos store (snd (observe_store store w))))))"
proof -
  obtain w1 where o: "observe_store store w = (Inr a, w1)" using assms(1) by (cases "observe_store store w") auto
  obtain w2 where t: "rule_tags pos store w1 = (Inr poss, w2)" using assms(2) o by (cases "rule_tags pos store w1") auto
  obtain w3 where k: "keyed_ready store w2 = (Inr True, w3)" using assms(3) o t by (cases "keyed_ready store w2") auto
  show ?thesis
    unfolding morphy_def Let_def o t k bindM_run(2) [where m = "observe_store store", OF o] snd_conv
      bindM_run(2) [where m = "rule_tags pos store", OF t] bindM_run(2) [where m = "keyed_ready store", OF k] if_True ..
qed

lemma ex_lexicon_store: "dr_stores ex_lexicon 7 = (ex_dog_store 1)\<lparr>so_edges := Some
     [\<lparr> ed_src = ''lemma:doghouse'', ed_dst = ''wn-doghouse.n.01'', ed_label = ''lex:en'',
        ed_props = [(''pos'', VStr ''n''), (''rank'', VInt 2)] \<rparr>]\<rparr>"
  by (simp add: ex_lexicon_def bind_store_def bindM_def ret_def arts_def driver_start_def Let_def)

lemma ex_lexicon_history:
  "honest {dr_stores ex_lexicon 7}" "speaks {dr_stores ex_lexicon 7} []" "lookups {dr_stores ex_lexicon 7} 7 ex_no_float ex_lexicon"
proof -
  show "honest {dr_stores ex_lexicon 7}" by (simp add: honest_def)
  have "spec_of [(''id'', VStr TRANSDUCER_ID)] = Inr []" by code_simp
  then show "speaks {dr_stores ex_lexicon 7} []" unfolding speaks_def ex_lexicon_store
    by (intro exI [of _ "[(''id'', VStr TRANSDUCER_ID)]"]) (simp add: ex_dog_store_def)
  show "lookups {dr_stores ex_lexicon 7} 7 ex_no_float ex_lexicon"
    unfolding ex_lexicon_store by (simp only: ex_lexicon_def) (rule lookups.bound, simp)
qed

lemma ex_morphy_run:
  "fst (observe_store None ex_lexicon) = Inr 7"
  "fst (rule_tags None None (snd (observe_store None ex_lexicon))) = Inr [''n'', ''v'', ''a'', ''r'']"
  "fst (keyed_ready None (snd (rule_tags None None (snd (observe_store None ex_lexicon))))) = Inr True"
  "fst (bindM (exceptions_of None) (\<lambda>exc. first_known (keyed_known None)
     (candidates (underscored ''Doghouses'') [''n'', ''v'', ''a'', ''r''] (irregular exc (underscored ''Doghouses''))))
     (snd (keyed_ready None (snd (rule_tags None None (snd (observe_store None ex_lexicon))))))) = Inr (Some ''doghouse'')"
  by code_simp+

theorem morphy_known_witness:
  "fst (morphy ''Doghouses'' None None ex_lexicon) = Inr (Some ''doghouse'')
    \<and> (\<exists>p e. entry_of [] (dr_stores ex_lexicon 7) ''doghouse'' (Some p) e \<and> base_of (exceptions_in []) (underscored ''Doghouses'') ''doghouse'' p)"
proof -
  have run: "fst (morphy ''Doghouses'' None None ex_lexicon) = Inr (Some ''doghouse'')"
    unfolding morphy_keyed [OF ex_morphy_run(1-3)] by (rule ex_morphy_run(4))
  then have eq: "morphy ''Doghouses'' None None ex_lexicon = (Inr (Some ''doghouse''), snd (morphy ''Doghouses'' None None ex_lexicon))"
    by (rule pair_of_fst)
  show ?thesis using run morphy_known [OF ex_lexicon_history _ eq] by blast
qed

end
