(* ===== verification/Ontology_Index_Laws.thy ===== *)
theory Ontology_Index_Laws
  imports Ontology_Words_Laws
begin

text \<open>
  The index of the whole corpus stays closed: its keys are the names of its synsets, and every sense
  its words list is a synset it has. The invariant is kept by every read, by binding another store and
  by writes to it.
\<close>

section \<open>Closed indexes\<close>

definition names_in :: "index \<Rightarrow> string list \<Rightarrow> bool" where
  "names_in idx ns \<longleftrightarrow> list_all (\<lambda>n. map_of idx n \<noteq> None) ns"

definition closed_index :: "index \<times> word_index \<Rightarrow> bool" where
  "closed_index iw \<longleftrightarrow> wf_index (fst iw) \<and> list_all (\<lambda>(k, ns). names_in (fst iw) ns) (snd iw)"

definition index_ok :: "driver \<Rightarrow> bool" where
  "index_ok w \<longleftrightarrow> (case dr_index w of None \<Rightarrow> True | Some iw \<Rightarrow> closed_index iw)"

definition senses_in :: "index \<Rightarrow> senses \<Rightarrow> bool" where
  "senses_in idx word \<longleftrightarrow> list_all (\<lambda>(k, ss). names_in idx (map (\<lambda>s. snd (snd s)) ss)) word"

definition loading_ok :: "loading \<Rightarrow> bool" where
  "loading_ok l \<longleftrightarrow> wf_index (ld_idx l) \<and> senses_in (ld_idx l) (ld_word l)"

lemma names_in_mono: "names_in idx ns \<Longrightarrow> (\<And>n. map_of idx n \<noteq> None \<Longrightarrow> map_of idx' n \<noteq> None) \<Longrightarrow> names_in idx' ns"
  by (simp add: names_in_def list_all_iff)

lemma senses_in_mono: "senses_in idx word \<Longrightarrow> (\<And>n. map_of idx n \<noteq> None \<Longrightarrow> map_of idx' n \<noteq> None) \<Longrightarrow> senses_in idx' word"
  unfolding senses_in_def by (auto simp: list_all_iff dest!: bspec intro: names_in_mono)

lemma update_keeps_names: "map_of idx n \<noteq> None \<Longrightarrow> map_of (AList.update k s idx) n \<noteq> None"
  by (simp add: update_conv)

lemma set_update_subset: "set (AList.update k v d) \<subseteq> insert (k, v) (set d)"
  by (induction d) auto

lemma wf_index_update: "wf_index idx \<Longrightarrow> sy_name s = n \<Longrightarrow> wf_index (AList.update n s idx)"
  using set_update_subset [of n s idx] by (auto simp: wf_index_def list_all_iff distinct_update)

section \<open>Loading\<close>

lemma senses_in_append:
  assumes "senses_in idx word" "map_of idx (snd (snd s)) \<noteq> None"
  shows "senses_in idx (append_at k s word)"
proof -
  have old: "names_in idx (map (\<lambda>s. snd (snd s)) ss)" if "map_of word k = Some ss" for ss
    using assms(1) map_of_SomeD [OF that] by (auto simp: senses_in_def list_all_iff)
  have "names_in idx (map (\<lambda>s. snd (snd s)) ((case map_of word k of None \<Rightarrow> [] | Some vs \<Rightarrow> vs) @ [s]))"
    using old assms(2) by (cases "map_of word k") (auto simp: names_in_def)
  then have new: "names_in idx (map (\<lambda>s. snd (snd s)) ss)" if "ss = (case map_of word k of None \<Rightarrow> [] | Some vs \<Rightarrow> vs) @ [s]" for ss
    using that by simp
  have "names_in idx (map (\<lambda>s. snd (snd s)) ss)" if "(j, ss) \<in> set (append_at k s word)" for j ss
  proof -
    have "(j, ss) \<in> insert (k, (case map_of word k of None \<Rightarrow> [] | Some vs \<Rightarrow> vs) @ [s]) (set word)"
      by (rule subsetD [OF set_update_subset]) (rule that [unfolded append_at_def])
    then show ?thesis
    proof (rule insertE)
      assume "(j, ss) = (k, (case map_of word k of None \<Rightarrow> [] | Some vs \<Rightarrow> vs) @ [s])"
      then have "ss = (case map_of word k of None \<Rightarrow> [] | Some vs \<Rightarrow> vs) @ [s]" by (simp only: prod.inject)
      then show ?thesis by (rule new)
    next
      assume "(j, ss) \<in> set word"
      then show ?thesis using assms(1) by (auto simp: senses_in_def list_all_iff)
    qed
  qed
  then show ?thesis by (auto simp: senses_in_def list_all_iff)
qed

lemma sense_of_name [simp]: "snd (snd (sense_of name ranks lm)) = name"
  by (simp add: sense_of_def split: option.splits prod.splits)

lemma add_senses_in:
  "add_senses name pos ranks vs word = Inr word' \<Longrightarrow> senses_in idx word \<Longrightarrow> map_of idx name \<noteq> None \<Longrightarrow> senses_in idx word'"
proof (induction vs arbitrary: word)
  case (Cons v vs)
  obtain lm where "add_senses name pos ranks vs (append_at (underscored lm, pos) (sense_of name ranks lm) word) = Inr word'"
    using Cons.prems(1) by (auto simp: res_bind_eq_Inr)
  then show ?case using Cons.IH senses_in_append [OF Cons.prems(2), of "sense_of name ranks lm"] Cons.prems(3) by simp
qed simp

lemma loading_ok_row:
  assumes "loading_ok l" "sy_name node = name" "add_senses name pos ranks lms (ld_word l) = Inr word"
  shows "loading_ok \<lparr> ld_idx = AList.update name node (ld_idx l), ld_word = word, ld_no_ic = a, ld_no_se = b \<rparr>"
proof -
  let ?idx = "AList.update name node (ld_idx l)"
  have "senses_in ?idx (ld_word l)"
    by (rule senses_in_mono [OF _ update_keeps_names]) (use assms(1) in \<open>simp_all add: loading_ok_def\<close>)
  then have "senses_in ?idx word" by (rule add_senses_in [OF assms(3)]) (simp add: update_conv)
  then show ?thesis using assms(1,2) by (simp add: loading_ok_def wf_index_update)
qed

lemma does_any: "does (\<lambda>_. True) m (\<lambda>_. True) (\<lambda>_. True)"
  by (simp add: does_def)

lemma does_add_row:
  assumes "loading_ok l"
  shows "does (\<lambda>_. True) (add_row p doc l) (\<lambda>_. True) loading_ok"
  unfolding add_row_def Let_def
  apply (cases "row_name p doc = []")
   apply (simp only: if_P, rule does_ret, rule assms)
  apply (simp only: if_not_P if_False)
  apply (rule does_keep [OF does_any], rule does_keep [OF does_any], rule does_keep [OF does_any], rule does_keep [OF does_any])
  apply (rule does_keep [OF does_any], rule does_keep [OF does_any], rule does_keep [OF does_any], rule does_keep [OF does_any])
  apply (rule does_keep [OF does_any], rule does_keep [OF does_any], rule does_keep [OF does_any])
  apply (rule does_keep [OF does_lift_eq])
  apply (rule does_ret)
  apply (rule loading_ok_row [OF assms])
   apply simp
  apply assumption
  done


lemma forM_does:
  assumes "\<And>x l. P l \<Longrightarrow> does I (f x l) I P"
  shows "P l \<Longrightarrow> does I (forM f xs l) I P"
proof (induction xs arbitrary: l)
  case Nil
  then show ?case unfolding forM.simps by (rule does_ret)
next
  case (Cons x xs)
  show ?case unfolding forM.simps by (rule does_keep [OF assms [OF Cons.prems]]) (rule Cons.IH)
qed

lemma wf_index_set:
  assumes "wf_index idx" "map_of idx n = Some node" "sy_name node' = sy_name node"
  shows "wf_index (AList.update n node' idx)"
  by (rule wf_index_update [OF assms(1)]) (use wf_index_name [OF assms(1,2)] assms(3) in simp)

lemma add_edge_wf: "wf_index idx \<Longrightarrow> wf_index (add_edge p ls e idx)"
  by (auto simp: add_edge_def Let_def intro: wf_index_set split: option.splits)

lemma add_edge_names: "map_of idx n \<noteq> None \<Longrightarrow> map_of (add_edge p ls e idx) n \<noteq> None"
  by (auto simp: add_edge_def Let_def update_conv split: option.splits)

lemma add_edges_wf: "wf_index idx \<Longrightarrow> wf_index (fold (add_edge p ls) es idx)"
  by (induction es arbitrary: idx) (simp_all add: add_edge_wf)

lemma add_edges_names: "map_of idx n \<noteq> None \<Longrightarrow> map_of (fold (add_edge p ls) es idx) n \<noteq> None"
proof (induction es arbitrary: idx)
  case (Cons e es)
  show ?case unfolding fold_Cons o_apply by (rule Cons.IH [OF add_edge_names [OF Cons.prems]])
qed simp

lemma set_intrinsic_keys: "map fst (set_intrinsic idx) = map fst idx"
  by (simp add: set_intrinsic_def Let_def comp_def split_beta)

lemma set_intrinsic_names: "map_of idx n \<noteq> None \<Longrightarrow> map_of (set_intrinsic idx) n \<noteq> None"
proof -
  have "fst ` set (set_intrinsic idx) = fst ` set idx" using set_intrinsic_keys by (metis list.set_map)
  then show "map_of idx n \<noteq> None \<Longrightarrow> map_of (set_intrinsic idx) n \<noteq> None"
    unfolding map_of_eq_None_iff by simp
qed

lemma set_intrinsic_wf: "wf_index idx \<Longrightarrow> wf_index (set_intrinsic idx)"
  unfolding wf_index_def set_intrinsic_keys
  by (auto simp: set_intrinsic_def Let_def list_all_iff split: option.splits)

lemma word_index_closed: "senses_in idx word \<Longrightarrow> list_all (\<lambda>(k, ns). names_in idx ns) (word_index_of word)"
  by (auto simp: word_index_of_def senses_in_def names_in_def list_all_iff split: prod.splits dest!: bspec)

lemma built_index_closed:
  assumes "loading_ok l" and idx_def: "idx = fold (add_edge p ls) es (ld_idx l)"
  shows "closed_index (if d then set_intrinsic idx else idx, word_index_of (ld_word l))"
proof -
  have wf: "wf_index idx" and names: "map_of (ld_idx l) n \<noteq> None \<Longrightarrow> map_of idx n \<noteq> None" for n
    using assms(1) add_edges_wf add_edges_names unfolding idx_def loading_ok_def by blast+
  have word: "senses_in idx (ld_word l)"
    by (rule senses_in_mono [OF _ names]) (use assms(1) in \<open>simp_all add: loading_ok_def\<close>)
  have "wf_index (if d then set_intrinsic idx else idx)" using wf set_intrinsic_wf by simp
  moreover have "senses_in (if d then set_intrinsic idx else idx) (ld_word l)"
    by (rule senses_in_mono [OF word]) (simp del: not_None_eq add: set_intrinsic_names)
  ultimately show ?thesis by (simp only: closed_index_def fst_conv snd_conv word_index_closed simp_thms)
qed

section \<open>The reads keep the index closed\<close>

interpretation index_kept: world_relation "\<lambda>w w'. index_ok w \<longrightarrow> index_ok w'"
  by unfold_locales auto

lemma index_ok_of: "dr_index w' = dr_index w \<or> dr_index w' = None \<Longrightarrow> index_ok w \<longrightarrow> index_ok w'"
  by (auto simp: index_ok_def)

lemma index_kept_step: "(\<And>w. dr_index (snd (m w)) = dr_index w \<or> dr_index (snd (m w)) = None) \<Longrightarrow> index_kept.keeps m"
  unfolding index_kept.keeps_def by (rule allI) (rule index_ok_of)

lemma index_kept_modify: "(\<And>w. dr_index (f w) = dr_index w \<or> dr_index (f w) = None) \<Longrightarrow> index_kept.keeps (modifyM f)"
  by (rule index_kept_step) (simp add: modifyM_def)

lemma index_kept_case_option: "index_kept.keeps m \<Longrightarrow> (\<And>x. index_kept.keeps (f x)) \<Longrightarrow> index_kept.keeps (case v of None \<Rightarrow> m | Some x \<Rightarrow> f x)"
  by (cases v) auto

lemma invalidate_index: "dr_index (invalidate_caches b w) = dr_index w \<or> dr_index (invalidate_caches b w) = None"
  by (simp add: invalidate_caches_def Let_def)

lemma index_kept_arts: "index_kept.keeps (arts store)"
  using invalidate_index [of True] by (intro index_kept_step) (auto simp: arts_def Let_def split: option.splits)

lemma gate_index: "dr_index (gate a w) = dr_index w \<or> dr_index (gate a w) = None"
  by (simp add: gate_def Let_def)

lemma spec_fresh_index: "dr_index (spec_fresh a w) = dr_index w"
  by (simp add: spec_fresh_def Let_def)

lemma index_kept_prim: "index_kept.keeps (modifyM (gate a))" "index_kept.keeps (modifyM (spec_fresh a))" "index_kept.keeps new_oid"
  "index_kept.keeps (modifyM (exc_set pos lm xs))"
  by (rule index_kept_step, simp add: modifyM_def gate_index spec_fresh_index exc_set_def new_oid_def)+


lemma index_kept_field: "(\<And>w. dr_index (f w) = dr_index w) \<Longrightarrow> index_kept.keeps (modifyM f)"
  by (rule index_kept_modify) blast

lemmas index_kept_intros = index_kept.keeps_basic index_kept.keeps_bind index_kept.keeps_catch index_kept.keeps_if
  index_kept_arts index_kept_case_option index_kept_prim

lemma index_kept_observe: "index_kept.keeps (observe_store store)"
  unfolding observe_store_def by (intro index_kept_intros)

lemma index_kept_lang_spec: "index_kept.keeps (lang_spec store)"
  unfolding lang_spec_def by (intro index_kept_intros index_kept_observe index_kept_field) simp

lemma index_kept_keyed_ready: "index_kept.keeps (keyed_ready store)"
  unfolding keyed_ready_def by (intro index_kept_intros index_kept_observe index_kept_field) simp

lemma index_kept_spec: "index_kept.keeps (spec_str key store)" "index_kept.keeps (spec_list key store)"
  unfolding spec_str_def spec_list_def by (intro index_kept_intros index_kept_lang_spec)+

lemma index_kept_names: "index_kept.keeps (n_of x store)" "index_kept.keeps (concept_ids name store)"
  unfolding n_of_def concept_ids_def by (intro index_kept_intros index_kept_spec)+

lemma index_kept_n_of_list: "index_kept.keeps (n_of_list xs store)"
  by (induction xs) (auto simp only: n_of_list.simps intro: index_kept_intros index_kept_names)

lemma index_kept_split_rows: "index_kept.keeps (split_rows ls es hyper inst store)"
proof (induction es arbitrary: hyper inst)
  case Nil
  show ?case unfolding split_rows.simps by (intro index_kept_intros)
next
  case (Cons e es)
  show ?case unfolding split_rows.simps by (intro index_kept_intros index_kept_names Cons.IH)
qed

lemma index_kept_synset_from_doc: "index_kept.keeps (synset_from_doc name doc store aid)"
  unfolding synset_from_doc_def split_beta parents_from_edges_def
  by (intro index_kept_intros index_kept_n_of_list index_kept_spec index_kept_observe index_kept_split_rows)

lemma index_kept_put: "index_kept.keeps (modifyM (case st of Some st1 \<Rightarrow> synset_cache_put name gen st1 s aid | None \<Rightarrow> (\<lambda>w. w)))"
  by (rule index_kept_field) (simp add: synset_cache_put_def split: option.splits)

lemma index_kept_try_ids: "index_kept.keeps (try_ids name store a gen ent ids)"
proof (induction ids)
  case Nil
  show ?case unfolding try_ids.simps by (intro index_kept_intros index_kept_field) simp
next
  case (Cons aid aids)
  have read: "index_kept.keeps (case doc of Some (kv # d) \<Rightarrow> bindM (synset_from_doc name (kv # d) store aid) (\<lambda>s.
        bindM (modifyM (case st of Some st1 \<Rightarrow> synset_cache_put name gen st1 s aid | None \<Rightarrow> (\<lambda>w. w))) (\<lambda>_. ret (Some s)))
      | _ \<Rightarrow> try_ids name store a gen ent aids)" for doc st
    using Cons.IH by (cases doc rule: option.exhaust)
      (auto split: list.splits intro: index_kept_intros index_kept_synset_from_doc index_kept_put)
  show ?case unfolding try_ids.simps by (intro index_kept_intros index_kept_put read)
qed

lemma index_kept_get_synset: "index_kept.keeps (get_synset name store)"
  unfolding get_synset_def split_beta
  by (intro index_kept_intros index_kept_observe index_kept_try_ids index_kept_names) 

lemma index_kept_ic_basis: "index_kept.keeps (ic_basis store)"
  unfolding ic_basis_def by (intro index_kept_intros index_kept_observe)

lemma does_kept: "index_kept.keeps m \<Longrightarrow> does index_ok m index_ok (\<lambda>_. True)"
  by (simp add: does_def index_kept.keeps_def)

lemma does_kept_and: "index_kept.keeps m \<Longrightarrow> does (\<lambda>_. True) m (\<lambda>_. True) P \<Longrightarrow> does index_ok m index_ok P"
  by (simp add: does_def index_kept.keeps_def)

lemma index_kept_add_forms: "index_kept.keeps (add_forms pos forms)"
  by (induction forms) (auto simp only: add_forms.simps split_paired_all intro: index_kept_intros)

lemma index_kept_add_row: "index_kept.keeps (add_row p doc l)"
  unfolding add_row_def Let_def by (intro index_kept_intros index_kept_add_forms)

lemma does_load_index: "does index_ok (load_index store) index_ok (\<lambda>_. True)"
  unfolding load_index_def Let_def
proof (rule does_keep [OF does_kept [OF index_kept_observe]], rule does_keep [OF does_kept [OF index_kept_spec(1)]],
    rule does_keep [OF does_kept [OF index_kept_spec(1)]], rule does_keep [OF does_kept [OF index_kept.keeps_basic(4)]],
    rule does_keep [OF does_kept [OF index_kept.keeps_basic(3)]])
  fix a p ct r docs
  have rows: "does index_ok (forM (add_row p) docs \<lparr> ld_idx = [], ld_word = [], ld_no_ic = 0, ld_no_se = 0 \<rparr>) index_ok loading_ok"
    by (rule forM_does [OF does_kept_and [OF index_kept_add_row does_add_row]])
      (simp_all add: loading_ok_def wf_index_def senses_in_def)
  show "does index_ok (bindM (forM (add_row p) docs \<lparr> ld_idx = [], ld_word = [], ld_no_ic = 0, ld_no_se = 0 \<rparr>) (\<lambda>l.
     bindM (spec_list ''isa_labels'' store) (\<lambda>isa. bindM (spec_list ''instance_labels'' store) (\<lambda>inst_labels.
     bindM (getsM (\<lambda>w. label_rows (dr_stores w a) (isa @ inst_labels))) (\<lambda>rows. bindM (ic_basis store) (\<lambda>b.
     modifyM (\<lambda>w. w\<lparr>dr_ic_stats := Some (stats_of (length (fold (add_edge p inst_labels) rows (ld_idx l)))
         (if fold (add_edge p inst_labels) rows (ld_idx l) \<noteq> [] \<and> \<not> ic_fresh b (length (fold (add_edge p inst_labels) rows (ld_idx l))) (ld_no_ic l)
          then 0 else ld_no_ic l) (ld_no_se l)),
       dr_index := Some (if fold (add_edge p inst_labels) rows (ld_idx l) \<noteq> [] \<and> \<not> ic_fresh b (length (fold (add_edge p inst_labels) rows (ld_idx l))) (ld_no_ic l)
         then set_intrinsic (fold (add_edge p inst_labels) rows (ld_idx l)) else fold (add_edge p inst_labels) rows (ld_idx l),
         word_index_of (ld_word l))\<rparr>))))))) index_ok (\<lambda>_. True)"
  proof (rule does_keep [OF rows], rule does_keep [OF does_kept [OF index_kept_spec(2)]], rule does_keep [OF does_kept [OF index_kept_spec(2)]],
      rule does_keep [OF does_kept [OF index_kept.keeps_basic(4)]], rule does_keep [OF does_kept [OF index_kept_ic_basis]], rule does_modify)
    fix l inst_labels rows b and w :: driver
    assume "loading_ok l"
    then show "index_ok (w\<lparr>dr_ic_stats := Some (stats_of (length (fold (add_edge p inst_labels) rows (ld_idx l)))
         (if fold (add_edge p inst_labels) rows (ld_idx l) \<noteq> [] \<and> \<not> ic_fresh b (length (fold (add_edge p inst_labels) rows (ld_idx l))) (ld_no_ic l)
          then 0 else ld_no_ic l) (ld_no_se l)),
       dr_index := Some (if fold (add_edge p inst_labels) rows (ld_idx l) \<noteq> [] \<and> \<not> ic_fresh b (length (fold (add_edge p inst_labels) rows (ld_idx l))) (ld_no_ic l)
         then set_intrinsic (fold (add_edge p inst_labels) rows (ld_idx l)) else fold (add_edge p inst_labels) rows (ld_idx l),
         word_index_of (ld_word l))\<rparr>)"
      using built_index_closed [OF _ refl] by (simp add: index_ok_def)
  qed
qed


lemma does_both_indexes: "does index_ok both_indexes index_ok closed_index"
  by (auto simp: does_def both_indexes_def bindM_def getsM_def ret_def raise_def index_ok_def split: option.splits)

lemma does_load_indexes: "does index_ok (load_indexes store) index_ok closed_index"
  unfolding load_indexes_def
proof (rule does_keep [OF does_kept [OF index_kept.keeps_basic(4)]])
  fix installed
  have reload: "does index_ok (bindM (getsM dr_gen) (\<lambda>g. bindM (load_index store) (\<lambda>_.
      bindM (modifyM (\<lambda>w. w\<lparr>dr_index_gen := g, dr_foreign := False\<rparr>)) (\<lambda>_. both_indexes)))) index_ok closed_index"
    by (rule does_keep [OF does_kept [OF index_kept.keeps_basic(4)]], rule does_keep [OF does_load_index],
        rule does_keep [OF does_kept [OF index_kept_field]]) (simp_all add: does_both_indexes)
  show "does index_ok (if installed then both_indexes else bindM (observe_store store) (\<lambda>_. bindM (getsM index_stale) (\<lambda>stale.
      if stale then bindM (getsM dr_gen) (\<lambda>g. bindM (load_index store) (\<lambda>_.
                bindM (modifyM (\<lambda>w. w\<lparr>dr_index_gen := g, dr_foreign := False\<rparr>)) (\<lambda>_. both_indexes)))
      else both_indexes))) index_ok closed_index"
  proof (cases installed)
    case True
    then show ?thesis using does_both_indexes by (simp only: if_True)
  next
    case False
    have "does index_ok (bindM (observe_store store) (\<lambda>_. bindM (getsM index_stale) (\<lambda>stale.
      if stale then bindM (getsM dr_gen) (\<lambda>g. bindM (load_index store) (\<lambda>_.
                bindM (modifyM (\<lambda>w. w\<lparr>dr_index_gen := g, dr_foreign := False\<rparr>)) (\<lambda>_. both_indexes)))
      else both_indexes))) index_ok closed_index"
      by (rule does_keep [OF does_kept [OF index_kept_observe]], rule does_keep [OF does_kept [OF index_kept.keeps_basic(4)]])
        (simp add: reload does_both_indexes)
    then show ?thesis using False by (simp only: if_False)
  qed
qed

lemma kept_of_does: "does index_ok m index_ok P \<Longrightarrow> index_kept.keeps m"
  by (simp add: does_def index_kept.keeps_def)

lemma index_kept_loads: "index_kept.keeps (load_synsets store)" "index_kept.keeps (load_words store)"
  unfolding load_synsets_def load_words_def split_beta
  by (intro index_kept_intros kept_of_does [OF does_load_indexes])+

lemma index_kept_resolve: "index_kept.keeps (resolve name store)"
  unfolding resolve_def by (intro index_kept_intros index_kept_keyed_ready index_kept_get_synset index_kept_loads)

lemma index_kept_synset_named: "index_kept.keeps (synset_named name store)"
  unfolding synset_named_def by (intro index_kept_intros index_kept_observe index_kept_resolve)

lemma index_kept_entry_rows: "index_kept.keeps (entry_rows order pos es store)"
proof (induction es)
  case Nil
  show ?case unfolding entry_rows.simps by (intro index_kept_intros)
next
  case (Cons e es)
  show ?case unfolding entry_rows.simps Let_def by (intro index_kept_intros index_kept_names Cons.IH)
qed

lemma index_kept_entry_names: "index_kept.keeps (entry_names word pos store)"
  unfolding entry_names_def by (intro index_kept_intros index_kept_spec index_kept_observe index_kept_entry_rows)

lemma index_kept_first_known:
  assumes "\<And>b p. index_kept.keeps (known b p)"
  shows "index_kept.keeps (first_known known cs)"
proof (induction cs)
  case Nil
  show ?case unfolding first_known.simps by (intro index_kept_intros)
next
  case (Cons c cs)
  obtain r p where c: "c = (r, p)" by fastforce
  show ?case unfolding c first_known.simps by (intro index_kept_intros assms Cons.IH)
qed

lemma index_kept_rule_tags: "index_kept.keeps (rule_tags pos store)"
  unfolding rule_tags_def by (intro index_kept_intros index_kept_spec)

lemma index_kept_exceptions: "index_kept.keeps (exceptions_of store)"
proof -
  have "index_kept.keeps (case v of VDict d \<Rightarrow> ret d | _ \<Rightarrow> raise e)" for v and e :: exc
    by (cases v) (simp_all only: pyval.case index_kept.keeps_basic)
  then show ?thesis unfolding exceptions_of_def by (intro index_kept_intros index_kept_lang_spec)
qed

lemma index_kept_morphy: "index_kept.keeps (morphy word pos store)"
  unfolding morphy_def Let_def keyed_known_def [abs_def]
  by (intro index_kept_intros index_kept_observe index_kept_rule_tags index_kept_keyed_ready index_kept_exceptions
      index_kept_first_known index_kept_entry_names index_kept_loads)

lemma index_kept_get_synsets: "index_kept.keeps (get_synsets ns store)"
  by (induction ns) (auto simp only: get_synsets.simps intro: index_kept_intros index_kept_get_synset)

lemma index_kept_synsets: "index_kept.keeps (synsets word pos store)"
  unfolding synsets_def Let_def or_base_def
  by (intro index_kept_intros index_kept_observe index_kept_keyed_ready index_kept_entry_names index_kept_morphy
      index_kept_get_synsets index_kept_loads index_kept_spec)

section \<open>Sessions\<close>

text \<open>Anything a process may do with the module: install a closed index, name a store or a provider,
  write a store, read.\<close>

inductive session :: "driver \<Rightarrow> bool" where
  started: "session (driver_start stores fl)"
| installed: "session w \<Longrightarrow> closed_index (idx, word) \<Longrightarrow> session (install_index idx word stats w)"
| provider: "session w \<Longrightarrow> session (set_default_store_provider fn w)"
| rebound: "session w \<Longrightarrow> session (snd (bind_store store w))"
| invalidated: "session w \<Longrightarrow> session (invalidate_caches keep w)"
| store_written: "session w \<Longrightarrow> session (w\<lparr>dr_stores := stores\<rparr>)"
| one_read: "session w \<Longrightarrow> session (snd (synset_named name store w))"
| senses_read: "session w \<Longrightarrow> session (snd (synsets word pos store w))"
| base_read: "session w \<Longrightarrow> session (snd (morphy word pos store w))"
| parent_read: "session w \<Longrightarrow> session (snd (resolve name store w))"
| loaded: "session w \<Longrightarrow> session (snd (load_indexes store w))"

lemma kept_run: "index_kept.keeps m \<Longrightarrow> index_ok w \<Longrightarrow> index_ok (snd (m w))"
  by (simp add: index_kept.keeps_def)

lemma index_kept_bind: "index_kept.keeps (bind_store store)"
proof (cases store)
  case None
  have "dr_index (release w) = dr_index w \<or> dr_index (release w) = None" for w
    by (simp add: release_def invalidate_caches_def)
  then show ?thesis unfolding bind_store_def None option.case by (rule index_kept_modify)
next
  case (Some s)
  show ?thesis unfolding bind_store_def Some option.case by (intro index_kept_intros)
qed

lemma session_index_ok: "session w \<Longrightarrow> index_ok w"
proof (induction rule: session.induct)
  case (started stores fl)
  show ?case by (simp add: index_ok_def driver_start_def)
next
  case (installed w idx word stats)
  then show ?case by (simp add: index_ok_def install_index_def)
next
  case (provider w fn)
  then show ?case by (simp add: index_ok_def set_default_store_provider_def)
next
  case (invalidated w keep)
  then show ?case using index_ok_of [OF invalidate_index] by blast
next
  case (store_written w stores)
  then show ?case by (simp add: index_ok_def)
qed (auto intro: kept_run index_kept_bind index_kept_synset_named index_kept_synsets index_kept_morphy index_kept_resolve
    kept_of_does [OF does_load_indexes])

text \<open>C16: However the module was used and its store written, the index it reads from is closed: each
  synset is held under its own name, and every sense a word lists is a synset of the index, so that
  \<open>synsets\<close> loses none.\<close>

theorem index_closed:
  assumes "session w" "load_indexes store w = (Inr (idx, word), w')"
  shows "wf_index idx \<and> (\<forall>(k, ns) \<in> set word. length (List.map_filter (map_of idx) ns) = length ns)"
proof -
  have closed: "closed_index (idx, word)"
    by (rule does_result [OF does_load_indexes session_index_ok [OF assms(1)] assms(2)])
  have "length (List.map_filter (map_of idx) ns) = length ns" if "names_in idx ns" for ns
    using that by (induction ns) (auto simp: names_in_def List.map_filter_def)
  then show ?thesis using closed by (auto simp: closed_index_def list_all_iff)
qed


theorem index_closed_witness:
  "\<exists>w'. load_indexes None (install_index ex_index [((''pet'', ''n''), [''dog'', ''cat''])] None (driver_start (\<lambda>_. ex_dog_store 1) ex_no_float))
      = (Inr (ex_index, [((''pet'', ''n''), [''dog'', ''cat''])]), w')
    \<and> length (List.map_filter (map_of ex_index) [''dog'', ''cat'']) = 2"
proof -
  let ?words = "[((''pet'', ''n''), [''dog'', ''cat''])]"
  let ?w = "install_index ex_index ?words None (driver_start (\<lambda>_. ex_dog_store 1) ex_no_float)"
  have "closed_index (ex_index, ?words)"
    by (simp add: closed_index_def names_in_def) (simp add: ex_index_def ex_synset_def)
  then have s: "session ?w" by (intro session.installed session.started)
  have run: "load_indexes None ?w = (Inr (ex_index, ?words), ?w)"
    by (simp add: load_indexes_def both_indexes_def bindM_def getsM_def ret_def installed_index_answers_def install_index_def driver_start_def)
  have "\<forall>(k, ns) \<in> set ?words. length (List.map_filter (map_of ex_index) ns) = length ns"
    using index_closed [OF s run] ..
  then show ?thesis using run by auto
qed


section \<open>One row, two readings\<close>

definition ex_row :: "pyval dict" where
  "ex_row = [(''id'', VStr ''wn-dog''), (''hypernyms'', VList [VStr ''wn-animal''])]"

text \<open>A parent in the field of a row is a name when the row is read by key, and keeps the prefix in the
  index of the corpus, where no synset has that name.\<close>

lemma prefixed_parent_differs:
  "(case fst (synset_from_doc ''dog'' ex_row None ''wn-dog'' ex_bound) of Inr s \<Rightarrow> sy_hyper s | Inl _ \<Rightarrow> []) = [''animal'']"
  "(case fst (add_row ''wn-'' ex_row \<lparr> ld_idx = [], ld_word = [], ld_no_ic = 0, ld_no_se = 0 \<rparr> ex_bound) of
     Inr l \<Rightarrow> map (\<lambda>(n, s). sy_hyper s) (ld_idx l) | Inl _ \<Rightarrow> []) = [[''wn-animal'']]"
  by code_simp+

end
