(* ===== verification/Geometry.thy ===== *)
theory Geometry
  imports Ontology
begin

text \<open>
  \<open>ontology/geometry.py\<close>, Steps 1 to 3: information content as it is read off a synset, the
  canonical spanning tree, Jiang-Conrath distance on it, the sparse coordinate and its signed
  hashing into \<open>D\<close> dimensions, centering. Every function that can raise returns a \<open>res\<close>, in the
  order the code evaluates.

  An \<open>ontology\<close> is what the driver answers from: the index and the bound
  \<open>ic_upper_bound\<close> derives from the corpus record. \<open>blake2b\<close> is a parameter: the number the
  digest of \<open>seed + node\<close> is read as. The memo tables are in theory \<open>Geometry_Memo\<close>.
\<close>

record ontology =
  on_index :: index
  on_bound :: "real option"

section \<open>Information content\<close>

text \<open>\<open>ic_upper_bound\<close>, before its cache: from the record the corpus keeps of its measurement.\<close>

definition ic_upper_bound :: "pyval dict \<Rightarrow> real option" where
  "ic_upper_bound basis = (let src = dget basis ''source''; n = dget basis ''n'' in
     if src = VStr INTRINSIC_IC_SOURCE then Some 1
     else if truthy src then
       (case n of
          VInt k \<Rightarrow> if 1 < k then Some (ln (real_of_int k)) else None
        | VFloat r q \<Rightarrow> if 1 < q then Some (ln (real_of_rat q)) else None
        | _ \<Rightarrow> None)
     else None)"

definition ABSURD_IC :: exc where
  "ABSURD_IC = PyError ''AbsurdIC'' ''ic''"

definition ic_of :: "ontology \<Rightarrow> bool \<Rightarrow> synset \<Rightarrow> real res" where
  "ic_of on strict s = (case synset_ic s of
       NonFinite \<Rightarrow> if strict then Inl ABSURD_IC else Inr 0
     | Fin v \<Rightarrow>
         (case on_bound on of
            None \<Rightarrow> Inr v
          | Some b \<Rightarrow> if b < \<bar>v\<bar> then (if strict then Inl ABSURD_IC else Inr 0) else Inr v))"

section \<open>The spanning tree\<close>

text \<open>\<open>max(xs, key=...)\<close> over keys that are pairs of a number and a name: the first maximum.\<close>

definition key_less :: "real \<times> string \<Rightarrow> real \<times> string \<Rightarrow> bool" where
  "key_less a b \<longleftrightarrow> fst a < fst b \<or> fst a = fst b \<and> snd a < snd b"

fun max_from :: "(real \<times> string) \<times> 'a \<Rightarrow> ((real \<times> string) \<times> 'a) list \<Rightarrow> 'a" where
  "max_from best [] = snd best"
| "max_from best (c # cs) = max_from (if key_less (fst best) (fst c) then c else best) cs"

definition ic_key :: "ontology \<Rightarrow> synset \<Rightarrow> ((real \<times> string) \<times> synset) res" where
  "ic_key on h = res_bind (ic_of on True h) (\<lambda>v. Inr ((v, sy_name h), h))"

definition canonical_parent :: "ontology \<Rightarrow> synset \<Rightarrow> synset option res" where
  "canonical_parent on s = res_bind (res_map (ic_key on) (parents (on_index on) s)) (\<lambda>ks.
     Inr (case ks of [] \<Rightarrow> None | k # rest \<Rightarrow> Some (max_from k rest)))"

lemma max_from_in: "max_from best cs = snd best \<or> max_from best cs \<in> snd ` set cs"
proof (induction cs arbitrary: best)
  case (Cons c cs best)
  show ?case using Cons.IH [of best] Cons.IH [of c] by auto
qed simp

lemma res_map_ic_key: "res_map (ic_key on) hs = Inr ks \<Longrightarrow> map snd ks = hs"
  by (induction hs arbitrary: ks) (auto simp: res_bind_eq_Inr ic_key_def)

lemma canonical_parent_in:
  assumes "canonical_parent on s = Inr (Some p)"
  shows "p \<in> set (parents (on_index on) s)"
proof -
  obtain k rest where ks: "res_map (ic_key on) (parents (on_index on) s) = Inr (k # rest)"
    and p: "p = max_from k rest"
  proof -
    from assms obtain ks where ks: "res_map (ic_key on) (parents (on_index on) s) = Inr ks"
      and p: "(case ks of [] \<Rightarrow> None | k # rest \<Rightarrow> Some (max_from k rest)) = Some p"
      by (auto simp only: canonical_parent_def res_bind_eq_Inr sum.inject)
    show ?thesis using ks p that by (cases ks) auto
  qed
  have "parents (on_index on) s = map snd (k # rest)" using res_map_ic_key [OF ks] by simp
  then show ?thesis unfolding p using max_from_in [of k rest] by auto
qed

text \<open>
  The walk of \<open>tree_path\<close>, from a synset that is already on the path; it stops at a root or at a
  name that was passed before.
\<close>

function tree_up :: "ontology \<Rightarrow> synset \<Rightarrow> string list \<Rightarrow> synset list res" where
  "tree_up on cur seen = (case canonical_parent on cur of
       Inl e \<Rightarrow> Inl e
     | Inr None \<Rightarrow> Inr []
     | Inr (Some p) \<Rightarrow>
         if sy_name p \<in> set seen then Inr []
         else res_bind (tree_up on p (sy_name p # seen)) (\<lambda>ps. Inr (p # ps)))"
  by pat_completeness auto

termination tree_up
proof (relation "measure (\<lambda>(on, cur, seen). card (index_names (on_index on) - set seen))", goal_cases)
  case (2 on cur seen po p)
  then have "sy_name p \<in> index_names (on_index on)"
    by (intro parent_index_names [of p _ cur] canonical_parent_in) simp
  then have "card (index_names (on_index on) - insert (sy_name p) (set seen)) < card (index_names (on_index on) - set seen)"
    using 2 by (intro new_name_shrinks) simp_all
  then show ?case by simp
qed simp

declare tree_up.simps [simp del]

definition tree_path :: "ontology \<Rightarrow> synset \<Rightarrow> synset list res" where
  "tree_path on s = res_bind (tree_up on s [sy_name s]) (\<lambda>ps. Inr (s # ps))"

section \<open>Jiang-Conrath on the tree\<close>

definition names :: "synset list \<Rightarrow> string list" where
  "names ss = map sy_name ss"

definition first_shared :: "synset list \<Rightarrow> synset list \<Rightarrow> synset option" where
  "first_shared p1 p2 = List.find (\<lambda>s. sy_name s \<in> set (names p2)) p1"

definition tree_lcs :: "ontology \<Rightarrow> synset \<Rightarrow> synset \<Rightarrow> synset option res" where
  "tree_lcs on s1 s2 = res_bind (tree_path on s2) (\<lambda>p2. res_bind (tree_path on s1) (\<lambda>p1.
     Inr (first_shared p1 p2)))"

definition tree_lcs_ic :: "ontology \<Rightarrow> synset \<Rightarrow> synset \<Rightarrow> real res" where
  "tree_lcs_ic on s1 s2 = res_bind (tree_lcs on s1 s2) (\<lambda>l.
     case l of None \<Rightarrow> Inr 0 | Some s \<Rightarrow> ic_of on True s)"

definition jc_tree :: "ontology \<Rightarrow> synset \<Rightarrow> synset \<Rightarrow> real res" where
  "jc_tree on s1 s2 = res_bind (ic_of on True s1) (\<lambda>a. res_bind (ic_of on True s2) (\<lambda>b.
     res_bind (tree_lcs_ic on s1 s2) (\<lambda>c. Inr (a + b - 2 * c))))"

text \<open>\<open>ic_se_of\<close> and \<open>jc_tree_se\<close>: the standard errors in quadrature; unknown stays unknown.\<close>

definition ic_se_of :: "real option \<Rightarrow> synset \<Rightarrow> real option" where
  "ic_se_of dflt s = (case sy_se s of
       None \<Rightarrow> dflt
     | Some NonFinite \<Rightarrow> dflt
     | Some (Fin v) \<Rightarrow> if v < 0 then dflt else Some v)"

definition jc_tree_se :: "ontology \<Rightarrow> real option \<Rightarrow> synset \<Rightarrow> synset \<Rightarrow> real option res" where
  "jc_tree_se on dflt s1 s2 = (case (ic_se_of dflt s1, ic_se_of dflt s2) of
       (Some a, Some b) \<Rightarrow>
         res_bind (tree_lcs on s1 s2) (\<lambda>l.
           case (case l of None \<Rightarrow> Some 0 | Some n \<Rightarrow> ic_se_of dflt n) of
             None \<Rightarrow> Inr None
           | Some c \<Rightarrow> Inr (Some (sqrt (a * a + b * b + 4 * c * c))))
     | _ \<Rightarrow> Inr None)"

text \<open>\<open>jc_exact\<close>: the closed form over the whole graph.\<close>

definition jc_exact :: "ontology \<Rightarrow> synset \<Rightarrow> synset \<Rightarrow> real res" where
  "jc_exact on s1 s2 = res_bind (res_map (ic_of on True) (common_hypernyms (on_index on) s1 s2)) (\<lambda>cs.
     let lcs = (case cs of [] \<Rightarrow> 0 | c # rest \<Rightarrow> fold max rest c) in
     res_bind (ic_of on True s1) (\<lambda>a. res_bind (ic_of on True s2) (\<lambda>b. Inr (a + b - 2 * lcs))))"

section \<open>The coordinate\<close>

fun path_edges :: "ontology \<Rightarrow> synset list \<Rightarrow> (string \<times> real) list res" where
  "path_edges on (c # p # rest) =
     res_bind (ic_of on True c) (\<lambda>a. res_bind (ic_of on True p) (\<lambda>b.
       res_bind (path_edges on (p # rest)) (\<lambda>es. Inr ((sy_name c, max (a - b) 0) # es))))"
| "path_edges on _ = Inr []"

definition sparse_vec :: "ontology \<Rightarrow> synset \<Rightarrow> real dict res" where
  "sparse_vec on s = res_bind (tree_path on s) (\<lambda>path. res_bind (path_edges on path) (\<lambda>es.
     Inr (dict_update [] (map (\<lambda>(n, d). (n, sqrt d)) (filter (\<lambda>(n, d). 0 < d) es)))))"

definition coord :: "real dict \<Rightarrow> string \<Rightarrow> real" where
  "coord d k = (case map_of d k of None \<Rightarrow> 0 | Some v \<Rightarrow> v)"

text \<open>The squared distance of two sparse coordinates, as \<open>faithfulness_check\<close> sums it.\<close>

definition l2_sparse :: "real dict \<Rightarrow> real dict \<Rightarrow> real" where
  "l2_sparse d1 d2 = (\<Sum>k\<leftarrow>remdups (map fst d1 @ map fst d2). (coord d1 k - coord d2 k)\<^sup>2)"

section \<open>Hashing into D dimensions\<close>

definition hash_node :: "(string \<Rightarrow> nat) \<Rightarrow> string \<Rightarrow> nat \<times> real" where
  "hash_node blake2b node = (let h = blake2b (''genesis-geom-v1'' @ node) in
     (h, if (h div 2 ^ 40) mod 2 = 1 then 1 else - 1))"

definition bump :: "(string \<Rightarrow> nat) \<Rightarrow> nat \<Rightarrow> string \<times> real \<Rightarrow> real list \<Rightarrow> real list" where
  "bump blake2b D nw v = (case hash_node blake2b (fst nw) of (h, sg) \<Rightarrow>
     v[h mod D := v ! (h mod D) + sg * snd nw])"

definition dense_of :: "(string \<Rightarrow> nat) \<Rightarrow> nat \<Rightarrow> real dict \<Rightarrow> real list res" where
  "dense_of blake2b D d =
     (if D = 0 \<and> d \<noteq> [] then Inl (PyError ''ZeroDivisionError'' ''integer modulo by zero'')
      else Inr (fold (bump blake2b D) d (replicate D 0)))"

definition subtract_center :: "nat \<Rightarrow> real list option \<Rightarrow> real list \<Rightarrow> real list res" where
  "subtract_center D center v = (case center of
       None \<Rightarrow> Inr v
     | Some c \<Rightarrow> if length c \<noteq> D then Inl (ValueError ''centering mean'')
         else Inr (map2 (-) v c))"

definition dense_vec :: "ontology \<Rightarrow> (string \<Rightarrow> nat) \<Rightarrow> nat \<Rightarrow> real list option \<Rightarrow> synset \<Rightarrow> real list res" where
  "dense_vec on blake2b D center s = res_bind (sparse_vec on s) (\<lambda>d.
     res_bind (dense_of blake2b D d) (subtract_center D center))"

text \<open>\<open>np.sum((v1 - v2) ** 2)\<close>.\<close>

definition l2_dense :: "real list \<Rightarrow> real list \<Rightarrow> real" where
  "l2_dense v1 v2 = (\<Sum>(a, b)\<leftarrow>zip v1 v2. (a - b)\<^sup>2)"

end
