(* ===== verification/Intrinsic_Ic.thy ===== *)
theory Intrinsic_Ic
  imports Ontology
begin

text \<open>
  What \<open>derive_intrinsic_ic\<close> measures: the walk up from a name collects exactly the names above it
  in the is-a graph, so a synset is credited once by each of its descendants; the value is between
  0 and 1, 1 exactly for a synset nothing is below, and never rises on the way up. The last fact is
  what the geometry needs of an information content.
\<close>

definition is_a :: "index \<Rightarrow> (string \<times> string) set" where
  "is_a idx = {(a, b). b \<in> set (above idx a) \<and> b \<in> dom (map_of idx)}"

lemma climb_keeps: "set seen \<subseteq> set (climb idx stack seen)"
  by (induction idx stack seen rule: climb.induct) auto

lemma climb_distinct: "distinct seen \<Longrightarrow> distinct (climb idx stack seen)"
  by (induction idx stack seen rule: climb.induct) auto

lemma climb_stack: "q \<in> set stack \<Longrightarrow> q \<in> dom (map_of idx) \<Longrightarrow> q \<in> set (climb idx stack seen)"
proof (induction idx stack seen rule: climb.induct)
  case (2 idx r stack seen)
  then show ?case
    using climb_keeps [of seen idx stack] climb_keeps [of "r # seen" idx "rev (above idx r) @ stack"]
    by auto
qed simp

lemma climb_sound:
  assumes "\<And>q. q \<in> set stack \<union> set seen \<Longrightarrow> q \<in> dom (map_of idx) \<Longrightarrow> (n, q) \<in> (is_a idx)\<^sup>+"
    and "set seen \<subseteq> dom (map_of idx)" "q \<in> set (climb idx stack seen)"
  shows "(n, q) \<in> (is_a idx)\<^sup>+"
  using assms
proof (induction idx stack seen rule: climb.induct)
  case (1 idx seen)
  then show ?case by (metis UnI2 climb.simps(1) subsetD)
next
  case (2 idx r stack seen)
  show ?case
  proof (cases "r \<in> set seen \<or> map_of idx r = None")
    case False
    then have r: "(n, r) \<in> (is_a idx)\<^sup>+" and dom: "r \<in> dom (map_of idx)" using "2.prems"(1) [of r] by auto
    show ?thesis
    proof (rule "2.IH"(2) [OF False])
      show "(n, t) \<in> (is_a idx)\<^sup>+" if "t \<in> set (rev (above idx r) @ stack) \<union> set (r # seen)"
        "t \<in> dom (map_of idx)" for t
      proof (cases "t \<in> set (above idx r)")
        case True
        then have "(r, t) \<in> is_a idx" using that by (simp add: is_a_def)
        then show ?thesis using r by (rule trancl_into_trancl [rotated])
      next
        case False
        then show ?thesis using that r "2.prems"(1) [of t] by auto
      qed
    qed (use "2.prems" dom False in auto)
  qed (use 2 in auto)
qed

lemma climb_closed:
  assumes "\<And>q r. q \<in> set seen \<Longrightarrow> (q, r) \<in> is_a idx \<Longrightarrow> r \<in> set seen \<union> set stack"
    and "q \<in> set (climb idx stack seen)" "(q, r) \<in> is_a idx"
  shows "r \<in> set (climb idx stack seen)"
  using assms
proof (induction idx stack seen rule: climb.induct)
  case (1 idx seen)
  then show ?case by auto
next
  case (2 idx t stack seen)
  show ?case
  proof (cases "t \<in> set seen \<or> map_of idx t = None")
    case True
    have inv: "y \<in> set seen \<union> set stack" if "x \<in> set seen" "(x, y) \<in> is_a idx" for x y
      using "2.prems"(1) [OF that] True that by (auto simp: is_a_def)
    have step: "climb idx (t # stack) seen = climb idx stack seen" using True by simp
    from "2.IH"(1) [OF True inv "2.prems"(2) [unfolded step] "2.prems"(3)] show ?thesis
      unfolding step .
  next
    case False
    have inv: "y \<in> set (t # seen) \<union> set (rev (above idx t) @ stack)"
      if "x \<in> set (t # seen)" "(x, y) \<in> is_a idx" for x y
      using that "2.prems"(1) [of x y] by (auto simp: is_a_def)
    have step: "climb idx (t # stack) seen = climb idx (rev (above idx t) @ stack) (t # seen)"
      using False by (simp only: climb.simps if_False)
    from "2.IH"(2) [OF False inv "2.prems"(2) [unfolded step] "2.prems"(3)] show ?thesis
      unfolding step .
  qed
qed

lemma ancestors_iff: "q \<in> set (ancestors idx n) \<longleftrightarrow> (n, q) \<in> (is_a idx)\<^sup>+"
proof
  assume "q \<in> set (ancestors idx n)"
  then show "(n, q) \<in> (is_a idx)\<^sup>+"
    unfolding ancestors_def by (rule climb_sound [rotated 2]) (auto simp: is_a_def)
next
  assume "(n, q) \<in> (is_a idx)\<^sup>+"
  then show "q \<in> set (ancestors idx n)"
  proof (induction rule: trancl_induct)
    case (base y)
    then have "y \<in> set (rev (above idx n))" "y \<in> dom (map_of idx)" by (simp_all add: is_a_def)
    then show ?case unfolding ancestors_def by (rule climb_stack)
  next
    case (step y z)
    have none: "\<And>a b. a \<in> set ([] :: string list) \<Longrightarrow> (a, b) \<in> is_a idx
        \<Longrightarrow> b \<in> set [] \<union> set (rev (above idx n))" by simp
    show ?case
      using climb_closed [OF none step.IH [unfolded ancestors_def] step.hyps(2)]
      unfolding ancestors_def .
  qed
qed

lemma ancestors_distinct: "distinct (ancestors idx n)"
  unfolding ancestors_def by (rule climb_distinct) simp

section \<open>Counting descendants\<close>

definition count_at :: "nat dict \<Rightarrow> string \<Rightarrow> nat" where
  "count_at desc q = (case map_of desc q of None \<Rightarrow> 0 | Some k \<Rightarrow> k)"

lemma count_at_credit [simp]: "count_at (credit p desc) q = count_at desc q + (if p = q then 1 else 0)"
  by (simp add: count_at_def credit_def)

lemma count_at_fold: "distinct ps \<Longrightarrow>
    count_at (fold credit ps desc) q = count_at desc q + (if q \<in> set ps then 1 else 0)"
  by (induction ps arbitrary: desc) auto

lemma count_at_descendants:
  "count_at (descendants idx) q = length (filter (\<lambda>(n, _). q \<in> set (ancestors idx n)) idx)"
proof -
  have "count_at (fold (\<lambda>(n, _) desc. fold credit (ancestors idx n) desc) rows desc) q
      = count_at desc q + length (filter (\<lambda>(n, _). q \<in> set (ancestors idx n)) rows)" for rows :: index and desc
    by (induction rows arbitrary: desc) (auto simp: count_at_fold ancestors_distinct)
  from this [of idx "[]"] show ?thesis by (simp add: descendants_def count_at_def)
qed

definition below :: "index \<Rightarrow> string \<Rightarrow> string set" where
  "below idx n = {m \<in> dom (map_of idx). (m, n) \<in> (is_a idx)\<^sup>+}"

lemma count_at_below:
  assumes "wf_dict idx"
  shows "count_at (descendants idx) n = card (below idx n)"
proof -
  let ?rows = "filter (\<lambda>(m, _). n \<in> set (ancestors idx m)) idx"
  have "below idx n = fst ` set ?rows"
    by (force simp: below_def ancestors_iff dom_map_of_conv_image_fst)
  moreover have "distinct (map fst ?rows)" using assms by (rule distinct_map_filter)
  ultimately have "card (below idx n) = length ?rows"
    by (metis distinct_card length_map set_map)
  then show ?thesis by (simp add: count_at_descendants)
qed

lemma derive_intrinsic_ic_at:
  assumes "wf_dict idx" "n \<in> dom (map_of idx)"
  shows "map_of (derive_intrinsic_ic idx) n
    = Some (1 - ln (real (card (below idx n)) + 1) / ln (real (length idx) + 1))"
proof -
  have pair: "map_of (map (\<lambda>(m, _). (m, f m)) rows) n = (if n \<in> fst ` set rows then Some (f n) else None)"
    for f :: "string \<Rightarrow> real" and rows :: index
    by (induction rows) auto
  have "count_at (descendants idx) n = card (below idx n)" using assms(1) by (rule count_at_below)
  then show ?thesis
    using assms(2) unfolding derive_intrinsic_ic_def Let_def count_at_def [symmetric] pair
    by (simp add: dom_map_of_conv_image_fst)
qed

lemma card_dom_index: "wf_dict idx \<Longrightarrow> card (dom (map_of idx)) = length idx"
  by (simp add: dom_map_of_conv_image_fst distinct_card flip: set_map)

lemma below_bound: "wf_dict idx \<Longrightarrow> card (below idx n) \<le> length idx"
  by (metis (no_types, lifting) below_def card_dom_index card_mono finite_dom_map_of mem_Collect_eq subsetI)

lemma below_mono: "(m, n) \<in> is_a idx \<Longrightarrow> below idx m \<subseteq> below idx n"
  by (auto simp: below_def intro: trancl_into_trancl)

lemma finite_below [simp]: "finite (below idx n)"
  by (simp add: below_def finite_dom_map_of)
section \<open>What the value says\<close>

text \<open>C20: the number stored for a synset is the one the formula names: one less the logarithm of the
  synsets below it, itself included, over that of the corpus, where below means reachable upwards by
  the is-a and instance edges the index holds; cycles and dangling edges do no harm.\<close>

theorem intrinsic_ic_measures:
  assumes "wf_dict idx" "map_of idx n = Some s"
  shows "map_of (derive_intrinsic_ic idx) n = Some
    (1 - ln (real (card {m \<in> dom (map_of idx). (m, n) \<in> (is_a idx)\<^sup>+}) + 1) / ln (real (length idx) + 1))"
proof -
  have "n \<in> dom (map_of idx)" using assms(2) by (simp add: dom_def)
  from derive_intrinsic_ic_at [OF assms(1) this] show ?thesis unfolding below_def .
qed

lemma ln_ratio_bounds:
  fixes k N :: nat
  assumes "k \<le> N" "0 < N"
  shows "0 \<le> ln (real k + 1) / ln (real N + 1)" "ln (real k + 1) / ln (real N + 1) \<le> 1"
    "ln (real k + 1) / ln (real N + 1) = 0 \<longleftrightarrow> k = 0"
proof -
  have pos: "0 < ln (real N + 1)" using assms by simp
  show "0 \<le> ln (real k + 1) / ln (real N + 1)" using pos by simp
  show "ln (real k + 1) / ln (real N + 1) \<le> 1" using pos assms by (simp add: divide_le_eq_1_pos)
  show "ln (real k + 1) / ln (real N + 1) = 0 \<longleftrightarrow> k = 0" using pos by auto
qed

lemma is_a_dom: "(m, n) \<in> is_a idx \<Longrightarrow> m \<in> dom (map_of idx)"
  by (cases "map_of idx m") (auto simp: is_a_def above_def)

lemma below_empty: "below idx n = {} \<longleftrightarrow> (\<forall>m. (m, n) \<notin> is_a idx)"
proof
  assume "below idx n = {}"
  then show "\<forall>m. (m, n) \<notin> is_a idx" unfolding below_def by (blast dest: is_a_dom)
next
  assume "\<forall>m. (m, n) \<notin> is_a idx"
  then show "below idx n = {}" unfolding below_def by (blast elim: tranclE)
qed

lemma derive_intrinsic_ic_dom: "map_of (derive_intrinsic_ic idx) n = Some v \<Longrightarrow> n \<in> dom (map_of idx)"
proof -
  assume "map_of (derive_intrinsic_ic idx) n = Some v"
  then have "n \<in> fst ` set (derive_intrinsic_ic idx)" by (metis domI dom_map_of_conv_image_fst)
  also have "fst ` set (derive_intrinsic_ic idx) = fst ` set idx"
    by (force simp: derive_intrinsic_ic_def Let_def)
  finally show ?thesis by (simp add: dom_map_of_conv_image_fst)
qed

lemma derive_intrinsic_ic_value:
  assumes "wf_dict idx" "map_of (derive_intrinsic_ic idx) n = Some v"
  shows "v = 1 - ln (real (card (below idx n)) + 1) / ln (real (length idx) + 1)" "0 < length idx"
proof -
  show "v = 1 - ln (real (card (below idx n)) + 1) / ln (real (length idx) + 1)"
    using derive_intrinsic_ic_at [OF assms(1) derive_intrinsic_ic_dom [OF assms(2)]] assms(2) by simp
  show "0 < length idx" using derive_intrinsic_ic_dom [OF assms(2)] by (cases idx) auto
qed

lemma intrinsic_ic_order_bounds:
  assumes "wf_dict idx" "map_of (derive_intrinsic_ic idx) n = Some v"
  shows "0 \<le> v" "v \<le> 1" "v = 1 \<longleftrightarrow> (\<forall>m. (m, n) \<notin> is_a idx)"
proof -
  note val = derive_intrinsic_ic_value [OF assms]
  note bounds = ln_ratio_bounds [OF below_bound [OF assms(1), of n] val(2)]
  show "0 \<le> v" "v \<le> 1" using bounds(1,2) unfolding val(1) by simp_all
  have "v = 1 \<longleftrightarrow> below idx n = {}"
    using bounds(3) unfolding val(1) by (simp add: card_eq_0_iff)
  then show "v = 1 \<longleftrightarrow> (\<forall>m. (m, n) \<notin> is_a idx)" unfolding below_empty .
qed

lemma intrinsic_ic_order_up:
  assumes "wf_dict idx" "map_of (derive_intrinsic_ic idx) n = Some v"
    and edge: "(n, p) \<in> is_a idx" and u: "map_of (derive_intrinsic_ic idx) p = Some u"
  shows "u \<le> v"
proof -
  note val = derive_intrinsic_ic_value [OF assms(1,2)]
  have "card (below idx n) \<le> card (below idx p)"
    using below_mono [OF edge] by (simp add: card_mono)
  moreover have "0 < ln (real (length idx) + 1)" using val(2) by simp
  ultimately show ?thesis
    unfolding val(1) derive_intrinsic_ic_value(1) [OF assms(1) u] by (simp add: divide_right_mono)
qed

text \<open>the stored value lies between 0 and 1; it is 1 exactly for a synset nothing is below, and a
  synset never carries less than one it is a kind of.\<close>

theorem intrinsic_ic_order:
  assumes "wf_dict idx" "map_of (derive_intrinsic_ic idx) n = Some v"
  shows "0 \<le> v \<and> v \<le> 1 \<and> (v = 1 \<longleftrightarrow> (\<forall>m. (m, n) \<notin> is_a idx))
    \<and> (\<forall>p u. (n, p) \<in> is_a idx \<longrightarrow> map_of (derive_intrinsic_ic idx) p = Some u \<longrightarrow> u \<le> v)"
  using intrinsic_ic_order_bounds [OF assms] intrinsic_ic_order_up [OF assms] by blast

theorem intrinsic_ic_measures_witness:
  "\<exists>s. map_of (derive_intrinsic_ic ex_index) ''dog'' = Some
    (1 - ln (real (card {m \<in> dom (map_of ex_index). (m, ''dog'') \<in> (is_a ex_index)\<^sup>+}) + 1)
      / ln (real (length ex_index) + 1)) \<and> map_of ex_index ''dog'' = Some s"
proof -
  have wf: "wf_dict ex_index" and dog: "map_of ex_index ''dog'' = Some (snd (ex_synset 2 ''dog'' [''animal''] 5))"
    by (simp_all add: ex_index_def ex_synset_def)
  from intrinsic_ic_measures [OF wf dog] dog show ?thesis by blast
qed

theorem intrinsic_ic_order_witness:
  "\<exists>v. map_of (derive_intrinsic_ic ex_index) ''dog'' = Some v \<and> 0 \<le> v \<and> v \<le> 1
    \<and> (v = 1 \<longleftrightarrow> (\<forall>m. (m, ''dog'') \<notin> is_a ex_index))"
proof -
  have wf: "wf_dict ex_index" and dog: "''dog'' \<in> dom (map_of ex_index)"
    by (simp_all add: ex_index_def ex_synset_def dom_def)
  then obtain v where v: "map_of (derive_intrinsic_ic ex_index) ''dog'' = Some v"
    using derive_intrinsic_ic_at by blast
  with intrinsic_ic_order [OF wf v] show ?thesis by blast
qed

end
