(* ===== verification/Geometry_Laws.thy ===== *)
theory Geometry_Laws
  imports Geometry Intrinsic_Ic
begin

text \<open>
  What the coordinate of \<open>Geometry\<close> measures. A path of the spanning tree that ends at a root is
  determined by where it starts, so two paths that meet share everything above the meeting point;
  the squared weights of a path telescope; and hashing keeps distances as long as no two nodes of
  the paths fall into one slot.
\<close>

section \<open>Paths\<close>

fun chain :: "ontology \<Rightarrow> synset list \<Rightarrow> bool" where
  "chain on [] \<longleftrightarrow> False"
| "chain on [x] \<longleftrightarrow> canonical_parent on x = Inr None"
| "chain on (x # y # r) \<longleftrightarrow> canonical_parent on x = Inr (Some y) \<and> chain on (y # r)"

lemma chain_determined: "chain on (x # a) \<Longrightarrow> chain on (x # b) \<Longrightarrow> a = b"
proof (induction a arbitrary: x b)
  case Nil
  then show ?case by (cases b) auto
next
  case (Cons y a)
  then show ?case by (cases b) auto
qed

lemma chain_suffix: "chain on (a @ x # b) \<Longrightarrow> chain on (x # b)"
proof (induction a)
  case (Cons y a)
  then show ?case by (cases "a @ x # b") auto
qed simp

lemma tree_up_cases [consumes 1, case_names root revisit step]:
  assumes "tree_up on cur seen = Inr ps"
  obtains "canonical_parent on cur = Inr None" "ps = []"
  | p where "canonical_parent on cur = Inr (Some p)" "sy_name p \<in> set seen" "ps = []"
  | p qs where "canonical_parent on cur = Inr (Some p)" "sy_name p \<notin> set seen"
      "tree_up on p (sy_name p # seen) = Inr qs" "ps = p # qs"
proof -
  have "(case canonical_parent on cur of Inl e \<Rightarrow> Inl e | Inr None \<Rightarrow> Inr []
     | Inr (Some p) \<Rightarrow> if sy_name p \<in> set seen then Inr []
         else res_bind (tree_up on p (sy_name p # seen)) (\<lambda>ps. Inr (p # ps))) = Inr ps"
    using assms tree_up.simps [of on cur seen] by simp
  then show thesis
    using that by (auto simp: res_bind_eq_Inr split: sum.splits option.splits if_splits)
qed

lemma tree_up_chain:
  "tree_up on cur seen = Inr ps \<Longrightarrow> canonical_parent on (last (cur # ps)) = Inr None \<Longrightarrow> chain on (cur # ps)"
proof (induction ps arbitrary: cur seen)
  case Nil
  then show ?case by simp
next
  case (Cons p ps)
  from Cons.prems(1) show ?case
  proof (cases rule: tree_up_cases)
    case (step q qs)
    then show ?thesis using Cons.IH [of q] Cons.prems(2) by simp
  qed simp_all
qed

lemma tree_up_distinct:
  "tree_up on cur seen = Inr ps \<Longrightarrow> distinct (names ps) \<and> set (names ps) \<inter> set seen = {}"
proof (induction ps arbitrary: cur seen)
  case (Cons p ps)
  from Cons.prems(1) show ?case
  proof (cases rule: tree_up_cases)
    case (step q qs)
    then show ?thesis using Cons.IH [of q "sy_name q # seen"] by (auto simp: names_def)
  qed simp_all
qed (simp add: names_def)

lemma tree_up_in_index:
  "tree_up on cur seen = Inr ps \<Longrightarrow> wf_index (on_index on) \<Longrightarrow> x \<in> set ps \<Longrightarrow>
    map_of (on_index on) (sy_name x) = Some x"
proof (induction ps arbitrary: cur seen)
  case (Cons p ps)
  from Cons.prems(1) show ?case
  proof (cases rule: tree_up_cases)
    case (step q qs)
    then show ?thesis
      using Cons.IH [of q "sy_name q # seen"] Cons.prems(2,3) canonical_parent_in [of on cur q]
      by (auto intro: wf_index_parent)
  qed simp_all
qed simp

definition ic_value :: "ontology \<Rightarrow> synset \<Rightarrow> real" where
  "ic_value on s = (case ic_of on True s of Inr v \<Rightarrow> v | Inl _ \<Rightarrow> 0)"

text \<open>
  A measured path: it ends at a root, every synset on it carries a number the corpus can have
  produced, and the numbers do not rise on the way up.
\<close>

definition measured_path :: "ontology \<Rightarrow> synset \<Rightarrow> synset list \<Rightarrow> real list \<Rightarrow> bool" where
  "measured_path on s p vs \<longleftrightarrow> tree_path on s = Inr p \<and> canonical_parent on (last p) = Inr None
     \<and> res_map (ic_of on True) p = Inr vs \<and> sorted_wrt (\<ge>) vs"

lemma res_map_Inr: "res_map f xs = Inr ys \<longleftrightarrow> list_all2 (\<lambda>x y. f x = Inr y) xs ys"
  by (induction xs arbitrary: ys) (auto simp: res_bind_eq_Inr list_all2_Cons1)

lemma measured_values: "measured_path on s p vs \<Longrightarrow> vs = map (ic_value on) p"
  by (auto simp: measured_path_def res_map_Inr list_all2_conv_all_nth ic_value_def intro!: nth_equalityI)

lemma measured_ic: "measured_path on s p vs \<Longrightarrow> x \<in> set p \<Longrightarrow> ic_of on True x = Inr (ic_value on x)"
  by (auto simp: measured_path_def res_map_Inr list_all2_conv_all_nth ic_value_def in_set_conv_nth)

lemma measured_hd:
  assumes "measured_path on s p vs"
  obtains ps where "p = s # ps" "chain on (s # ps)" "distinct (names p)"
proof -
  obtain ps where "tree_up on s [sy_name s] = Inr ps" "p = s # ps"
    using assms by (auto simp: measured_path_def tree_path_def res_bind_eq_Inr)
  moreover have "chain on (s # ps)"
    using assms calculation by (intro tree_up_chain) (auto simp: measured_path_def)
  moreover have "distinct (names p)" using tree_up_distinct [of on s "[sy_name s]" ps] calculation
    by (auto simp: names_def)
  ultimately show ?thesis using that by blast
qed

lemma measured_in_index:
  "measured_path on s p vs \<Longrightarrow> wf_index (on_index on) \<Longrightarrow> map_of (on_index on) (sy_name s) = Some s \<Longrightarrow>
    x \<in> set p \<Longrightarrow> map_of (on_index on) (sy_name x) = Some x"
  by (auto simp: measured_path_def tree_path_def res_bind_eq_Inr dest: tree_up_in_index)

definition falls :: "ontology \<Rightarrow> synset list \<Rightarrow> bool" where
  "falls on p \<longleftrightarrow> sorted_wrt (\<lambda>a b. ic_value on b \<le> ic_value on a) p"

lemma measured_falls: "measured_path on s p vs \<Longrightarrow> falls on p"
  using measured_values [of on s p vs] by (simp add: falls_def measured_path_def sorted_wrt_map)

section \<open>Weights along a path\<close>

fun weight :: "ontology \<Rightarrow> synset list \<Rightarrow> string \<Rightarrow> real" where
  "weight on (c # p # rest) k =
     (if k = sy_name c then sqrt (max (ic_value on c - ic_value on p) 0) else weight on (p # rest) k)"
| "weight on _ k = 0"

lemma weight_outside: "k \<notin> set (names p) \<Longrightarrow> weight on p k = 0"
  by (induction on p k rule: weight.induct) (auto simp: names_def)

lemma weight_suffix: "k \<notin> set (names a) \<Longrightarrow> weight on (a @ x # b) k = weight on (x # b) k"
proof (induction a)
  case (Cons y a)
  then show ?case by (cases "a @ x # b") (auto simp: names_def)
qed simp

lemma weight_telescopes:
  assumes "distinct (names (a @ x # b))" "falls on (a @ x # b)"
  shows "(\<Sum>k \<in> set (names a). (weight on (a @ x # b) k)\<^sup>2) = ic_value on (hd (a @ x # b)) - ic_value on x"
  using assms
proof (induction a)
  case Nil
  then show ?case by (simp add: names_def)
next
  case (Cons c a)
  obtain p rest where tail: "a @ x # b = p # rest" by (cases "a @ x # b") auto
  have new: "sy_name c \<notin> set (names a)" using Cons.prems(1) by (auto simp: names_def)
  have fall: "ic_value on p \<le> ic_value on c"
    using Cons.prems(2) tail by (auto simp: falls_def)
  have keep: "weight on ((c # a) @ x # b) k = weight on (a @ x # b) k" if "k \<in> set (names a)" for k
    using that new tail by auto
  have "(\<Sum>k \<in> set (names (c # a)). (weight on ((c # a) @ x # b) k)\<^sup>2)
      = (weight on ((c # a) @ x # b) (sy_name c))\<^sup>2 + (\<Sum>k \<in> set (names a). (weight on ((c # a) @ x # b) k)\<^sup>2)"
    using new by (simp add: names_def)
  also have "\<dots> = (ic_value on c - ic_value on p) + (\<Sum>k \<in> set (names a). (weight on (a @ x # b) k)\<^sup>2)"
    using keep fall tail by simp
  also have "\<dots> = (ic_value on c - ic_value on p) + (ic_value on p - ic_value on x)"
    using Cons.IH Cons.prems tail by (simp add: names_def falls_def)
  finally show ?case by simp
qed

lemma weight_total:
  assumes "distinct (names p)" "falls on p" "p \<noteq> []"
  shows "(\<Sum>k \<in> set (names p). (weight on p k)\<^sup>2) = ic_value on (hd p) - ic_value on (last p)"
proof -
  obtain a x where p: "p = a @ [x]" using assms(3) by (cases p rule: rev_cases) auto
  have x: "weight on (a @ [x]) (sy_name x) = 0"
    using assms(1) weight_suffix [of "sy_name x" a on x "[]"] by (auto simp: p names_def)
  have "(\<Sum>k \<in> set (names p). (weight on p k)\<^sup>2) = (\<Sum>k \<in> set (names a). (weight on (a @ x # []) k)\<^sup>2)"
    unfolding p using assms(1) x by (simp add: p names_def)
  then show ?thesis using weight_telescopes [of a x "[]" on] assms by (simp add: p)
qed

section \<open>The sparse coordinate is the weights\<close>

lemma path_edges_weight:
  assumes "path_edges on p = Inr es" "distinct (names p)"
    "\<And>x. x \<in> set p \<Longrightarrow> ic_of on True x = Inr (ic_value on x)"
  shows "coord (map (\<lambda>(n, d). (n, sqrt d)) (filter (\<lambda>(n, d). 0 < d) es)) k = weight on p k
    \<and> fst ` set es \<subseteq> set (names p) \<and> distinct (map fst es)"
  using assms
proof (induction on p arbitrary: es rule: path_edges.induct)
  case (1 on c p rest)
  obtain fs where fs: "path_edges on (p # rest) = Inr fs"
    and es: "es = (sy_name c, max (ic_value on c - ic_value on p) 0) # fs"
    using "1.prems"(1,3) by (auto simp: res_bind_eq_Inr)
  have IH: "coord (map (\<lambda>(n, d). (n, sqrt d)) (filter (\<lambda>(n, d). 0 < d) fs)) k = weight on (p # rest) k
    \<and> fst ` set fs \<subseteq> set (names (p # rest)) \<and> distinct (map fst fs)"
    using "1.prems" fs by (intro "1.IH") (auto simp: names_def)
  have new: "sy_name c \<notin> set (names (p # rest))" using "1.prems"(2) by (simp add: names_def)
  have none: "weight on (p # rest) (sy_name c) = 0" using new by (rule weight_outside)
  show ?case
    using IH new none by (auto simp: es names_def coord_def)
qed (auto simp: coord_def names_def)

lemma dict_update_distinct: "distinct (map fst kvs) \<Longrightarrow> map_of (dict_update [] kvs) = map_of kvs"
  by (rule ext) (simp add: map_of_dict_update map_of_rev_wf split: option.splits)

lemma sparse_vec_weight:
  assumes "measured_path on s p vs"
  obtains d where "sparse_vec on s = Inr d" "\<forall>k. coord d k = weight on p k" "fst ` set d \<subseteq> set (names p)"
    "wf_dict d"
proof -
  have ics: "\<And>x. x \<in> set p \<Longrightarrow> ic_of on True x = Inr (ic_value on x)" using assms by (rule measured_ic)
  have total: "\<exists>es. path_edges on q = Inr es" if "set q \<subseteq> set p" for q
    using that ics by (induction on q rule: path_edges.induct) (auto simp: res_bind_def split: sum.splits)
  then obtain es where es: "path_edges on p = Inr es" by blast
  let ?kvs = "map (\<lambda>(n, d). (n, sqrt d)) (filter (\<lambda>(n, d). 0 < d) es)"
  obtain ps where "distinct (names p)" using measured_hd [OF assms] by blast
  note edges = path_edges_weight [OF es this ics]
  have keys: "map fst ?kvs = map fst (filter (\<lambda>(n, d). 0 < d) es)" by (induction es) auto
  have dist: "distinct (map fst ?kvs)" unfolding keys using edges by (auto intro: distinct_map_filter)
  have dom: "fst ` set (dict_update [] ?kvs) = fst ` set ?kvs"
    using dict_update_distinct [OF dist] by (metis dom_map_of_conv_image_fst)
  show ?thesis
  proof (rule that)
    show "sparse_vec on s = Inr (dict_update [] ?kvs)"
      using assms es by (simp add: sparse_vec_def measured_path_def)
    show "\<forall>k. coord (dict_update [] ?kvs) k = weight on p k"
      using edges by (simp add: coord_def dict_update_distinct [OF dist])
    show "fst ` set (dict_update [] ?kvs) \<subseteq> set (names p)"
      unfolding dom using edges by force
    show "wf_dict (dict_update [] ?kvs)" by simp
  qed
qed

section \<open>Distance of two coordinates\<close>

lemma coord_outside: "k \<notin> fst ` set d \<Longrightarrow> coord d k = 0"
  by (metis coord_def map_of_eq_None_iff option.simps(4))

lemma l2_sparse_sum:
  assumes "finite K" "fst ` set d1 \<subseteq> K" "fst ` set d2 \<subseteq> K"
  shows "l2_sparse d1 d2 = (\<Sum>k \<in> K. (coord d1 k - coord d2 k)\<^sup>2)"
proof -
  have "l2_sparse d1 d2 = (\<Sum>k \<in> fst ` set d1 \<union> fst ` set d2. (coord d1 k - coord d2 k)\<^sup>2)"
    by (simp add: l2_sparse_def sum_list_distinct_conv_sum_set image_Un)
  also have "\<dots> = (\<Sum>k \<in> K. (coord d1 k - coord d2 k)\<^sup>2)"
    by (rule sum.mono_neutral_left) (use assms coord_outside in auto)
  finally show ?thesis .
qed

lemma first_shared_Some:
  assumes "first_shared p1 p2 = Some l"
  obtains a1 r1 a2 l' r2 where "p1 = a1 @ l # r1" "set (names a1) \<inter> set (names p2) = {}"
    "p2 = a2 @ l' # r2" "sy_name l' = sy_name l"
proof -
  from assms obtain i where i: "i < length p1" "p1 ! i = l" "sy_name l \<in> set (names p2)"
      "\<And>j. j < i \<Longrightarrow> sy_name (p1 ! j) \<notin> set (names p2)"
    by (auto simp: first_shared_def find_Some_iff)
  have p1: "p1 = take i p1 @ l # drop (Suc i) p1" using id_take_nth_drop [OF i(1)] i(2) by simp
  have "sy_name x \<notin> set (names p2)" if "x \<in> set (take i p1)" for x
    using that i(4) by (metis in_set_conv_nth length_take min_less_iff_conj nth_take)
  then have before: "set (names (take i p1)) \<inter> set (names p2) = {}" by (auto simp: names_def [of "take i p1"])
  obtain l' where "l' \<in> set p2" "sy_name l' = sy_name l" using i(3) by (auto simp: names_def)
  then show ?thesis using that p1 before by (metis split_list)
qed

lemma weights_one_side:
  assumes "K \<inter> set (names q) = {}"
  shows "(\<Sum>k \<in> K. (weight on p k - weight on q k)\<^sup>2) = (\<Sum>k \<in> K. (weight on p k)\<^sup>2)"
    and "(\<Sum>k \<in> K. (weight on q k - weight on p k)\<^sup>2) = (\<Sum>k \<in> K. (weight on p k)\<^sup>2)"
  using assms by (auto intro!: sum.cong simp: weight_outside disjoint_iff)

text \<open>Two measured paths that meet: the weights above the meeting point cancel.\<close>

lemma weights_meet:
  assumes wf: "wf_index (on_index on)"
    and in1: "map_of (on_index on) (sy_name s1) = Some s1" and in2: "map_of (on_index on) (sy_name s2) = Some s2"
    and m1: "measured_path on s1 p1 vs1" and m2: "measured_path on s2 p2 vs2"
    and l: "first_shared p1 p2 = Some l"
  shows "(\<Sum>k \<in> set (names p1) \<union> set (names p2). (weight on p1 k - weight on p2 k)\<^sup>2)
    = ic_value on s1 + ic_value on s2 - 2 * ic_value on l"
proof -
  obtain a1 r1 a2 l' r2 where p1: "p1 = a1 @ l # r1" and apart: "set (names a1) \<inter> set (names p2) = {}"
    and p2': "p2 = a2 @ l' # r2" and nm: "sy_name l' = sy_name l"
    using l by (rule first_shared_Some)
  have "map_of (on_index on) (sy_name l) = Some l" "map_of (on_index on) (sy_name l') = Some l'"
    using measured_in_index [OF m1 wf in1] measured_in_index [OF m2 wf in2] by (auto simp: p1 p2')
  then have l': "l' = l" using nm by simp
  obtain q1 where q1: "p1 = s1 # q1" "chain on (s1 # q1)" and d1: "distinct (names p1)" using m1 by (rule measured_hd)
  obtain q2 where q2: "p2 = s2 # q2" "chain on (s2 # q2)" and d2: "distinct (names p2)" using m2 by (rule measured_hd)
  have "chain on (l # r1)" using q1 p1 by (metis chain_suffix)
  moreover have "chain on (l # r2)" using q2 p2' l' by (metis chain_suffix)
  ultimately have r: "r2 = r1" using chain_determined by metis
  have p2: "p2 = a2 @ l # r1" using p2' l' r by simp
  have apart2: "set (names a2) \<inter> set (names p1) = {}"
    using apart d2 by (auto simp: p1 p2 names_def)
  let ?A = "set (names a1)" and ?B = "set (names a2)" and ?S = "set (names (l # r1))"
  have split: "set (names p1) \<union> set (names p2) = ?A \<union> (?B \<union> ?S)" by (auto simp: p1 p2 names_def)
  have same: "weight on p1 k = weight on p2 k" if "k \<in> ?S" for k
  proof -
    have "k \<notin> set (names a1)" "k \<notin> set (names a2)" using that d1 d2 by (auto simp: p1 p2 names_def) (metis image_eqI)+
    then show ?thesis unfolding p1 p2 by (simp add: weight_suffix)
  qed
  have "(\<Sum>k \<in> set (names p1) \<union> set (names p2). (weight on p1 k - weight on p2 k)\<^sup>2)
      = (\<Sum>k \<in> ?A. (weight on p1 k - weight on p2 k)\<^sup>2) + ((\<Sum>k \<in> ?B. (weight on p1 k - weight on p2 k)\<^sup>2)
        + (\<Sum>k \<in> ?S. (weight on p1 k - weight on p2 k)\<^sup>2))"
  proof -
    have "?B \<inter> ?S = {}" using d2 by (auto simp: p2 names_def)
    moreover have "?A \<inter> (?B \<union> ?S) = {}" using d1 apart by (auto simp: p1 p2 names_def)
    ultimately show ?thesis unfolding split by (simp add: sum.union_disjoint)
  qed
  also have "(\<Sum>k \<in> ?S. (weight on p1 k - weight on p2 k)\<^sup>2) = 0" using same by (intro sum.neutral) simp
  also have "(\<Sum>k \<in> ?A. (weight on p1 k - weight on p2 k)\<^sup>2) = (\<Sum>k \<in> ?A. (weight on p1 k)\<^sup>2)"
    using apart by (intro weights_one_side) auto
  also have "(\<Sum>k \<in> ?B. (weight on p1 k - weight on p2 k)\<^sup>2) = (\<Sum>k \<in> ?B. (weight on p2 k)\<^sup>2)"
    using apart2 by (intro weights_one_side) auto
  also have "(\<Sum>k \<in> ?A. (weight on p1 k)\<^sup>2) = ic_value on s1 - ic_value on l"
    using weight_telescopes [of a1 l r1 on] d1 measured_falls [OF m1] q1(1) unfolding p1 by (metis list.sel(1))
  also have "(\<Sum>k \<in> ?B. (weight on p2 k)\<^sup>2) = ic_value on s2 - ic_value on l"
    using weight_telescopes [of a2 l r1 on] d2 measured_falls [OF m2] q2(1) unfolding p2 by (metis list.sel(1))
  finally show ?thesis by simp
qed

lemma weights_apart:
  assumes m1: "measured_path on s1 p1 vs1" and m2: "measured_path on s2 p2 vs2"
    and l: "first_shared p1 p2 = None"
  shows "(\<Sum>k \<in> set (names p1) \<union> set (names p2). (weight on p1 k - weight on p2 k)\<^sup>2)
    = ic_value on s1 + ic_value on s2 - ic_value on (last p1) - ic_value on (last p2)"
proof -
  have apart: "set (names p1) \<inter> set (names p2) = {}"
    using l by (auto simp: first_shared_def find_None_iff names_def)
  obtain q1 where q1: "p1 = s1 # q1" and d1: "distinct (names p1)" using m1 by (rule measured_hd)
  obtain q2 where q2: "p2 = s2 # q2" and d2: "distinct (names p2)" using m2 by (rule measured_hd)
  have "(\<Sum>k \<in> set (names p1) \<union> set (names p2). (weight on p1 k - weight on p2 k)\<^sup>2)
      = (\<Sum>k \<in> set (names p1). (weight on p1 k - weight on p2 k)\<^sup>2)
        + (\<Sum>k \<in> set (names p2). (weight on p1 k - weight on p2 k)\<^sup>2)"
    using apart by (simp add: sum.union_disjoint)
  also have "(\<Sum>k \<in> set (names p1). (weight on p1 k - weight on p2 k)\<^sup>2) = (\<Sum>k \<in> set (names p1). (weight on p1 k)\<^sup>2)"
    using apart by (intro weights_one_side) auto
  also have "(\<Sum>k \<in> set (names p2). (weight on p1 k - weight on p2 k)\<^sup>2) = (\<Sum>k \<in> set (names p2). (weight on p2 k)\<^sup>2)"
    using apart by (intro weights_one_side) auto
  also have "(\<Sum>k \<in> set (names p1). (weight on p1 k)\<^sup>2) = ic_value on s1 - ic_value on (last p1)"
    using weight_total [OF d1 measured_falls [OF m1]] q1 by simp
  also have "(\<Sum>k \<in> set (names p2). (weight on p2 k)\<^sup>2) = ic_value on s2 - ic_value on (last p2)"
    using weight_total [OF d2 measured_falls [OF m2]] q2 by simp
  finally show ?thesis by simp
qed

lemma jc_tree_value:
  assumes "measured_path on s1 p1 vs1" "measured_path on s2 p2 vs2"
  shows "jc_tree on s1 s2 = Inr (ic_value on s1 + ic_value on s2
    - 2 * (case first_shared p1 p2 of None \<Rightarrow> 0 | Some l \<Rightarrow> ic_value on l))"
proof -
  have hd: "s1 \<in> set p1" "s2 \<in> set p2" using assms by (metis list.set_intros(1) measured_hd)+
  have "l \<in> set p1" if "first_shared p1 p2 = Some l" for l
    using that by (auto simp: first_shared_def find_Some_iff)
  then show ?thesis
    using assms measured_ic [OF assms(1)] measured_ic [OF assms(2)] hd
    by (auto simp: jc_tree_def tree_lcs_ic_def tree_lcs_def measured_path_def split: option.splits)
qed

lemma coordinate_distance:
  assumes "wf_index (on_index on)"
    "map_of (on_index on) (sy_name s1) = Some s1" "map_of (on_index on) (sy_name s2) = Some s2"
    "measured_path on s1 p1 vs1" "measured_path on s2 p2 vs2"
  shows "\<exists>d1 d2. sparse_vec on s1 = Inr d1 \<and> sparse_vec on s2 = Inr d2
    \<and> jc_tree on s1 s2 = Inr (l2_sparse d1 d2
        + (case first_shared p1 p2 of Some l \<Rightarrow> 0 | None \<Rightarrow> last vs1 + last vs2))"
proof -
  obtain d1 where d1: "sparse_vec on s1 = Inr d1" "\<forall>k. coord d1 k = weight on p1 k" "fst ` set d1 \<subseteq> set (names p1)" "wf_dict d1"
    using assms(4) by (rule sparse_vec_weight)
  obtain d2 where d2: "sparse_vec on s2 = Inr d2" "\<forall>k. coord d2 k = weight on p2 k" "fst ` set d2 \<subseteq> set (names p2)" "wf_dict d2"
    using assms(5) by (rule sparse_vec_weight)
  have l2: "l2_sparse d1 d2 = (\<Sum>k \<in> set (names p1) \<union> set (names p2). (weight on p1 k - weight on p2 k)\<^sup>2)"
    by (subst l2_sparse_sum [of "set (names p1) \<union> set (names p2)"]) (use d1 d2 in auto)
  have ends: "last vs1 = ic_value on (last p1)" "last vs2 = ic_value on (last p2)"
    using measured_values [OF assms(4)] measured_values [OF assms(5)] measured_hd [OF assms(4)] measured_hd [OF assms(5)]
    by (metis last_map list.distinct(1))+
  have "jc_tree on s1 s2 = Inr (l2_sparse d1 d2
      + (case first_shared p1 p2 of Some l \<Rightarrow> 0 | None \<Rightarrow> last vs1 + last vs2))"
    using weights_meet [OF assms] weights_apart [OF assms(4,5)]
    by (simp add: jc_tree_value [OF assms(4,5)] l2 ends split: option.splits)
  then show ?thesis using d1(1) d2(1) by blast
qed

text \<open>Where the number rises on the way up, the edge weighs nothing and the coordinate falls short of a distance
  that is negative: so the condition that the numbers do not rise cannot be left out.\<close>

lemma rising_path_not_exact:
  assumes "tree_path on s = Inr [s, r]" "tree_path on r = Inr [r]" "sy_name s \<noteq> sy_name r"
    "ic_of on True s = Inr a" "ic_of on True r = Inr b" "a < b"
  shows "sparse_vec on s = Inr []" "sparse_vec on r = Inr []" "l2_sparse [] [] = 0" "jc_tree on s r = Inr (a - b)"
  using assms
  by (simp_all add: sparse_vec_def dict_update_def l2_sparse_def jc_tree_def tree_lcs_ic_def tree_lcs_def first_shared_def names_def)

text \<open>C9: For two synsets whose paths up the canonical tree end at a root and carry numbers that do not rise on the
  way up, the coordinate is exact when the paths meet: the squared distance of the sparse coordinates is the
  Jiang-Conrath distance. When they do not meet, it falls short of it by the information content of the two
  roots, and by nothing else. Of other paths nothing is said.\<close>

theorem jc_tree_is_coordinate_distance:
  assumes "wf_index (on_index on)"
    "map_of (on_index on) (sy_name s1) = Some s1" "map_of (on_index on) (sy_name s2) = Some s2"
    "measured_path on s1 p1 vs1" "measured_path on s2 p2 vs2"
  shows "\<exists>d1 d2. sparse_vec on s1 = Inr d1 \<and> sparse_vec on s2 = Inr d2
    \<and> jc_tree on s1 s2 = Inr (l2_sparse d1 d2
        + (case first_shared p1 p2 of Some l \<Rightarrow> 0 | None \<Rightarrow> last vs1 + last vs2))"
  using assms by (rule coordinate_distance)

section \<open>The walk up always ends\<close>

text \<open>Every number the index holds is one the corpus can have produced.\<close>

definition sane :: "ontology \<Rightarrow> bool" where
  "sane on \<longleftrightarrow> list_all (\<lambda>(_, s). case synset_ic s of NonFinite \<Rightarrow> False
     | Fin v \<Rightarrow> (case on_bound on of None \<Rightarrow> True | Some b \<Rightarrow> \<bar>v\<bar> \<le> b)) (on_index on)"

lemma sane_ic_of: "sane on \<Longrightarrow> map_of (on_index on) n = Some s \<Longrightarrow> ic_of on True s = Inr (ic_value on s)"
  by (drule map_of_SomeD) (auto simp: sane_def list_all_iff ic_of_def ic_value_def split: pyfloat.splits option.splits)

lemma sane_canonical_parent:
  assumes "sane on"
  shows "\<exists>p. canonical_parent on s = Inr p"
proof -
  have "\<exists>ks. res_map (ic_key on) ps = Inr ks" if "set ps \<subseteq> set (parents (on_index on) s)" for ps
    using that
  proof (induction ps)
    case (Cons h ps)
    then obtain n where "map_of (on_index on) n = Some h" by (auto simp: set_parents)
    then show ?case using Cons by (auto simp: ic_key_def sane_ic_of [OF assms])
  qed simp
  then show ?thesis unfolding canonical_parent_def by fastforce
qed

lemma tree_up_total:
  "sane on \<Longrightarrow> \<exists>ps. tree_up on cur seen = Inr ps"
proof (induction on cur seen rule: tree_up.induct)
  case (1 on cur seen)
  obtain po where po: "canonical_parent on cur = Inr po" using sane_canonical_parent "1.prems" by blast
  show ?case
  proof (cases po)
    case None
    then show ?thesis using po by (simp add: tree_up.simps [of on cur seen])
  next
    case (Some p)
    then show ?thesis
      using po "1.IH" [OF po Some] "1.prems"
      by (cases "sy_name p \<in> set seen") (auto simp: tree_up.simps [of on cur seen])
  qed
qed

definition climbs :: "ontology \<Rightarrow> synset list \<Rightarrow> bool" where
  "climbs on p \<longleftrightarrow> successively (\<lambda>a b. canonical_parent on a = Inr (Some b)) p
     \<and> (canonical_parent on (last p) = Inr None
        \<or> (\<exists>q. canonical_parent on (last p) = Inr (Some q) \<and> sy_name q \<in> set (names p)))"

lemma tree_up_climbs:
  "tree_up on cur seen = Inr ps \<Longrightarrow> successively (\<lambda>a b. canonical_parent on a = Inr (Some b)) (cur # ps)
    \<and> (canonical_parent on (last (cur # ps)) = Inr None
      \<or> (\<exists>q. canonical_parent on (last (cur # ps)) = Inr (Some q) \<and> sy_name q \<in> set seen \<union> set (names ps)))"
proof (induction ps arbitrary: cur seen)
  case Nil
  then show ?case by (cases rule: tree_up_cases) (auto simp: names_def)
next
  case (Cons p ps)
  from Cons.prems show ?case
  proof (cases rule: tree_up_cases)
    case (step q qs)
    then show ?thesis using Cons.IH [of q "sy_name q # seen"] by (auto simp: names_def)
  qed simp_all
qed

text \<open>the walk to the root always ends. Over an index whose numbers the corpus can have produced no
  synset is refused: its path starts with it, passes no name twice, takes the canonical parent at
  every step, and stops only at a root or where the parent has been passed already.\<close>

theorem tree_path_returns:
  assumes "sane on"
  shows "\<exists>p. tree_path on s = Inr (s # p) \<and> distinct (names (s # p)) \<and> climbs on (s # p)"
proof -
  obtain p where p: "tree_up on s [sy_name s] = Inr p" using tree_up_total [OF assms] by blast
  show ?thesis
    using p tree_up_distinct [OF p] tree_up_climbs [OF p]
    by (intro exI [of _ p]) (auto simp: tree_path_def climbs_def names_def)
qed

section \<open>An index that measured itself\<close>

text \<open>What \<open>_load_index\<close> does with a derived measurement: every synset is given its value.\<close>

definition give_ic :: "(string \<times> real) list \<Rightarrow> string \<Rightarrow> synset \<Rightarrow> synset" where
  "give_ic ics n s = (case map_of ics n of None \<Rightarrow> s | Some v \<Rightarrow> s\<lparr>sy_ic := Some (Fin v)\<rparr>)"

definition install_ic :: "(string \<times> real) list \<Rightarrow> index \<Rightarrow> index" where
  "install_ic ics idx = map (\<lambda>(n, s). (n, give_ic ics n s)) idx"

lemma give_ic_fields [simp]:
  "sy_name (give_ic ics n s) = sy_name s" "sy_hyper (give_ic ics n s) = sy_hyper s"
  "sy_inst (give_ic ics n s) = sy_inst s"
  by (simp_all add: give_ic_def split: option.splits)

lemma map_of_map_key: "map_of (map (\<lambda>(n, s). (n, f n s)) xs) k = map_option (f k) (map_of xs k)"
  by (induction xs) auto

lemma map_of_install_ic: "map_of (install_ic ics idx) n = map_option (give_ic ics n) (map_of idx n)"
  by (simp add: install_ic_def map_of_map_key)

lemma wf_install_ic: "wf_index idx \<Longrightarrow> wf_index (install_ic ics idx)"
proof -
  assume wf: "wf_index idx"
  have "map fst (install_ic ics idx) = map fst idx" by (auto simp: install_ic_def)
  then have "wf_dict (install_ic ics idx)" using wf by (simp add: wf_index_def)
  then show ?thesis using wf by (auto simp: wf_index_def install_ic_def list_all_iff)
qed

abbreviation measured_ontology :: "index \<Rightarrow> pyval dict \<Rightarrow> ontology" where
  "measured_ontology idx basis \<equiv>
     \<lparr> on_index = install_ic (derive_intrinsic_ic idx) idx, on_bound = ic_upper_bound basis \<rparr>"

lemma installed_value:
  assumes "wf_index idx" "map_of (install_ic (derive_intrinsic_ic idx) idx) n = Some s"
  obtains v where "map_of (derive_intrinsic_ic idx) n = Some v" "sy_ic s = Some (Fin v)"
proof -
  obtain s0 where s0: "map_of idx n = Some s0" using assms(2) by (auto simp: map_of_install_ic)
  moreover have "n \<in> dom (map_of idx)" using s0 by (simp add: dom_def)
  ultimately show ?thesis
    using assms derive_intrinsic_ic_at [of idx n] that by (auto simp: map_of_install_ic give_ic_def wf_index_def)
qed

lemma measured_ontology_sane:
  assumes "wf_index idx" "dget basis ''source'' = VStr INTRINSIC_IC_SOURCE"
  shows "sane (measured_ontology idx basis)"
proof -
  have wf: "wf_dict idx" using assms(1) by (simp add: wf_index_def)
  have bound: "on_bound (measured_ontology idx basis) = Some 1"
    using assms(2) by (simp add: ic_upper_bound_def)
  have ok: "\<exists>v. synset_ic s = Fin v \<and> \<bar>v\<bar> \<le> 1" if mem: "(n, s) \<in> set (install_ic (derive_intrinsic_ic idx) idx)" for n s
  proof -
    have "wf_dict (install_ic (derive_intrinsic_ic idx) idx)"
      using wf_install_ic [OF assms(1)] by (simp add: wf_index_def)
    then have "map_of (install_ic (derive_intrinsic_ic idx) idx) n = Some s" using mem by simp
    from installed_value [OF assms(1) this] obtain v
      where v: "map_of (derive_intrinsic_ic idx) n = Some v" "sy_ic s = Some (Fin v)" .
    then show ?thesis
      using intrinsic_ic_order_bounds(1,2) [OF wf v(1)] by (simp add: synset_ic_def)
  qed
  show ?thesis
    unfolding sane_def bound list_all_iff using ok by fastforce
qed

lemma measured_edge:
  assumes wf: "wf_index idx"
    and c: "map_of (install_ic ics idx) (sy_name c) = Some c"
    and p: "p \<in> set (parents (install_ic ics idx) c)"
  shows "(sy_name c, sy_name p) \<in> is_a idx"
proof -
  obtain n where n: "n \<in> set (sy_hyper c @ sy_inst c)" "map_of (install_ic ics idx) n = Some p"
    using p by (auto simp: set_parents)
  have "sy_name p = n" using wf_index_name [OF wf_install_ic [OF wf] n(2)] .
  moreover obtain c0 where "map_of idx (sy_name c) = Some c0" "c = give_ic ics (sy_name c) c0"
    using c by (auto simp: map_of_install_ic)
  moreover have "sy_hyper c = sy_hyper c0" "sy_inst c = sy_inst c0"
    using calculation(3) give_ic_fields(2,3) by metis+
  ultimately show ?thesis
    using n by (auto simp: is_a_def above_def map_of_install_ic)
qed

lemma measured_ic_step:
  assumes wf: "wf_index idx" and basis: "dget basis ''source'' = VStr INTRINSIC_IC_SOURCE"
    and c: "map_of (on_index (measured_ontology idx basis)) (sy_name c) = Some c"
    and p: "canonical_parent (measured_ontology idx basis) c = Inr (Some p)"
  shows "ic_value (measured_ontology idx basis) p \<le> ic_value (measured_ontology idx basis) c"
proof -
  let ?on = "measured_ontology idx basis"
  have par: "p \<in> set (parents (install_ic (derive_intrinsic_ic idx) idx) c)"
    using canonical_parent_in [OF p] by simp
  have pin: "map_of (on_index ?on) (sy_name p) = Some p"
    using wf_index_parent [OF wf_install_ic [OF wf] par] by simp
  have val: "ic_value ?on x = v" if "map_of (on_index ?on) n = Some x" "sy_ic x = Some (Fin v)" for n x v
  proof -
    have "ic_of ?on True x = Inr (ic_value ?on x)" using sane_ic_of [OF measured_ontology_sane [OF wf basis] that(1)] .
    then show ?thesis using that(2) by (auto simp: ic_of_def synset_ic_def split: option.splits if_splits)
  qed
  from c have "map_of (install_ic (derive_intrinsic_ic idx) idx) (sy_name c) = Some c" by simp
  then obtain v where v: "map_of (derive_intrinsic_ic idx) (sy_name c) = Some v" "sy_ic c = Some (Fin v)"
    by (rule installed_value [OF wf])
  from pin have "map_of (install_ic (derive_intrinsic_ic idx) idx) (sy_name p) = Some p" by simp
  then obtain u where u: "map_of (derive_intrinsic_ic idx) (sy_name p) = Some u" "sy_ic p = Some (Fin u)"
    by (rule installed_value [OF wf])
  have "(sy_name c, sy_name p) \<in> is_a idx" using measured_edge [OF wf _ par] c by simp
  moreover have "wf_dict idx" using wf by (simp add: wf_index_def)
  ultimately have "u \<le> v" using v(1) u(1) intrinsic_ic_order_up by blast
  then show ?thesis using val [OF c v(2)] val [OF pin u(2)] by simp
qed

lemma measured_ontology_path:
  assumes wf: "wf_index idx" and basis: "dget basis ''source'' = VStr INTRINSIC_IC_SOURCE"
    and s: "map_of (on_index (measured_ontology idx basis)) (sy_name s) = Some s"
    and path: "tree_path (measured_ontology idx basis) s = Inr p"
    and root: "canonical_parent (measured_ontology idx basis) (last p) = Inr None"
  shows "\<exists>vs. measured_path (measured_ontology idx basis) s p vs"
proof -
  let ?on = "measured_ontology idx basis"
  obtain ps where ps: "tree_up ?on s [sy_name s] = Inr ps" "p = s # ps"
    using path by (auto simp: tree_path_def res_bind_eq_Inr)
  have wfi: "wf_index (on_index ?on)" using wf_install_ic [OF wf] by simp
  have inx: "map_of (on_index ?on) (sy_name x) = Some x" if "x \<in> set p" for x
    using that s tree_up_in_index [OF ps(1) wfi] ps(2) by auto
  have "list_all2 (\<lambda>x y. ic_of ?on True x = Inr y) p (map (ic_value ?on) p)"
    using inx sane_ic_of [OF measured_ontology_sane [OF wf basis]] by (auto simp: list_all2_map2 list_all2_same)
  then have ics: "res_map (ic_of ?on True) p = Inr (map (ic_value ?on) p)" by (simp add: res_map_Inr)
  have "successively (\<lambda>a b. canonical_parent ?on a = Inr (Some b)) p"
    using tree_up_climbs [OF ps(1)] ps(2) by simp
  then have "successively (\<lambda>a b. ic_value ?on b \<le> ic_value ?on a) p"
  proof (rule successively_mono)
    show "ic_value ?on b \<le> ic_value ?on a" if "a \<in> set p" "b \<in> set p" "canonical_parent ?on a = Inr (Some b)" for a b
      using measured_ic_step [OF wf basis inx [OF that(1)] that(3)] .
  qed
  then have "sorted_wrt (\<lambda>a b. ic_value ?on b \<le> ic_value ?on a) p"
    by (subst (asm) successively_conv_sorted_wrt) (auto intro: transpI)
  then show ?thesis using path root ics by (auto simp: measured_path_def sorted_wrt_map)
qed

text \<open>an index that took its own measurement has exact coordinates. Whatever the is-a graph, once the
  corpus carries the intrinsic measurement of itself, no synset of it is refused as absurd, and for
  any two synsets whose paths end at roots and meet, the squared distance of the coordinates is the
  Jiang-Conrath distance.\<close>

theorem intrinsic_coordinates_exact:
  assumes "wf_index idx" "dget basis ''source'' = VStr INTRINSIC_IC_SOURCE"
    and "map_of (on_index (measured_ontology idx basis)) (sy_name s1) = Some s1"
    and "map_of (on_index (measured_ontology idx basis)) (sy_name s2) = Some s2"
    and "tree_path (measured_ontology idx basis) s1 = Inr p1" "canonical_parent (measured_ontology idx basis) (last p1) = Inr None"
    and "tree_path (measured_ontology idx basis) s2 = Inr p2" "canonical_parent (measured_ontology idx basis) (last p2) = Inr None"
    and "first_shared p1 p2 = Some l"
  shows "sane (measured_ontology idx basis)
    \<and> (\<exists>d1 d2. sparse_vec (measured_ontology idx basis) s1 = Inr d1 \<and> sparse_vec (measured_ontology idx basis) s2 = Inr d2
        \<and> jc_tree (measured_ontology idx basis) s1 s2 = Inr (l2_sparse d1 d2))"
proof -
  let ?on = "measured_ontology idx basis"
  obtain vs1 where m1: "measured_path ?on s1 p1 vs1" using measured_ontology_path [OF assms(1,2,3,5,6)] ..
  obtain vs2 where m2: "measured_path ?on s2 p2 vs2" using measured_ontology_path [OF assms(1,2,4,7,8)] ..
  have wf: "wf_index (on_index ?on)" using wf_install_ic [OF assms(1)] by simp
  show ?thesis
    using coordinate_distance [OF wf assms(3,4) m1 m2] assms(9) measured_ontology_sane [OF assms(1,2)] by simp
qed

section \<open>Example\<close>

definition ex_ontology :: ontology where
  "ex_ontology = \<lparr> on_index = ex_index, on_bound = None \<rparr>"

abbreviation "ex_entity \<equiv> snd (ex_synset 0 ''entity'' [] 0)"
abbreviation "ex_animal \<equiv> snd (ex_synset 7 ''animal'' [''entity''] 1)"
abbreviation "ex_dog \<equiv> snd (ex_synset 2 ''dog'' [''animal''] 5)"
abbreviation "ex_cat \<equiv> snd (ex_synset 3 ''cat'' [''animal''] 10)"

lemma ex_ic [simp]:
  "ic_of ex_ontology True (snd (ex_synset k n hs v)) = Inr v"
  by (simp add: ic_of_def ex_ontology_def ex_synset_def synset_ic_def)

lemma ex_name [simp]: "sy_name (snd (ex_synset k n hs v)) = n"
  by (simp add: ex_synset_def)

lemma ex_parents:
  "parents (on_index ex_ontology) ex_dog = [ex_animal]" "parents (on_index ex_ontology) ex_cat = [ex_animal]"
  "parents (on_index ex_ontology) ex_animal = [ex_entity]" "parents (on_index ex_ontology) ex_entity = []"
  by (simp_all add: parents_def hypernyms_def instance_hypernyms_def List.map_filter_def
      ex_ontology_def ex_index_def ex_synset_def)

lemma ex_canonical:
  "canonical_parent ex_ontology ex_dog = Inr (Some ex_animal)" "canonical_parent ex_ontology ex_cat = Inr (Some ex_animal)"
  "canonical_parent ex_ontology ex_animal = Inr (Some ex_entity)" "canonical_parent ex_ontology ex_entity = Inr None"
  by (simp_all add: canonical_parent_def ex_parents ic_key_def)

lemma ex_paths:
  "tree_path ex_ontology ex_dog = Inr [ex_dog, ex_animal, ex_entity]"
  "tree_path ex_ontology ex_cat = Inr [ex_cat, ex_animal, ex_entity]"
  by (simp_all add: tree_path_def tree_up.simps ex_canonical)

lemma ex_measured:
  "measured_path ex_ontology ex_dog [ex_dog, ex_animal, ex_entity] [5, 1, 0]"
  "measured_path ex_ontology ex_cat [ex_cat, ex_animal, ex_entity] [10, 1, 0]"
  by (simp_all add: measured_path_def ex_paths ex_canonical)

lemma ex_in_index:
  "wf_index (on_index ex_ontology)"
  "map_of (on_index ex_ontology) (sy_name ex_dog) = Some ex_dog"
  "map_of (on_index ex_ontology) (sy_name ex_cat) = Some ex_cat"
  "map_of (on_index ex_ontology) (sy_name ex_animal) = Some ex_animal"
  "map_of (on_index ex_ontology) (sy_name ex_entity) = Some ex_entity"
  by (simp_all only: ex_ontology_def ontology.simps wf_ex_index) (simp_all add: ex_index_def ex_synset_def)

lemma ex_shared: "first_shared [ex_dog, ex_animal, ex_entity] [ex_cat, ex_animal, ex_entity] = Some ex_animal"
  by (simp add: first_shared_def names_def)

theorem jc_tree_is_coordinate_distance_witness:
  "\<exists>d1 d2. sparse_vec ex_ontology ex_dog = Inr d1 \<and> sparse_vec ex_ontology ex_cat = Inr d2
    \<and> jc_tree ex_ontology ex_dog ex_cat = Inr (l2_sparse d1 d2)"
  using jc_tree_is_coordinate_distance [OF ex_in_index(1,2,3) ex_measured] by (simp add: ex_shared)

lemma ex_sane: "sane ex_ontology"
  by (simp add: sane_def ex_ontology_def ex_index_def ex_synset_def synset_ic_def)

theorem tree_path_returns_witness:
  "\<exists>p. tree_path ex_ontology ex_dog = Inr (ex_dog # p) \<and> distinct (names (ex_dog # p)) \<and> climbs ex_ontology (ex_dog # p)"
  using tree_path_returns [OF ex_sane, of ex_dog] .

lemma canonical_parent_single:
  assumes "sane on" "parents (on_index on) s = [h]"
  shows "canonical_parent on s = Inr (Some h)"
proof -
  obtain v where "ic_of on True h = Inr v"
    using sane_ic_of [OF assms(1)] assms(2) by (metis list.set_intros(1) set_parents)
  then show ?thesis by (simp add: canonical_parent_def assms(2) ic_key_def)
qed

definition ex_basis :: "pyval dict" where
  "ex_basis = [(''source'', VStr INTRINSIC_IC_SOURCE)]"

abbreviation "ex_measured_ontology \<equiv> measured_ontology ex_index ex_basis"

abbreviation "ex_entity_m \<equiv> give_ic (derive_intrinsic_ic ex_index) ''entity'' ex_entity"
abbreviation "ex_animal_m \<equiv> give_ic (derive_intrinsic_ic ex_index) ''animal'' ex_animal"
abbreviation "ex_dog_m \<equiv> give_ic (derive_intrinsic_ic ex_index) ''dog'' ex_dog"
abbreviation "ex_cat_m \<equiv> give_ic (derive_intrinsic_ic ex_index) ''cat'' ex_cat"

lemma ex_given_in:
  "map_of (on_index ex_measured_ontology) ''dog'' = Some ex_dog_m"
  "map_of (on_index ex_measured_ontology) ''cat'' = Some ex_cat_m"
  "map_of (on_index ex_measured_ontology) ''animal'' = Some ex_animal_m"
  "map_of (on_index ex_measured_ontology) ''entity'' = Some ex_entity_m"
  by (simp_all add: map_of_install_ic) (simp_all add: ex_index_def ex_synset_def)

lemma ex_given_parents:
  "parents (on_index ex_measured_ontology) ex_dog_m = [ex_animal_m]"
  "parents (on_index ex_measured_ontology) ex_cat_m = [ex_animal_m]"
  "parents (on_index ex_measured_ontology) ex_animal_m = [ex_entity_m]"
  "parents (on_index ex_measured_ontology) ex_entity_m = []"
  using ex_given_in
  by (simp_all only: parents_def hypernyms_def instance_hypernyms_def give_ic_fields)
    (simp_all add: ex_synset_def List.map_filter_def)

lemma ex_basis_source: "dget ex_basis ''source'' = VStr INTRINSIC_IC_SOURCE"
  by (simp add: ex_basis_def dget_def)

lemmas ex_measured_sane = measured_ontology_sane [OF wf_ex_index ex_basis_source]

lemma ex_given_canonical:
  "canonical_parent ex_measured_ontology ex_dog_m = Inr (Some ex_animal_m)"
  "canonical_parent ex_measured_ontology ex_cat_m = Inr (Some ex_animal_m)"
  "canonical_parent ex_measured_ontology ex_animal_m = Inr (Some ex_entity_m)"
  "canonical_parent ex_measured_ontology ex_entity_m = Inr None"
  by (rule canonical_parent_single [OF ex_measured_sane ex_given_parents(1)]
      canonical_parent_single [OF ex_measured_sane ex_given_parents(2)]
      canonical_parent_single [OF ex_measured_sane ex_given_parents(3)])+
    (simp add: canonical_parent_def ex_given_parents(4) del: ontology.simps)

lemma ex_given_paths:
  "tree_path ex_measured_ontology ex_dog_m = Inr [ex_dog_m, ex_animal_m, ex_entity_m]"
  "tree_path ex_measured_ontology ex_cat_m = Inr [ex_cat_m, ex_animal_m, ex_entity_m]"
  by (simp_all add: tree_path_def tree_up.simps ex_given_canonical)

theorem intrinsic_coordinates_exact_witness:
  "\<exists>d1 d2. sparse_vec ex_measured_ontology ex_dog_m = Inr d1
    \<and> sparse_vec ex_measured_ontology ex_cat_m = Inr d2
    \<and> jc_tree ex_measured_ontology ex_dog_m ex_cat_m = Inr (l2_sparse d1 d2)"
  using intrinsic_coordinates_exact [OF wf_ex_index ex_basis_source _ _ ex_given_paths(1) _ ex_given_paths(2),
      of "ex_animal_m"] ex_given_in(1,2)
  by (simp add: ex_given_canonical first_shared_def names_def)

end
