(* ===== verification/Geometry_Dense.thy ===== *)
theory Geometry_Dense
  imports Geometry_Laws
begin

text \<open>
  The coordinate beside its two neighbours. The distance over the whole graph (\<open>jc_exact\<close>) is never
  larger than the one over the spanning tree, because the tree path lies inside the closure. The
  hashed coordinate keeps the distance of the sparse one whenever no two occupied names fall into
  one slot, and a translation of all coordinates keeps every distance.
\<close>

section \<open>The graph and its tree\<close>

lemma path_in_closure:
  assumes wf: "wf_index (on_index on)" and s: "map_of (on_index on) (sy_name s) = Some s"
    and "successively (\<lambda>a b. canonical_parent on a = Inr (Some b)) (x # p)"
    and "(sy_name x, x) \<in> set (closure (on_index on) s)" "y \<in> set (x # p)"
  shows "(sy_name y, y) \<in> set (closure (on_index on) s)"
  using assms(3-)
proof (induction p arbitrary: x)
  case (Cons z p)
  have z: "z \<in> set (parents (on_index on) x)" using Cons.prems(1) by (auto intro: canonical_parent_in)
  obtain z' where z': "(sy_name z, z') \<in> set (closure (on_index on) s)"
    using closure_parent [OF Cons.prems(2) z] by auto
  have "z' = z"
    using closure_in_index [OF wf s z'] wf_index_parent [OF wf z] by simp
  then show ?case using Cons.IH [of z] Cons.prems z' by auto
qed simp

lemma measured_in_closure:
  assumes "wf_index (on_index on)" "map_of (on_index on) (sy_name s) = Some s" "measured_path on s p vs" "y \<in> set p"
  shows "(sy_name y, y) \<in> set (closure (on_index on) s)"
proof -
  obtain ps where ps: "tree_up on s [sy_name s] = Inr ps" "p = s # ps"
    using assms(3) by (auto simp: measured_path_def tree_path_def res_bind_eq_Inr)
  obtain s' where s': "(sy_name s, s') \<in> set (closure (on_index on) s)"
    using closure_self [of s "on_index on"] by auto
  have "s' = s" using closure_in_index [OF assms(1,2) s'] assms(2) by simp
  then show ?thesis
    using path_in_closure [OF assms(1,2), of s ps y] tree_up_climbs [OF ps(1)] s' assms(4) ps(2) by simp
qed

lemma first_shared_common:
  assumes wf: "wf_index (on_index on)"
    and in1: "map_of (on_index on) (sy_name s1) = Some s1" and in2: "map_of (on_index on) (sy_name s2) = Some s2"
    and m1: "measured_path on s1 p1 vs1" and m2: "measured_path on s2 p2 vs2"
    and l: "first_shared p1 p2 = Some l"
  shows "l \<in> set (common_hypernyms (on_index on) s1 s2)"
proof -
  obtain a1 r1 a2 l' r2 where p: "p1 = a1 @ l # r1" "p2 = a2 @ l' # r2" "sy_name l' = sy_name l"
    using l by (rule first_shared_Some)
  have "(sy_name l, l) \<in> set (closure (on_index on) s1)"
    using measured_in_closure [OF wf in1 m1] p by simp
  moreover have "sy_name l \<in> fst ` set (closure (on_index on) s2)"
    using measured_in_closure [OF wf in2 m2, of l'] p by force
  ultimately show ?thesis
    by (force simp: common_hypernyms_def Let_def map_of_eq_None_iff)
qed

lemma common_in_index:
  assumes "wf_index (on_index on)" "map_of (on_index on) (sy_name s1) = Some s1"
    "c \<in> set (common_hypernyms (on_index on) s1 s2)"
  shows "map_of (on_index on) (sy_name c) = Some c"
proof -
  obtain n where n: "(n, c) \<in> set (closure (on_index on) s1)"
    using assms(3) by (auto simp: common_hypernyms_def Let_def)
  then have "map_of (on_index on) n = Some c" by (rule closure_in_index [OF assms(1,2)])
  then show ?thesis using wf_index_name [OF assms(1)] by metis
qed

lemma fold_max_start: "(c :: real) \<le> fold max rest c"
proof (induction rest arbitrary: c)
  case (Cons y rest)
  have "c \<le> max y c" by simp
  also have "\<dots> \<le> fold max rest (max y c)" by (rule Cons.IH)
  finally show ?case by simp
qed simp

lemma fold_max_ge: "x \<in> set rest \<Longrightarrow> (x :: real) \<le> fold max rest c"
proof (induction rest arbitrary: c)
  case (Cons y rest)
  show ?case
  proof (cases "x = y")
    case True
    then have "x \<le> max y c" by simp
    also have "\<dots> \<le> fold max rest (max y c)" by (rule fold_max_start)
    finally show ?thesis by simp
  next
    case False
    then show ?thesis using Cons by simp
  qed
qed simp

text \<open>the closed form over the whole graph never exceeds the distance on the tree: where information
  content is not negative, both are defined and the most informative common subsumer of the graph
  carries at least what the one on the tree carries.\<close>

theorem jc_exact_at_most_jc_tree:
  assumes "sane on" "wf_index (on_index on)"
    "map_of (on_index on) (sy_name s1) = Some s1" "map_of (on_index on) (sy_name s2) = Some s2"
    "measured_path on s1 p1 vs1" "measured_path on s2 p2 vs2"
    "list_all (\<lambda>(n, s). 0 \<le> ic_value on s) (on_index on)"
  shows "\<exists>e t. jc_exact on s1 s2 = Inr e \<and> jc_tree on s1 s2 = Inr t \<and> e \<le> t"
proof -
  let ?cs = "common_hypernyms (on_index on) s1 s2"
  let ?vs = "map (ic_value on) ?cs"
  let ?lcs = "case ?vs of [] \<Rightarrow> 0 | c # rest \<Rightarrow> fold max rest c"
  have inx: "map_of (on_index on) (sy_name c) = Some c" if "c \<in> set ?cs" for c
    using common_in_index [OF assms(2,3) that] .
  have "res_map (ic_of on True) ?cs = Inr ?vs"
    using inx sane_ic_of [OF assms(1)] by (auto simp: res_map_Inr list_all2_map2 list_all2_same)
  moreover have "ic_of on True s1 = Inr (ic_value on s1)" "ic_of on True s2 = Inr (ic_value on s2)"
    using sane_ic_of [OF assms(1)] assms(3,4) by blast+
  ultimately have e: "jc_exact on s1 s2 = Inr (ic_value on s1 + ic_value on s2 - 2 * ?lcs)"
    by (simp add: jc_exact_def Let_def)
  have nonneg: "0 \<le> ic_value on c" if "c \<in> set ?cs" for c
    using map_of_SomeD [OF inx [OF that]] assms(7) by (auto simp: list_all_iff)
  have "(case first_shared p1 p2 of None \<Rightarrow> 0 | Some l \<Rightarrow> ic_value on l) \<le> ?lcs"
  proof (cases "first_shared p1 p2")
    case None
    then show ?thesis
      using nonneg fold_max_start by (cases ?cs) (auto intro: order_trans)
  next
    case (Some l)
    then have "l \<in> set ?cs" using first_shared_common [OF assms(2-6)] by blast
    then have "ic_value on l \<in> set ?vs" by simp
    then show ?thesis unfolding Some using fold_max_ge fold_max_start by (cases ?vs) auto
  qed
  then show ?thesis unfolding e jc_tree_value [OF assms(5,6)] by simp
qed

theorem jc_exact_at_most_jc_tree_witness:
  "\<exists>e t. jc_exact ex_ontology ex_dog ex_cat = Inr e \<and> jc_tree ex_ontology ex_dog ex_cat = Inr t \<and> e \<le> t"
proof -
  have "list_all (\<lambda>(n, s). 0 \<le> ic_value ex_ontology s) (on_index ex_ontology)"
    by (simp add: ex_ontology_def ex_index_def ex_synset_def ic_value_def ic_of_def synset_ic_def)
  from jc_exact_at_most_jc_tree [OF ex_sane ex_in_index(1,2,3) ex_measured this] show ?thesis .
qed

section \<open>Hashing\<close>

definition slot :: "(string \<Rightarrow> nat) \<Rightarrow> nat \<Rightarrow> string \<Rightarrow> nat" where
  "slot blake2b D k = fst (hash_node blake2b k) mod D"

definition sign :: "(string \<Rightarrow> nat) \<Rightarrow> string \<Rightarrow> real" where
  "sign blake2b k = snd (hash_node blake2b k)"

lemma sign_square [simp]: "sign blake2b k * sign blake2b k = 1"
  by (simp add: sign_def hash_node_def Let_def)

lemma bump_nth: "length v = D \<Longrightarrow> j < D \<Longrightarrow> bump blake2b D nw v ! j =
    v ! j + (if slot blake2b D (fst nw) = j then sign blake2b (fst nw) * snd nw else 0)"
  by (auto simp: bump_def slot_def sign_def hash_node_def Let_def nth_list_update)

lemma length_bump [simp]: "length (bump blake2b D nw v) = length v"
  by (simp add: bump_def hash_node_def Let_def)

lemma length_fold_bump [simp]: "length (fold (bump blake2b D) d v) = length v"
  by (induction d arbitrary: v) auto

lemma fold_bump_nth: "length v = D \<Longrightarrow> j < D \<Longrightarrow> fold (bump blake2b D) d v ! j =
    v ! j + (\<Sum>(k, x)\<leftarrow>d. if slot blake2b D k = j then sign blake2b k * x else 0)"
  by (induction d arbitrary: v) (auto simp: bump_nth)

lemma dense_of_nth:
  assumes "0 < D" "wf_dict d" "finite K" "fst ` set d \<subseteq> K"
  obtains v where "dense_of blake2b D d = Inr v" "length v = D"
    "\<And>j. j < D \<Longrightarrow> v ! j = (\<Sum>k \<in> K. if slot blake2b D k = j then sign blake2b k * coord d k else 0)"
proof (rule that)
  let ?v = "fold (bump blake2b D) d (replicate D 0)"
  show "dense_of blake2b D d = Inr ?v" using assms(1) by (simp add: dense_of_def)
  show "length ?v = D" by simp
  fix j assume j: "j < D"
  let ?f = "\<lambda>k. if slot blake2b D k = j then sign blake2b k * coord d k else 0"
  have "?v ! j = (\<Sum>(k, x)\<leftarrow>d. if slot blake2b D k = j then sign blake2b k * x else 0)"
    using j by (simp add: fold_bump_nth)
  also have "\<dots> = (\<Sum>kx\<leftarrow>d. ?f (fst kx))"
    by (rule arg_cong [where f = sum_list], rule map_cong) (use assms(2) in \<open>auto simp: coord_def\<close>)
  also have "\<dots> = sum_list (map ?f (map fst d))" by (simp add: comp_def)
  also have "\<dots> = (\<Sum>k \<in> fst ` set d. ?f k)"
    using assms(2) by (subst sum_list_distinct_conv_sum_set) simp_all
  also have "\<dots> = (\<Sum>k \<in> K. ?f k)"
    by (rule sum.mono_neutral_left [OF assms(3,4)]) (use coord_outside in auto)
  finally show "?v ! j = (\<Sum>k \<in> K. ?f k)" .
qed

lemma l2_dense_sum: "length v1 = D \<Longrightarrow> length v2 = D \<Longrightarrow> l2_dense v1 v2 = (\<Sum>j < D. (v1 ! j - v2 ! j)\<^sup>2)"
proof -
  assume "length v1 = D" "length v2 = D"
  then have "zip v1 v2 = map (\<lambda>j. (v1 ! j, v2 ! j)) [0..<D]" by (auto intro: nth_equalityI)
  then have "l2_dense v1 v2 = sum_list (map (\<lambda>j. (v1 ! j - v2 ! j)\<^sup>2) [0..<D])" by (simp add: l2_dense_def comp_def)
  also have "\<dots> = (\<Sum>j < D. (v1 ! j - v2 ! j)\<^sup>2)"
    by (simp add: sum_list_distinct_conv_sum_set atLeast0LessThan)
  finally show ?thesis .
qed

lemma hashing_isometry:
  assumes D: "0 < D" and wf: "wf_dict d1" "wf_dict d2"
    and inj: "inj_on (slot blake2b D) (fst ` set d1 \<union> fst ` set d2)"
    and v: "dense_of blake2b D d1 = Inr v1" "dense_of blake2b D d2 = Inr v2"
  shows "l2_dense v1 v2 = l2_sparse d1 d2"
proof -
  let ?K = "fst ` set d1 \<union> fst ` set d2" and ?c = "\<lambda>k. coord d1 k - coord d2 k"
  have fin: "finite ?K" by simp
  obtain u1 where u1: "dense_of blake2b D d1 = Inr u1" "length u1 = D"
    "\<And>j. j < D \<Longrightarrow> u1 ! j = (\<Sum>k \<in> ?K. if slot blake2b D k = j then sign blake2b k * coord d1 k else 0)"
    using dense_of_nth [OF D wf(1) fin] by blast
  obtain u2 where u2: "dense_of blake2b D d2 = Inr u2" "length u2 = D"
    "\<And>j. j < D \<Longrightarrow> u2 ! j = (\<Sum>k \<in> ?K. if slot blake2b D k = j then sign blake2b k * coord d2 k else 0)"
    using dense_of_nth [OF D wf(2) fin] by blast
  have eq: "u1 = v1" "u2 = v2" using u1(1) u2(1) v by auto
  have diff: "v1 ! j - v2 ! j = (\<Sum>k \<in> ?K. if slot blake2b D k = j then sign blake2b k * ?c k else 0)" if "j < D" for j
    unfolding u1(3) [OF that, unfolded eq] u2(3) [OF that, unfolded eq] sum_subtractf [symmetric]
    by (rule sum.cong) (auto simp: right_diff_distrib)
  have hit: "(v1 ! slot blake2b D k - v2 ! slot blake2b D k)\<^sup>2 = (?c k)\<^sup>2" if "k \<in> ?K" for k
  proof -
    have lt: "slot blake2b D k < D" using D by (simp add: slot_def)
    have same: "slot blake2b D m = slot blake2b D k \<longleftrightarrow> m = k" if "m \<in> ?K" for m
      using inj_on_eq_iff [OF inj that \<open>k \<in> ?K\<close>] .
    have "v1 ! slot blake2b D k - v2 ! slot blake2b D k
        = (\<Sum>m \<in> ?K. if m = k then sign blake2b k * ?c k else 0)"
      unfolding diff [OF lt] by (rule sum.cong [OF refl]) (simp only: same, simp)
    also have "\<dots> = sign blake2b k * ?c k" using that by (simp add: sum.delta)
    finally have eq: "v1 ! slot blake2b D k - v2 ! slot blake2b D k = sign blake2b k * ?c k" .
    have "(sign blake2b k)\<^sup>2 = 1" by (simp add: power2_eq_square)
    then show ?thesis unfolding eq power_mult_distrib by simp
  qed
  have miss: "v1 ! j - v2 ! j = 0" if "j < D" "j \<notin> slot blake2b D ` ?K" for j
    unfolding diff [OF that(1)] using that(2) by (intro sum.neutral) auto
  have "l2_dense v1 v2 = (\<Sum>j < D. (v1 ! j - v2 ! j)\<^sup>2)" using u1(2) u2(2) eq by (intro l2_dense_sum) auto
  also have "\<dots> = (\<Sum>j \<in> slot blake2b D ` ?K. (v1 ! j - v2 ! j)\<^sup>2)"
    by (rule sum.mono_neutral_right) (use D miss in \<open>auto simp: slot_def\<close>)
  also have "\<dots> = (\<Sum>k \<in> ?K. (v1 ! slot blake2b D k - v2 ! slot blake2b D k)\<^sup>2)"
    by (rule sum.reindex_cong [OF inj refl]) simp
  also have "\<dots> = (\<Sum>k \<in> ?K. (?c k)\<^sup>2)" using hit by (rule sum.cong [OF refl])
  also have "\<dots> = l2_sparse d1 d2" by (rule l2_sparse_sum [symmetric]) auto
  finally show ?thesis .
qed

lemma l2_dense_translate:
  assumes "length v1 = D" "length v2 = D" "length c = D"
  shows "l2_dense (map2 (-) v1 c) (map2 (-) v2 c) = l2_dense v1 v2"
  using assms by (simp add: l2_dense_sum [of _ D])

text \<open>what hashing and centering do to distances. A centering mean of the right width is a pure
  translation, so it changes no distance; and when no two names on the two paths fall into one of
  the \<open>D\<close> slots, the hashed distance is the sparse one exactly.\<close>

theorem dense_vec_distance:
  assumes "sparse_vec on s1 = Inr d1" "sparse_vec on s2 = Inr d2" "0 < D" "length c = D"
  shows "\<exists>u1 u2 v1 v2. dense_vec on blake2b D None s1 = Inr u1 \<and> dense_vec on blake2b D None s2 = Inr u2
    \<and> dense_vec on blake2b D (Some c) s1 = Inr v1 \<and> dense_vec on blake2b D (Some c) s2 = Inr v2
    \<and> length u1 = D \<and> length v1 = D \<and> l2_dense v1 v2 = l2_dense u1 u2
    \<and> (inj_on (slot blake2b D) (fst ` set d1 \<union> fst ` set d2) \<longrightarrow> l2_dense v1 v2 = l2_sparse d1 d2)"
proof -
  have wf: "wf_dict d1" "wf_dict d2" using assms(1,2) by (auto simp: sparse_vec_def res_bind_eq_Inr)
  obtain u1 where u1: "dense_of blake2b D d1 = Inr u1" "length u1 = D"
    by (rule dense_of_nth [OF assms(3) wf(1) finite_imageI [OF finite_set] subset_refl])
  obtain u2 where u2: "dense_of blake2b D d2 = Inr u2" "length u2 = D"
    by (rule dense_of_nth [OF assms(3) wf(2) finite_imageI [OF finite_set] subset_refl])
  show ?thesis
    using assms u1 u2 l2_dense_translate [OF u1(2) u2(2) assms(4)] hashing_isometry [OF assms(3) wf _ u1(1) u2(1)]
    by (intro exI [of _ u1] exI [of _ u2] exI [of _ "map2 (-) u1 c"] exI [of _ "map2 (-) u2 c"])
      (simp add: dense_vec_def subtract_center_def)
qed

lemma ex_sparse:
  "sparse_vec ex_ontology ex_dog = Inr [(''dog'', 2), (''animal'', 1)]"
  "sparse_vec ex_ontology ex_cat = Inr [(''cat'', 3), (''animal'', 1)]"
  by (simp_all add: sparse_vec_def ex_paths dict_update_def real_sqrt_unique)

definition ex_digest :: "string \<Rightarrow> nat" where
  "ex_digest s = code (last s)"

lemma ex_slots: "inj_on (slot ex_digest 16) {''dog'', ''cat'', ''animal''}"
  by (simp add: slot_def hash_node_def ex_digest_def code_def Let_def)

theorem dense_vec_distance_witness:
  "\<exists>v1 v2. dense_vec ex_ontology ex_digest 16 (Some (replicate 16 1)) ex_dog = Inr v1
    \<and> dense_vec ex_ontology ex_digest 16 (Some (replicate 16 1)) ex_cat = Inr v2
    \<and> l2_dense v1 v2 = l2_sparse [(''dog'', 2), (''animal'', 1)] [(''cat'', 3), (''animal'', 1)]"
proof -
  have "(0 :: nat) < 16" "length (replicate 16 (1 :: real)) = 16" by simp_all
  from dense_vec_distance [OF ex_sparse this, of ex_digest] obtain v1 v2 where
    v: "dense_vec ex_ontology ex_digest 16 (Some (replicate 16 1)) ex_dog = Inr v1"
      "dense_vec ex_ontology ex_digest 16 (Some (replicate 16 1)) ex_cat = Inr v2"
    and dist: "inj_on (slot ex_digest 16) (fst ` set [(''dog'', 2 :: real), (''animal'', 1)]
        \<union> fst ` set [(''cat'', 3 :: real), (''animal'', 1)]) \<longrightarrow>
      l2_dense v1 v2 = l2_sparse [(''dog'', 2), (''animal'', 1)] [(''cat'', 3), (''animal'', 1)]" by blast
  have keys: "fst ` set [(''dog'', 2 :: real), (''animal'', 1)] \<union> fst ` set [(''cat'', 3 :: real), (''animal'', 1)]
      = {''dog'', ''cat'', ''animal''}" by auto
  from mp [OF dist [unfolded keys] ex_slots] v show ?thesis by blast
qed

end
