(* ===== verification/Geometry_Memo.thy ===== *)
theory Geometry_Memo
  imports Geometry_Dense Effects
begin

text \<open>
  The caches of \<open>ontology/geometry.py\<close>: the spanning tree memoised per synset (\<open>_MEMO_TREE\<close>,
  \<open>_MEMO_PARENT\<close>) and the dense coordinates (\<open>_DENSE_CACHE\<close>), both valid for one generation of the
  driver. The ontology in force is a function \<open>H\<close> of the generation: it changes only when the store
  was written, and every observed write advances the generation.

  A read of the store can itself observe a write. \<open>g_writes\<close> lists the generations the next reads
  will move to; an empty list means no write is observed. \<open>g_reports\<close> says whether the driver has a
  \<open>generation()\<close> that answers.
\<close>

record geo =
  g_now :: int
  g_reports :: bool
  g_writes :: "int list"
  g_gen :: int
  g_ic :: nat
  g_tree :: "(string \<times> synset \<times> synset list) list"
  g_parent :: "(string \<times> synset \<times> synset option) list"
  g_dense_gen :: int
  g_dense :: "((string \<times> nat \<times> nat \<times> int) \<times> real list) list"

definition geo_start :: "int \<Rightarrow> bool \<Rightarrow> geo" where
  "geo_start now reports = \<lparr> g_now = now, g_reports = reports, g_writes = [], g_gen = - 1, g_ic = 0,
     g_tree = [], g_parent = [], g_dense_gen = - 1, g_dense = [] \<rparr>"

definition memo_ready :: "nat \<Rightarrow> geo \<Rightarrow> bool \<times> geo" where
  "memo_ready ic st =
     (if \<not> g_reports st then (False, st)
      else if g_now st \<noteq> g_gen st \<or> ic \<noteq> g_ic st
      then (True, st\<lparr>g_tree := [], g_parent := [], g_gen := g_now st, g_ic := ic\<rparr>)
      else (True, st))"

text \<open>Reading the parents of a synset goes to the store, which may have been written.\<close>

definition observe :: "geo \<Rightarrow> geo" where
  "observe st = (case g_writes st of [] \<Rightarrow> st | g # gs \<Rightarrow> st\<lparr>g_now := g, g_writes := gs\<rparr>)"

definition cached :: "(string \<times> synset \<times> 'a) list \<Rightarrow> synset \<Rightarrow> 'a option" where
  "cached table s = (case map_of table (sy_name s) of
       Some (s', r) \<Rightarrow> if s' = s then Some r else None
     | None \<Rightarrow> None)"

definition canonical_parent_m :: "(int \<Rightarrow> ontology) \<Rightarrow> nat \<Rightarrow> synset \<Rightarrow> (geo, synset option) prog" where
  "canonical_parent_m H ic s st0 = (case memo_ready ic st0 of (memo, st) \<Rightarrow>
     case (if memo then cached (g_parent st) s else None) of
       Some p \<Rightarrow> (Inr p, st)
     | None \<Rightarrow>
         let st' = observe st in
         (case canonical_parent (H (g_now st')) s of
            Inl e \<Rightarrow> (Inl e, st')
          | Inr p \<Rightarrow> (Inr p, if memo then st'\<lparr>g_parent := AList.update (sy_name s) (s, p) (g_parent st')\<rparr> else st')))"

text \<open>The names a step can reach next: those of the ontology in force and those of the memo.\<close>

definition cached_names :: "geo \<Rightarrow> string set" where
  "cached_names st = {sy_name p | p n s. (n, s, Some p) \<in> set (g_parent st)}"

definition next_names :: "(int \<Rightarrow> ontology) \<Rightarrow> geo \<Rightarrow> string set" where
  "next_names H st = index_names (on_index (H (g_now st))) \<union> cached_names st"

lemma finite_next_names [simp]: "finite (next_names H st)"
proof -
  have "cached_names st \<subseteq> (\<lambda>e. sy_name (the (snd (snd e)))) ` set (g_parent st)"
    by (force simp: cached_names_def)
  then have "finite (cached_names st)" by (rule finite_subset) simp
  then show ?thesis by (simp add: next_names_def)
qed

lemma set_AList_update: "set (AList.update k v al) \<subseteq> insert (k, v) (set al)"
  by (induction al) auto

lemma memo_ready_writes [simp]: "g_writes (snd (memo_ready ic st)) = g_writes st" "g_now (snd (memo_ready ic st)) = g_now st"
  by (simp_all add: memo_ready_def)

lemma canonical_parent_m_next:
  assumes run: "canonical_parent_m H ic s st = (Inr (Some p), st')"
  shows "length (g_writes st') < length (g_writes st)
    \<or> g_writes st' = g_writes st \<and> sy_name p \<in> next_names H st \<and> next_names H st' \<subseteq> next_names H st"
proof -
  obtain memo st1 where m: "memo_ready ic st = (memo, st1)" by (cases "memo_ready ic st")
  have sub: "cached_names st1 \<subseteq> cached_names st" "g_now st1 = g_now st" "g_writes st1 = g_writes st"
    using m by (auto simp: memo_ready_def cached_names_def split: if_splits)
  show ?thesis
  proof (cases "if memo then cached (g_parent st1) s else None")
    case (Some q)
    then have st': "st' = st1" "q = Some p" using run m by (auto simp: canonical_parent_m_def)
    have "map_of (g_parent st1) (sy_name s) = Some (s, Some p)"
      using Some st'(2) by (auto simp: cached_def split: if_splits option.splits)
    then have "sy_name p \<in> cached_names st1" unfolding cached_names_def by (blast dest: map_of_SomeD)
    then show ?thesis using sub st' by (auto simp: next_names_def)
  next
    case None
    show ?thesis
    proof (cases "g_writes st1")
      case Nil
      then have p: "canonical_parent (H (g_now st)) s = Inr (Some p)"
        and st': "st' = (if memo then st1\<lparr>g_parent := AList.update (sy_name s) (s, Some p) (g_parent st1)\<rparr> else st1)"
        using run m None sub by (auto simp: canonical_parent_m_def observe_def Let_def split: sum.splits if_splits)
      have name: "sy_name p \<in> index_names (on_index (H (g_now st)))"
        using canonical_parent_in [OF p] by (rule parent_index_names)
      have "cached_names st' \<subseteq> insert (sy_name p) (cached_names st1)"
        using set_AList_update [of "sy_name s" "(s, Some p)" "g_parent st1"] st'
        by (auto simp: cached_names_def)
      then show ?thesis using name sub st' by (auto simp: next_names_def)
    next
      case (Cons g gs)
      then have "g_writes st' = gs"
        using run m None by (auto simp: canonical_parent_m_def observe_def Let_def split: sum.splits if_splits)
      then show ?thesis using Cons sub by simp
    qed
  qed
qed

function walk_m :: "(int \<Rightarrow> ontology) \<Rightarrow> nat \<Rightarrow> synset \<Rightarrow> string list \<Rightarrow> (geo, synset list) prog" where
  "walk_m H ic cur seen st = (case canonical_parent_m H ic cur st of
       (Inl e, st') \<Rightarrow> (Inl e, st')
     | (Inr None, st') \<Rightarrow> (Inr [], st')
     | (Inr (Some p), st') \<Rightarrow>
         if sy_name p \<in> set seen then (Inr [], st')
         else (case walk_m H ic p (sy_name p # seen) st' of
                 (Inl e, st'') \<Rightarrow> (Inl e, st'')
               | (Inr ps, st'') \<Rightarrow> (Inr (p # ps), st'')))"
  by pat_completeness auto

termination walk_m
proof (relation "measures [\<lambda>(H, ic, cur, seen, st). length (g_writes st),
    \<lambda>(H, ic, cur, seen, st). card (next_names H st - set seen)]", goal_cases)
  case (2 H ic cur seen st r st' po p)
  then have run: "canonical_parent_m H ic cur st = (Inr (Some p), st')" by simp
  show ?case
  proof (cases "length (g_writes st') < length (g_writes st)")
    case True
    then show ?thesis by simp
  next
    case False
    then have same: "g_writes st' = g_writes st" and p: "sy_name p \<in> next_names H st"
      and sub: "next_names H st' \<subseteq> next_names H st"
      using canonical_parent_m_next [OF run] by auto
    have "card (next_names H st' - insert (sy_name p) (set seen)) \<le> card (next_names H st - insert (sy_name p) (set seen))"
      using sub by (intro card_mono) auto
    also have "\<dots> < card (next_names H st - set seen)"
      using p 2 by (intro new_name_shrinks) auto
    finally show ?thesis using same by simp
  qed
qed simp

declare walk_m.simps [simp del]

definition tree_path_m :: "(int \<Rightarrow> ontology) \<Rightarrow> nat \<Rightarrow> synset \<Rightarrow> (geo, synset list) prog" where
  "tree_path_m H ic s st0 = (case memo_ready ic st0 of (memo, st) \<Rightarrow>
     case (if memo then cached (g_tree st) s else None) of
       Some path \<Rightarrow> (Inr path, st)
     | None \<Rightarrow>
         (case walk_m H ic s [sy_name s] st of
            (Inl e, st') \<Rightarrow> (Inl e, st')
          | (Inr ps, st') \<Rightarrow> (Inr (s # ps),
              if memo then st'\<lparr>g_tree := AList.update (sy_name s) (s, s # ps) (g_tree st')\<rparr> else st')))"

section \<open>The dense cache\<close>

definition DENSE_CACHE_MAX :: nat where
  "DENSE_CACHE_MAX = 50000"

definition dense_gen :: "geo \<Rightarrow> int \<times> geo" where
  "dense_gen st = (g_now st,
     if g_now st \<noteq> g_dense_gen st then st\<lparr>g_dense := [], g_dense_gen := g_now st\<rparr> else st)"

definition sparse_vec_m :: "(int \<Rightarrow> ontology) \<Rightarrow> nat \<Rightarrow> synset \<Rightarrow> (geo, real dict) prog" where
  "sparse_vec_m H ic s st = (case tree_path_m H ic s st of
       (Inl e, st') \<Rightarrow> (Inl e, st')
     | (Inr path, st') \<Rightarrow> (res_bind (path_edges (H (g_now st')) path) (\<lambda>es.
         Inr (dict_update [] (map (\<lambda>(n, d). (n, sqrt d)) (filter (\<lambda>(n, d). 0 < d) es)))), st'))"

definition uncached_dense :: "(int \<Rightarrow> ontology) \<Rightarrow> (string \<Rightarrow> nat) \<Rightarrow> nat \<Rightarrow> nat \<Rightarrow> synset \<Rightarrow> (geo, real list) prog" where
  "uncached_dense H blake2b D ic s st = (case sparse_vec_m H ic s st of
       (Inl e, st') \<Rightarrow> (Inl e, st')
     | (Inr d, st') \<Rightarrow> (dense_of blake2b D d, st'))"

definition dense_vec_m :: "(int \<Rightarrow> ontology) \<Rightarrow> (string \<Rightarrow> nat) \<Rightarrow> nat \<Rightarrow> real list option \<Rightarrow> nat \<Rightarrow> synset
    \<Rightarrow> (geo, real list) prog" where
  "dense_vec_m H blake2b D center ic s st0 =
     (if \<not> g_reports st0
      then (case uncached_dense H blake2b D ic s st0 of
              (Inl e, st') \<Rightarrow> (Inl e, st')
            | (Inr v, st') \<Rightarrow> (subtract_center D center v, st'))
      else case dense_gen st0 of (g, st) \<Rightarrow>
        let key = (sy_name s, D, ic, g) in
        (case map_of (g_dense st) key of
           Some v \<Rightarrow> (subtract_center D center v, st)
         | None \<Rightarrow>
             (case uncached_dense H blake2b D ic s st of
                (Inl e, st') \<Rightarrow> (Inl e, st')
              | (Inr v, st') \<Rightarrow> (subtract_center D center v,
                  if length (g_dense st') < DENSE_CACHE_MAX
                  then st'\<lparr>g_dense := AList.update key v (g_dense st')\<rparr> else st'))))"

end
