(* ===== verification/Geometry_Memo_Laws.thy ===== *)
theory Geometry_Memo_Laws
  imports Geometry_Memo
begin

text \<open>
  The caches refine the functions they cache. As long as no write is observed in the middle of a
  walk, every answer of the memoised functions is the answer of the plain ones on the ontology in
  force, whatever was cached before and whatever was written between the calls. The two places
  where the caches do give a different answer are stated and proved as well: a write observed inside
  a walk, and two synsets of one name.
\<close>

section \<open>The memo tables\<close>

definition memo_ok :: "(int \<Rightarrow> ontology) \<Rightarrow> geo \<Rightarrow> bool" where
  "memo_ok H st \<longleftrightarrow>
     all_entries (\<lambda>_ e. tree_path (H (g_gen st)) (fst e) = Inr (snd e)) (g_tree st)
     \<and> all_entries (\<lambda>_ e. canonical_parent (H (g_gen st)) (fst e) = Inr (snd e)) (g_parent st)"

text \<open>What a call during which no write is observed leaves as it was.\<close>

definition quiet :: "(int \<Rightarrow> ontology) \<Rightarrow> geo \<Rightarrow> geo \<Rightarrow> bool" where
  "quiet H st st' \<longleftrightarrow> g_now st' = g_now st \<and> g_writes st' = g_writes st \<and> g_reports st' = g_reports st
     \<and> g_dense st' = g_dense st \<and> g_dense_gen st' = g_dense_gen st
     \<and> memo_ok H st' \<and> (g_reports st \<longrightarrow> g_gen st' = g_now st)"

lemma quiet_trans: "quiet H st st1 \<Longrightarrow> quiet H st1 st2 \<Longrightarrow> quiet H st st2"
  by (auto simp: quiet_def)

lemma memo_ready_quiet: "memo_ok H st \<Longrightarrow> fst (memo_ready ic st) = g_reports st \<and> quiet H st (snd (memo_ready ic st))"
  by (auto simp: memo_ready_def quiet_def memo_ok_def)

lemma cached_tree: "memo_ok H st \<Longrightarrow> cached (g_tree st) s = Some r \<Longrightarrow> tree_path (H (g_gen st)) s = Inr r"
  by (auto simp: cached_def memo_ok_def dest: all_entries_map_of split: option.splits if_splits prod.splits)

lemma cached_parent: "memo_ok H st \<Longrightarrow> cached (g_parent st) s = Some r \<Longrightarrow> canonical_parent (H (g_gen st)) s = Inr r"
  by (auto simp: cached_def memo_ok_def dest: all_entries_map_of split: option.splits if_splits prod.splits)

lemma canonical_parent_m_plain:
  assumes "memo_ok H st" "g_writes st = []" "canonical_parent_m H ic s st = (r, st')"
  shows "r = canonical_parent (H (g_now st)) s \<and> quiet H st st'"
proof -
  obtain memo st1 where m: "memo_ready ic st = (memo, st1)" by (cases "memo_ready ic st")
  have memo: "memo = g_reports st" and q: "quiet H st st1"
    using memo_ready_quiet [OF assms(1), of ic] m by auto
  have ok: "memo_ok H st1" "g_now st1 = g_now st" "g_writes st1 = []" using q assms(2) by (auto simp: quiet_def)
  show ?thesis
  proof (cases "if memo then cached (g_parent st1) s else None")
    case (Some p)
    then have "memo" "cached (g_parent st1) s = Some p" by (auto split: if_splits)
    moreover have "g_gen st1 = g_now st" using q memo calculation(1) by (simp add: quiet_def)
    ultimately have "canonical_parent (H (g_now st)) s = Inr p" using cached_parent [OF ok(1)] by metis
    then show ?thesis using assms(3) m Some q by (simp add: canonical_parent_m_def)
  next
    case None
    have "quiet H st (st1\<lparr>g_parent := AList.update (sy_name s) (s, p) (g_parent st1)\<rparr>)"
      if "memo" "canonical_parent (H (g_now st)) s = Inr p" for p
      using that q memo by (auto simp: quiet_def memo_ok_def)
    then show ?thesis
      using assms(3) m None q ok
      by (auto simp: canonical_parent_m_def observe_def Let_def split: sum.splits if_splits)
  qed
qed

lemma walk_m_plain:
  "memo_ok H st \<Longrightarrow> g_writes st = [] \<Longrightarrow> walk_m H ic cur seen st = (r, st') \<Longrightarrow>
    r = tree_up (H (g_now st)) cur seen \<and> quiet H st st'"
proof (induction H ic cur seen st arbitrary: r st' rule: walk_m.induct)
  case (1 H ic cur seen st)
  obtain c st1 where c: "canonical_parent_m H ic cur st = (c, st1)" by (cases "canonical_parent_m H ic cur st")
  have cp: "c = canonical_parent (H (g_now st)) cur" and q: "quiet H st st1"
    using canonical_parent_m_plain [OF "1.prems"(1,2) c] by auto
  have ok: "memo_ok H st1" "g_writes st1 = []" "g_now st1 = g_now st" using q "1.prems"(2) by (auto simp: quiet_def)
  show ?case
  proof (cases c)
    case (Inl e)
    then show ?thesis
      using "1.prems"(3) c cp q by (simp add: walk_m.simps [of H ic cur] tree_up.simps [of _ cur])
  next
    case (Inr po)
    have cp': "canonical_parent (H (g_now st)) cur = Inr po" and c': "canonical_parent_m H ic cur st = (Inr po, st1)"
      using cp c Inr by simp_all
    show ?thesis
    proof (cases po)
      case None
      then show ?thesis
        using "1.prems"(3) c' cp' q by (simp add: walk_m.simps [of H ic cur] tree_up.simps [of _ cur])
    next
      case (Some p)
      show ?thesis
      proof (cases "sy_name p \<in> set seen")
        case True
        then show ?thesis
          using "1.prems"(3) c' cp' q Some by (simp add: walk_m.simps [of H ic cur] tree_up.simps [of _ cur])
      next
        case False
        obtain r2 st2 where rec: "walk_m H ic p (sy_name p # seen) st1 = (r2, st2)"
          by (cases "walk_m H ic p (sy_name p # seen) st1")
        have IH: "r2 = tree_up (H (g_now st1)) p (sy_name p # seen) \<and> quiet H st1 st2"
          using "1.IH" [OF c [symmetric] Inr Some False ok(1,2) rec] .
        have up: "tree_up (H (g_now st)) cur seen = res_bind r2 (\<lambda>ps. Inr (p # ps))"
          using cp' Some False IH ok(3) by (simp add: tree_up.simps [of _ cur])
        show ?thesis
          using "1.prems"(3) c' Some False rec quiet_trans [OF q conjunct2 [OF IH]] up
          by (cases r2) (auto simp: walk_m.simps [of H ic cur])
      qed
    qed
  qed
qed

lemma tree_path_m_plain:
  assumes "memo_ok H st" "g_writes st = []" "tree_path_m H ic s st = (r, st')"
  shows "r = tree_path (H (g_now st)) s \<and> quiet H st st'"
proof -
  obtain memo st1 where m: "memo_ready ic st = (memo, st1)" by (cases "memo_ready ic st")
  have memo: "memo = g_reports st" and q: "quiet H st st1"
    using memo_ready_quiet [OF assms(1), of ic] m by auto
  have ok: "memo_ok H st1" "g_now st1 = g_now st" "g_writes st1 = []" using q assms(2) by (auto simp: quiet_def)
  show ?thesis
  proof (cases "if memo then cached (g_tree st1) s else None")
    case (Some p)
    then have "memo" "cached (g_tree st1) s = Some p" by (auto split: if_splits)
    moreover have "g_gen st1 = g_now st" using q memo calculation(1) by (simp add: quiet_def)
    ultimately have "tree_path (H (g_now st)) s = Inr p" using cached_tree [OF ok(1)] by metis
    then show ?thesis using assms(3) m Some q by (simp add: tree_path_m_def)
  next
    case None
    obtain u st2 where u: "walk_m H ic s [sy_name s] st1 = (u, st2)" by (cases "walk_m H ic s [sy_name s] st1")
    have up: "u = tree_up (H (g_now st)) s [sy_name s]" and q2: "quiet H st1 st2"
      using walk_m_plain [OF ok(1,3) u] ok(2) by auto
    have q3: "quiet H st st2" using q q2 by (rule quiet_trans)
    have "quiet H st (st2\<lparr>g_tree := AList.update (sy_name s) (s, s # ps) (g_tree st2)\<rparr>)"
      if "memo" "u = Inr ps" for ps
      using that q3 memo up by (auto simp: quiet_def memo_ok_def tree_path_def)
    moreover have "tree_path (H (g_now st)) s = res_bind u (\<lambda>ps. Inr (s # ps))" unfolding up tree_path_def ..
    ultimately show ?thesis
      using assms(3) m None q3 u by (cases u) (auto simp: tree_path_m_def split: if_splits)
  qed
qed

section \<open>The dense cache\<close>

definition dense_entry :: "(int \<Rightarrow> ontology) \<Rightarrow> (string \<Rightarrow> nat) \<Rightarrow> int \<Rightarrow> (string \<times> nat \<times> nat \<times> int) \<Rightarrow> real list \<Rightarrow> bool" where
  "dense_entry H blake2b gen k v \<longleftrightarrow> (case k of (n, D, i, g) \<Rightarrow> g = gen
     \<and> (\<forall>s. map_of (on_index (H g)) n = Some s \<longrightarrow> dense_vec (H g) blake2b D None s = Inr v))"

definition dense_ok :: "(int \<Rightarrow> ontology) \<Rightarrow> (string \<Rightarrow> nat) \<Rightarrow> geo \<Rightarrow> bool" where
  "dense_ok H blake2b st \<longleftrightarrow> all_entries (dense_entry H blake2b (g_dense_gen st)) (g_dense st)
     \<and> length (g_dense st) \<le> DENSE_CACHE_MAX"

lemma sparse_vec_m_plain:
  assumes "memo_ok H st" "g_writes st = []" "sparse_vec_m H ic s st = (r, st')"
  shows "r = sparse_vec (H (g_now st)) s \<and> quiet H st st'"
proof -
  obtain p st1 where p: "tree_path_m H ic s st = (p, st1)" by (cases "tree_path_m H ic s st")
  have eq: "p = tree_path (H (g_now st)) s" and q: "quiet H st st1" using tree_path_m_plain [OF assms(1,2) p] by auto
  have now: "g_now st1 = g_now st" using q by (simp add: quiet_def)
  have "sparse_vec (H (g_now st)) s = res_bind p (\<lambda>path. res_bind (path_edges (H (g_now st)) path) (\<lambda>es.
     Inr (dict_update [] (map (\<lambda>(n, d). (n, sqrt d)) (filter (\<lambda>(n, d). 0 < d) es)))))"
    using eq by (simp add: sparse_vec_def)
  then show ?thesis
    using assms(3) p q now by (cases p) (auto simp: sparse_vec_m_def)
qed

lemma uncached_dense_plain:
  assumes "memo_ok H st" "g_writes st = []" "uncached_dense H blake2b D ic s st = (r, st')"
  shows "r = dense_vec (H (g_now st)) blake2b D None s \<and> quiet H st st'"
proof -
  obtain d st1 where d: "sparse_vec_m H ic s st = (d, st1)" by (cases "sparse_vec_m H ic s st")
  have eq: "d = sparse_vec (H (g_now st)) s" and q: "quiet H st st1" using sparse_vec_m_plain [OF assms(1,2) d] by auto
  have "dense_vec (H (g_now st)) blake2b D None s = res_bind d (dense_of blake2b D)"
    using eq by (cases d) (auto simp: dense_vec_def subtract_center_def res_bind_def split: sum.splits)
  then show ?thesis using assms(3) d q by (cases d) (auto simp: uncached_dense_def)
qed

lemma dense_vec_center:
  "dense_vec on blake2b D center s = res_bind (dense_vec on blake2b D None s) (subtract_center D center)"
  by (simp add: dense_vec_def subtract_center_def res_bind_def split: sum.splits)

lemma length_AList_update_new: "map_of al k = None \<Longrightarrow> length (AList.update k v al) = Suc (length al)"
  by (induction al) (auto split: if_splits)

lemma dense_gen_ok:
  "memo_ok H st \<Longrightarrow> dense_ok H blake2b st \<Longrightarrow> dense_gen st = (g, st1) \<Longrightarrow>
    g = g_now st \<and> memo_ok H st1 \<and> dense_ok H blake2b st1 \<and> g_dense_gen st1 = g_now st \<and> g_now st1 = g_now st
    \<and> g_writes st1 = g_writes st \<and> g_reports st1 = g_reports st"
  by (auto simp: dense_gen_def memo_ok_def dense_ok_def split: if_splits)

lemma dense_vec_m_plain:
  assumes ok: "memo_ok H st" "dense_ok H blake2b st" "g_writes st = []"
    and s: "map_of (on_index (H (g_now st))) (sy_name s) = Some s"
    and run: "dense_vec_m H blake2b D center ic s st = (r, st')"
  shows "r = dense_vec (H (g_now st)) blake2b D center s \<and> memo_ok H st' \<and> dense_ok H blake2b st'
    \<and> g_now st' = g_now st \<and> g_writes st' = []"
proof (cases "g_reports st")
  case False
  obtain u st1 where u: "uncached_dense H blake2b D ic s st = (u, st1)" by (cases "uncached_dense H blake2b D ic s st")
  have eq: "u = dense_vec (H (g_now st)) blake2b D None s" and q: "quiet H st st1"
    using uncached_dense_plain [OF ok(1,3) u] by auto
  have "dense_vec (H (g_now st)) blake2b D center s = res_bind u (subtract_center D center)"
    unfolding eq by (rule dense_vec_center)
  then show ?thesis
    using run u False ok q by (cases u) (auto simp: dense_vec_m_def quiet_def dense_ok_def)
next
  case True
  obtain g st1 where g: "dense_gen st = (g, st1)" by (cases "dense_gen st")
  note start = dense_gen_ok [OF ok(1,2) g]
  have now: "g = g_now st" "memo_ok H st1" "g_writes st1 = []" "g_now st1 = g_now st" using start ok(3) by auto
  let ?key = "(sy_name s, D, ic, g)"
  show ?thesis
  proof (cases "map_of (g_dense st1) ?key")
    case (Some v)
    have "dense_entry H blake2b (g_dense_gen st1) ?key v"
      using start Some unfolding dense_ok_def by (blast intro: all_entries_map_of)
    then have "dense_vec (H (g_now st)) blake2b D None s = Inr v"
      using s now(1) by (auto simp: dense_entry_def)
    then show ?thesis
      using run g Some True start ok(3) dense_vec_center [of "H (g_now st)" blake2b D center s]
      by (simp add: dense_vec_m_def)
  next
    case None
    obtain u st2 where u: "uncached_dense H blake2b D ic s st1 = (u, st2)" by (cases "uncached_dense H blake2b D ic s st1")
    have up: "u = dense_vec (H (g_now st)) blake2b D None s" and q: "quiet H st1 st2"
      using uncached_dense_plain [OF now(2,3) u] now(4) by auto
    have "g_dense st2 = g_dense st1" "g_dense_gen st2 = g_dense_gen st1" using q by (simp_all add: quiet_def)
    moreover have "dense_ok H blake2b st1" using start by blast
    ultimately have dense2: "dense_ok H blake2b st2" by (simp add: dense_ok_def)
    have key2: "map_of (g_dense st2) ?key = None" using None q by (simp add: quiet_def)
    have entry: "dense_entry H blake2b (g_dense_gen st2) ?key v" if "u = Inr v" for v
      using that up s now(1) start q by (auto simp: dense_entry_def quiet_def)
    have stored: "dense_ok H blake2b (st2\<lparr>g_dense := AList.update ?key v (g_dense st2)\<rparr>)"
      if "u = Inr v" "length (g_dense st2) < DENSE_CACHE_MAX" for v
      using that dense2 entry length_AList_update_new [OF key2] by (auto simp: dense_ok_def)
    have "dense_vec (H (g_now st)) blake2b D center s = res_bind u (subtract_center D center)"
      unfolding up by (rule dense_vec_center)
    then show ?thesis
      using run g None True u q dense2 now stored ok(3)
      by (cases u) (auto simp: dense_vec_m_def Let_def quiet_def memo_ok_def)
  qed
qed

section \<open>Every reachable state of the caches\<close>

text \<open>Calls, with any table of information contents, and writes between them.\<close>

inductive geo_step :: "(int \<Rightarrow> ontology) \<Rightarrow> (string \<Rightarrow> nat) \<Rightarrow> geo \<Rightarrow> geo \<Rightarrow> bool" for H blake2b where
  parent: "canonical_parent_m H ic s st = (r, st') \<Longrightarrow> geo_step H blake2b st st'"
| path: "tree_path_m H ic s st = (r, st') \<Longrightarrow> geo_step H blake2b st st'"
| dense: "map_of (on_index (H (g_now st))) (sy_name s) = Some s \<Longrightarrow>
    dense_vec_m H blake2b D center ic s st = (r, st') \<Longrightarrow> geo_step H blake2b st st'"
| store_written: "geo_step H blake2b st (st\<lparr>g_now := g\<rparr>)"

inductive geo_reachable :: "(int \<Rightarrow> ontology) \<Rightarrow> (string \<Rightarrow> nat) \<Rightarrow> geo \<Rightarrow> bool" for H blake2b where
  start: "geo_reachable H blake2b (geo_start now reports)"
| step: "geo_reachable H blake2b st \<Longrightarrow> geo_step H blake2b st st' \<Longrightarrow> geo_reachable H blake2b st'"

lemma geo_invariant:
  "geo_reachable H blake2b st \<Longrightarrow> memo_ok H st \<and> dense_ok H blake2b st \<and> g_writes st = []"
proof (induction rule: geo_reachable.induct)
  case (start now reports)
  then show ?case by (simp add: geo_start_def memo_ok_def dense_ok_def)
next
  case (step st st')
  from step.hyps(2) show ?case
  proof cases
    case (parent ic s r)
    then show ?thesis
      using step.IH canonical_parent_m_plain [of H st ic s r st'] by (auto simp: quiet_def dense_ok_def)
  next
    case (path ic s r)
    then show ?thesis using step.IH tree_path_m_plain [of H st ic s r st'] by (auto simp: quiet_def dense_ok_def)
  next
    case (dense s D center ic r)
    then show ?thesis using step.IH dense_vec_m_plain [of H st blake2b s D center ic r st'] by blast
  next
    case (store_written g)
    then show ?thesis using step.IH by (simp add: memo_ok_def dense_ok_def)
  qed
qed

text \<open>C8: the caches refine what they cache. In every state that any sequence of calls and of writes
  between calls can reach, with whatever generations come back, the memoised path is the plain
  path on the ontology now in force, errors included, the cached coordinate of a synset of that
  ontology is its plain coordinate, and no more than 50000 coordinates are held.\<close>

theorem memo_refines:
  assumes "geo_reachable H blake2b st"
  shows "fst (tree_path_m H ic s st) = tree_path (H (g_now st)) s
    \<and> (map_of (on_index (H (g_now st))) (sy_name s) = Some s \<longrightarrow>
        fst (dense_vec_m H blake2b D center ic s st) = dense_vec (H (g_now st)) blake2b D center s)
    \<and> length (g_dense st) \<le> 50000"
proof -
  have inv: "memo_ok H st" "dense_ok H blake2b st" "g_writes st = []" using geo_invariant [OF assms] by auto
  obtain r1 s1 where 1: "tree_path_m H ic s st = (r1, s1)" by (cases "tree_path_m H ic s st")
  obtain r2 s2 where 2: "dense_vec_m H blake2b D center ic s st = (r2, s2)" by (cases "dense_vec_m H blake2b D center ic s st")
  show ?thesis
    using tree_path_m_plain [OF inv(1,3) 1] dense_vec_m_plain [OF inv _ 2] inv(2) 1 2
    by (simp add: dense_ok_def DENSE_CACHE_MAX_def)
qed

theorem memo_refines_witness:
  "\<exists>st. geo_reachable (\<lambda>_. ex_ontology) ex_digest st
    \<and> fst (tree_path_m (\<lambda>_. ex_ontology) 0 ex_dog st) = tree_path ex_ontology ex_dog
    \<and> fst (dense_vec_m (\<lambda>_. ex_ontology) ex_digest 16 None 0 ex_dog st) = dense_vec ex_ontology ex_digest 16 None ex_dog"
proof -
  let ?H = "\<lambda>_ :: int. ex_ontology" and ?st = "geo_start 7 True"
  obtain r st where run: "tree_path_m ?H 0 ex_cat ?st = (r, st)" by (cases "tree_path_m ?H 0 ex_cat ?st")
  have "geo_reachable ?H ex_digest st"
    using geo_reachable.step [OF geo_reachable.start geo_step.path [OF run]] .
  from memo_refines [OF this, of 0 ex_dog 16 None] this ex_in_index(2) show ?thesis by blast
qed

section \<open>Where the caches answer differently\<close>

text \<open>
  A write observed inside a walk. Before it the dearest parent of a dog is the animal, after it the
  pet. The walk reads the parents of the dog before the write and those of the animal after it; the
  path so mixed is stored under the new generation, and served from then on although the ontology
  in force has another.
\<close>

definition ex_history :: "int \<Rightarrow> ontology" where
  "ex_history g = \<lparr> on_index = [ex_synset 0 ''entity'' [] 0, ex_synset 7 ''animal'' [''entity''] (if g = 2 then 2 else 4),
     ex_synset 8 ''pet'' [''entity''] 3, ex_synset 2 ''dog'' [''animal'', ''pet''] 5], on_bound = None \<rparr>"

abbreviation "ex_dog2 \<equiv> snd (ex_synset 2 ''dog'' [''animal'', ''pet''] 5)"
abbreviation "ex_pet \<equiv> snd (ex_synset 8 ''pet'' [''entity''] 3)"
abbreviation "ex_animal4 \<equiv> snd (ex_synset 7 ''animal'' [''entity''] 4)"

lemma ex_history_ic: "ic_of (ex_history g) True (snd (ex_synset k n hs v)) = Inr v"
  by (simp add: ic_of_def ex_history_def ex_synset_def synset_ic_def)

lemma ex_history_parents:
  "parents (on_index (ex_history g)) ex_dog2
    = [snd (ex_synset 7 ''animal'' [''entity''] (if g = 2 then 2 else 4)), ex_pet]"
  "parents (on_index (ex_history g)) (snd (ex_synset 7 ''animal'' [''entity''] v)) = [ex_entity]"
  "parents (on_index (ex_history g)) ex_pet = [ex_entity]"
  "parents (on_index (ex_history g)) ex_entity = []"
  by (simp_all add: parents_def hypernyms_def instance_hypernyms_def List.map_filter_def
      ex_history_def ex_synset_def)

lemma ex_history_canonical:
  "canonical_parent (ex_history 1) ex_dog2 = Inr (Some ex_animal4)"
  "canonical_parent (ex_history 2) ex_dog2 = Inr (Some ex_pet)"
  "canonical_parent (ex_history 2) ex_animal4 = Inr (Some ex_entity)"
  "canonical_parent (ex_history 2) ex_pet = Inr (Some ex_entity)"
  "canonical_parent (ex_history 2) ex_entity = Inr None"
  by (simp_all add: canonical_parent_def ex_history_parents ic_key_def ex_history_ic key_less_def)

lemma memo_serves_mixed_path:
  "let st = snd (tree_path_m ex_history 0 ex_dog2 ((geo_start 1 True)\<lparr>g_writes := [1, 2]\<rparr>)) in
     g_now st = 2 \<and> g_writes st = []
     \<and> fst (tree_path_m ex_history 0 ex_dog2 st) = Inr [ex_dog2, ex_animal4, ex_entity]
     \<and> tree_path (ex_history (g_now st)) ex_dog2 = Inr [ex_dog2, ex_pet, ex_entity]"
proof -
  have run: "tree_path_m ex_history 0 ex_dog2 ((geo_start 1 True)\<lparr>g_writes := [1, 2]\<rparr>) =
    (Inr [ex_dog2, ex_animal4, ex_entity],
     \<lparr> g_now = 2, g_reports = True, g_writes = [], g_gen = 2, g_ic = 0,
       g_tree = [(''dog'', ex_dog2, [ex_dog2, ex_animal4, ex_entity])],
       g_parent = [(''entity'', ex_entity, None)], g_dense_gen = - 1, g_dense = [] \<rparr>)"
    by (simp add: tree_path_m_def walk_m.simps canonical_parent_m_def memo_ready_def observe_def cached_def
        ex_history_canonical geo_start_def)
  show ?thesis
    unfolding run Let_def
    by (simp add: tree_path_m_def memo_ready_def cached_def tree_path_def tree_up.simps ex_history_canonical)
qed

text \<open>
  Two synsets of one name. The memo tables compare the synset itself, the dense cache only its name:
  a second synset of that name, with an information content of its own, is given the coordinate of
  the first.
\<close>

abbreviation "ex_other_dog \<equiv> snd (ex_synset 9 ''dog'' [''animal''] 2)"

lemma ex_other_path:
  "parents (on_index ex_ontology) ex_other_dog = [ex_animal]"
  "canonical_parent ex_ontology ex_other_dog = Inr (Some ex_animal)"
  "tree_path ex_ontology ex_other_dog = Inr [ex_other_dog, ex_animal, ex_entity]"
proof -
  show par: "parents (on_index ex_ontology) ex_other_dog = [ex_animal]"
    by (simp add: parents_def hypernyms_def instance_hypernyms_def List.map_filter_def
        ex_ontology_def ex_index_def ex_synset_def)
  show cp: "canonical_parent ex_ontology ex_other_dog = Inr (Some ex_animal)"
    by (simp add: canonical_parent_def par ic_key_def)
  show "tree_path ex_ontology ex_other_dog = Inr [ex_other_dog, ex_animal, ex_entity]"
    by (simp add: tree_path_def tree_up.simps cp ex_canonical)
qed

definition ex_plus :: "string \<Rightarrow> nat" where
  "ex_plus s = 2 ^ 40"

lemma ex_dense:
  "dense_vec ex_ontology ex_plus 2 None ex_dog = Inr [3, 0]"
  "dense_vec ex_ontology ex_plus 2 None ex_other_dog = Inr [2, 0]"
proof -
  have other: "sparse_vec ex_ontology ex_other_dog = Inr [(''dog'', 1), (''animal'', 1)]"
    by (simp add: sparse_vec_def ex_other_path dict_update_def)
  have bump: "bump ex_plus 2 (n, x) [v, z] = [v + x, z]" for n x v z
    by (simp add: bump_def hash_node_def ex_plus_def Let_def)
  have zeros: "replicate 2 (0 :: real) = [0, 0]" by (simp add: numeral_2_eq_2)
  have two: "dense_of ex_plus 2 [(m, x), (n, y)] = Inr [x + y, 0]" for m n x y
    unfolding dense_of_def zeros by (simp add: bump)
  show "dense_vec ex_ontology ex_plus 2 None ex_dog = Inr [3, 0]"
    by (simp add: dense_vec_def ex_sparse two subtract_center_def)
  show "dense_vec ex_ontology ex_plus 2 None ex_other_dog = Inr [2, 0]"
    by (simp add: dense_vec_def other two subtract_center_def)
qed

lemma dense_cache_by_name:
  "let st = snd (dense_vec_m (\<lambda>_. ex_ontology) ex_plus 2 None 0 ex_dog (geo_start 7 True)) in
     fst (dense_vec_m (\<lambda>_. ex_ontology) ex_plus 2 None 0 ex_other_dog st) = Inr [3, 0]
     \<and> dense_vec ex_ontology ex_plus 2 None ex_other_dog = Inr [2, 0]"
proof -
  let ?H = "\<lambda>_ :: int. ex_ontology"
  obtain g st1 where g: "dense_gen (geo_start 7 True) = (g, st1)" by (cases "dense_gen (geo_start 7 True)")
  then have g7: "g = 7" and st1: "st1 = (geo_start 7 True)\<lparr>g_dense := [], g_dense_gen := 7\<rparr>"
    by (auto simp: dense_gen_def geo_start_def)
  obtain u st2 where u: "uncached_dense ?H ex_plus 2 0 ex_dog st1 = (u, st2)"
    by (cases "uncached_dense ?H ex_plus 2 0 ex_dog st1")
  have "memo_ok ?H st1" "g_writes st1 = []" by (simp_all add: st1 geo_start_def memo_ok_def)
  from uncached_dense_plain [OF this u] have u3: "u = Inr [3, 0]" and q: "quiet ?H st1 st2" by (simp_all add: ex_dense)
  have keep: "g_dense st2 = []" "g_now st2 = 7" "g_dense_gen st2 = 7" "g_reports st2"
    using q by (auto simp: quiet_def st1 geo_start_def)
  have "dense_vec_m ?H ex_plus 2 None 0 ex_dog (geo_start 7 True)
      = (Inr [3, 0], st2\<lparr>g_dense := [((''dog'', 2, 0, 7), [3, 0])]\<rparr>)"
    using g u u3 keep
    by (simp add: dense_vec_m_def g7 st1 geo_start_def subtract_center_def DENSE_CACHE_MAX_def Let_def)
  then show ?thesis
    using keep by (simp add: dense_vec_m_def dense_gen_def subtract_center_def ex_dense)
qed

end
