(* ===== verification/Geometry_Smooth.thy ===== *)
theory Geometry_Smooth
  imports Py_Values "HOL-Library.Sublist"
begin

text \<open>
  \<open>geometry.smooth_ic\<close>: Laplace smoothing of the counts of a vocabulary over its spanning tree, and
  the information content and standard error it yields. \<open>parents\<close> maps a name to its parent, \<open>None\<close>
  for a root.
\<close>

type_synonym tree = "(string \<times> string option) list"

definition IC_LAPLACE_ALPHA :: real where
  "IC_LAPLACE_ALPHA = 1"

definition list_at :: "string list dict \<Rightarrow> string \<Rightarrow> string list" where
  "list_at d k = (case map_of d k of None \<Rightarrow> [] | Some xs \<Rightarrow> xs)"

lemma list_at_update [simp]: "list_at (AList.update k v d) n = (if n = k then v else list_at d n)"
  by (simp add: list_at_def)

definition children_of :: "tree \<Rightarrow> string list dict" where
  "children_of parents = fold (\<lambda>(n, par) cs. case par of
       None \<Rightarrow> cs
     | Some p \<Rightarrow> AList.update p (list_at cs p @ [n]) cs) parents []"

text \<open>The loop of \<open>_depth\<close>.\<close>

function depth_loop :: "tree \<Rightarrow> nat dict \<Rightarrow> string list \<Rightarrow> string \<Rightarrow> nat \<Rightarrow> nat" where
  "depth_loop parents depth seen cur d = (case map_of depth cur of
       Some k \<Rightarrow> d + k
     | None \<Rightarrow> (case map_of parents cur of
         Some (Some p) \<Rightarrow> if p \<in> set seen then d else depth_loop parents depth (cur # seen) p (d + 1)
       | _ \<Rightarrow> d))"
  by pat_completeness auto

termination depth_loop
proof (relation "measure (\<lambda>(parents, depth, seen, cur, d).
    2 * card (dom (map_of parents) - set seen) + (if cur \<in> set seen then 1 else 0))", goal_cases)
  case (2 parents depth seen cur d po p)
  then have cur: "cur \<in> dom (map_of parents)" and p: "p \<notin> set seen" by auto
  show ?case
  proof (cases "cur \<in> set seen")
    case True
    then show ?thesis using p by (auto simp: insert_absorb)
  next
    case False
    have "dom (map_of parents) - insert cur (set seen) \<subset> dom (map_of parents) - set seen" using cur False by blast
    then have "card (dom (map_of parents) - insert cur (set seen)) < card (dom (map_of parents) - set seen)"
      by (rule psubset_card_mono [rotated]) (simp add: finite_dom_map_of)
    then show ?thesis using False by simp
  qed
qed simp

declare depth_loop.simps [simp del]

text \<open>\<open>sorted(parents, key=_depth, reverse=True)\<close>: the key of each name is taken once, in order, and
  equal keys keep their order.\<close>

fun depth_pass :: "tree \<Rightarrow> tree \<Rightarrow> nat dict \<Rightarrow> nat dict" where
  "depth_pass parents [] depth = depth"
| "depth_pass parents ((n, _) # rows) depth =
     depth_pass parents rows (AList.update n (depth_loop parents depth [] n 0) depth)"

definition depths :: "tree \<Rightarrow> nat dict" where
  "depths parents = depth_pass parents parents []"

definition depth_at :: "tree \<Rightarrow> string \<Rightarrow> nat" where
  "depth_at parents n = (case map_of (depths parents) n of None \<Rightarrow> 0 | Some d \<Rightarrow> d)"

definition deepest_first :: "tree \<Rightarrow> string list" where
  "deepest_first parents = sort_key (\<lambda>n. - int (depth_at parents n)) (map fst parents)"

definition get0 :: "real dict \<Rightarrow> string \<Rightarrow> real" where
  "get0 d k = (case map_of d k of None \<Rightarrow> 0 | Some v \<Rightarrow> v)"

definition cum_step :: "real \<Rightarrow> real dict \<Rightarrow> tree \<Rightarrow> string \<Rightarrow> real dict \<Rightarrow> real dict" where
  "cum_step a own parents n cum = AList.update n (max (get0 own n) 0 + a
     + (\<Sum>c\<leftarrow>list_at (children_of parents) n. get0 cum c)) cum"

definition cumulative :: "real \<Rightarrow> real dict \<Rightarrow> tree \<Rightarrow> real dict" where
  "cumulative a own parents = fold (cum_step a own parents) (deepest_first parents) []"

definition total_mass :: "real dict \<Rightarrow> tree \<Rightarrow> real" where
  "total_mass cum parents = (\<Sum>(n, p)\<leftarrow>filter (\<lambda>(n, p). p = None) parents. get0 cum n)"

definition smooth_ic :: "real dict \<Rightarrow> tree \<Rightarrow> real \<Rightarrow> (string \<times> real \<times> real) list res" where
  "smooth_ic own parents a =
     (if a \<le> 0 then Inl (ValueError ''alpha'')
      else let cum = cumulative a own parents; total = total_mass cum parents in
        if total \<le> 0 then Inl (ValueError ''total smoothed mass is zero'')
        else Inr (map (\<lambda>(n, c). let p = c / total in (n, - ln p, sqrt (max (1 - p) 0 / c))) cum))"

section \<open>Depth\<close>

text \<open>A tree: every step towards the parent lowers a rank.\<close>

definition rank_falls :: "(string \<Rightarrow> nat) \<Rightarrow> tree \<Rightarrow> bool" where
  "rank_falls rank parents \<longleftrightarrow> list_all (\<lambda>(n, p). case p of None \<Rightarrow> True | Some q \<Rightarrow> rank q < rank n) parents"

inductive root_dist :: "tree \<Rightarrow> string \<Rightarrow> nat \<Rightarrow> bool" for parents where
  root: "(\<nexists>p. map_of parents n = Some (Some p)) \<Longrightarrow> root_dist parents n 0"
| up: "map_of parents n = Some (Some p) \<Longrightarrow> root_dist parents p d \<Longrightarrow> root_dist parents n (Suc d)"

inductive_cases root_distE: "root_dist parents n d"

lemma root_dist_unique: "root_dist parents n d \<Longrightarrow> root_dist parents n e \<Longrightarrow> d = e"
proof (induction arbitrary: e rule: root_dist.induct)
  case (root n)
  have "e = 0 \<or> (\<exists>p. map_of parents n = Some (Some p))"
    using root.prems by (cases rule: root_distE) blast+
  then show ?case using root.hyps by blast
next
  case (up n p d)
  obtain k q where "e = Suc k" "map_of parents n = Some (Some q)" "root_dist parents q k"
    using up.prems up.hyps(1) by (cases rule: root_distE) blast+
  then show ?case using up.hyps(1) up.IH [of k] by simp
qed

lemma ranked_step: "rank_falls rank parents \<Longrightarrow> map_of parents n = Some (Some p) \<Longrightarrow> rank p < rank n"
  by (drule map_of_SomeD) (auto simp: rank_falls_def list_all_iff)

lemma root_dist_exists:
  assumes "rank_falls rank parents"
  shows "\<exists>d. root_dist parents n d"
proof (induction "rank n" arbitrary: n rule: less_induct)
  case less
  show ?case
  proof (cases "\<exists>p. map_of parents n = Some (Some p)")
    case True
    then obtain p where p: "map_of parents n = Some (Some p)" by blast
    then show ?thesis using less ranked_step [OF assms p] root_dist.up [OF p] by blast
  next
    case False
    then show ?thesis using root_dist.root by blast
  qed
qed

lemma depth_loop_dist:
  assumes "rank_falls rank parents"
    and "\<And>n k. map_of depth n = Some k \<Longrightarrow> root_dist parents n k"
    and "\<And>x. x \<in> set seen \<Longrightarrow> rank cur < rank x"
  shows "\<exists>k. depth_loop parents depth seen cur d = d + k \<and> root_dist parents cur k"
  using assms
proof (induction parents depth seen cur d rule: depth_loop.induct)
  case (1 parents depth seen cur d)
  show ?case
  proof (cases "map_of depth cur")
    case (Some k)
    then show ?thesis using "1.prems"(2) by (simp add: depth_loop.simps [of _ _ _ cur])
  next
    case none: None
    show ?thesis
    proof (cases "\<exists>p. map_of parents cur = Some (Some p)")
      case True
      then obtain p where p: "map_of parents cur = Some (Some p)" by blast
      have low: "rank p < rank cur" using ranked_step [OF "1.prems"(1) p] .
      then have new: "p \<notin> set seen" using "1.prems"(3) by (metis less_asym)
      have "rank p < rank x" if "x \<in> set (cur # seen)" for x
        using that low "1.prems"(3) by (auto dest: less_trans)
      from "1.IH" [OF none p refl new "1.prems"(1,2) this]
      obtain k where "depth_loop parents depth (cur # seen) p (d + 1) = d + 1 + k" "root_dist parents p k" by blast
      then show ?thesis
        using none p new root_dist.up [OF p] by (auto simp: depth_loop.simps [of _ _ _ cur])
    next
      case False
      then have "depth_loop parents depth seen cur d = d"
        using none by (auto simp: depth_loop.simps [of _ _ _ cur] split: option.splits)
      then show ?thesis using root_dist.root [OF False] by auto
    qed
  qed
qed

lemma depth_pass_dist:
  assumes "rank_falls rank parents" "\<And>m k. map_of depth m = Some k \<Longrightarrow> root_dist parents m k"
    and "map_of (depth_pass parents rows depth) m = Some k"
  shows "root_dist parents m k"
  using assms(2,3)
proof (induction rows arbitrary: depth)
  case (Cons row rows)
  obtain n q where row: "row = (n, q)" by (cases row)
  obtain j where j: "depth_loop parents depth [] n 0 = j" "root_dist parents n j"
    using depth_loop_dist [OF assms(1), of depth "[]" n 0] Cons.prems(1) by auto
  show ?case
  proof (rule Cons.IH [of "AList.update n j depth"])
    show "root_dist parents x i" if "map_of (AList.update n j depth) x = Some i" for x i
      using that j(2) Cons.prems(1) by (auto split: if_splits)
    show "map_of (depth_pass parents rows (AList.update n j depth)) m = Some k"
      using Cons.prems(2) by (simp add: row j(1))
  qed
qed simp

lemma depth_pass_dom:
  "fst ` set rows \<union> dom (map_of depth) \<subseteq> dom (map_of (depth_pass parents rows depth))"
  by (induction parents rows depth rule: depth_pass.induct) (auto simp: subset_iff dom_def)

lemma depth_at_dist:
  assumes "rank_falls rank parents" "n \<in> fst ` set parents"
  shows "root_dist parents n (depth_at parents n)"
proof -
  obtain d where "map_of (depths parents) n = Some d"
    using assms(2) depth_pass_dom [of parents "[]" parents] by (auto simp: depths_def dom_def)
  then show ?thesis
    using depth_pass_dist [OF assms(1), of "[]" parents n d] by (simp add: depths_def depth_at_def)
qed

section \<open>Children before parents\<close>

definition kids :: "tree \<Rightarrow> string \<Rightarrow> string list" where
  "kids parents p = list_at (children_of parents) p"

lemma set_kids: "c \<in> set (kids parents p) \<longleftrightarrow> (c, Some p) \<in> set parents"
proof -
  let ?f = "\<lambda>(n, par) cs. case par of None \<Rightarrow> cs | Some q \<Rightarrow> AList.update q (list_at cs q @ [n]) cs"
  have "c \<in> set (list_at (fold ?f rows cs) p) \<longleftrightarrow> c \<in> set (list_at cs p) \<or> (c, Some p) \<in> set rows" for rows cs
  proof (induction rows arbitrary: cs)
    case (Cons row rows)
    obtain n par where row: "row = (n, par)" by (cases row)
    show ?case by (cases par) (auto simp: row Cons.IH)
  qed simp
  from this [of parents "[]"] show ?thesis by (simp add: kids_def children_of_def list_at_def)
qed

lemma cum_step_kids: "cum_step a own parents n cum =
    AList.update n (max (get0 own n) 0 + a + (\<Sum>c\<leftarrow>kids parents n. get0 cum c)) cum"
  by (simp add: cum_step_def kids_def)

lemma get0_update [simp]: "get0 (AList.update k v d) n = (if n = k then v else get0 d n)"
  by (simp add: get0_def)

lemma cum_untouched: "n \<notin> set xs \<Longrightarrow> get0 (fold (cum_step a own parents) xs cum) n = get0 cum n"
  by (induction xs arbitrary: cum) (auto simp: cum_step_kids)

lemma child_deeper:
  assumes "rank_falls rank parents" "wf_dict parents" "(c, Some p) \<in> set parents" "p \<in> fst ` set parents"
  shows "depth_at parents c = Suc (depth_at parents p)"
proof -
  have c: "map_of parents c = Some (Some p)" using assms(2,3) by simp
  have "c \<in> fst ` set parents" using assms(3) by force
  then have "root_dist parents c (depth_at parents c)" by (rule depth_at_dist [OF assms(1)])
  moreover have "root_dist parents c (Suc (depth_at parents p))"
    using c depth_at_dist [OF assms(1,4)] by (rule root_dist.up)
  ultimately show ?thesis by (rule root_dist_unique)
qed

lemma deepest_first_before:
  assumes "rank_falls rank parents" "wf_dict parents" "deepest_first parents = xs @ p # ys" "(c, Some p) \<in> set parents"
  shows "c \<in> set xs"
proof -
  have set: "set (deepest_first parents) = fst ` set parents" by (simp add: deepest_first_def)
  have p: "p \<in> fst ` set parents" using assms(3) set by (metis in_set_conv_decomp)
  have deeper: "depth_at parents c = Suc (depth_at parents p)" by (rule child_deeper [OF assms(1,2,4) p])
  have "sorted (map (\<lambda>n. - int (depth_at parents n)) (deepest_first parents))"
    by (simp add: deepest_first_def)
  then have after: "depth_at parents y \<le> depth_at parents p" if "y \<in> set ys" for y
    using that unfolding assms(3) by (auto simp: sorted_append)
  have "c \<in> set (xs @ p # ys)" using assms(3,4) set by (metis fst_conv image_eqI)
  then show ?thesis using deeper after [of c] by auto
qed

lemma cum_equation:
  assumes "rank_falls rank parents" "wf_dict parents" "n \<in> fst ` set parents"
  shows "get0 (cumulative a own parents) n
    = max (get0 own n) 0 + a + (\<Sum>c\<leftarrow>kids parents n. get0 (cumulative a own parents) c)"
proof -
  have "n \<in> set (deepest_first parents)" using assms(3) by (simp add: deepest_first_def)
  then obtain xs ys where split: "deepest_first parents = xs @ n # ys" by (meson split_list)
  have "distinct (deepest_first parents)" using assms(2) by (simp add: deepest_first_def)
  then have n: "n \<notin> set xs" "n \<notin> set ys" and apart: "set xs \<inter> set ys = {}" using split by auto
  let ?cum = "fold (cum_step a own parents) xs []"
  have all: "cumulative a own parents = fold (cum_step a own parents) ys (cum_step a own parents n ?cum)"
    by (simp add: cumulative_def split)
  have kid: "get0 (cumulative a own parents) c = get0 ?cum c" if "c \<in> set (kids parents n)" for c
  proof -
    have "c \<in> set xs" using deepest_first_before [OF assms(1,2) split] that by (simp add: set_kids)
    then have "c \<notin> set ys" "c \<noteq> n" using apart n by auto
    then show ?thesis unfolding all by (simp add: cum_untouched cum_step_kids)
  qed
  have "get0 (cumulative a own parents) n = max (get0 own n) 0 + a + (\<Sum>c\<leftarrow>kids parents n. get0 ?cum c)"
    unfolding all using n by (simp add: cum_untouched cum_step_kids)
  also have "(\<Sum>c\<leftarrow>kids parents n. get0 ?cum c) = (\<Sum>c\<leftarrow>kids parents n. get0 (cumulative a own parents) c)"
    using kid by (intro arg_cong [where f = sum_list] map_cong) auto
  finally show ?thesis .
qed

lemma cum_positive:
  assumes "0 < a"
  shows "all_entries (\<lambda>_ v. a \<le> v) (cumulative a own parents)"
proof -
  have "all_entries (\<lambda>_ v. a \<le> v) (fold (cum_step a own parents) xs cum)"
    if "all_entries (\<lambda>_ v. a \<le> v) cum" for xs cum
    using that
  proof (induction xs arbitrary: cum)
    case (Cons n xs)
    have "0 \<le> get0 cum c" for c
      using Cons.prems assms all_entries_map_of [OF Cons.prems, of c] by (auto simp: get0_def split: option.splits)
    then have "0 \<le> x" if "x \<in> set (map (get0 cum) (kids parents n))" for x using that by auto
    then have "0 \<le> (\<Sum>c\<leftarrow>kids parents n. get0 cum c)" by (rule sum_list_nonneg)
    then have "a \<le> max (get0 own n) 0 + a + (\<Sum>c\<leftarrow>kids parents n. get0 cum c)" by simp
    then have "all_entries (\<lambda>_ v. a \<le> v) (cum_step a own parents n cum)"
      unfolding cum_step_kids by (rule all_entries_update [OF Cons.prems])
    then show ?case using Cons.IH by simp
  qed simp
  then show ?thesis by (simp add: cumulative_def)
qed

lemma cum_dom: "fst ` set (cumulative a own parents) = fst ` set parents" "wf_dict (cumulative a own parents)"
proof -
  have step: "fst ` set (cum_step a own parents n cum) = insert n (fst ` set cum)" for n cum
    by (simp add: cum_step_kids dom_update)
  have "fst ` set (fold (cum_step a own parents) xs cum) = fst ` set cum \<union> set xs" for xs cum
    by (induction xs arbitrary: cum) (auto simp: step)
  then show "fst ` set (cumulative a own parents) = fst ` set parents"
    by (simp add: cumulative_def deepest_first_def)
  have "wf_dict (fold (cum_step a own parents) xs cum)" if "wf_dict cum" for xs cum
    using that by (induction xs arbitrary: cum) (auto simp: cum_step_kids distinct_update simp del: map_of_AList_update)
  then show "wf_dict (cumulative a own parents)" by (simp add: cumulative_def)
qed

section \<open>The smoothed measurement\<close>

lemma cum_above:
  assumes "rank_falls rank parents" "wf_dict parents" "0 < a" "(c, Some p) \<in> set parents" "p \<in> fst ` set parents"
  shows "get0 (cumulative a own parents) c < get0 (cumulative a own parents) p"
proof -
  let ?g = "get0 (cumulative a own parents)"
  have "0 \<le> ?g x" for x
    using cum_positive [OF assms(3), of own parents] assms(3)
    by (auto simp: get0_def split: option.splits dest: all_entries_map_of)
  then have "?g c \<le> (\<Sum>x\<leftarrow>kids parents p. ?g x)"
    using assms(4) by (intro member_le_sum_list) (auto simp: set_kids)
  then show ?thesis unfolding cum_equation [OF assms(1,2,5), of a own] using assms(3) by simp
qed

definition closed_tree :: "tree \<Rightarrow> bool" where
  "closed_tree parents \<longleftrightarrow> list_all (\<lambda>(n, p). case p of None \<Rightarrow> True | Some q \<Rightarrow> q \<in> fst ` set parents) parents"

lemma root_above:
  assumes "rank_falls rank parents" "wf_dict parents" "closed_tree parents" "0 < a" "n \<in> fst ` set parents"
  shows "\<exists>r. (r, None) \<in> set parents \<and> get0 (cumulative a own parents) n \<le> get0 (cumulative a own parents) r"
  using assms(5)
proof (induction "rank n" arbitrary: n rule: less_induct)
  case less
  obtain p where p: "(n, p) \<in> set parents" using less.prems by auto
  show ?case
  proof (cases p)
    case None
    then show ?thesis using p by auto
  next
    case (Some q)
    have q: "q \<in> fst ` set parents" using assms(3) p Some by (auto simp: closed_tree_def list_all_iff)
    have "rank q < rank n" using assms(1) p Some by (auto simp: rank_falls_def list_all_iff)
    from less.hyps [OF this q] obtain r where
      "(r, None) \<in> set parents" "get0 (cumulative a own parents) q \<le> get0 (cumulative a own parents) r" by blast
    moreover have "get0 (cumulative a own parents) n < get0 (cumulative a own parents) q"
      using cum_above [OF assms(1,2,4) _ q] p Some by blast
    ultimately show ?thesis by (meson less_imp_le order_trans)
  qed
qed

lemma root_at_most_total:
  assumes "0 < a" "(r, None) \<in> set parents"
  shows "get0 (cumulative a own parents) r \<le> total_mass (cumulative a own parents) parents"
proof -
  let ?g = "get0 (cumulative a own parents)"
  have "0 \<le> ?g x" for x
    using cum_positive [OF assms(1), of own parents] assms(1)
    by (auto simp: get0_def split: option.splits dest: all_entries_map_of)
  then show ?thesis
    unfolding total_mass_def using assms(2) by (intro member_le_sum_list) (auto simp: image_iff intro!: bexI [of _ "(r, None)"])
qed

text \<open>smoothing fills every hole and keeps the order of the tree. With mass to spread, over any finite
  tree of names and whatever was counted for them, every name gets an information content, none is
  negative, and a name always gets strictly more than the name above it, so that no edge of the tree
  carries weight zero.\<close>

theorem smooth_ic_monotone:
  assumes "rank_falls rank parents" "wf_dict parents" "closed_tree parents" "parents \<noteq> []" "0 < a"
  shows "\<exists>out. smooth_ic own parents a = Inr out \<and> fst ` set out = fst ` set parents
    \<and> (\<forall>n ic se. map_of out n = Some (ic, se) \<longrightarrow> 0 \<le> ic \<and> 0 \<le> se)
    \<and> (\<forall>n p. (n, Some p) \<in> set parents \<longrightarrow>
        (\<exists>icn sen icp sep. map_of out n = Some (icn, sen) \<and> map_of out p = Some (icp, sep) \<and> icp < icn))"
proof -
  let ?cum = "cumulative a own parents"
  let ?total = "total_mass ?cum parents"
  let ?val = "\<lambda>c. (- ln (c / ?total), sqrt (max (1 - c / ?total) 0 / c))"
  let ?out = "map (\<lambda>(n, c). (n, ?val c)) ?cum"
  have pos: "0 < get0 ?cum n" if n: "n \<in> fst ` set parents" for n
  proof -
    have "n \<in> dom (map_of ?cum)" using n by (simp add: dom_map_of_conv_image_fst cum_dom(1))
    then obtain v where "map_of ?cum n = Some v" by blast
    then show ?thesis
      using all_entries_map_of [OF cum_positive [OF assms(5)]] assms(5) by (force simp: get0_def)
  qed
  have bound: "get0 ?cum n \<le> ?total" if n: "n \<in> fst ` set parents" for n
    using root_above [OF assms(1,2,3,5) n] root_at_most_total [OF assms(5)] by (meson order_trans)
  have total: "0 < ?total"
    using pos bound assms(4) by (metis fst_conv image_eqI less_le_trans list.set_intros(1) neq_Nil_conv surj_pair)
  have out: "smooth_ic own parents a = Inr ?out"
    using assms(5) total by (simp add: smooth_ic_def Let_def)
  have at: "map_of ?out n = Some (?val (get0 ?cum n))" if n: "n \<in> fst ` set parents" for n
  proof -
    have "n \<in> dom (map_of ?cum)" using n by (simp add: dom_map_of_conv_image_fst cum_dom(1))
    then obtain v where v: "map_of ?cum n = Some v" by blast
    have "map_of (map (\<lambda>(n, c). (n, f c)) xs) n = map_option f (map_of xs n)" for f :: "real \<Rightarrow> real \<times> real" and xs
      by (induction xs) auto
    then show ?thesis using v by (simp add: get0_def)
  qed
  have dom: "fst ` set ?out = fst ` set parents" by (simp add: image_image case_prod_beta cum_dom(1))
  have nonneg: "0 \<le> ic \<and> 0 \<le> se" if "map_of ?out n = Some (ic, se)" for n ic se
  proof -
    have "n \<in> dom (map_of ?out)" using that by (rule domI)
    then have n: "n \<in> fst ` set parents" by (simp only: dom_map_of_conv_image_fst dom)
    have "ic = - ln (get0 ?cum n / ?total)" "se = sqrt (max (1 - get0 ?cum n / ?total) 0 / get0 ?cum n)"
      using that at [OF n] by simp_all
    moreover have "get0 ?cum n / ?total \<le> 1" "0 < get0 ?cum n / ?total" using bound [OF n] pos [OF n] total by simp_all
    ultimately show ?thesis using pos [OF n] by (simp add: ln_le_zero_iff)
  qed
  have order: "- ln (get0 ?cum p / ?total) < - ln (get0 ?cum n / ?total)" if edge: "(n, Some p) \<in> set parents" for n p
  proof -
    have n: "n \<in> fst ` set parents" using edge by force
    have p: "p \<in> fst ` set parents" using assms(3) edge by (auto simp: closed_tree_def list_all_iff)
    have "get0 ?cum n / ?total < get0 ?cum p / ?total"
      using cum_above [OF assms(1,2,5) edge p] total by (simp add: divide_strict_right_mono)
    then show ?thesis using pos [OF n] pos [OF p] total by simp
  qed
  have edges: "\<exists>icn sen icp sep. map_of ?out n = Some (icn, sen) \<and> map_of ?out p = Some (icp, sep) \<and> icp < icn"
    if edge: "(n, Some p) \<in> set parents" for n p
  proof -
    have "n \<in> fst ` set parents" using edge by force
    moreover have "p \<in> fst ` set parents" using assms(3) edge by (auto simp: closed_tree_def list_all_iff)
    ultimately show ?thesis using at order [OF edge] by blast
  qed
  show ?thesis using out dom nonneg edges by blast
qed

definition ex_tree :: tree where
  "ex_tree = [(''entity'', None), (''dog'', Some ''entity''), (''cat'', Some ''entity'')]"

lemma ex_tree_ok:
  "rank_falls (\<lambda>n. if n = ''entity'' then 0 else 1) ex_tree" "wf_dict ex_tree" "closed_tree ex_tree"
  "ex_tree \<noteq> []" "(''cat'', Some ''entity'') \<in> set ex_tree" "(0 :: real) < 1"
  by (simp_all add: rank_falls_def closed_tree_def ex_tree_def)

theorem smooth_ic_monotone_witness:
  "\<exists>out icn sen icp sep. smooth_ic [(''dog'', 3)] ex_tree 1 = Inr out
    \<and> map_of out ''cat'' = Some (icn, sen) \<and> map_of out ''entity'' = Some (icp, sep) \<and> icp < icn"
proof -
  from smooth_ic_monotone [OF ex_tree_ok(1-4,6), of "[(''dog'', 3)]"] obtain out
    where out: "smooth_ic [(''dog'', 3)] ex_tree 1 = Inr out"
      and edges: "\<forall>n p. (n, Some p) \<in> set ex_tree \<longrightarrow>
        (\<exists>icn sen icp sep. map_of out n = Some (icn, sen) \<and> map_of out p = Some (icp, sep) \<and> icp < icn)" by blast
  from edges [rule_format, OF ex_tree_ok(5)] out show ?thesis by blast
qed

end
