(* ===== verification/Geometry_Basis.thy ===== *)
theory Geometry_Basis
  imports Geometry_Dense
begin

text \<open>
  The identity of a vector space in \<open>ontology/geometry.py\<close>: the basis fingerprint and the pooling of
  coordinates, the content id of a centering mean and its file, the revision of the information
  content, and the rank correlation of the faithfulness gate.

  Parameters: \<open>blake2b\<close> is the hex digest of a byte string (its characters are the bytes),
  \<open>to_f4\<close> rounds to a 32-bit float and \<open>bytes4\<close> writes one; \<open>bytes8\<close> writes a 64-bit one.
\<close>

section \<open>Basis fingerprints\<close>

definition GEOMETRY_VERSION :: string where
  "GEOMETRY_VERSION = ''geom-v1''"

record basis =
  ba_ic_revision :: string
  ba_dim :: int
  ba_version :: string
  ba_centering :: string

definition basis_token :: "(string \<Rightarrow> string) \<Rightarrow> basis \<Rightarrow> string" where
  "basis_token blake2b b = blake2b (''agience/geometry/basis/v1''
     @ concat (map (\<lambda>part. part @ [CHR 0x00]) [ba_ic_revision b, int_str (ba_dim b), ba_version b, ba_centering b]))"

definition basis_conflicts :: "basis \<Rightarrow> basis \<Rightarrow> string list" where
  "basis_conflicts a b =
     (if ba_ic_revision a \<noteq> ba_ic_revision b then [''ic_revision''] else [])
     @ (if ba_dim a \<noteq> ba_dim b then [''D''] else [])
     @ (if ba_version a \<noteq> ba_version b then [''geometry_version''] else [])
     @ (if ba_centering a \<noteq> ba_centering b then [''centering_id''] else [])"

definition basis_mismatch :: exc where
  "basis_mismatch = PyError ''BasisMismatch'' []"

definition require_same_basis :: "basis \<Rightarrow> basis \<Rightarrow> unit res" where
  "require_same_basis a b = (if basis_conflicts a b \<noteq> [] then Inl basis_mismatch else Inr ())"

text \<open>An array of one or two dimensions; a matrix knows its width even without rows.\<close>

datatype ndarray = Vec "real list" | Mat nat "real list list"

definition at_least_2d :: "ndarray \<Rightarrow> nat \<times> real list list" where
  "at_least_2d a = (case a of Vec v \<Rightarrow> (length v, [v]) | Mat w rows \<Rightarrow> (w, rows))"

fun pool_from :: "basis \<Rightarrow> (basis \<times> ndarray) list \<Rightarrow> real list list res" where
  "pool_from base [] = Inr []"
| "pool_from base ((fp, arr) # items) =
     res_bind (require_same_basis base fp) (\<lambda>_.
       case at_least_2d arr of (w, rows) \<Rightarrow>
         if int w \<noteq> ba_dim base then Inl basis_mismatch
         else res_bind (pool_from base items) (\<lambda>rest. Inr (rows @ rest)))"

definition pool_coordinates :: "(basis \<times> ndarray) list \<Rightarrow> basis option \<Rightarrow> real list list res" where
  "pool_coordinates items expect = (case items of
       [] \<Rightarrow> Inl basis_mismatch
     | (fp, _) # _ \<Rightarrow> pool_from (case expect of Some b \<Rightarrow> b | None \<Rightarrow> fp) items)"

section \<open>The revision of the information content\<close>

text \<open>\<open>ic_source_revision\<close>, before its cache: the sorted pairs of name and value.\<close>

definition ic_source_revision :: "(string \<Rightarrow> string) \<Rightarrow> (real \<Rightarrow> string) \<Rightarrow> ontology \<Rightarrow> string option
    \<Rightarrow> synset list option \<Rightarrow> string res" where
  "ic_source_revision blake2b bytes8 on override synsets =
     (case override of
        Some (c # r) \<Rightarrow> Inr (c # r)
      | _ \<Rightarrow> res_bind (res_map (\<lambda>s. res_bind (ic_of on True s) (\<lambda>v. Inr (sy_name s, v)))
               (case synsets of Some ss \<Rightarrow> ss | None \<Rightarrow> map snd (on_index on))) (\<lambda>items.
          if items = [] then Inl basis_mismatch
          else Inr (blake2b (''agience/geometry/ic/v1''
            @ concat (map (\<lambda>(n, v). n @ [CHR 0x00] @ bytes8 v) (sort_key fst (sort_key snd items)))))))"

section \<open>Centering means\<close>

definition CENTER_MAGIC :: string where
  "CENTER_MAGIC = ''agience/geometry/centering/v1''"

definition centering_mean_id :: "(string \<Rightarrow> string) \<Rightarrow> (real \<Rightarrow> real) \<Rightarrow> (real \<Rightarrow> string) \<Rightarrow> real list option \<Rightarrow> string" where
  "centering_mean_id blake2b to_f4 bytes4 center = (case center of
       None \<Rightarrow> ''none''
     | Some c \<Rightarrow> blake2b (CENTER_MAGIC @ nat_str (length c) @ concat (map (\<lambda>x. bytes4 (to_f4 x)) c)))"

text \<open>What the file holds: JSON keeps a float exactly.\<close>

record mean_file =
  mf_magic :: string
  mf_dim :: int
  mf_id :: string
  mf_mean :: "real list"

definition save_centering_mean :: "(string \<Rightarrow> string) \<Rightarrow> (real \<Rightarrow> real) \<Rightarrow> (real \<Rightarrow> string) \<Rightarrow> real list \<Rightarrow> string \<times> mean_file" where
  "save_centering_mean blake2b to_f4 bytes4 center =
     (let a = map to_f4 center; mid = centering_mean_id blake2b to_f4 bytes4 (Some a) in
      (mid, \<lparr> mf_magic = CENTER_MAGIC, mf_dim = int (length a), mf_id = mid, mf_mean = a \<rparr>))"

definition load_centering_mean :: "(string \<Rightarrow> string) \<Rightarrow> (real \<Rightarrow> real) \<Rightarrow> (real \<Rightarrow> string) \<Rightarrow> mean_file \<Rightarrow> real list res" where
  "load_centering_mean blake2b to_f4 bytes4 f =
     (if mf_magic f \<noteq> CENTER_MAGIC then Inl (ValueError ''not a centering-mean file'')
      else if int (length (mf_mean f)) \<noteq> mf_dim f then Inl (ValueError ''centering mean length'')
      else if centering_mean_id blake2b to_f4 bytes4 (Some (mf_mean f)) \<noteq> mf_id f
      then Inl (ValueError ''centering mean id mismatch'')
      else Inr (mf_mean f))"

definition default_centering :: "(string \<Rightarrow> string) \<Rightarrow> (real \<Rightarrow> real) \<Rightarrow> (real \<Rightarrow> string) \<Rightarrow> (string \<Rightarrow> mean_file res)
    \<Rightarrow> string \<Rightarrow> nat \<Rightarrow> real list option res" where
  "default_centering blake2b to_f4 bytes4 read_file env D =
     (let p = py_strip env in
      if p = [] then Inr None
      else res_bind (read_file p) (\<lambda>f. res_bind (load_centering_mean blake2b to_f4 bytes4 f) (\<lambda>c.
        if length c \<noteq> D then Inl (ValueError ''EMBER_GEOM_CENTERING'') else Inr (Some c))))"

definition basis_fingerprint :: "(string \<Rightarrow> string) \<Rightarrow> (real \<Rightarrow> string) \<Rightarrow> (real \<Rightarrow> real) \<Rightarrow> (real \<Rightarrow> string) \<Rightarrow> ontology
    \<Rightarrow> int \<Rightarrow> real list option \<Rightarrow> string option \<Rightarrow> synset list option \<Rightarrow> basis res" where
  "basis_fingerprint blake2b bytes8 to_f4 bytes4 on D center revision synsets =
     res_bind (ic_source_revision blake2b bytes8 on revision synsets) (\<lambda>rev. Inr
       \<lparr> ba_ic_revision = rev, ba_dim = D, ba_version = GEOMETRY_VERSION,
         ba_centering = centering_mean_id blake2b to_f4 bytes4 center \<rparr>)"

text \<open>\<open>derive_centering_mean\<close>: \<open>nrm\<close> is the vector library's; a zero norm skips the synset.\<close>

fun mean_from :: "(real list \<Rightarrow> real) \<Rightarrow> ontology \<Rightarrow> (string \<Rightarrow> nat) \<Rightarrow> nat \<Rightarrow> synset list \<Rightarrow> real list \<times> nat \<Rightarrow> (real list \<times> nat) res" where
  "mean_from nrm on hash D [] st = Inr st"
| "mean_from nrm on hash D (s # ss) (acc, n) =
     res_bind (dense_vec on hash D None s) (\<lambda>v.
       if nrm v = 0 then mean_from nrm on hash D ss (acc, n)
       else res_bind (ic_of on True s) (\<lambda>ic.
         mean_from nrm on hash D ss (map2 (\<lambda>a x. a + ln (1 + max ic 0) * (x / nrm v)) acc v, n + 1)))"

definition derive_centering_mean :: "(real list \<Rightarrow> real) \<Rightarrow> ontology \<Rightarrow> (string \<Rightarrow> nat) \<Rightarrow> nat \<Rightarrow> synset list \<Rightarrow> real list res" where
  "derive_centering_mean nrm on hash D ss =
     res_bind (mean_from nrm on hash D ss (replicate D 0, 0)) (\<lambda>(acc, n).
       if n = 0 then Inl (ValueError ''derive_centering_mean'')
       else Inr (map (\<lambda>x. x / real n) acc))"

section \<open>Rank correlation\<close>

text \<open>The inner loop: the last position of the run of equal values that starts at \<open>i\<close>.\<close>

function run_end :: "real list \<Rightarrow> nat list \<Rightarrow> nat \<Rightarrow> nat \<Rightarrow> nat" where
  "run_end x order i j =
     (if j + 1 < length order \<and> x ! (order ! (j + 1)) = x ! (order ! i) then run_end x order i (j + 1) else j)"
  by pat_completeness auto
termination by (relation "measure (\<lambda>(x, order, i, j). length order - j)") auto

declare run_end.simps [simp del]

lemma run_end_ge: "j \<le> run_end x order i j"
proof (induction x order i j rule: run_end.induct)
  case (1 x order i j)
  then show ?case by (subst run_end.simps) auto
qed

function rank_loop :: "real list \<Rightarrow> nat list \<Rightarrow> nat \<Rightarrow> real list \<Rightarrow> real list" where
  "rank_loop x order i r =
     (if i < length order
      then let j = run_end x order i i; avg = (real i + real j) / 2 in
        rank_loop x order (j + 1) (fold (\<lambda>k r. r[order ! k := avg]) [i..<j + 1] r)
      else r)"
  by pat_completeness auto
termination
  by (relation "measure (\<lambda>(x, order, i, r). length order - i)")
    (auto intro: diff_less_mono2 simp: less_Suc_eq_le run_end_ge)

declare rank_loop.simps [simp del]

definition ranks :: "real list \<Rightarrow> real list" where
  "ranks x = rank_loop x (sort_key (\<lambda>i. x ! i) [0..<length x]) 0 (replicate (length x) 0)"

definition spearman :: "real list \<Rightarrow> real list \<Rightarrow> real option" where
  "spearman a b = (let n = length a in
     if n < 2 \<or> n \<noteq> length b then None
     else let ra = ranks a; rb = ranks b;
              ma = sum_list ra / real n; mb = sum_list rb / real n;
              cov = (\<Sum>i\<leftarrow>[0..<n]. (ra ! i - ma) * (rb ! i - mb));
              va = sqrt (\<Sum>x\<leftarrow>ra. (x - ma)\<^sup>2); vb = sqrt (\<Sum>x\<leftarrow>rb. (x - mb)\<^sup>2)
          in if va = 0 \<or> vb = 0 then None else Some (cov / (va * vb)))"

end
