(* ===== verification/Geometry_Basis_Laws.thy ===== *)
theory Geometry_Basis_Laws
  imports Geometry_Basis
begin

text \<open>
  When coordinates may be pooled, what identifies a basis, that a centering mean survives its file,
  and when the faithfulness gate reports a correlation.
\<close>

section \<open>Pooling\<close>

lemma basis_conflicts_Nil: "basis_conflicts a b = [] \<longleftrightarrow> a = (b :: basis)"
  by (cases a; cases b) (simp add: basis_conflicts_def)

lemma require_same_basis_iff: "require_same_basis a b = (if a = b then Inr () else Inl basis_mismatch)"
  by (simp add: require_same_basis_def basis_conflicts_Nil)

lemma pool_from_decides: "pool_from base items =
    (if list_all (\<lambda>(fp, arr). fp = base \<and> int (fst (at_least_2d arr)) = ba_dim base) items
     then Inr (concat (map (\<lambda>(fp, arr). snd (at_least_2d arr)) items)) else Inl basis_mismatch)"
  by (induction base items rule: pool_from.induct)
    (auto simp: require_same_basis_iff split: prod.splits)

text \<open>coordinates meet only inside one space. A pool is refused when it is empty, when one contribution
  names another basis than the expected one (or, without one, the first), or when an array is not of
  the width its basis states; otherwise it is the rows of all contributions, in order.\<close>

theorem pool_coordinates_decides:
  "pool_coordinates items expect =
    (let base = (case expect of Some b \<Rightarrow> b | None \<Rightarrow> fst (hd items)) in
     if items \<noteq> [] \<and> list_all (\<lambda>(fp, arr). fp = base \<and> int (fst (at_least_2d arr)) = ba_dim base) items
     then Inr (concat (map (\<lambda>(fp, arr). snd (at_least_2d arr)) items))
     else Inl basis_mismatch)"
  by (cases items; cases expect) (auto simp: pool_coordinates_def pool_from_decides Let_def simp del: list.map split: if_splits)

section \<open>The token\<close>

lemma nat_str_chars: "set (nat_str n) \<subseteq> {c. is_digit c}"
proof (induction n rule: nat_str.induct)
  case (1 n)
  have dig: "is_digit (char_of (48 + k))" if "k < 10" for k :: nat
    using that by (simp add: is_digit_def)
  show ?case
  proof (cases "n < 10")
    case True
    then show ?thesis using dig by (simp add: nat_str.simps [of n])
  next
    case False
    have "is_digit (char_of (48 + n mod 10))" by (rule dig) simp
    then show ?thesis using 1 False by (simp add: nat_str.simps [of n])
  qed
qed

lemma digits_val_snoc: "digits_val (s @ [c]) = 10 * digits_val s + (code c - 48)"
  by (simp add: digits_val_def)

lemma digits_val_nat_str: "digits_val (nat_str n) = n"
proof (induction n rule: nat_str.induct)
  case (1 n)
  show ?case
  proof (cases "n < 10")
    case True
    then show ?thesis by (simp add: nat_str.simps [of n] digits_val_def)
  next
    case False
    then have IH: "digits_val (nat_str (n div 10)) = n div 10" by (rule "1.IH")
    have "code (char_of (48 + n mod 10)) = 48 + n mod 10"
      using mod_less_divisor [of 10 n] by (simp add: mod_less)
    then show ?thesis using False by (simp add: nat_str.simps [of n] digits_val_snoc IH)
  qed
qed

lemma nat_str_inject: "nat_str m = nat_str n \<longleftrightarrow> m = n"
  by (metis digits_val_nat_str)

lemma int_str_inject: "int_str i = int_str j \<longleftrightarrow> i = j"
proof
  have minus: "CHR ''-'' \<notin> set (nat_str k)" for k
    using nat_str_chars [of k] by (auto simp: is_digit_def code_def)
  assume eq: "int_str i = int_str j"
  have "i < 0 \<longleftrightarrow> j < 0"
    using eq minus [of "nat i"] minus [of "nat j"] by (auto simp: int_str_def split: if_splits) (metis list.set_intros(1))+
  then show "i = j" using eq by (auto simp: int_str_def nat_str_inject split: if_splits)
qed simp

lemma int_str_no_nul: "CHR 0x00 \<notin> set (int_str i)"
  using nat_str_chars [of "nat i"] nat_str_chars [of "nat (- i)"]
  by (auto simp: int_str_def is_digit_def code_def)

lemma nul_terminated_parts:
  "CHR 0x00 \<notin> set p \<Longrightarrow> CHR 0x00 \<notin> set q \<Longrightarrow>
    p @ CHR 0x00 # r = q @ CHR 0x00 # t \<longleftrightarrow> p = q \<and> r = t"
proof (induction p arbitrary: q)
  case Nil
  then show ?case by (cases q) auto
next
  case (Cons c p)
  then show ?case by (cases q) auto
qed

definition nul_free :: "basis \<Rightarrow> bool" where
  "nul_free b \<longleftrightarrow> CHR 0x00 \<notin> set (ba_ic_revision b @ ba_version b @ ba_centering b)"

text \<open>the token a node advertises identifies the basis. For any digest that keeps the two messages
  apart, two bases whose fields hold no zero byte have the same token exactly when no field differs,
  that is when their coordinates may be pooled: no two fields can run into each other.\<close>

theorem basis_token_identifies:
  assumes "inj_on blake2b (range (\<lambda>s. ''agience/geometry/basis/v1'' @ s))" "nul_free a" "nul_free b"
  shows "basis_token blake2b a = basis_token blake2b b \<longleftrightarrow> basis_conflicts a b = []"
proof -
  have "basis_token blake2b a = basis_token blake2b b \<longleftrightarrow>
      concat (map (\<lambda>part. part @ [CHR 0x00]) [ba_ic_revision a, int_str (ba_dim a), ba_version a, ba_centering a])
      = concat (map (\<lambda>part. part @ [CHR 0x00]) [ba_ic_revision b, int_str (ba_dim b), ba_version b, ba_centering b])"
    unfolding basis_token_def using assms(1) by (subst inj_on_eq_iff [OF assms(1)]) auto
  also have "\<dots> \<longleftrightarrow> ba_ic_revision a = ba_ic_revision b \<and> ba_dim a = ba_dim b \<and> ba_version a = ba_version b
      \<and> ba_centering a = ba_centering b"
    using assms(2,3) int_str_no_nul [of "ba_dim a"] int_str_no_nul [of "ba_dim b"]
    by (simp add: nul_free_def nul_terminated_parts int_str_inject)
  also have "\<dots> \<longleftrightarrow> a = b" by (cases a; cases b) simp
  finally show ?thesis by (simp only: basis_conflicts_Nil)
qed

definition ex_small_basis :: basis where
  "ex_small_basis = \<lparr> ba_ic_revision = ''r1'', ba_dim = 256, ba_version = GEOMETRY_VERSION, ba_centering = ''none'' \<rparr>"

theorem basis_token_identifies_witness:
  "basis_token (\<lambda>s. s) ex_small_basis \<noteq> basis_token (\<lambda>s. s) (ex_small_basis\<lparr>ba_dim := 2048\<rparr>)"
proof -
  have "inj_on (\<lambda>s. s) (range (\<lambda>s. ''agience/geometry/basis/v1'' @ s))" by simp
  moreover have "nul_free ex_small_basis" "nul_free (ex_small_basis\<lparr>ba_dim := 2048\<rparr>)"
    by (simp_all add: nul_free_def ex_small_basis_def GEOMETRY_VERSION_def)
  moreover have "basis_conflicts ex_small_basis (ex_small_basis\<lparr>ba_dim := 2048\<rparr>) \<noteq> []"
    by (simp add: basis_conflicts_def ex_small_basis_def)
  ultimately show ?thesis using basis_token_identifies by blast
qed

section \<open>The file of a centering mean\<close>

text \<open>a centering mean survives its file. What is read back is the mean rounded to 32 bits, under the
  id that was returned when it was written; and nothing is read from a file whose bytes do not have
  the id the file states, or whose length is not the stated width.\<close>

theorem centering_mean_round_trip:
  assumes "\<And>x. to_f4 (to_f4 x) = to_f4 x"
  shows "load_centering_mean blake2b to_f4 bytes4 (snd (save_centering_mean blake2b to_f4 bytes4 c)) = Inr (map to_f4 c)
    \<and> fst (save_centering_mean blake2b to_f4 bytes4 c) = centering_mean_id blake2b to_f4 bytes4 (Some c)
    \<and> (\<forall>f a. load_centering_mean blake2b to_f4 bytes4 f = Inr a \<longrightarrow>
        centering_mean_id blake2b to_f4 bytes4 (Some a) = mf_id f \<and> int (length a) = mf_dim f)"
  using assms by (auto simp: load_centering_mean_def save_centering_mean_def centering_mean_id_def Let_def comp_def split: if_splits)

theorem centering_mean_round_trip_witness:
  "load_centering_mean (\<lambda>s. s) (\<lambda>x. real_of_int \<lfloor>x\<rfloor>) (\<lambda>x. [])
     (snd (save_centering_mean (\<lambda>s. s) (\<lambda>x. real_of_int \<lfloor>x\<rfloor>) (\<lambda>x. []) [3 / 2])) = Inr [1]"
  using centering_mean_round_trip [of "\<lambda>x. real_of_int \<lfloor>x\<rfloor>" "\<lambda>s. s" "\<lambda>x. []" "[3 / 2]"] by simp

section \<open>Rank correlation\<close>

lemma sum_list_upt: "(\<Sum>i\<leftarrow>[0..<n]. f i) = (\<Sum>i < n. f i :: real)"
  by (simp add: sum_list_distinct_conv_sum_set atLeast0LessThan)

lemma sum_list_nth: "(\<Sum>x\<leftarrow>xs. f x) = (\<Sum>i < length xs. f (xs ! i) :: real)"
proof -
  have "map f xs = map (\<lambda>i. f (xs ! i)) [0..<length xs]" by (auto intro: nth_equalityI)
  then show ?thesis by (simp add: sum_list_upt)
qed

lemma cauchy_schwarz:
  fixes x y :: "nat \<Rightarrow> real"
  shows "(\<Sum>i < n. x i * y i)\<^sup>2 \<le> (\<Sum>i < n. (x i)\<^sup>2) * (\<Sum>i < n. (y i)\<^sup>2)"
proof -
  define A where "A = (\<Sum>i < n. (x i)\<^sup>2)"
  define B where "B = (\<Sum>i < n. (y i)\<^sup>2)"
  define C where "C = (\<Sum>i < n. x i * y i)"
  have B: "0 \<le> B" unfolding B_def by (rule sum_nonneg) simp
  have "0 \<le> (\<Sum>i < n. (B * x i - C * y i)\<^sup>2)" by (rule sum_nonneg) simp
  also have "\<dots> = (\<Sum>i < n. B\<^sup>2 * (x i)\<^sup>2 - 2 * B * C * (x i * y i) + C\<^sup>2 * (y i)\<^sup>2)"
    by (rule sum.cong) (auto simp: power2_eq_square algebra_simps)
  also have "\<dots> = B\<^sup>2 * A - 2 * B * C * C + C\<^sup>2 * B"
    by (simp add: sum.distrib sum_subtractf A_def B_def C_def flip: sum_distrib_left)
  also have "\<dots> = B * (A * B - C\<^sup>2)" by (simp add: power2_eq_square algebra_simps)
  finally have prod: "0 \<le> B * (A * B - C\<^sup>2)" .
  show ?thesis
  proof (cases "B = 0")
    case True
    then have "\<forall>i \<in> {..<n}. (y i)\<^sup>2 = 0" unfolding B_def by (subst (asm) sum_nonneg_eq_0_iff) auto
    then have "C = 0" unfolding C_def by (intro sum.neutral) auto
    then show ?thesis using True by (simp add: A_def B_def C_def)
  next
    case False
    then have "0 \<le> A * B - C\<^sup>2" using prod B by (simp add: zero_le_mult_iff)
    then show ?thesis by (simp add: A_def B_def C_def)
  qed
qed

text \<open>A constant series: one run from the first position to the last, and every member its midrank.\<close>

lemma run_end_constant:
  assumes "\<And>k. k < length order \<Longrightarrow> x ! (order ! k) = c" "i < length order" "j < length order"
  shows "run_end x order i j = length order - 1"
  using assms
proof (induction x order i j rule: run_end.induct)
  case (1 x order i j)
  then show ?case by (subst run_end.simps) auto
qed

lemma fold_set_const:
  "length (fold (\<lambda>k r. r[order ! k := v]) ks r) = length r"
  "m < length r \<Longrightarrow> fold (\<lambda>k r. r[order ! k := v]) ks r ! m = (if m \<in> (!) order ` set ks then v else r ! m)"
  by (induction ks arbitrary: r) (auto simp: nth_list_update)

lemma ranks_constant:
  assumes "\<And>i. i < length x \<Longrightarrow> x ! i = c"
  shows "ranks x = replicate (length x) ((real (length x) - 1) / 2)"
proof (cases "x = []")
  case True
  then show ?thesis by (simp add: ranks_def rank_loop.simps)
next
  case False
  define order where "order = sort_key (\<lambda>i. x ! i) [0..<length x]"
  have len: "length order = length x" and set: "set order = {..<length x}"
    by (auto simp: order_def)
  have const: "x ! (order ! k) = c" if "k < length order" for k
    using that assms set by (metis lessThan_iff nth_mem)
  have last: "run_end x order 0 0 = length order - 1"
    by (rule run_end_constant) (use const False len in auto)
  let ?avg = "(real 0 + real (length order - 1)) / 2"
  let ?r = "fold (\<lambda>k r. r[order ! k := ?avg]) [0..<length order] (replicate (length x) 0)"
  have all: "length order - 1 + 1 = length order" and some: "0 < length order" using False len by (cases x; simp)+
  have "ranks x = rank_loop x order 0 (replicate (length x) 0)" by (simp only: ranks_def order_def)
  also have "\<dots> = rank_loop x order (length order) ?r"
    by (subst rank_loop.simps) (simp only: Let_def last all some if_True)
  also have "\<dots> = ?r" by (subst rank_loop.simps) simp
  finally have "ranks x = ?r" .
  moreover have "?r = replicate (length x) ?avg"
  proof (rule nth_equalityI)
    fix m assume "m < length ?r"
    then have m: "m < length x" by (simp add: fold_set_const(1))
    then have "m \<in> (!) order ` set [0..<length order]"
      using set by (metis atLeast0LessThan atLeast_upt in_set_conv_nth image_eqI lessThan_iff)
    then show "?r ! m = replicate (length x) ?avg ! m" using m by (simp add: fold_set_const(2))
  qed (simp add: fold_set_const(1))
  moreover have "?avg = (real (length x) - 1) / 2" using False len by (cases x) auto
  ultimately show ?thesis by simp
qed

lemma length_rank_loop: "length (rank_loop x order i r) = length r"
proof (induction x order i r rule: rank_loop.induct)
  case (1 x order i r)
  show ?case
    using 1 by (subst rank_loop.simps) (auto simp: Let_def fold_set_const(1))
qed

lemma length_ranks [simp]: "length (ranks x) = length x"
  by (simp add: ranks_def length_rank_loop)

lemma spread_constant:
  assumes "\<And>i. i < length x \<Longrightarrow> x ! i = c" "0 < length x"
  shows "(\<Sum>v\<leftarrow>ranks x. (v - sum_list (ranks x) / real (length x))\<^sup>2) = 0"
  using assms(2) by (simp add: ranks_constant [OF assms(1)] sum_list_replicate)

lemma ratio_bound: "\<bar>c\<bar> \<le> s \<Longrightarrow> 0 < s \<Longrightarrow> \<bar>c / s\<bar> \<le> (1 :: real)"
  by (simp add: abs_divide)

text \<open>the gate's correlation is a correlation. When one is reported, both series have the same length,
  at least two members, and a ranking (neither is constant), and the number is between -1 and 1; a
  constant series is reported as unmeasured.\<close>

theorem spearman_bounded:
  "case spearman a b of
     None \<Rightarrow> True
   | Some r \<Rightarrow> - 1 \<le> r \<and> r \<le> 1 \<and> length a = length b \<and> 2 \<le> length a
       \<and> (\<exists>i < length a. a ! i \<noteq> a ! 0) \<and> (\<exists>i < length b. b ! i \<noteq> b ! 0)"
proof (cases "spearman a b")
  case (Some r)
  define n where "n = length a"
  define x where "x i = ranks a ! i - sum_list (ranks a) / real n" for i
  define y where "y i = ranks b ! i - sum_list (ranks b) / real n" for i
  have n: "2 \<le> n" "n = length b" using Some by (auto simp: spearman_def n_def Let_def split: if_splits)
  have A: "(\<Sum>v\<leftarrow>ranks a. (v - sum_list (ranks a) / real n)\<^sup>2) = (\<Sum>i < n. (x i)\<^sup>2)"
    by (simp add: sum_list_nth [of _ "ranks a"] x_def n_def)
  have B: "(\<Sum>v\<leftarrow>ranks b. (v - sum_list (ranks b) / real n)\<^sup>2) = (\<Sum>i < n. (y i)\<^sup>2)"
    by (simp add: sum_list_nth [of _ "ranks b"] y_def n)
  let ?A = "\<Sum>i < n. (x i)\<^sup>2" and ?B = "\<Sum>i < n. (y i)\<^sup>2"
  have r: "r = (\<Sum>i < n. x i * y i) / (sqrt ?A * sqrt ?B)" "?A \<noteq> 0" "?B \<noteq> 0"
    using Some n unfolding spearman_def Let_def n_def [symmetric] A B
    by (auto simp: sum_list_upt x_def y_def split: if_splits)
  have pos: "0 < ?A" "0 < ?B" using r(2,3) sum_nonneg [of "{..<n}" "\<lambda>i. (x i)\<^sup>2"] sum_nonneg [of "{..<n}" "\<lambda>i. (y i)\<^sup>2"]
    by (simp_all add: less_le)
  have "\<bar>\<Sum>i < n. x i * y i\<bar> \<le> sqrt (?A * ?B)"
    using cauchy_schwarz [of x y n] by (metis real_sqrt_abs real_sqrt_le_mono)
  moreover have "0 < sqrt (?A * ?B)" using pos by simp
  moreover have "r = (\<Sum>i < n. x i * y i) / sqrt (?A * ?B)" unfolding r(1) real_sqrt_mult ..
  ultimately have "\<bar>r\<bar> \<le> 1" using ratio_bound by metis
  moreover have "\<exists>i < length a. a ! i \<noteq> a ! 0"
  proof (rule ccontr)
    assume no: "\<not> ?thesis"
    have some: "0 < length a" and len: "length a = n" using n by (auto simp: n_def)
    have "?A = 0"
      using spread_constant [OF _ some, of "a ! 0"] no unfolding len A [symmetric] by blast
    then show False using r(2) by simp
  qed
  moreover have "\<exists>i < length b. b ! i \<noteq> b ! 0"
  proof (rule ccontr)
    assume no: "\<not> ?thesis"
    have some: "0 < length b" and len: "length b = n" using n by (auto simp: n_def)
    have "?B = 0"
      using spread_constant [OF _ some, of "b ! 0"] no unfolding len B [symmetric] by blast
    then show False using r(3) by simp
  qed
  ultimately show ?thesis using Some n by (auto simp: n_def)
qed simp

end
