(* ===== verification/Operator_Schema.thy ===== *)
theory Operator_Schema
  imports Effects
begin

text \<open>
  The schema of operator definitions (\<open>operator_schema.py\<close>) and the registry that validates and
  stores them (\<open>registry.py\<close>).

  The vocabulary of capabilities (\<open>prism.capabilities\<close>) is the parameter \<open>known\<close>, the canonical text of
  a value (\<open>prism.canonical\<close>) the parameter \<open>jcs\<close>, \<open>json.dumps\<close> the parameter \<open>dumps\<close>; \<open>sha256\<close> is a
  parameter as everywhere. The client of Mantle the registry is given is the pair of programs
  \<open>put\<close> and \<open>listing\<close>. The text of a problem ends where the code's goes on with an explanation.
\<close>

section \<open>The schema\<close>

definition OPERATOR_CONTENT_TYPE :: string where
  "OPERATOR_CONTENT_TYPE = ''application/vnd.agience.operator+json''"

definition REQUIRED :: "string list" where
  "REQUIRED = [''id'', ''content_type'', ''offer'', ''needs'', ''created_by'']"

definition SPEC_FIELDS :: "string list" where
  "SPEC_FIELDS = [''id'', ''offer'', ''needs'', ''content'', ''content_ref'', ''entry'']"

definition spec_of_doc :: "pyval dict \<Rightarrow> pyval" where
  "spec_of_doc doc = VDict (map (\<lambda>k. (k, dget doc k)) SPEC_FIELDS)"

definition op_spec_hash :: "(pyval \<Rightarrow> string) \<Rightarrow> (string \<Rightarrow> string) \<Rightarrow> pyval dict \<Rightarrow> string" where
  "op_spec_hash jcs sha doc = sha (jcs (spec_of_doc doc))"

definition ENTRY_KINDS :: "string list" where
  "ENTRY_KINDS = [''mcp'', ''wasm'', ''js'', ''py-local'', ''py-bundle'']"

definition lower_hex :: "string \<Rightarrow> bool" where
  "lower_hex s \<longleftrightarrow> length s = 64 \<and> list_all (\<lambda>c. c \<in> set ''0123456789abcdef'') s"

definition missing_fields :: "pyval dict \<Rightarrow> string list" where
  "missing_fields doc = List.map_filter (\<lambda>k. if truthy (dget doc k) then None
     else Some (''missing required field: '' @ k)) REQUIRED"

definition type_problem :: "pyval dict \<Rightarrow> string list" where
  "type_problem doc = (if dget doc ''content_type'' \<in> {VNone, VStr OPERATOR_CONTENT_TYPE} then []
     else [''content_type must be '' @ OPERATOR_CONTENT_TYPE])"

text \<open>\<open>oid.startswith\<close> exists on strings only.\<close>

definition id_problem :: "pyval dict \<Rightarrow> string list res" where
  "id_problem doc = (let oid = py_or (dget doc ''id'') (VStr []) in
     if \<not> truthy oid then Inr []
     else res_bind (as_str ''startswith'' oid) (\<lambda>s.
       Inr (if py_startswith s ''op.'' then []
            else [''id must start with '' @ repr_str ''op.'' @ '' (got '' @ repr_str s @ '')''])))"

definition needs_problems :: "(pyval \<Rightarrow> bool) \<Rightarrow> pyval dict \<Rightarrow> string list" where
  "needs_problems known doc = (case dget doc ''needs'' of
       VNone \<Rightarrow> []
     | VList ns \<Rightarrow> List.map_filter (\<lambda>n. if known n then None
         else Some (''unknown capability kind: '' @ py_repr n)) ns
     | _ \<Rightarrow> [''needs must be a list of capability kinds''])"

definition entry_problems :: "pyval dict \<Rightarrow> string list" where
  "entry_problems doc = (case dget doc ''entry'' of
       VNone \<Rightarrow> []
     | VDict e \<Rightarrow>
         if dget e ''kind'' \<notin> VStr ` set ENTRY_KINDS then [''entry.kind must be one of mcp|wasm|js|py-local|py-bundle'']
         else if dget e ''kind'' = VStr ''py-bundle''
         then (if truthy (dget e ''bundle'') then [] else [''py-bundle entry needs a bundle group name''])
            @ (if lower_hex (py_str (py_or (dget e ''sha256'') (VStr []))) then []
               else [''py-bundle entry needs sha256 (64 lowercase hex)''])
         else []
     | _ \<Rightarrow> [''entry.kind must be one of mcp|wasm|js|py-local|py-bundle''])"

definition pattern_problem :: "pyval dict \<Rightarrow> string list" where
  "pattern_problem doc = (if \<not> truthy (dget doc ''content'') \<and> \<not> truthy (dget doc ''content_ref'')
     then [''pattern absent: provide content (inline spec) or content_ref (CAS bundle)''] else [])"

definition validate_operator :: "(pyval \<Rightarrow> bool) \<Rightarrow> pyval dict \<Rightarrow> string list res" where
  "validate_operator known doc = res_bind (id_problem doc) (\<lambda>ip.
     Inr (missing_fields doc @ type_problem doc @ ip @ needs_problems known doc @ entry_problems doc @ pattern_problem doc))"

section \<open>The registry\<close>

definition registered_doc :: "pyval dict \<Rightarrow> pyval dict" where
  "registered_doc d = setdefault ''state'' (VStr ''live'') (setdefault ''content_type'' (VStr OPERATOR_CONTENT_TYPE) d)"

definition op_register :: "(pyval \<Rightarrow> bool) \<Rightarrow> (pyval dict \<Rightarrow> ('w, pyval dict) prog) \<Rightarrow> pyval dict \<Rightarrow> ('w, pyval dict) prog" where
  "op_register known put definition' = (let doc = registered_doc definition' in
     bindM (liftR (validate_operator known doc)) (\<lambda>problems.
       if problems \<noteq> []
       then raise (ValueError (''operator '' @ py_repr (dget doc ''id'') @ '' failed schema validation: '' @ py_repr (VList (map VStr problems))))
       else put doc))"

definition register_many :: "(pyval \<Rightarrow> bool) \<Rightarrow> (pyval dict \<Rightarrow> ('w, pyval dict) prog) \<Rightarrow> pyval dict list \<Rightarrow> ('w, nat) prog" where
  "register_many known put ds = forM (\<lambda>d n. bindM (op_register known put d) (\<lambda>_. ret (Suc n))) ds 0"

text \<open>\<open>s.split()\<close>: the words between white space.\<close>

fun py_words_from :: "string \<Rightarrow> string \<Rightarrow> string list" where
  "py_words_from acc [] = (if acc = [] then [] else [rev acc])"
| "py_words_from acc (c # cs) =
     (if py_isspace c then (if acc = [] then py_words_from [] cs else rev acc # py_words_from [] cs)
      else py_words_from (c # acc) cs)"

definition py_words :: "string \<Rightarrow> string list" where
  "py_words s = py_words_from [] s"

definition occurs_in :: "string \<Rightarrow> string \<Rightarrow> bool" where
  "occurs_in t s \<longleftrightarrow> list_ex (\<lambda>i. py_startswith (drop i s) t) [0..<length s + 1]"

definition offers :: "(pyval \<Rightarrow> string) \<Rightarrow> string list \<Rightarrow> pyval dict \<Rightarrow> bool" where
  "offers dumps terms d \<longleftrightarrow> list_all (\<lambda>t. occurs_in t
     (py_lower (dumps (case map_of d ''offer'' of None \<Rightarrow> VStr [] | Some v \<Rightarrow> v)))) terms"

definition find_by_offer :: "(pyval \<Rightarrow> string) \<Rightarrow> ('w, pyval dict list) prog \<Rightarrow> pyval \<Rightarrow> ('w, pyval dict list) prog" where
  "find_by_offer dumps listing need_text =
     bindM listing (\<lambda>ds. ret (filter (offers dumps (py_words (py_lower (py_str need_text)))) ds))"

text \<open>\<open>all(n in have for n in needs)\<close>: it stops at the first need that is not there; a need that cannot
  be hashed raises.\<close>

fun needs_met :: "string list \<Rightarrow> pyval list \<Rightarrow> bool res" where
  "needs_met have' [] = Inr True"
| "needs_met have' (n # ns) =
     (if \<not> hashable n then Inl (TypeError ''unhashable'')
      else if n \<in> VStr ` set have' then needs_met have' ns else Inr False)"

definition runnable_on :: "pyval dict \<Rightarrow> string list \<Rightarrow> bool res" where
  "runnable_on d host_capabilities = res_bind (py_list (py_or (dget d ''needs'') (VList []))) (needs_met host_capabilities)"

section \<open>What the schema accepts\<close>

text \<open>An operator definition that is well formed, stated over its fields.\<close>

definition wf_operator :: "(pyval \<Rightarrow> bool) \<Rightarrow> pyval dict \<Rightarrow> bool" where
  "wf_operator known d \<longleftrightarrow>
     (\<exists>name. dget d ''id'' = VStr (''op.'' @ name))
   \<and> dget d ''content_type'' = VStr OPERATOR_CONTENT_TYPE
   \<and> truthy (dget d ''offer'') \<and> truthy (dget d ''created_by'')
   \<and> (\<exists>ns. dget d ''needs'' = VList ns \<and> ns \<noteq> [] \<and> list_all known ns)
   \<and> (truthy (dget d ''content'') \<or> truthy (dget d ''content_ref''))
   \<and> (dget d ''entry'' = VNone
      \<or> (\<exists>e k. dget d ''entry'' = VDict e \<and> dget e ''kind'' = VStr k \<and> k \<in> set ENTRY_KINDS
           \<and> (k = ''py-bundle'' \<longrightarrow> truthy (dget e ''bundle'') \<and> lower_hex (py_str (py_or (dget e ''sha256'') (VStr []))))))"

lemma map_filter_Nil_iff: "List.map_filter f xs = [] \<longleftrightarrow> list_all (\<lambda>x. f x = None) xs"
  by (induction xs) (auto simp: List.map_filter_simps split: option.splits)

lemma missing_fields_Nil: "missing_fields doc = [] \<longleftrightarrow> list_all (\<lambda>k. truthy (dget doc k)) REQUIRED"
  by (auto simp: missing_fields_def map_filter_Nil_iff list_all_iff)

lemma id_problem_Nil:
  "truthy (dget doc ''id'') \<Longrightarrow> id_problem doc = Inr [] \<longleftrightarrow> (\<exists>name. dget doc ''id'' = VStr (''op.'' @ name))"
  by (auto simp: id_problem_def py_or_def Let_def as_str_def res_bind_def py_startswith_iff split: pyval.splits)

lemma needs_problems_Nil:
  "truthy (dget doc ''needs'') \<Longrightarrow> needs_problems known doc = [] \<longleftrightarrow> (\<exists>ns. dget doc ''needs'' = VList ns \<and> ns \<noteq> [] \<and> list_all known ns)"
  by (cases "dget doc ''needs''") (auto simp: needs_problems_def map_filter_Nil_iff list_all_iff)

lemma entry_problems_Nil:
  "entry_problems doc = [] \<longleftrightarrow> dget doc ''entry'' = VNone
     \<or> (\<exists>e k. dget doc ''entry'' = VDict e \<and> dget e ''kind'' = VStr k \<and> k \<in> set ENTRY_KINDS
           \<and> (k = ''py-bundle'' \<longrightarrow> truthy (dget e ''bundle'') \<and> lower_hex (py_str (py_or (dget e ''sha256'') (VStr [])))))"
  by (cases "dget doc ''entry''") (auto simp: entry_problems_def split: if_splits)

lemma wf_operator_accepted:
  "validate_operator known d = Inr [] \<longleftrightarrow> wf_operator known d"
proof -
  have "truthy (VStr (''op.'' @ name))" "truthy (VStr OPERATOR_CONTENT_TYPE)" for name by (simp_all add: OPERATOR_CONTENT_TYPE_def)
  then show ?thesis
    unfolding validate_operator_def wf_operator_def
    by (auto simp: res_bind_eq_Inr missing_fields_Nil id_problem_Nil needs_problems_Nil entry_problems_Nil REQUIRED_def
        type_problem_def pattern_problem_def split: if_splits)
qed

text \<open>The schema accepts a definition exactly when it is well formed; every other definition is given
  its problems or makes the check raise.\<close>

theorem validate_decides:
  "validate_operator known d = Inr [] \<longleftrightarrow> wf_operator known d"
  by (rule wf_operator_accepted)

end
