(* ===== verification/Operator_Push.thy ===== *)
theory Operator_Push
  imports Operator_Schema Mantle
begin

text \<open>
  The push of the operator definitions to Mantle (\<open>push.py\<close>): the client the registry stores through,
  the scan of a paginated listing, the upsert, and the task that repeats the push at start-up.

  \<open>sign\<close> is what signing the delegation gives (\<open>prism.trust.service_identity\<close>), or the exception it
  raises. A scan may not end, when Mantle keeps answering with further pages: it reads at most \<open>fuel\<close>
  pages, and \<open>STILL_SCANNING\<close> is the result that there are more; nothing handles it.
\<close>

section \<open>The client\<close>

record pushing = world +
  pu_token :: "string option"
  pu_catalog :: pyval
  pu_existing :: "(pyval \<times> pyval \<times> pyval dict) list option"

definition CATALOG_NAME :: string where
  "CATALOG_NAME = ''Operator Catalog''"

definition DEF_FIELDS :: "string list" where
  "DEF_FIELDS = [''id'', ''content_type'', ''state'', ''offer'', ''needs'', ''content_ref'', ''entry'', ''created_by'']"

definition PAGE :: nat where
  "PAGE = 200"

text \<open>\<open>_service_token\<close>: \<open>held\<close> is what \<open>get_service_identity\<close> gives, \<open>made\<close> what making the identity gives,
  \<open>subject\<close> the id of the system principal.\<close>

definition service_token :: "unit res \<Rightarrow> unit res \<Rightarrow> string option res \<Rightarrow> (string \<Rightarrow> string \<Rightarrow> string option res) \<Rightarrow> string option res" where
  "service_token held made subject sign_delegation =
     res_bind (case held of Inl (RuntimeError m) \<Rightarrow> made | r \<Rightarrow> r) (\<lambda>_.
     res_bind subject (\<lambda>sub. case sub of
       Some (c # cs) \<Rightarrow> sign_delegation ''mantle'' (c # cs)
     | _ \<Rightarrow> Inl (RuntimeError ''system principal unresolvable (KEYS_DIR/instance.uuid missing)'')))"

definition push_headers :: "string option res \<Rightarrow> (pushing, string dict) prog" where
  "push_headers sign =
     bindM (getsM pu_token) (\<lambda>t.
     bindM (case t of Some _ \<Rightarrow> ret ()
            | None \<Rightarrow> modifyM (pu_token_update (\<lambda>_. case sign of Inl e \<Rightarrow> Some [] | Inr token \<Rightarrow> token))) (\<lambda>_.
     bindM (getsM pu_token) (\<lambda>token.
     ret ([(''Content-Type'', ''application/json'')] @ bearer token))))"

definition push_request :: "string \<Rightarrow> string \<Rightarrow> pyval \<Rightarrow> pyval \<Rightarrow> string dict \<Rightarrow> request" where
  "push_request method path params body headers = \<lparr> rq_peer = Mantle, rq_method = method, rq_path = path,
     rq_params = params, rq_headers = headers, rq_body = body \<rparr>"

definition push_send :: "string option res \<Rightarrow> string \<Rightarrow> string \<Rightarrow> pyval \<Rightarrow> pyval \<Rightarrow> (pushing, response) prog" where
  "push_send sign method path params body =
     bindM (push_headers sign) (\<lambda>headers.
     bindM (http (push_request method path params body headers)) (raise_for_status path))"

definition push_get :: "string option res \<Rightarrow> string \<Rightarrow> pyval \<Rightarrow> (pushing, pyval) prog" where
  "push_get sign path params = bindM (push_send sign ''GET'' path params VNone) json_of"

text \<open>\<open>_post\<close> and \<open>_patch\<close>: an answer without content is an empty dictionary.\<close>

definition push_write :: "string option res \<Rightarrow> string \<Rightarrow> string \<Rightarrow> pyval \<Rightarrow> (pushing, pyval) prog" where
  "push_write sign method path body = bindM (push_send sign method path VNone body) (\<lambda>r.
     if rs_text r = [] then ret (VDict []) else json_of r)"

section \<open>The scan\<close>

definition STILL_SCANNING :: exc where
  "STILL_SCANNING = PyError ''StillScanning'' []"

definition scan_params :: "pyval dict \<Rightarrow> nat \<Rightarrow> pyval" where
  "scan_params params offset =
     VDict (dict_update params [(''offset'', VStr (nat_str offset)), (''limit'', VStr (nat_str PAGE))])"

definition get_or :: "pyval dict \<Rightarrow> string \<Rightarrow> pyval \<Rightarrow> pyval" where
  "get_or d k v = (case map_of d k of None \<Rightarrow> v | Some x \<Rightarrow> x)"

fun scan :: "string option res \<Rightarrow> nat \<Rightarrow> string \<Rightarrow> pyval dict \<Rightarrow> nat \<Rightarrow> pyval list \<Rightarrow> (pushing, pyval list) prog" where
  "scan sign 0 path params offset rows = raise STILL_SCANNING"
| "scan sign (Suc fuel) path params offset rows =
     bindM (push_get sign path (scan_params params offset)) (\<lambda>body. case body of
       VDict b \<Rightarrow>
         bindM (liftR (py_list (get_or b ''items'' (VList [])))) (\<lambda>got.
           if \<not> truthy (dget b ''has_more'') \<or> got = [] then ret (rows @ got)
           else scan sign fuel path params (offset + length got) (rows @ got))
     | _ \<Rightarrow> liftR (py_list (py_or body (VList []))))"

definition list_rows :: "string option res \<Rightarrow> nat \<Rightarrow> string \<Rightarrow> pyval dict \<Rightarrow> (pushing, pyval list) prog" where
  "list_rows sign fuel path params = scan sign fuel path params 0 []"

section \<open>The wire shape\<close>

definition py_item :: "pyval \<Rightarrow> string \<Rightarrow> pyval res" where
  "py_item v k = (case v of
       VDict d \<Rightarrow> (case map_of d k of None \<Rightarrow> Inl (KeyError k) | Some x \<Rightarrow> Inr x)
     | _ \<Rightarrow> Inl (TypeError ''not subscriptable''))"

text \<open>The definition a stored artifact carries, if it carries one.\<close>

definition definition_of :: "(string \<Rightarrow> pyval option) \<Rightarrow> pyval \<Rightarrow> pyval dict option res" where
  "definition_of loads raw = res_bind (py_get raw ''context'') (\<lambda>c.
     case py_or c (VStr []) of
       VStr s \<Rightarrow> (case loads s of
         Some (VDict ctx) \<Rightarrow>
           if py_startswith (py_str (get_or ctx ''id'' (VStr []))) ''op.''
           then res_bind (py_get raw ''content'') (\<lambda>content.
             Inr (Some (AList.update ''content'' (py_or content (VStr [])) (filter (\<lambda>(k, v). k \<in> set DEF_FIELDS) ctx))))
           else Inr None
       | _ \<Rightarrow> Inr None)
     | _ \<Rightarrow> Inr None)"

definition wire_definition :: "pyval dict \<Rightarrow> pyval dict" where
  "wire_definition doc = List.map_filter (\<lambda>k. if dget doc k = VNone then None else Some (k, dget doc k)) DEF_FIELDS"

definition wire_body :: "(pyval \<Rightarrow> string) \<Rightarrow> pyval \<Rightarrow> pyval \<Rightarrow> pyval dict \<Rightarrow> pyval dict" where
  "wire_body dumps catalog oid doc = [(''container_id'', catalog), (''name'', oid),
     (''content_type'', VStr OPERATOR_CONTENT_TYPE), (''context'', VStr (dumps (VDict (wire_definition doc)))),
     (''content'', py_or (dget doc ''content'') (VStr []))]"

section \<open>The catalog and the index\<close>

text \<open>\<open>for raw in rows: if raw.get("name") == NAME: ...; break\<close>.\<close>

fun named_row :: "pyval list \<Rightarrow> pyval option res" where
  "named_row [] = Inr None"
| "named_row (raw # rows) = res_bind (py_get raw ''name'') (\<lambda>n.
     if n = VStr CATALOG_NAME then Inr (Some raw) else named_row rows)"

definition ensure_catalog :: "string option res \<Rightarrow> nat \<Rightarrow> (pushing, pyval) prog" where
  "ensure_catalog sign fuel =
     bindM (getsM pu_catalog) (\<lambda>known.
     if known \<noteq> VNone then ret known
     else
       bindM (list_rows sign fuel ''/artifacts/visible'' []) (\<lambda>rows.
       bindM (liftR (named_row rows)) (\<lambda>found.
       bindM (case found of Some raw \<Rightarrow> ret raw
              | None \<Rightarrow> push_write sign ''POST'' ''/artifacts''
                  (VDict [(''name'', VStr CATALOG_NAME),
                    (''description'', VStr ''Platform operator definitions, pushed by chorus at boot.'')])) (\<lambda>raw.
       bindM (liftR (py_item raw ''id'')) (\<lambda>i.
       bindM (modifyM (pu_catalog_update (\<lambda>_. i))) (\<lambda>_. ret i))))))"

text \<open>\<open>self._existing[k] = (i, d)\<close>.\<close>

definition remember :: "pyval \<Rightarrow> pyval \<Rightarrow> pyval dict \<Rightarrow> (pushing, unit) prog" where
  "remember k i d = modifyM (pu_existing_update (map_option (AList.update k (i, d))))"

definition index_row :: "pyval \<Rightarrow> (pushing, unit) prog" where
  "index_row raw =
     bindM (getsM w_loads) (\<lambda>loads.
     bindM (liftR (definition_of loads raw)) (\<lambda>d. case d of
       None \<Rightarrow> ret ()
     | Some d \<Rightarrow> bindM (liftR (py_item raw ''id'')) (\<lambda>i. remember (dget d ''id'') i d)))"

definition op_index :: "string option res \<Rightarrow> nat \<Rightarrow> (pushing, (pyval \<times> pyval \<times> pyval dict) list) prog" where
  "op_index sign fuel =
     bindM (getsM pu_existing) (\<lambda>known. case known of
       Some d \<Rightarrow> ret d
     | None \<Rightarrow>
         bindM (modifyM (pu_existing_update (\<lambda>_. Some []))) (\<lambda>_.
         bindM (list_rows sign fuel ''/artifacts/visible'' [(''content_type'', VStr OPERATOR_CONTENT_TYPE)]) (\<lambda>rows.
         bindM (forM (\<lambda>raw _. index_row raw) rows ()) (\<lambda>_.
         getsM (\<lambda>w. case pu_existing w of None \<Rightarrow> [] | Some d \<Rightarrow> d)))))"

section \<open>The upsert\<close>

definition put_artifact :: "string option res \<Rightarrow> (pyval \<Rightarrow> string) \<Rightarrow> (pyval \<Rightarrow> string) \<Rightarrow> nat \<Rightarrow> pyval dict
    \<Rightarrow> (pushing, pyval dict) prog" where
  "put_artifact sign jcs dumps fuel doc =
     bindM (ensure_catalog sign fuel) (\<lambda>catalog.
     bindM (op_index sign fuel) (\<lambda>existing.
     bindM (liftR (py_item (VDict doc) ''id'')) (\<lambda>oid.
     if \<not> hashable oid then raise (TypeError ''unhashable'')
     else let body = wire_body dumps catalog oid doc in
       case map_of existing oid of
         None \<Rightarrow>
           bindM (push_write sign ''POST'' ''/artifacts'' (VDict body)) (\<lambda>stored.
           bindM (liftR (py_item stored ''id'')) (\<lambda>i.
           bindM (remember oid i (wire_definition doc)) (\<lambda>_. ret doc)))
       | Some (i, prior) \<Rightarrow>
           bindM (getsM w_sha256) (\<lambda>sha.
           if op_spec_hash jcs sha prior \<noteq> op_spec_hash jcs sha doc
           then
             bindM (push_write sign ''PATCH'' (''/artifacts/'' @ py_str i)
               (VDict [(''context'', dget body ''context''), (''content'', dget body ''content'')])) (\<lambda>_.
             bindM (remember oid i (wire_definition doc)) (\<lambda>_. ret doc))
           else ret doc))))"

definition list_artifacts_op :: "string option res \<Rightarrow> nat \<Rightarrow> string option \<Rightarrow> (pushing, pyval list) prog" where
  "list_artifacts_op sign fuel content_type =
     bindM (list_rows sign fuel ''/artifacts/visible''
       (case content_type of Some (c # cs) \<Rightarrow> [(''content_type'', VStr (c # cs))] | _ \<Rightarrow> [])) (\<lambda>rows.
     bindM (getsM w_loads) (\<lambda>loads.
     liftR (res_map (\<lambda>raw. res_bind (definition_of loads raw) (\<lambda>d.
       Inr (case d of None \<Rightarrow> raw | Some d \<Rightarrow> VDict d))) rows)))"

section \<open>The push\<close>

definition PUSH_FAILED :: int where
  "PUSH_FAILED = - 1"

definition push_operator_manifests :: "string option res \<Rightarrow> (pyval \<Rightarrow> string) \<Rightarrow> (pyval \<Rightarrow> string) \<Rightarrow> (pyval \<Rightarrow> bool)
    \<Rightarrow> nat \<Rightarrow> pyval dict list \<Rightarrow> (pushing, int) prog" where
  "push_operator_manifests sign jcs dumps known fuel operators =
     bindM (modifyM (\<lambda>w. w\<lparr>pu_token := None, pu_catalog := VNone, pu_existing := None\<rparr>)) (\<lambda>_.
     catchM (bindM (register_many known (put_artifact sign jcs dumps fuel) operators) (\<lambda>n. ret (int n)))
       (\<lambda>e. if e = STILL_SCANNING then raise e else ret PUSH_FAILED))"

fun manifest_rounds :: "(pushing, int) prog \<Rightarrow> nat \<Rightarrow> rat \<Rightarrow> (pushing, unit) prog" where
  "manifest_rounds push 0 delay = ret ()"
| "manifest_rounds push (Suc left) delay =
     bindM push (\<lambda>n. if n \<noteq> PUSH_FAILED then ret ()
       else bindM (sleep delay) (\<lambda>_. manifest_rounds push left (min (delay * 3 / 2) 15)))"

definition register_manifests_with_retry :: "string option res \<Rightarrow> (pyval \<Rightarrow> string) \<Rightarrow> (pyval \<Rightarrow> string) \<Rightarrow> (pyval \<Rightarrow> bool)
    \<Rightarrow> nat \<Rightarrow> pyval dict list \<Rightarrow> (pushing, unit) prog" where
  "register_manifests_with_retry sign jcs dumps known fuel operators =
     (if operators = [] then ret ()
      else manifest_rounds (push_operator_manifests sign jcs dumps known fuel operators) 15 2)"

end
