(* ===== verification/Operator_Push_Laws.thy ===== *)
theory Operator_Push_Laws
  imports Operator_Push
begin

text \<open>
  What the push guarantees: a scan of a paginated listing ends and returns every row, the operators
  counted as pushed are well formed, and a push of what is already stored writes nothing.
\<close>

section \<open>The scan returns every row\<close>

definition page_of :: "pyval list \<Rightarrow> nat \<Rightarrow> nat \<Rightarrow> pyval" where
  "page_of rows offset n = VDict [(''items'', VList (take n (drop offset rows))), (''has_more'', VBool (offset + n < length rows))]"

text \<open>Mantle lists \<open>rows\<close> under a path: at every offset it answers with a page of \<open>size offset\<close> rows,
  never an empty one while there are more, whatever was asked before and whoever asks.\<close>

definition lists_pages :: "'a world_scheme \<Rightarrow> string \<Rightarrow> pyval dict \<Rightarrow> pyval list \<Rightarrow> (nat \<Rightarrow> nat) \<Rightarrow> bool" where
  "lists_pages w path params rows size' \<longleftrightarrow> (\<forall>offset \<le> length rows. (offset < length rows \<longrightarrow> 0 < size' offset)
     \<and> (\<forall>t headers. \<exists>r. w_net w t (push_request ''GET'' path (scan_params params offset) VNone headers) = Some r
          \<and> rs_ok r \<and> rs_json r = Some (page_of rows offset (size' offset))))"

definition is_get :: "event \<Rightarrow> bool" where
  "is_get e \<longleftrightarrow> (case e of EvHttp q a \<Rightarrow> rq_method q = ''GET'' | _ \<Rightarrow> False)"

text \<open>What a read leaves alone: the outside, the catalog and the index.\<close>

definition reads_on :: "pushing \<Rightarrow> pushing \<Rightarrow> bool" where
  "reads_on w w' \<longleftrightarrow> grows_by is_get w w' \<and> pu_catalog w' = pu_catalog w \<and> pu_existing w' = pu_existing w"

lemma reads_on_refl: "reads_on w w"
  by (simp add: reads_on_def grows.refl)

lemma reads_on_trans: "reads_on w w' \<Longrightarrow> reads_on w' w'' \<Longrightarrow> reads_on w w''"
  unfolding reads_on_def using grows.trans by metis

lemma push_headers_run:
  "\<exists>h token. push_headers sign w = (Inr h, w\<lparr>pu_token := token\<rparr>)"
proof (cases "pu_token w")
  case None
  then show ?thesis by (auto simp: push_headers_def bindM_def split: sum.splits)
next
  case (Some token)
  then have "push_headers sign w = (Inr ([(''Content-Type'', ''application/json'')] @ bearer (Some token)), w)"
    by (simp add: push_headers_def bindM_def)
  moreover have "w = w\<lparr>pu_token := pu_token w\<rparr>" by simp
  ultimately show ?thesis by metis
qed

lemma push_get_run:
  assumes "\<And>t headers. \<exists>r. w_net w t (push_request ''GET'' path params VNone headers) = Some r \<and> rs_ok r \<and> rs_json r = Some body"
  shows "\<exists>w'. push_get sign path params w = (Inr body, w') \<and> reads_on w w'"
proof -
  obtain h token where h: "push_headers sign w = (Inr h, w\<lparr>pu_token := token\<rparr>)" using push_headers_run by blast
  let ?q = "push_request ''GET'' path params VNone h"
  obtain r where r: "w_net w (w_trace w) ?q = Some r" "rs_ok r" "rs_json r = Some body" using assms by blast
  let ?w' = "w\<lparr>pu_token := token, w_trace := w_trace w @ [EvHttp ?q (Some r)]\<rparr>"
  have "push_get sign path params w = (Inr body, ?w')"
    using r by (simp add: push_get_def push_send_def bindM_def h http_run raise_for_status_def json_of_def)
  moreover have "reads_on w ?w'" by (auto simp: reads_on_def grows_by_def same_outside_def is_get_def push_request_def)
  ultimately show ?thesis by blast
qed

lemma lists_pages_reads: "reads_on w w' \<Longrightarrow> lists_pages w path params rows n \<Longrightarrow> lists_pages w' path params rows n"
  by (simp add: lists_pages_def reads_on_def grows_by_def same_outside_def)

lemma scan_from:
  assumes "lists_pages w path params rows size'" "offset \<le> length rows" "length rows - offset < fuel"
  shows "\<exists>w'. scan sign fuel path params offset (take offset rows) w = (Inr rows, w') \<and> reads_on w w'"
  using assms
proof (induction fuel arbitrary: offset w)
  case (Suc fuel)
  let ?n = "size' offset"
  from Suc.prems obtain w1 where w1: "push_get sign path (scan_params params offset) w = (Inr (page_of rows offset ?n), w1)" "reads_on w w1"
    using push_get_run [of w path "scan_params params offset" "page_of rows offset ?n" sign] unfolding lists_pages_def by blast
  have page: "get_or [(''items'', VList (take ?n (drop offset rows))), (''has_more'', VBool (offset + ?n < length rows))] ''items'' (VList [])
      = VList (take ?n (drop offset rows))"
    "truthy (dget [(''items'', VList (take ?n (drop offset rows))), (''has_more'', VBool (offset + ?n < length rows))] ''has_more'') = (offset + ?n < length rows)"
    by (simp_all add: get_or_def dget_def)
  have got: "take offset rows @ take ?n (drop offset rows) = take (offset + ?n) rows" by (simp add: take_add)
  show ?case
  proof (cases "offset + ?n < length rows")
    case False
    then have "scan sign (Suc fuel) path params offset (take offset rows) w = (Inr rows, w1)"
      using page got by (simp add: bindM_run(2) [where m = "push_get sign path (scan_params params offset)", OF w1(1)] page_of_def py_list_def)
    then show ?thesis using w1(2) by blast
  next
    case True
    then have n: "0 < ?n" using Suc.prems(1) unfolding lists_pages_def by (meson Suc.prems(2) add_lessD1)
    then have some: "take ?n (drop offset rows) \<noteq> []" using True by simp
    have len: "offset + length (take ?n (drop offset rows)) = offset + ?n" using True by simp
    have fuel: "length rows - (offset + ?n) < fuel" using n Suc.prems(3) True by arith
    obtain w' where w': "scan sign fuel path params (offset + ?n) (take (offset + ?n) rows) w1 = (Inr rows, w')" "reads_on w1 w'"
      using Suc.IH [OF lists_pages_reads [OF w1(2) Suc.prems(1)] _ fuel] True by auto
    have "scan sign (Suc fuel) path params offset (take offset rows) w = (Inr rows, w')"
      using True page got some len w'(1) by (simp add: bindM_run(2) [where m = "push_get sign path (scan_params params offset)", OF w1(1)] page_of_def py_list_def)
    then show ?thesis using reads_on_trans [OF w1(2) w'(2)] by blast
  qed
qed simp

lemma list_rows_run:
  assumes "lists_pages w path params rows size'" "length rows < fuel"
  shows "\<exists>w'. list_rows sign fuel path params w = (Inr rows, w') \<and> reads_on w w'"
  using scan_from [OF assms(1), of 0 fuel sign] assms(2) by (simp add: list_rows_def)

text \<open>C34: Against a Mantle that lists its rows page by page, a scan ends and returns every row, in order,
  however short the pages are, and only reads; one turn more than there are rows is enough.\<close>

theorem scan_complete:
  assumes "lists_pages w path params rows size'" "length rows < fuel"
  shows "fst (list_rows sign fuel path params w) = Inr rows \<and> grows_by is_get w (snd (list_rows sign fuel path params w))"
  using list_rows_run [OF assms, of sign] by (auto simp: reads_on_def)

definition ex_pages :: "pyval list \<Rightarrow> request \<Rightarrow> response option" where
  "ex_pages rows q = (if rq_params q = scan_params [] 2 then Some (reply 200 (page_of rows 2 2))
     else if rq_params q = scan_params [] 1 then Some (reply 200 (page_of rows 1 2)) 
     else if rq_params q = scan_params [] 3 then Some (reply 200 (page_of rows 3 2))
     else Some (reply 200 (page_of rows 0 2)))"

definition ex_pushing :: "(request \<Rightarrow> response option) \<Rightarrow> (string \<Rightarrow> pyval option) \<Rightarrow> pushing" where
  "ex_pushing net loads = \<lparr> w_net = (\<lambda>_. net), w_clock = (\<lambda>_. 0), w_loads = loads, w_sha256 = (\<lambda>s. s), w_trace = [],
     pu_token = None, pu_catalog = VNone, pu_existing = None \<rparr>"

theorem scan_complete_witness:
  "fst (list_rows (Inr (Some ''jwt'')) 4 ''/artifacts/visible'' [] (ex_pushing (ex_pages (map VInt [7, 8, 9])) (\<lambda>_. None)))
     = Inr (map VInt [7, 8, 9])"
proof -
  let ?w = "ex_pushing (ex_pages (map VInt [7, 8, 9])) (\<lambda>_. None)"
  have texts: "scan_params [] 0 \<noteq> scan_params [] 1" "scan_params [] 0 \<noteq> scan_params [] 2" "scan_params [] 0 \<noteq> scan_params [] 3"
    "scan_params [] 1 \<noteq> scan_params [] 2" "scan_params [] 3 \<noteq> scan_params [] 2" "scan_params [] 3 \<noteq> scan_params [] 1"
    by code_simp+
  have "lists_pages ?w ''/artifacts/visible'' [] (map VInt [7, 8, 9]) (\<lambda>_. 2)"
    unfolding lists_pages_def
  proof (intro allI impI conjI)
    fix offset :: nat and t :: "event list" and headers :: "string dict"
    assume "offset \<le> length (map VInt [7, 8, 9])"
    then consider "offset = 0" | "offset = 1" | "offset = 2" | "offset = 3" by fastforce
    then show "\<exists>r. w_net ?w t (push_request ''GET'' ''/artifacts/visible'' (scan_params [] offset) VNone headers) = Some r
        \<and> rs_ok r \<and> rs_json r = Some (page_of (map VInt [7, 8, 9]) offset 2)"
      by cases (use texts in \<open>auto simp: ex_pushing_def ex_pages_def push_request_def reply_def\<close>)
  qed simp
  from scan_complete [OF this, of 4 "Inr (Some ''jwt'')"] show ?thesis by simp
qed

section \<open>A second push writes nothing\<close>

text \<open>The artifact Mantle holds for a definition that was pushed, and what is read back from it.\<close>

definition stored_row :: "(pyval \<Rightarrow> string) \<Rightarrow> pyval \<Rightarrow> pyval \<Rightarrow> pyval dict \<Rightarrow> pyval" where
  "stored_row dumps catalog i doc = VDict ((''id'', i) # wire_body dumps catalog (dget doc ''id'') doc)"

definition stored_def :: "pyval dict \<Rightarrow> pyval dict" where
  "stored_def doc = AList.update ''content'' (dget doc ''content'') (wire_definition doc)"

lemma map_of_wire:
  "map_of (List.map_filter (\<lambda>k. if dget doc k = VNone then None else Some (k, dget doc k)) ks) k
     = (if k \<in> set ks \<and> dget doc k \<noteq> VNone then Some (dget doc k) else None)"
  by (induction ks) (auto simp: List.map_filter_simps)

lemma dget_wire: "dget (wire_definition doc) k = (if k \<in> set DEF_FIELDS then dget doc k else VNone)"
  unfolding wire_definition_def dget_def [of "List.map_filter f ks" for f ks] map_of_wire by simp

lemma spec_of_stored: "spec_of_doc (stored_def doc) = spec_of_doc doc"
proof -
  have "dget (stored_def doc) k = (if k = ''content'' then dget doc ''content'' else dget (wire_definition doc) k)" for k
    by (simp add: stored_def_def dget_def)
  then show ?thesis by (simp add: spec_of_doc_def SPEC_FIELDS_def dget_wire DEF_FIELDS_def)
qed

lemma wire_keys: "fst ` set (wire_definition doc) \<subseteq> set DEF_FIELDS"
  by (auto simp: wire_definition_def List.map_filter_def split: if_splits)

lemma definition_of_stored:
  assumes "dget doc ''id'' = VStr (''op.'' @ name)" "truthy (dget doc ''content'')"
    and "loads (dumps (VDict (wire_definition doc))) = Some (VDict (wire_definition doc))"
    and "dumps (VDict (wire_definition doc)) \<noteq> []"
  shows "definition_of loads (stored_row dumps catalog i doc) = Inr (Some (stored_def doc))"
proof -
  let ?row = "(''id'', i) # wire_body dumps catalog (dget doc ''id'') doc"
  have ctx: "dget ?row ''context'' = VStr (dumps (VDict (wire_definition doc)))" "dget ?row ''content'' = dget doc ''content''"
    using assms(2) by (simp_all add: dget_def [of "_ # _"] wire_body_def py_or_def)
  have "dget (wire_definition doc) ''id'' = VStr (''op.'' @ name)" using assms(1) by (simp add: dget_wire DEF_FIELDS_def)
  then have "get_or (wire_definition doc) ''id'' (VStr []) = VStr (''op.'' @ name)"
    by (simp add: get_or_def dget_def split: option.splits)
  moreover have "filter (\<lambda>(k, v). k \<in> set DEF_FIELDS) (wire_definition doc) = wire_definition doc"
    using wire_keys [of doc] by (intro filter_True) force
  ultimately show ?thesis
    using assms ctx by (simp add: definition_of_def stored_row_def py_get_def py_or_def stored_def_def py_startswith_def)
qed

lemma index_rows_run:
  assumes "list_all (\<lambda>(i, d). definition_of (w_loads w) (stored_row dumps catalog i d) = Inr (Some (stored_def d))
      \<and> dget d ''id'' \<noteq> VNone) stored"
    and "pu_existing w = Some e"
  shows "forM (\<lambda>raw _. index_row raw) (map (\<lambda>(i, d). stored_row dumps catalog i d) stored) () w
    = (Inr (), w\<lparr>pu_existing := Some (dict_update e (map (\<lambda>(i, d). (dget d ''id'', i, stored_def d)) stored))\<rparr>)"
  using assms
proof (induction stored arbitrary: w e)
  case Nil
  have "w = w\<lparr>pu_existing := Some e\<rparr>" using Nil by simp
  then show ?case by (simp add: dict_update_def)
next
  case (Cons s stored)
  obtain i d where s: "s = (i, d)" by fastforce
  have key: "dget (stored_def d) ''id'' = dget d ''id''" by (simp add: stored_def_def dget_def [of "AList.update k v d" for k v d])
      (simp add: dget_def [symmetric] dget_wire DEF_FIELDS_def)
  let ?w = "w\<lparr>pu_existing := Some (AList.update (dget d ''id'') (i, stored_def d) e)\<rparr>"
  have "index_row (stored_row dumps catalog i d) w = (Inr (), ?w)"
    using Cons.prems s key by (simp add: index_row_def remember_def stored_row_def py_item_def)
  then have "forM (\<lambda>raw _. index_row raw) (map (\<lambda>(i, d). stored_row dumps catalog i d) (s # stored)) () w
      = forM (\<lambda>raw _. index_row raw) (map (\<lambda>(i, d). stored_row dumps catalog i d) stored) () ?w"
    by (simp add: s bindM_def)
  also have "\<dots> = (Inr (), ?w\<lparr>pu_existing := Some (dict_update (AList.update (dget d ''id'') (i, stored_def d) e)
      (map (\<lambda>(i, d). (dget d ''id'', i, stored_def d)) stored))\<rparr>)"
    using Cons.prems(1) by (intro Cons.IH) simp_all
  finally show ?case by (simp add: s dict_update_def)
qed

lemma put_unchanged:
  assumes "pu_catalog w \<noteq> VNone" "pu_existing w = Some e" "dget doc ''id'' = VStr s"
    and "map_of e (dget doc ''id'') = Some (i, stored_def doc)"
  shows "put_artifact sign jcs dumps fuel doc w = (Inr doc, w)"
proof -
  have "py_item (VDict doc) ''id'' = Inr (VStr s)" using assms(3) by (simp add: py_item_def dget_def split: option.splits)
  then show ?thesis
    using assms by (simp add: put_artifact_def ensure_catalog_def op_index_def bindM_def hashable_def op_spec_hash_def spec_of_stored)
qed

lemma catalog_run:
  assumes "lists_pages w ''/artifacts/visible'' [] rows size'" "length rows < fuel" "named_row rows = Inr (Some raw)"
    "py_item raw ''id'' = Inr catalog" "pu_catalog w = VNone"
  shows "\<exists>w'. ensure_catalog sign fuel w = (Inr catalog, w') \<and> grows_by is_get w w'
    \<and> pu_catalog w' = catalog \<and> pu_existing w' = pu_existing w"
proof -
  obtain w1 where w1: "list_rows sign fuel ''/artifacts/visible'' [] w = (Inr rows, w1)" "reads_on w w1"
    using list_rows_run [OF assms(1,2)] by blast
  have "ensure_catalog sign fuel w = (Inr catalog, w1\<lparr>pu_catalog := catalog\<rparr>)"
    using assms(3-5) w1(1) by (simp add: ensure_catalog_def bindM_def)
  then show ?thesis using w1(2) by (auto simp: reads_on_def grows_by_def same_outside_def)
qed

lemma index_run:
  assumes "lists_pages w ''/artifacts/visible'' [(''content_type'', VStr OPERATOR_CONTENT_TYPE)]
      (map (\<lambda>(i, d). stored_row dumps catalog i d) stored) size'" "length stored < fuel" "pu_existing w = None"
    "list_all (\<lambda>(i, d). definition_of (w_loads w) (stored_row dumps catalog i d) = Inr (Some (stored_def d))
      \<and> dget d ''id'' \<noteq> VNone) stored"
  shows "\<exists>w'. op_index sign fuel w = (Inr (dict_update [] (map (\<lambda>(i, d). (dget d ''id'', i, stored_def d)) stored)), w')
    \<and> grows_by is_get w w' \<and> pu_catalog w' = pu_catalog w
    \<and> pu_existing w' = Some (dict_update [] (map (\<lambda>(i, d). (dget d ''id'', i, stored_def d)) stored))"
proof -
  let ?rows = "map (\<lambda>(i, d). stored_row dumps catalog i d) stored" and ?w = "w\<lparr>pu_existing := Some []\<rparr>"
  have "lists_pages ?w ''/artifacts/visible'' [(''content_type'', VStr OPERATOR_CONTENT_TYPE)] ?rows size'"
    using assms(1) by (simp add: lists_pages_def)
  then obtain w1 where w1: "list_rows sign fuel ''/artifacts/visible'' [(''content_type'', VStr OPERATOR_CONTENT_TYPE)] ?w = (Inr ?rows, w1)"
      "reads_on ?w w1" using list_rows_run [of ?w _ _ ?rows size' fuel sign] assms(2) by auto
  have e: "pu_existing w1 = Some []" "w_loads w1 = w_loads w" using w1(2) by (auto simp: reads_on_def grows_by_def same_outside_def)
  then have run: "forM (\<lambda>raw _. index_row raw) ?rows () w1
      = (Inr (), w1\<lparr>pu_existing := Some (dict_update [] (map (\<lambda>(i, d). (dget d ''id'', i, stored_def d)) stored))\<rparr>)"
    using index_rows_run [of w1 dumps catalog stored "[]"] assms(4) by simp
  have "op_index sign fuel w = (Inr (dict_update [] (map (\<lambda>(i, d). (dget d ''id'', i, stored_def d)) stored)),
      w1\<lparr>pu_existing := Some (dict_update [] (map (\<lambda>(i, d). (dget d ''id'', i, stored_def d)) stored))\<rparr>)"
    using assms(3) w1(1) run by (simp add: op_index_def bindM_def)
  then show ?thesis using w1(2) by (auto simp: reads_on_def grows_by_def same_outside_def)
qed

lemma put_after_start:
  assumes "ensure_catalog sign fuel w = (Inr c, w1)" "op_index sign fuel w1 = (Inr e, w2)"
    "pu_catalog w2 = c" "c \<noteq> VNone" "pu_existing w2 = Some e"
  shows "put_artifact sign jcs dumps fuel doc w = put_artifact sign jcs dumps fuel doc w2"
proof -
  have "ensure_catalog sign fuel w2 = (Inr c, w2)" "op_index sign fuel w2 = (Inr e, w2)"
    using assms(3-5) by (simp_all add: ensure_catalog_def op_index_def bindM_def)
  then show ?thesis using assms(1,2) by (simp add: put_artifact_def bindM_def)
qed

lemma register_unchanged:
  assumes "list_all (\<lambda>d. wf_operator known (registered_doc d) \<and> put (registered_doc d) w = (Inr (registered_doc d), w)) ops"
  shows "forM (\<lambda>d n. bindM (op_register known put d) (\<lambda>_. ret (Suc n))) ops k w = (Inr (k + length ops), w)"
  using assms
proof (induction ops arbitrary: k)
  case (Cons d ops)
  have "validate_operator known (registered_doc d) = Inr []"
    using Cons.prems wf_operator_accepted by simp
  then have "op_register known put d w = (Inr (registered_doc d), w)"
    using Cons.prems by (simp add: op_register_def Let_def)
  then show ?case using Cons.IH [of "Suc k"] Cons.prems by (simp add: bindM_def)
qed simp

text \<open>Mantle holds every operator as it was pushed: its catalog is among the artifacts it lists, and the
  operators it lists are the stored rows of these, one each; their JSON is read back as it was written.\<close>

definition holds_pushed :: "(pyval \<Rightarrow> string) \<Rightarrow> nat \<Rightarrow> pyval list \<Rightarrow> (pyval \<times> pyval dict) list \<Rightarrow> pushing \<Rightarrow> bool" where
  "holds_pushed dumps fuel rows stored w \<longleftrightarrow>
     (\<exists>raw catalog size1 size2.
        lists_pages w ''/artifacts/visible'' [] rows size1 \<and> length rows < fuel
      \<and> named_row rows = Inr (Some raw) \<and> py_item raw ''id'' = Inr catalog \<and> catalog \<noteq> VNone
      \<and> lists_pages w ''/artifacts/visible'' [(''content_type'', VStr OPERATOR_CONTENT_TYPE)]
          (map (\<lambda>(i, d). stored_row dumps catalog i d) stored) size2 \<and> length stored < fuel)
   \<and> distinct (map (\<lambda>(i, d). dget d ''id'') stored)
   \<and> list_all (\<lambda>(i, d). dumps (VDict (wire_definition d)) \<noteq> []
        \<and> w_loads w (dumps (VDict (wire_definition d))) = Some (VDict (wire_definition d))) stored"

lemma push_start_run:
  assumes "holds_pushed dumps fuel rows stored w"
    and wf: "list_all (\<lambda>(i, d). (\<exists>name. dget d ''id'' = VStr (''op.'' @ name)) \<and> truthy (dget d ''content'')) stored"
    and start: "pu_catalog w = VNone" "pu_existing w = None"
  shows "\<exists>w'. grows_by is_get w w' \<and> list_all (\<lambda>(i, d). put_artifact sign jcs dumps fuel d w' = (Inr d, w')) stored
    \<and> (\<forall>doc. put_artifact sign jcs dumps fuel doc w = put_artifact sign jcs dumps fuel doc w')"
proof -
  from assms(1) obtain raw catalog size1 size2 where
    h: "lists_pages w ''/artifacts/visible'' [] rows size1" "length rows < fuel" "named_row rows = Inr (Some raw)"
      "py_item raw ''id'' = Inr catalog" "catalog \<noteq> VNone"
      "lists_pages w ''/artifacts/visible'' [(''content_type'', VStr OPERATOR_CONTENT_TYPE)]
        (map (\<lambda>(i, d). stored_row dumps catalog i d) stored) size2" "length stored < fuel"
    and d: "distinct (map (\<lambda>(i, d). dget d ''id'') stored)"
    and json: "list_all (\<lambda>(i, d). dumps (VDict (wire_definition d)) \<noteq> []
        \<and> w_loads w (dumps (VDict (wire_definition d))) = Some (VDict (wire_definition d))) stored"
    unfolding holds_pushed_def by blast
  let ?kvs = "map (\<lambda>(i, d). (dget d ''id'', i, stored_def d)) stored"
  obtain w1 where w1: "ensure_catalog sign fuel w = (Inr catalog, w1)" "grows_by is_get w w1" "pu_catalog w1 = catalog" "pu_existing w1 = None"
    using catalog_run [OF h(1-4) start(1)] start(2) by metis
  have l1: "lists_pages w1 ''/artifacts/visible'' [(''content_type'', VStr OPERATOR_CONTENT_TYPE)]
        (map (\<lambda>(i, d). stored_row dumps catalog i d) stored) size2" and loads: "w_loads w1 = w_loads w"
    using h(6) w1(2) by (simp_all add: lists_pages_def grows_by_def same_outside_def)
  have defs: "list_all (\<lambda>(i, d). definition_of (w_loads w1) (stored_row dumps catalog i d) = Inr (Some (stored_def d))
      \<and> dget d ''id'' \<noteq> VNone) stored"
    unfolding loads list_all_iff
  proof (clarify, intro conjI)
    fix i dd assume "(i, dd) \<in> set stored"
    then obtain name where n: "dget dd ''id'' = VStr (''op.'' @ name)" "truthy (dget dd ''content'')"
        "dumps (VDict (wire_definition dd)) \<noteq> []" "w_loads w (dumps (VDict (wire_definition dd))) = Some (VDict (wire_definition dd))"
      using wf json by (force simp: list_all_iff)
    show "definition_of (w_loads w) (stored_row dumps catalog i dd) = Inr (Some (stored_def dd))"
      using definition_of_stored [where dumps = dumps and loads = "w_loads w", OF n(1,2,4,3)] .
    show "dget dd ''id'' \<noteq> VNone" using n(1) by simp
  qed
  obtain w2 where w2: "op_index sign fuel w1 = (Inr (dict_update [] ?kvs), w2)" "grows_by is_get w1 w2"
      "pu_catalog w2 = catalog" "pu_existing w2 = Some (dict_update [] ?kvs)"
    using index_run [OF l1 h(7) w1(4) defs, of sign] unfolding w1(3) by (elim exE conjE)
  have keys: "map fst ?kvs = map (\<lambda>(i, d). dget d ''id'') stored" by (simp add: comp_def case_prod_beta)
  have look: "map_of (dict_update [] ?kvs) (dget dd ''id'') = Some (i, stored_def dd)" if "(i, dd) \<in> set stored" for i dd
  proof -
    have "map_of ?kvs (dget dd ''id'') = Some (i, stored_def dd)"
    proof (rule map_of_is_SomeI)
      show "distinct (map fst ?kvs)" using d by (simp only: keys)
      show "(dget dd ''id'', i, stored_def dd) \<in> set ?kvs" using that by force
    qed
    moreover have "map_of (rev ?kvs) = map_of ?kvs" by (intro map_of_rev_wf) (simp only: keys d)
    ultimately show ?thesis by (simp add: map_of_dict_update del: map_of_eq_Some_iff)
  qed
  have "list_all (\<lambda>(i, d). put_artifact sign jcs dumps fuel d w2 = (Inr d, w2)) stored"
    unfolding list_all_iff
  proof clarify
    fix i dd assume mem: "(i, dd) \<in> set stored"
    then obtain name where "dget dd ''id'' = VStr (''op.'' @ name)" using wf by (force simp: list_all_iff)
    moreover have "pu_catalog w2 \<noteq> VNone" using w2(3) h(5) by simp
    ultimately show "put_artifact sign jcs dumps fuel dd w2 = (Inr dd, w2)"
      by (intro put_unchanged [OF _ w2(4) _ look [OF mem]])
  qed
  then show ?thesis using put_after_start [OF w1(1) w2(1,3) h(5) w2(4)] grows.trans [OF w1(2) w2(2)] by blast
qed

lemma dget_registered: "k \<notin> {''content_type'', ''state''} \<Longrightarrow> dget (registered_doc d) k = dget d k"
  by (simp add: registered_doc_def setdefault_def dget_def)

lemma register_many_start:
  "(\<And>d. d \<in> set ops \<Longrightarrow> op_register known put d w = op_register known put d w') \<Longrightarrow> ops \<noteq> []
    \<Longrightarrow> register_many known put ops w = register_many known put ops w'"
  by (cases ops) (simp_all add: register_many_def bindM_def)

lemma stored_shapes:
  assumes "snd ` set stored = registered_doc ` set ops"
    "list_all (\<lambda>d. wf_operator known (registered_doc d) \<and> truthy (dget d ''content'')) ops"
  shows "list_all (\<lambda>(i, d). (\<exists>name. dget d ''id'' = VStr (''op.'' @ name)) \<and> truthy (dget d ''content'')) stored"
  unfolding list_all_iff
proof clarify
  fix i d assume "(i, d) \<in> set stored"
  then have "d \<in> registered_doc ` set ops" using assms(1) by force
  then show "(\<exists>name. dget d ''id'' = VStr (''op.'' @ name)) \<and> truthy (dget d ''content'')"
    using assms(2) by (auto simp: list_all_iff wf_operator_def dget_registered)
qed

text \<open>C35: A push of operators that each carry their pattern inline, as content that is not empty, and that Mantle
  already holds only reads: it returns the number of the operators and sends nothing but GET requests. An operator
  whose pattern is a \<open>content_ref\<close> is outside this: it is written on every push (\<open>content_ref_differs\<close>, below).\<close>

theorem pushed_again_reads_only:
  assumes "holds_pushed dumps fuel rows stored w" "map snd stored = map registered_doc ops"
    and "list_all (\<lambda>d. wf_operator known (registered_doc d) \<and> truthy (dget d ''content'')) ops"
  shows "fst (push_operator_manifests sign jcs dumps known fuel ops w) = Inr (int (length ops))
    \<and> grows_by is_get w (snd (push_operator_manifests sign jcs dumps known fuel ops w))"
proof -
  let ?w = "w\<lparr>pu_token := None, pu_catalog := VNone, pu_existing := None\<rparr>"
  let ?put = "put_artifact sign jcs dumps fuel"
  have docs: "snd ` set stored = registered_doc ` set ops" using assms(2) by (metis list.set_map)
  have held: "holds_pushed dumps fuel rows stored ?w" using assms(1) by (simp add: holds_pushed_def lists_pages_def)
  from stored_shapes [OF docs assms(3)]
  obtain w' where w': "grows_by is_get ?w w'" "list_all (\<lambda>(i, d). ?put d w' = (Inr d, w')) stored" "\<And>doc. ?put doc ?w = ?put doc w'"
    using push_start_run [OF held, of sign jcs] by auto
  have "list_all (\<lambda>d. wf_operator known (registered_doc d) \<and> ?put (registered_doc d) w' = (Inr (registered_doc d), w')) ops"
    unfolding list_all_iff
  proof
    fix d assume "d \<in> set ops"
    moreover then have "registered_doc d \<in> snd ` set stored" using docs by simp
    ultimately show "wf_operator known (registered_doc d) \<and> ?put (registered_doc d) w' = (Inr (registered_doc d), w')"
      using assms(3) w'(2) by (auto simp: list_all_iff)
  qed
  then have run: "register_many known ?put ops w' = (Inr (length ops), w')"
    using register_unchanged [of known ?put w' ops 0] by (simp add: register_many_def)
  have same: "op_register known ?put d ?w = op_register known ?put d w'" if "d \<in> set ops" for d
  proof -
    have "validate_operator known (registered_doc d) = Inr []" using assms(3) that by (simp add: wf_operator_accepted list_all_iff)
    then show ?thesis using w'(3) by (simp add: op_register_def Let_def)
  qed
  have "\<exists>w1. register_many known ?put ops ?w = (Inr (length ops), w1) \<and> grows_by is_get w w1"
  proof (cases "ops = []")
    case True
    then show ?thesis by (auto simp: register_many_def grows_by_def same_outside_def)
  next
    case False
    have "grows_by is_get w w'" using w'(1) by (auto simp: grows_by_def same_outside_def)
    then show ?thesis using run register_many_start [OF same False] by auto
  qed
  then show ?thesis by (auto simp: push_operator_manifests_def bindM_def catchM_def)
qed

lemma forM_Cons_run:
  "f x s w = (r, w1) \<Longrightarrow> forM f (x # xs) s w = (case r of Inl e \<Rightarrow> (Inl e, w1) | Inr v \<Rightarrow> forM f xs v w1)"
  by (cases r) (simp_all add: bindM_def)

lemma register_many_valid:
  "register_many known put ops w = (Inr n, w') \<Longrightarrow> n = length ops \<and> list_all (\<lambda>d. wf_operator known (registered_doc d)) ops"
proof -
  let ?f = "\<lambda>d n. bindM (op_register known put d) (\<lambda>_. ret (Suc n))"
  have run: "forM ?f ops k w = (Inr n, w') \<Longrightarrow> n = k + length ops \<and> list_all (\<lambda>d. wf_operator known (registered_doc d)) ops" for k
  proof (induction ops arbitrary: k w)
    case (Cons d ops)
    obtain r w1 where d: "op_register known put d w = (r, w1)" by fastforce
    show ?case
    proof (cases r)
      case (Inl e)
      then have "?f d k w = (Inl e, w1)" using d by (simp add: bindM_def)
      then have "(Inr n, w') = (case Inl e of Inl e \<Rightarrow> (Inl e, w1) | Inr v \<Rightarrow> forM ?f ops v w1)"
        by (rule trans [OF Cons.prems [symmetric] forM_Cons_run])
      then show ?thesis by simp
    next
      case (Inr v)
      then have "?f d k w = (Inr (Suc k), w1)" using d by (simp add: bindM_def)
      then have "(Inr n, w') = (case Inr (Suc k) of Inl e \<Rightarrow> (Inl e, w1) | Inr v \<Rightarrow> forM ?f ops v w1)"
        by (rule trans [OF Cons.prems [symmetric] forM_Cons_run])
      then have rest: "forM ?f ops (Suc k) w1 = (Inr n, w')" by (simp only: sum.case)
      have "validate_operator known (registered_doc d) = Inr []"
        using d Inr by (cases "validate_operator known (registered_doc d)") (auto simp: op_register_def Let_def split: if_splits)
      then show ?thesis using Cons.IH [OF rest] by (simp add: wf_operator_accepted)
    qed
  qed simp
  assume "register_many known put ops w = (Inr n, w')"
  then show ?thesis using run [of 0] by (simp add: register_many_def)
qed

lemma pushed_are_valid:
  assumes "push_operator_manifests sign jcs dumps known fuel ops w = (Inr n, w')" "n \<noteq> PUSH_FAILED"
  shows "n = int (length ops) \<and> list_all (\<lambda>d. wf_operator known (registered_doc d)) ops"
  using assms register_many_valid [of known "put_artifact sign jcs dumps fuel" ops]
  by (auto simp: push_operator_manifests_def bindM_def catchM_def split: prod.splits sum.splits if_splits)

definition ex_op :: "pyval dict" where
  "ex_op = [(''id'', VStr ''op.math.add''), (''offer'', VStr ''adds''), (''needs'', VList [VStr ''compute'']),
     (''content'', VStr ''a + b''), (''created_by'', VStr ''ann'')]"

definition ex_stored :: "pyval \<times> pyval dict" where
  "ex_stored = (VStr ''a1'', registered_doc ex_op)"

definition ex_lists :: "request \<Rightarrow> response option" where
  "ex_lists q = (let catalogs = [VDict [(''id'', VStr ''c1''), (''name'', VStr CATALOG_NAME)]];
       rows = [case ex_stored of (i, d) \<Rightarrow> stored_row py_repr (VStr ''c1'') i d];
       ct = [(''content_type'', VStr OPERATOR_CONTENT_TYPE)] in
     Some (reply 200 (if rq_params q = scan_params [] 0 then page_of catalogs 0 2
       else if rq_params q = scan_params [] 1 then page_of catalogs 1 2
       else if rq_params q = scan_params ct 0 then page_of rows 0 2 else page_of rows 1 2)))"

definition ex_loads :: "string \<Rightarrow> pyval option" where
  "ex_loads s = (if s = py_repr (VDict (wire_definition (registered_doc ex_op)))
     then Some (VDict (wire_definition (registered_doc ex_op))) else None)"

lemma ex_holds_pushed:
  "holds_pushed py_repr 4 [VDict [(''id'', VStr ''c1''), (''name'', VStr CATALOG_NAME)]] [ex_stored] (ex_pushing ex_lists ex_loads)"
proof -
  let ?ct = "[(''content_type'', VStr OPERATOR_CONTENT_TYPE)]" and ?w = "ex_pushing ex_lists ex_loads"
  have texts: "scan_params [] 1 \<noteq> scan_params [] 0" "scan_params ?ct 0 \<noteq> scan_params [] 0" "scan_params ?ct 0 \<noteq> scan_params [] 1"
    "scan_params ?ct 1 \<noteq> scan_params [] 0" "scan_params ?ct 1 \<noteq> scan_params [] 1" "scan_params ?ct 1 \<noteq> scan_params ?ct 0"
    by code_simp+
  have upto: "offset = 0 \<or> offset = 1" if "offset \<le> length [x]" for offset and x :: pyval using that by auto
  have catalogs: "lists_pages ?w ''/artifacts/visible'' [] [VDict [(''id'', VStr ''c1''), (''name'', VStr CATALOG_NAME)]] (\<lambda>_. 2)"
    unfolding lists_pages_def using upto texts by (fastforce simp: ex_pushing_def ex_lists_def push_request_def reply_def Let_def)
  have rows: "lists_pages ?w ''/artifacts/visible'' ?ct (map (\<lambda>(i, d). stored_row py_repr (VStr ''c1'') i d) [ex_stored]) (\<lambda>_. 2)"
    unfolding lists_pages_def using upto texts by (fastforce simp: ex_pushing_def ex_lists_def push_request_def reply_def Let_def)
  have named: "named_row [VDict [(''id'', VStr ''c1''), (''name'', VStr CATALOG_NAME)]] = Inr (Some (VDict [(''id'', VStr ''c1''), (''name'', VStr CATALOG_NAME)]))"
    "py_item (VDict [(''id'', VStr ''c1''), (''name'', VStr CATALOG_NAME)]) ''id'' = Inr (VStr ''c1'')" by code_simp+
  have json: "list_all (\<lambda>(i, d). py_repr (VDict (wire_definition d)) \<noteq> []
        \<and> w_loads ?w (py_repr (VDict (wire_definition d))) = Some (VDict (wire_definition d))) [ex_stored]"
    by code_simp
  show ?thesis unfolding holds_pushed_def using catalogs rows named json
    by (intro conjI exI [of _ "VDict [(''id'', VStr ''c1''), (''name'', VStr CATALOG_NAME)]"] exI [of _ "VStr ''c1''"] exI [of _ "\<lambda>_. 2"]) simp_all
qed

theorem pushed_again_reads_only_witness:
  "fst (push_operator_manifests (Inr (Some ''jwt'')) py_repr py_repr (\<lambda>n. n = VStr ''compute'') 4 [ex_op] (ex_pushing ex_lists ex_loads)) = Inr 1"
proof -
  have "validate_operator (\<lambda>n. n = VStr ''compute'') (registered_doc ex_op) = Inr []" by code_simp
  then have wf: "list_all (\<lambda>d. wf_operator (\<lambda>n. n = VStr ''compute'') (registered_doc d) \<and> truthy (dget d ''content'')) [ex_op]"
    by (simp add: wf_operator_accepted ex_op_def dget_def)
  have "map snd [ex_stored] = map registered_doc [ex_op]" by (simp add: ex_stored_def)
  from pushed_again_reads_only [OF ex_holds_pushed this wf, of "Inr (Some ''jwt'')" py_repr] show ?thesis by simp
qed

section \<open>An operator whose pattern is a reference\<close>

text \<open>Read back, such an operator has the empty string as its content and the definition has none: the two
  specifications differ, and every push writes it again.\<close>

lemma content_ref_differs:
  assumes "dget doc ''content'' = VNone" "dget doc ''id'' = VStr (''op.'' @ name)" "dumps (VDict (wire_definition doc)) \<noteq> []"
    and "loads (dumps (VDict (wire_definition doc))) = Some (VDict (wire_definition doc))"
  shows "\<exists>d. definition_of loads (stored_row dumps catalog i doc) = Inr (Some d) \<and> spec_of_doc d \<noteq> spec_of_doc doc"
proof -
  let ?row = "(''id'', i) # wire_body dumps catalog (dget doc ''id'') doc"
  have ctx: "dget ?row ''context'' = VStr (dumps (VDict (wire_definition doc)))" "dget ?row ''content'' = VStr []"
    using assms(1) by (simp_all add: dget_def [of "_ # _"] wire_body_def py_or_def)
  have "dget (wire_definition doc) ''id'' = VStr (''op.'' @ name)" using assms(2) by (simp add: dget_wire DEF_FIELDS_def)
  then have "get_or (wire_definition doc) ''id'' (VStr []) = VStr (''op.'' @ name)"
    by (simp add: get_or_def dget_def split: option.splits)
  moreover have "filter (\<lambda>(k, v). k \<in> set DEF_FIELDS) (wire_definition doc) = wire_definition doc"
    using wire_keys [of doc] by (intro filter_True) force
  ultimately have "definition_of loads (stored_row dumps catalog i doc) = Inr (Some (AList.update ''content'' (VStr []) (wire_definition doc)))"
    using assms(3,4) ctx by (simp add: definition_of_def stored_row_def py_get_def py_or_def py_startswith_def)
  moreover have "dget (AList.update ''content'' (VStr []) (wire_definition doc)) ''content'' = VStr []" by (simp add: dget_def)
  then have "spec_of_doc (AList.update ''content'' (VStr []) (wire_definition doc)) \<noteq> spec_of_doc doc"
    using assms(1) by (simp add: spec_of_doc_def SPEC_FIELDS_def)
  ultimately show ?thesis by blast
qed

end
