(* ===== verification/Type_Registration.thy ===== *)
theory Type_Registration
  imports Effects
begin

text \<open>
  A persona registers itself: the types it ships (\<open>type_registration.py\<close>) are collected and posted to
  the gateway with its address, and the answer decides whether it asks again
  (\<open>persona_registration.py\<close>).

  The files are the parameter \<open>files\<close>: for each \<open>type.json\<close>, in order, the folders it lies in below \<open>ui\<close>
  and its text, or none when it cannot be read. \<open>sign\<close> is the signed token, or the exception that
  signing raises.
\<close>

section \<open>The types a persona ships\<close>

definition content_type_from_rel :: "string list \<Rightarrow> string option" where
  "content_type_from_rel parts = (case parts of
       [top', sub] \<Rightarrow> Some (top' @ ''/'' @ (if sub = ''_wildcard'' then ''*'' else sub))
     | _ \<Rightarrow> None)"

definition collect_type :: "(string \<Rightarrow> pyval option) \<Rightarrow> string list \<times> string option \<Rightarrow> pyval dict \<Rightarrow> pyval dict" where
  "collect_type loads file types = (case file of (parts, content) \<Rightarrow>
     case content_type_from_rel parts of
       None \<Rightarrow> types
     | Some ct \<Rightarrow> (case Option.bind content loads of
         Some (VDict defn) \<Rightarrow> AList.update ct (VDict (setdefault ''content_type'' (VStr ct) defn)) types
       | _ \<Rightarrow> types))"

definition collect_server_types :: "bool \<Rightarrow> (string list \<times> string option) list \<Rightarrow> (string \<Rightarrow> pyval option) \<Rightarrow> pyval dict" where
  "collect_server_types is_dir files loads = (if is_dir then fold (collect_type loads) files [] else [])"

section \<open>The push\<close>

definition TYPES_FAILED :: int where
  "TYPES_FAILED = - 1"

definition TYPES_REFUSED :: int where
  "TYPES_REFUSED = - 2"

record addresses =
  ad_gateway :: "string option"
  ad_crystal :: "string option"
  ad_public :: "string option"
  ad_host :: "string option"
  ad_port :: "string option"

definition gateway_base :: "addresses \<Rightarrow> string" where
  "gateway_base a = rstrip_char (CHR ''/'')
     (first_nonempty (ad_gateway a) (first_nonempty (ad_crystal a) ''http://localhost:8085''))"

text \<open>\<open>os.getenv("MCP_PORT", "8082")\<close> takes the variable when it is set, also to nothing.\<close>

definition chorus_base :: "addresses \<Rightarrow> string" where
  "chorus_base a = rstrip_char (CHR ''/'')
     (first_nonempty (ad_public a) (first_nonempty (ad_host a)
       (''http://localhost:'' @ (case ad_port a of None \<Rightarrow> ''8082'' | Some p \<Rightarrow> p))))"

definition persona_address :: "addresses \<Rightarrow> string \<Rightarrow> string" where
  "persona_address a name = chorus_base a @ ''/'' @ name @ ''/mcp''"

definition registration_payload :: "addresses \<Rightarrow> string \<Rightarrow> pyval dict \<Rightarrow> pyval dict" where
  "registration_payload a name types = [(''slug'', VStr name), (''endpoint'', VStr (persona_address a name)),
     (''client_id'', VStr (''agience-server-'' @ name)), (''types'', VList (map snd types))]"

definition registration_request :: "addresses \<Rightarrow> string res \<Rightarrow> string \<Rightarrow> pyval dict \<Rightarrow> request" where
  "registration_request a sign name types = \<lparr> rq_peer = Gateway (gateway_base a), rq_method = ''POST'',
     rq_path = ''/register'', rq_params = VNone,
     rq_headers = [(''Content-Type'', ''application/json'')]
       @ (case sign of Inl e \<Rightarrow> [] | Inr jwt \<Rightarrow> [(''Authorization'', ''Bearer '' @ jwt)]),
     rq_body = VDict (registration_payload a name types) \<rparr>"

definition push_result :: "nat \<Rightarrow> response option \<Rightarrow> int" where
  "push_result n answer = (case answer of
       None \<Rightarrow> TYPES_FAILED
     | Some r \<Rightarrow>
         if rs_status r \<noteq> 200
         then (if 400 \<le> rs_status r \<and> rs_status r < 500 then TYPES_REFUSED else TYPES_FAILED)
         else int n)"

definition push_types :: "addresses \<Rightarrow> string res \<Rightarrow> bool \<Rightarrow> (string list \<times> string option) list \<Rightarrow> string
    \<Rightarrow> ('a world_scheme, int) prog" where
  "push_types a sign is_dir files name =
     bindM (getsM w_loads) (\<lambda>loads.
     let types = collect_server_types is_dir files loads in
     if types = [] then ret 0
     else bindM (catchM (bindM (http (registration_request a sign name types)) (\<lambda>r. ret (Some r))) (\<lambda>_. ret None))
       (\<lambda>answer. ret (push_result (length types) answer)))"

section \<open>A persona\<close>

text \<open>\<open>role\<close>, \<open>endpoint\<close> and \<open>client_id\<close> are what the persona passes; none of them is sent.\<close>

definition register_persona :: "addresses \<Rightarrow> string res \<Rightarrow> bool \<Rightarrow> (string list \<times> string option) list \<Rightarrow> string
    \<Rightarrow> string \<Rightarrow> string \<Rightarrow> string option \<Rightarrow> ('a world_scheme, bool) prog" where
  "register_persona a sign is_dir files name role endpoint client_id =
     bindM (push_types a sign is_dir files name) (\<lambda>types_result.
       if types_result = TYPES_FAILED then ret False
       else if types_result = TYPES_REFUSED then ret True
       else ret True)"

end
