(* ===== verification/Type_Registration_Laws.thy ===== *)
theory Type_Registration_Laws
  imports Type_Registration Gateway_Laws
begin

text \<open>
  What registration guarantees: a persona asks again exactly when the gateway has not given an answer,
  and once the gateway takes its request, it knows the persona and every type the persona ships.
\<close>

section \<open>Asking again\<close>

text \<open>The answers that settle the matter: accepted, or refused for good.\<close>

definition settled :: "response option \<Rightarrow> bool" where
  "settled answer \<longleftrightarrow> (case answer of None \<Rightarrow> False | Some r \<Rightarrow> rs_status r = 200 \<or> 400 \<le> rs_status r \<and> rs_status r < 500)"

lemma push_types_run:
  "\<exists>answer. push_types a sign is_dir files name w =
     (let types = collect_server_types is_dir files (w_loads w) in
      if types = [] then (Inr 0, w)
      else (Inr (push_result (length types) answer), w\<lparr>w_trace := w_trace w @ [EvHttp (registration_request a sign name types) answer]\<rparr>))"
  by (auto simp: push_types_def Let_def bindM_def catchM_def http_run split: option.splits)

text \<open>A persona that ships no types asks nothing and is done. Any other sends one request, and is done
  exactly when the gateway answered it with success or with a refusal; an answer that failed or did not
  come is asked for again.\<close>

theorem registration_settles:
  "\<exists>answer. register_persona a sign is_dir files name role endpoint client_id w =
     (let types = collect_server_types is_dir files (w_loads w) in
      if types = [] then (Inr True, w)
      else (Inr (settled answer), w\<lparr>w_trace := w_trace w @ [EvHttp (registration_request a sign name types) answer]\<rparr>))"
proof -
  let ?types = "collect_server_types is_dir files (w_loads w)"
  obtain answer where run: "push_types a sign is_dir files name w = (let types = ?types in
      if types = [] then (Inr 0, w)
      else (Inr (push_result (length types) answer), w\<lparr>w_trace := w_trace w @ [EvHttp (registration_request a sign name types) answer]\<rparr>))"
    using push_types_run by blast
  have codes: "(if push_result n answer = TYPES_FAILED then False else True) = settled answer" for n
    by (auto simp: push_result_def settled_def TYPES_FAILED_def TYPES_REFUSED_def split: option.splits)
  have "register_persona a sign is_dir files name role endpoint client_id w = (let types = ?types in
      if types = [] then (Inr True, w)
      else (Inr (settled answer), w\<lparr>w_trace := w_trace w @ [EvHttp (registration_request a sign name types) answer]\<rparr>))"
    using run codes [of "length ?types"]
    by (cases "?types = []") (auto simp: register_persona_def Let_def bindM_def TYPES_FAILED_def split: if_splits)
  then show ?thesis by blast
qed

section \<open>What the gateway knows afterwards\<close>

lemma last_of_mem:
  assumes "td \<in> set tds" "td_content_type td = ct"
  shows "\<exists>td'. last_of ct tds = Some td' \<and> td' \<in> set tds"
proof -
  have "List.find (\<lambda>td. td_content_type td = ct) (rev tds) \<noteq> None" using assms by (auto simp: find_None_iff)
  then obtain td' where "List.find (\<lambda>td. td_content_type td = ct) (rev tds) = Some td'" by blast
  then show ?thesis using find_Some_iff [of "\<lambda>td. td_content_type td = ct" "rev tds" td']
    by (auto simp: last_of_def) (metis length_rev nth_mem set_rev)
qed

lemma pushed_server: "td \<in> set (pushed slug types) \<Longrightarrow> td_server td = Some slug"
  unfolding pushed_def by (auto split: sum.splits option.splits) (metis parse_type_def_wf)

lemma pushed_mem: "d \<in> set types \<Longrightarrow> parse_type_def d (Some slug) = Inr (Some td) \<Longrightarrow> td \<in> set (pushed slug types)"
  unfolding pushed_def by force

text \<open>C36: When the gateway accepts what a persona registers, it resolves the persona to the address the
  persona sent, and the content type of every definition the persona ships, as far as it can be read,
  to a definition of this persona.\<close>

theorem registered_persona_known:
  assumes "wf_registry (g_types w)" "py_strip name \<noteq> []"
    and "types = map snd (collect_server_types is_dir files loads)"
    and "register_server st header name (persona_address a name) (Some (''agience-server-'' @ name)) types w = (Inr v, w')"
  shows "topology_resolve (g_topology w') name
      = Some \<lparr> sr_slug = py_strip name, sr_endpoint = persona_address a name, sr_client_id = Some (''agience-server-'' @ name) \<rparr>
    \<and> (\<forall>td. (\<exists>d \<in> set types. parse_type_def d (Some name) = Inr (Some td)) \<longrightarrow>
         (\<exists>td'. reg_resolve (g_types w') (td_content_type td) = Some td' \<and> td_server td' = Some name))"
proof (intro conjI allI impI)
  note reg = register_replaces [OF assms(1,4)]
  have "persona_address a name \<noteq> []" by (simp add: persona_address_def)
  then show "topology_resolve (g_topology w') name
      = Some \<lparr> sr_slug = py_strip name, sr_endpoint = persona_address a name, sr_client_id = Some (''agience-server-'' @ name) \<rparr>"
    using reg assms(2) by (simp add: topology_resolve_register)
  fix td assume "\<exists>d \<in> set types. parse_type_def d (Some name) = Inr (Some td)"
  then obtain d where d: "d \<in> set types" "parse_type_def d (Some name) = Inr (Some td)" by blast
  have norm: "normalize_ct (td_content_type td) = td_content_type td"
    using d(2) by (auto elim!: parse_type_def_SomeE)
  obtain td' where td': "last_of (td_content_type td) (pushed name types) = Some td'" "td' \<in> set (pushed name types)"
    using last_of_mem [OF pushed_mem [OF d] refl] by blast
  then have "reg_resolve (g_types w') (td_content_type td) = Some td'"
    using reg [of "td_content_type td"] by (simp add: norm)
  then show "\<exists>td'. reg_resolve (g_types w') (td_content_type td) = Some td' \<and> td_server td' = Some name"
    using pushed_server [OF td'(2)] by blast
qed

definition ex_addresses :: addresses where
  "ex_addresses = \<lparr> ad_gateway = None, ad_crystal = None, ad_public = Some ''https://node/'', ad_host = None, ad_port = None \<rparr>"

theorem registered_persona_known_witness:
  "\<exists>(w' :: gateway) td. topology_resolve (g_topology w') ''aria''
      = Some \<lparr> sr_slug = ''aria'', sr_endpoint = ''https://node/aria/mcp'', sr_client_id = Some ''agience-server-aria'' \<rparr>
    \<and> reg_resolve (g_types w') ''x/ws'' = Some td \<and> td_server td = Some ''aria''"
proof -
  let ?w = "ex_gateway (\<lambda>_. None)"
  let ?types = "map snd (collect_server_types True [([''x'', ''ws''], Some ''{}'')] (w_loads (ex_world (\<lambda>_. None))))"
  let ?m = "register_server ex_settings (Some ''Bearer svc'') ''aria'' (persona_address ex_addresses ''aria'') (Some (''agience-server-'' @ ''aria'')) ?types"
  have "fst (?m ?w) = Inr (VDict [(''registered'', VStr ''aria''), (''endpoint'', VStr ''https://node/aria/mcp''), (''types'', VInt 1)])"
    by code_simp
  then obtain v g where run: "?m ?w = (Inr v, g)" by (metis prod.collapse)
  have types: "g_types ?w = ex_registry" by (simp add: ex_gateway_def start_gateway_def gateway.defs world.defs)
  have wf: "wf_registry (g_types ?w)" unfolding types by (rule reg_reach_wf [OF ex_registry_reach])
  have name: "py_strip ''aria'' \<noteq> []" "py_strip ''aria'' = ''aria''" "persona_address ex_addresses ''aria'' = ''https://node/aria/mcp''"
    "''agience-server-'' @ ''aria'' = ''agience-server-aria''" by code_simp+
  have d: "VDict [(''content_type'', VStr ''x/ws'')] \<in> set ?types"
    "parse_type_def (VDict [(''content_type'', VStr ''x/ws'')]) (Some ''aria'')
      = Inr (Some \<lparr> td_content_type = ''x/ws'', td_operations = [], td_describer = VNone, td_server = Some ''aria'',
          td_raw = VDict [(''content_type'', VStr ''x/ws'')] \<rparr>)"
    by code_simp+
  from registered_persona_known [OF wf name(1) refl run] d
  have known: "topology_resolve (g_topology g) ''aria''
      = Some \<lparr> sr_slug = py_strip ''aria'', sr_endpoint = persona_address ex_addresses ''aria'', sr_client_id = Some (''agience-server-'' @ ''aria'') \<rparr>"
    and "\<exists>td'. reg_resolve (g_types g) ''x/ws'' = Some td' \<and> td_server td' = Some ''aria''"
    by (blast, fastforce)
  then obtain td where "reg_resolve (g_types g) ''x/ws'' = Some td" "td_server td = Some ''aria''" by blast
  with known show ?thesis unfolding name by blast
qed

end
