(* ===== verification/Evolution.thy ===== *)
theory Evolution
  imports Effects "HOL-Library.Product_Lexorder"
begin

text \<open>
  The record of operators, their fitness and their selection (\<open>evolution.py\<close>).

  The store is the dictionary of its artifacts by id: \<open>art_get\<close> reads one, \<open>art_put\<close> writes one under
  its own id. The listing by content type that a store may offer (\<open>list_by_content_type\<close>), the
  canonical text of a value, the digest, the addressing of a body and the author ids that are
  processes are parameters. Counters are read as \<open>int(...)\<close> reads them. Fitness is a rational number,
  rounded to four places as \<open>round\<close> does, half to even; its resolution is a real number, and \<open>z\<close> is the
  quantile \<open>NormalDist().inv_cdf(1 - far)\<close>.
\<close>

section \<open>The store\<close>

type_synonym artifacts = "pyval dict dict"

text \<open>\<open>get_artifact\<close> followed by a test of its answer: an empty document counts as none.\<close>

definition art_get :: "artifacts \<Rightarrow> pyval \<Rightarrow> pyval dict option" where
  "art_get s i = (case i of
       VStr k \<Rightarrow> (case map_of s k of Some (f # d) \<Rightarrow> Some (f # d) | _ \<Rightarrow> None)
     | _ \<Rightarrow> None)"

definition art_put :: "pyval dict \<Rightarrow> (artifacts, unit) prog" where
  "art_put d = (case dget d ''id'' of VStr k \<Rightarrow> modifyM (AList.update k d) | _ \<Rightarrow> raise (KeyError ''id''))"

definition OP_CONTENT_TYPE :: string where
  "OP_CONTENT_TYPE = ''application/vnd.agience.operator+json''"

definition FITNESS_FIELDS :: "string list" where
  "FITNESS_FIELDS = [''invocations'', ''verified'', ''refuted'', ''output_uses'', ''uses'']"

section \<open>Writing an operator\<close>

definition behaviour_hash :: "(pyval \<Rightarrow> string) \<Rightarrow> (string \<Rightarrow> string) \<Rightarrow> pyval dict \<Rightarrow> string option" where
  "behaviour_hash jcs sha doc = (if \<not> truthy (dget doc ''kind'') then None
     else Some (sha (jcs (VDict [(''kind'', dget doc ''kind''), (''spec'', py_or (dget doc ''spec'') (VDict []))]))))"

definition carry_fitness :: "pyval dict \<Rightarrow> pyval dict \<Rightarrow> pyval dict" where
  "carry_fitness ex doc = fold (\<lambda>f d. case map_of ex f of None \<Rightarrow> d | Some v \<Rightarrow> AList.update f v d) FITNESS_FIELDS doc"

definition spec_change :: "string option \<Rightarrow> string option \<Rightarrow> pyval dict \<Rightarrow> pyval" where
  "spec_change old new ex = VDict [(''from'', vopt old), (''to'', vopt new),
     (''discarded'', VDict (List.map_filter (\<lambda>f. map_option (\<lambda>v. (f, v)) (map_of ex f)) FITNESS_FIELDS))]"

definition carry_citation :: "pyval dict \<Rightarrow> pyval dict \<Rightarrow> pyval dict" where
  "carry_citation ex doc = fold (\<lambda>f d. if truthy (dget ex f) \<and> \<not> truthy (dget d f) then AList.update f (dget ex f) d else d)
     [''cited_from'', ''provenance''] doc"

definition carry_creator :: "(pyval \<Rightarrow> bool) \<Rightarrow> pyval dict \<Rightarrow> pyval dict \<Rightarrow> pyval dict" where
  "carry_creator is_process ex doc =
     (if truthy (dget ex ''created_by'') \<and> dget doc ''created_by'' \<noteq> dget ex ''created_by''
         \<and> (let incoming = py_or (dget doc ''created_by'') (VStr []) in \<not> truthy incoming \<or> is_process incoming)
      then AList.update ''created_by'' (dget ex ''created_by'') doc else doc)"

definition preserve_fitness :: "(pyval \<Rightarrow> string) \<Rightarrow> (string \<Rightarrow> string) \<Rightarrow> (pyval \<Rightarrow> bool) \<Rightarrow> artifacts \<Rightarrow> pyval dict \<Rightarrow> pyval dict" where
  "preserve_fitness jcs sha is_process s doc =
     (case art_get s (case map_of doc ''id'' of None \<Rightarrow> VStr [] | Some v \<Rightarrow> v) of
        None \<Rightarrow> doc
      | Some ex \<Rightarrow>
          let old = behaviour_hash jcs sha ex; new = behaviour_hash jcs sha doc;
              doc = (if old = new then carry_fitness ex doc else AList.update ''spec_change'' (spec_change old new ex) doc)
          in carry_creator is_process ex (carry_citation ex doc))"

definition put_operator :: "(pyval \<Rightarrow> string) \<Rightarrow> (string \<Rightarrow> string) \<Rightarrow> (pyval \<Rightarrow> bool) \<Rightarrow> (pyval dict \<Rightarrow> pyval dict) option \<Rightarrow> pyval dict
    \<Rightarrow> (artifacts, pyval dict) prog" where
  "put_operator jcs sha is_process address_inline doc =
     (let addressed = (case address_inline of None \<Rightarrow> doc | Some address \<Rightarrow> address doc) in
      bindM (getsM (\<lambda>s. preserve_fitness jcs sha is_process s addressed)) (\<lambda>d.
      bindM (art_put d) (\<lambda>_. ret d)))"

section \<open>The record\<close>

text \<open>\<open>int(d.get(f, 0))\<close>.\<close>

definition counter :: "pyval dict \<Rightarrow> string \<Rightarrow> int res" where
  "counter d f = (case map_of d f of None \<Rightarrow> Inr 0 | Some v \<Rightarrow> py_int v)"

definition count_up :: "string \<Rightarrow> pyval dict \<Rightarrow> pyval dict res" where
  "count_up f d = res_bind (counter d f) (\<lambda>n. Inr (AList.update f (VInt (n + 1)) d))"

definition record_invocation :: "pyval \<Rightarrow> bool option \<Rightarrow> (artifacts, unit) prog" where
  "record_invocation operator_id verified =
     bindM (getsM (\<lambda>s. art_get s operator_id)) (\<lambda>found. case found of
       None \<Rightarrow> ret ()
     | Some op \<Rightarrow>
         bindM (liftR (count_up ''invocations'' op)) (\<lambda>op.
         bindM (liftR (case verified of
             Some True \<Rightarrow> count_up ''verified'' op
           | Some False \<Rightarrow> count_up ''refuted'' op
           | None \<Rightarrow> Inr op)) art_put))"

definition record_use :: "pyval \<Rightarrow> (artifacts, unit) prog" where
  "record_use artifact_id =
     bindM (getsM (\<lambda>s. art_get s artifact_id)) (\<lambda>found. case found of
       None \<Rightarrow> ret ()
     | Some a \<Rightarrow>
         bindM (liftR (count_up ''uses'' a)) (\<lambda>a.
         bindM (art_put a) (\<lambda>_.
         let producer = py_or (dget a ''operator'') (dget a ''via'') in
         if \<not> truthy producer then ret ()
         else bindM (getsM (\<lambda>s. art_get s producer)) (\<lambda>found. case found of
           None \<Rightarrow> ret ()
         | Some op \<Rightarrow> bindM (liftR (count_up ''output_uses'' op)) art_put))))"

section \<open>Fitness\<close>

definition W_VERIFIED :: rat where
  "W_VERIFIED = 4 / 5"

definition W_DEMAND :: rat where
  "W_DEMAND = 1 / 5"

definition py_divide :: "int \<Rightarrow> int \<Rightarrow> rat res" where
  "py_divide a b = (if b = 0 then Inl (PyError ''ZeroDivisionError'' []) else Inr (of_int a / of_int b))"

definition fitness :: "pyval dict \<Rightarrow> rat res" where
  "fitness op =
     res_bind (counter op ''verified'') (\<lambda>ver.
     res_bind (counter op ''refuted'') (\<lambda>ref.
     res_bind (py_divide (ver + 1) (ver + ref + 2)) (\<lambda>verified_rate.
     res_bind (counter op ''invocations'') (\<lambda>inv.
     res_bind (counter op ''output_uses'') (\<lambda>uses.
     res_bind (py_divide uses (uses + inv + 1)) (\<lambda>demand.
     Inr (round4 (W_VERIFIED * verified_rate + W_DEMAND * demand))))))))"

definition prior_fitness :: "rat res" where
  "prior_fitness = fitness []"

text \<open>\<open>math.sqrt\<close> of a negative number raises.\<close>

definition fitness_resolution :: "pyval dict \<Rightarrow> real res" where
  "fitness_resolution op =
     res_bind (counter op ''verified'') (\<lambda>ver.
     res_bind (counter op ''refuted'') (\<lambda>ref.
     let a = ver + 1; b = ref + 1; n = a + b in
     res_bind (py_divide (a * b) (n * n * (n + 1))) (\<lambda>q.
       if q < 0 then Inl (ValueError ''math domain error'')
       else Inr (of_rat W_VERIFIED * sqrt (of_rat q)))))"

section \<open>Selection\<close>

definition all_operators :: "(artifacts \<Rightarrow> pyval dict list \<times> bool) option \<Rightarrow> artifacts \<Rightarrow> pyval dict list" where
  "all_operators typed s =
     (let stream = filter (\<lambda>d. dget d ''content_type'' = VStr OP_CONTENT_TYPE) (map snd s) in
      case typed of
        None \<Rightarrow> stream
      | Some listing \<Rightarrow> (case listing s of (docs, exhaustive) \<Rightarrow> if exhaustive then docs else stream))"

text \<open>\<open>d["id"]\<close>, a string.\<close>

definition op_id :: "pyval dict \<Rightarrow> string res" where
  "op_id d = (case map_of d ''id'' of None \<Rightarrow> Inl (KeyError ''id'') | Some (VStr s) \<Rightarrow> Inr s | Some v \<Rightarrow> Inl (TypeError ''id''))"

text \<open>\<open>sorted(ops, key=fitness, reverse=True)\<close> keeps the order of equals.\<close>

definition rank_operators :: "(artifacts \<Rightarrow> pyval dict list \<times> bool) option \<Rightarrow> string option \<Rightarrow> artifacts \<Rightarrow> pyval dict list res" where
  "rank_operators typed prefix s =
     res_bind (res_map (\<lambda>d. case prefix of
         Some (c # cs) \<Rightarrow> res_bind (op_id d) (\<lambda>i. Inr (py_startswith i (c # cs), d))
       | _ \<Rightarrow> Inr (True, d)) (all_operators typed s)) (\<lambda>ds.
     res_bind (res_map (\<lambda>d. res_bind (fitness d) (\<lambda>f. Inr (f, d))) (map snd (filter fst ds))) (\<lambda>fs.
     Inr (map snd (sort_key (\<lambda>x. - fst x) fs))))"

type_synonym op_key = "rat \<times> int \<times> string"

definition op_key :: "pyval dict \<Rightarrow> (op_key \<times> string) res" where
  "op_key c = res_bind (fitness c) (\<lambda>f. res_bind (counter c ''invocations'') (\<lambda>n. res_bind (op_id c) (\<lambda>i. Inr ((f, n, i), i))))"

text \<open>\<open>max(cands, key=...)\<close>: the first of the greatest.\<close>

definition select_op :: "artifacts \<Rightarrow> pyval list \<Rightarrow> string option res" where
  "select_op s candidate_ids =
     res_bind (res_map op_key (List.map_filter (art_get s) candidate_ids)) (\<lambda>keys.
       Inr (case keys of
         [] \<Rightarrow> None
       | k # ks \<Rightarrow> Some (snd (foldl (\<lambda>best c. if fst best < fst c then c else best) k ks))))"

section \<open>Retirement\<close>

definition is_unfit :: "real \<Rightarrow> pyval dict \<Rightarrow> bool res" where
  "is_unfit z op =
     res_bind (fitness op) (\<lambda>f. res_bind (fitness_resolution op) (\<lambda>r. res_bind prior_fitness (\<lambda>p.
       Inr (of_rat f + z * r < of_rat p))))"

definition retire :: "real \<Rightarrow> pyval \<Rightarrow> (artifacts, bool) prog" where
  "retire z operator_id =
     bindM (getsM (\<lambda>s. art_get s operator_id)) (\<lambda>found. case found of
       None \<Rightarrow> ret False
     | Some op \<Rightarrow>
         bindM (liftR (is_unfit z op)) (\<lambda>unfit.
         if \<not> unfit then ret False
         else bindM (art_put (AList.update ''state'' (VStr ''archived'') op)) (\<lambda>_. ret True)))"

definition sweep_one :: "real \<Rightarrow> pyval dict \<Rightarrow> string list \<Rightarrow> (artifacts, string list) prog" where
  "sweep_one z op retired =
     (if dget op ''state'' = VStr ''archived'' then ret retired
      else bindM (liftR (op_id op)) (\<lambda>i.
           bindM (retire z (VStr i)) (\<lambda>gone. ret (if gone then retired @ [i] else retired))))"

definition sweep_retire :: "(artifacts \<Rightarrow> pyval dict list \<times> bool) option \<Rightarrow> real \<Rightarrow> (artifacts, string list) prog" where
  "sweep_retire typed z = bindM (getsM (all_operators typed)) (\<lambda>ops. forM (sweep_one z) ops [])"

end
