(* ===== verification/Evolution_Laws.thy ===== *)
theory Evolution_Laws
  imports Evolution "HOL-Library.Multiset"
begin

text \<open>
  What the record of operators guarantees: evidence follows the behaviour it is about, the fittest is
  selected, and only an operator that was refuted more often than verified is ever retired.
\<close>

section \<open>Rounding\<close>

lemma round4_near: "(q :: rat) - 1 / 20000 \<le> round4 q" "round4 q \<le> q + 1 / 20000"
proof -
  have "of_int (round_half_even (q * 10000)) - q * 10000 \<le> 1 / 2" "q * 10000 - of_int (round_half_even (q * 10000)) \<le> 1 / 2"
    using round_half_even_near [of "q * 10000"] by linarith+
  then show "q - 1 / 20000 \<le> round4 q" "round4 q \<le> q + 1 / 20000" by (simp_all add: round4_def field_simps)
qed

lemma round4_ge_prior: "2 / 5 \<le> (q :: rat) \<Longrightarrow> 2 / 5 \<le> round4 q"
proof -
  assume "2 / 5 \<le> q"
  then have "4000 \<le> round_half_even (q * 10000)" by (intro round_half_even_ge) simp
  then have "(4000 :: rat) \<le> of_int (round_half_even (q * 10000))" by simp
  then show ?thesis by (simp add: round4_def)
qed

lemma prior_is: "prior_fitness = Inr (2 / 5)"
proof -
  have "round_half_even (4000 :: rat) = 4000" using round_half_even_int [of 4000, where 'a = rat] by simp
  then show ?thesis
    by (simp add: prior_fitness_def fitness_def counter_def py_divide_def W_VERIFIED_def W_DEMAND_def round4_def)
qed

section \<open>Fitness\<close>

text \<open>The counters of a record, none negative.\<close>

definition counts :: "pyval dict \<Rightarrow> int \<Rightarrow> int \<Rightarrow> int \<Rightarrow> int \<Rightarrow> bool" where
  "counts d ver ref calls uses \<longleftrightarrow> counter d ''verified'' = Inr ver \<and> counter d ''refuted'' = Inr ref
     \<and> counter d ''invocations'' = Inr calls \<and> counter d ''output_uses'' = Inr uses
     \<and> 0 \<le> ver \<and> 0 \<le> ref \<and> 0 \<le> calls \<and> 0 \<le> uses"

lemma fitness_counts:
  assumes "counts d ver ref calls uses"
  shows "fitness d = Inr (round4 (W_VERIFIED * (of_int (ver + 1) / of_int (ver + ref + 2)) + W_DEMAND * (of_int uses / of_int (uses + calls + 1))))"
proof -
  have "ver + ref + 2 \<noteq> 0" "uses + calls + 1 \<noteq> 0" using assms by (auto simp: counts_def)
  then show ?thesis using assms by (simp only: counts_def fitness_def py_divide_def res_bind_simps if_False)
qed

lemma resolution_counts:
  assumes "counts d ver ref calls uses"
  shows "fitness_resolution d = Inr (4 / 5 * sqrt (of_int ((ver + 1) * (ref + 1)) / of_int ((ver + ref + 2) * (ver + ref + 2) * (ver + ref + 3))))"
proof -
  let ?n = "(ver + ref + 2) * (ver + ref + 2) * (ver + ref + 3)"
  have "0 \<le> ver" "0 \<le> ref" using assms by (auto simp: counts_def)
  then have "0 < ?n" "0 \<le> (ver + 1) * (ref + 1)" by (simp_all add: mult_pos_pos)
  then have n: "?n \<noteq> 0" "\<not> (of_int ((ver + 1) * (ref + 1)) / of_int ?n :: rat) < 0"
    by (linarith, unfold not_less, intro divide_nonneg_pos) (simp_all only: of_int_0_le_iff of_int_0_less_iff)
  have sum: "ver + 1 + (ref + 1) = ver + ref + 2" "ver + ref + 2 + 1 = ver + ref + 3" by simp_all
  show ?thesis
    using assms n unfolding counts_def
    by (simp add: fitness_resolution_def Let_def sum py_divide_def W_VERIFIED_def of_rat_divide del: of_int_mult of_int_add)
qed

text \<open>The rank of a fitness below, at or above the prior.\<close>

lemma fitness_at_least_prior:
  assumes "counts d ver ref calls uses" "ref \<le> ver"
  shows "\<exists>f. fitness d = Inr f \<and> 2 / 5 \<le> f"
proof -
  have pos: "0 \<le> ver" "0 \<le> ref" "0 \<le> calls" "0 \<le> uses" using assms(1) by (auto simp: counts_def)
  have "(1 :: rat) / 2 \<le> of_int (ver + 1) / of_int (ver + ref + 2)"
  proof -
    have "ver + ref + 2 \<le> 2 * (ver + 1)" using assms(2) by simp
    then have "(of_int (ver + ref + 2) :: rat) \<le> of_int (2 * (ver + 1))" by (simp only: of_int_le_iff)
    moreover have "(0 :: rat) < of_int (ver + ref + 2)" using pos by simp
    ultimately show ?thesis by (simp add: field_simps)
  qed
  moreover have "(0 :: rat) \<le> of_int uses / of_int (uses + calls + 1)" using pos by simp
  ultimately have "2 / 5 \<le> W_VERIFIED * (of_int (ver + 1) / of_int (ver + ref + 2)) + W_DEMAND * (of_int uses / of_int (uses + calls + 1))"
    unfolding W_VERIFIED_def W_DEMAND_def by linarith
  then show ?thesis using fitness_counts [OF assms(1)] round4_ge_prior by blast
qed

lemma unfit_was_refuted:
  assumes "counts d ver ref calls uses" "0 \<le> z" "is_unfit z d = Inr True"
  shows "ver < ref"
proof (rule ccontr)
  assume "\<not> ver < ref"
  then obtain f where f: "fitness d = Inr f" "2 / 5 \<le> f" using fitness_at_least_prior [OF assms(1)] by auto
  obtain r where r: "fitness_resolution d = Inr r" "0 \<le> r"
  proof -
    have "0 \<le> (of_int ((ver + 1) * (ref + 1)) / of_int ((ver + ref + 2) * (ver + ref + 2) * (ver + ref + 3)) :: real)"
      using assms(1) by (intro divide_nonneg_nonneg) (simp_all add: counts_def)
    then show ?thesis using that resolution_counts [OF assms(1)] real_sqrt_ge_zero by (meson mult_nonneg_nonneg zero_le_divide_iff zero_le_numeral)
  qed
  have "of_rat f + z * r < of_rat (2 / 5)" using assms(3) f(1) r(1) by (simp add: is_unfit_def prior_is)
  moreover have "(of_rat (2 / 5) :: real) \<le> of_rat f" using f(2) by (simp add: of_rat_less_eq)
  ultimately show False using mult_nonneg_nonneg [OF assms(2) r(2)] by linarith
qed

section \<open>Retirement\<close>

definition archive :: "pyval dict \<Rightarrow> pyval dict" where
  "archive d = AList.update ''state'' (VStr ''archived'') d"

lemma archive_idem: "archive (archive d) = archive d"
  by (simp add: archive_def update_triv)

lemma counter_archive: "f \<noteq> ''state'' \<Longrightarrow> counter (archive d) f = counter d f"
  by (simp add: counter_def archive_def)

lemma is_unfit_archive: "is_unfit z (archive d) = is_unfit z d"
  by (simp add: is_unfit_def fitness_def fitness_resolution_def counter_archive)

text \<open>Every artifact lies under its own id; what retirement may do to one.\<close>

definition own_ids :: "artifacts \<Rightarrow> bool" where
  "own_ids s \<longleftrightarrow> (\<forall>k d. map_of s k = Some d \<longrightarrow> dget d ''id'' = VStr k)"

definition retired_by :: "real \<Rightarrow> artifacts \<Rightarrow> artifacts \<Rightarrow> bool" where
  "retired_by z s s' \<longleftrightarrow> (own_ids s \<longrightarrow> own_ids s' \<and> (\<forall>k. map_of s' k = map_of s k
     \<or> (\<exists>d. map_of s k = Some d \<and> map_of s' k = Some (archive d) \<and> is_unfit z d = Inr True)))"

interpretation retires: world_relation "retired_by z" for z
proof
  show "retired_by z s s" for s by (simp add: retired_by_def)
  show "retired_by z s s''" if "retired_by z s s'" "retired_by z s' s''" for s s' s''
    unfolding retired_by_def
  proof (intro impI conjI allI)
    assume own: "own_ids s"
    with that(1) have own': "own_ids s'" by (simp add: retired_by_def)
    with that(2) show "own_ids s''" by (simp add: retired_by_def)
    fix k
    have a: "map_of s' k = map_of s k \<or> (\<exists>d. map_of s k = Some d \<and> map_of s' k = Some (archive d) \<and> is_unfit z d = Inr True)"
      using that(1) own by (simp add: retired_by_def)
    have b: "map_of s'' k = map_of s' k \<or> (\<exists>d. map_of s' k = Some d \<and> map_of s'' k = Some (archive d) \<and> is_unfit z d = Inr True)"
      using that(2) own' by (simp add: retired_by_def)
    from a b show "map_of s'' k = map_of s k \<or> (\<exists>d. map_of s k = Some d \<and> map_of s'' k = Some (archive d) \<and> is_unfit z d = Inr True)"
      by (metis archive_idem option.inject)
  qed
qed

lemma art_get_map: "art_get s i = Some d \<Longrightarrow> \<exists>k. i = VStr k \<and> map_of s k = Some d"
  by (auto simp: art_get_def split: pyval.splits option.splits list.splits)

lemma retire_keeps: "retires.keeps z (retire z i)"
proof (rule retires.keepsI)
  fix s r s' assume run: "retire z i s = (r, s')"
  show "retired_by z s s'"
  proof (cases "\<exists>d. art_get s i = Some d \<and> is_unfit z d = Inr True")
    case False
    then have "s' = s" using run by (auto simp: retire_def bindM_def split: option.splits sum.splits if_splits)
    then show ?thesis by (simp add: retires.refl)
  next
    case True
    then obtain d k where d: "art_get s i = Some d" "is_unfit z d = Inr True" "map_of s k = Some d"
      using art_get_map by blast
    show ?thesis
      unfolding retired_by_def
    proof (intro impI conjI allI)
      assume own: "own_ids s"
      then have "dget (archive d) ''id'' = VStr k" using d(3) by (auto simp: own_ids_def archive_def dget_def)
      then have s': "s' = AList.update k (archive d) s"
        using run d by (simp add: retire_def bindM_def art_put_def archive_def)
      show "own_ids s'" using own \<open>dget (archive d) ''id'' = VStr k\<close> by (auto simp: own_ids_def s')
      show "map_of s' j = map_of s j \<or> (\<exists>d. map_of s j = Some d \<and> map_of s' j = Some (archive d) \<and> is_unfit z d = Inr True)" for j
        using d by (auto simp: s')
    qed
  qed
qed

lemma sweep_keeps: "retires.keeps z (sweep_retire typed z)"
  unfolding sweep_retire_def sweep_one_def
  by (intro retires.keeps_bind retires.keeps_basic retires.keeps_forM retires.keeps_if retire_keeps)

text \<open>C37: A sweep leaves every operator as it is or archives it, and archives none that was not refuted
  more often than verified: an operator nothing is known about, or one that reality has spoken for,
  is never retired.\<close>

theorem sweep_spares_unproven:
  assumes "own_ids s" "0 \<le> z" "sweep_retire typed z s = (r, s')"
    and "map_of s k = Some d" "counts d ver ref calls uses"
  shows "map_of s' k = Some d \<or> map_of s' k = Some (archive d) \<and> ver < ref"
proof -
  have "retired_by z s s'" using retires.keepsD [OF sweep_keeps assms(3)] .
  then have "map_of s' k = map_of s k \<or> (\<exists>d. map_of s k = Some d \<and> map_of s' k = Some (archive d) \<and> is_unfit z d = Inr True)"
    using assms(1) by (simp add: retired_by_def)
  then show ?thesis using assms(4) unfit_was_refuted [OF assms(5,2)] by auto
qed

definition ex_ops :: artifacts where
  "ex_ops = [(''op.a'', [(''id'', VStr ''op.a''), (''content_type'', VStr OP_CONTENT_TYPE), (''verified'', VInt 1)])]"

theorem sweep_spares_unproven_witness:
  "map_of (snd (sweep_retire None 1 ex_ops)) ''op.a'' = map_of ex_ops ''op.a''"
proof -
  let ?d = "[(''id'', VStr ''op.a''), (''content_type'', VStr OP_CONTENT_TYPE), (''verified'', VInt 1)]"
  have own: "own_ids ex_ops" by (auto simp: own_ids_def ex_ops_def dget_def split: if_splits)
  have d: "map_of ex_ops ''op.a'' = Some ?d" by (simp add: ex_ops_def)
  have c: "counts ?d 1 0 0 0" by (simp add: counts_def counter_def)
  show ?thesis using sweep_spares_unproven [OF own _ prod.collapse [symmetric] d c, of 1 None] d by simp
qed

section \<open>Three refutations\<close>

lemma refuted_only:
  assumes "counts d 0 (int k) calls 0"
  shows "fitness d = Inr (round4 (4 / 5 / of_nat (k + 2)))"
    "fitness_resolution d = Inr (4 / 5 * sqrt (real (k + 1) / (real (k + 2) * real (k + 2) * real (k + 3))))"
proof -
  have n: "of_int (0 + int k + 2) = (of_nat (k + 2) :: rat)" by simp
  show "fitness d = Inr (round4 (4 / 5 / of_nat (k + 2)))"
    unfolding fitness_counts [OF assms] n W_VERIFIED_def by simp
  show "fitness_resolution d = Inr (4 / 5 * sqrt (real (k + 1) / (real (k + 2) * real (k + 2) * real (k + 3))))"
    using resolution_counts [OF assms] by (simp add: add.commute add.left_commute)
qed

lemma rounded_between:
  "4 / 5 / real (k + 2) - 1 / 20000 \<le> of_rat (round4 (4 / 5 / of_nat (k + 2)))"
  "of_rat (round4 (4 / 5 / of_nat (k + 2))) \<le> 4 / 5 / real (k + 2) + 1 / 20000"
proof -
  let ?q = "4 / 5 / of_nat (k + 2) :: rat"
  have q: "(of_rat (?q - 1 / 20000) :: real) = 4 / 5 / real (k + 2) - 1 / 20000" "(of_rat (?q + 1 / 20000) :: real) = 4 / 5 / real (k + 2) + 1 / 20000"
    by (simp_all add: of_rat_diff of_rat_add of_rat_divide of_rat_mult)
  have "of_rat (?q - 1 / 20000) \<le> (of_rat (round4 ?q) :: real)" "(of_rat (round4 ?q) :: real) \<le> of_rat (?q + 1 / 20000)"
    using round4_near [of ?q] by (simp_all only: of_rat_less_eq)
  then show "4 / 5 / real (k + 2) - 1 / 20000 \<le> of_rat (round4 ?q)" "of_rat (round4 ?q) \<le> 4 / 5 / real (k + 2) + 1 / 20000"
    unfolding q by simp_all
qed

definition spread :: "nat \<Rightarrow> real" where
  "spread k = sqrt (real (k + 1) / (real (k + 2) * real (k + 2) * real (k + 3)))"

lemma spread_values: "23 / 100 \<le> spread 1" "19 / 100 \<le> spread 2" "spread 3 \<le> 164 / 1000" "0 \<le> spread k"
proof -
  show "23 / 100 \<le> spread 1" unfolding spread_def by (rule real_le_rsqrt) (simp add: power2_eq_square)
  show "19 / 100 \<le> spread 2" unfolding spread_def by (rule real_le_rsqrt) (simp add: power2_eq_square)
  show "spread 3 \<le> 164 / 1000" unfolding spread_def by (rule real_le_lsqrt) (simp_all add: power2_eq_square)
  show "0 \<le> spread k" by (simp add: spread_def)
qed

lemma spread_late: "4 \<le> k \<Longrightarrow> spread k \<le> 1 / 6"
proof -
  assume k: "4 \<le> k"
  have "real (k + 1) * 36 \<le> real (k + 3) * (real (k + 2) * real (k + 2))"
  proof (rule mult_mono)
    have "6 * 6 \<le> real (k + 2) * real (k + 2)" using k by (intro mult_mono) simp_all
    then show "36 \<le> real (k + 2) * real (k + 2)" by simp
  qed simp_all
  then have "real (k + 1) / (real (k + 2) * real (k + 2) * real (k + 3)) \<le> (1 / 6)\<^sup>2"
    by (simp add: field_simps power2_eq_square)
  then show ?thesis unfolding spread_def by (intro real_le_lsqrt) simp_all
qed

text \<open>C39: With no success and nothing made of its output, an operator is spared after none, one or two
  refutations and condemned after three or more, at the quantile of the stated level, however often it
  ran.\<close>

theorem third_refutation_condemns:
  assumes "counts d 0 (int k) calls 0" "164 / 100 \<le> z" "z \<le> 165 / 100"
  shows "is_unfit z d = Inr (3 \<le> k)"
proof -
  define F where "F = (of_rat (round4 (4 / 5 / of_nat (k + 2))) :: real)"
  have F: "4 / 5 / real (k + 2) - 1 / 20000 \<le> F" "F \<le> 4 / 5 / real (k + 2) + 1 / 20000"
    using rounded_between [of k] by (simp_all only: F_def)
  have unfit: "is_unfit z d = Inr (F + z * (4 / 5 * spread k) < 2 / 5)"
    using refuted_only [OF assms(1)] by (simp add: is_unfit_def prior_is spread_def of_rat_divide F_def)
  have low: "164 / 100 * (4 / 5 * spread k) \<le> z * (4 / 5 * spread k)" and high: "z * (4 / 5 * spread k) \<le> 165 / 100 * (4 / 5 * spread k)"
    using assms(2,3) spread_values(4) [of k] by (intro mult_right_mono; simp)+
  consider "k = 0" | "k = 1" | "k = 2" | "k = 3" | "4 \<le> k" by linarith
  then have "F + z * (4 / 5 * spread k) < 2 / 5 \<longleftrightarrow> 3 \<le> k"
  proof cases
    case 1
    then obtain f where f: "fitness d = Inr f" "2 / 5 \<le> f" using fitness_at_least_prior [OF assms(1)] by auto
    then have "2 / 5 \<le> F" using refuted_only(1) [OF assms(1)] of_rat_less_eq [of "2 / 5" f, where ?'a = real] by (simp add: of_rat_divide F_def)
    then show ?thesis using 1 low spread_values(4) [of k] by linarith
  next
    case 2
    then have "4 / 5 / 3 - 1 / 20000 \<le> F" "23 / 100 \<le> spread k" using F(1) spread_values(1) by simp_all
    then show ?thesis using 2 low by linarith
  next
    case 3
    then have "4 / 5 / 4 - 1 / 20000 \<le> F" "19 / 100 \<le> spread k" using F(1) spread_values(2) by simp_all
    then show ?thesis using 3 low by linarith
  next
    case 4
    then have "F \<le> 4 / 5 / 5 + 1 / 20000" "spread k \<le> 164 / 1000" using F(2) spread_values(3) by simp_all
    then show ?thesis using 4 high by linarith
  next
    case 5
    then have "4 / 5 / real (k + 2) \<le> 4 / 5 / 6" by (intro divide_left_mono) simp_all
    then show ?thesis using F(2) high spread_late [OF 5] 5 by linarith
  qed
  then show ?thesis using unfit by simp
qed

theorem third_refutation_condemns_witness:
  "is_unfit (1645 / 1000) [(''invocations'', VInt 2), (''refuted'', VInt 2)] = Inr False
    \<and> is_unfit (1645 / 1000) [(''invocations'', VInt 3), (''refuted'', VInt 3)] = Inr True"
proof -
  have "counts [(''invocations'', VInt 2), (''refuted'', VInt 2)] 0 (int 2) 2 0" "counts [(''invocations'', VInt 3), (''refuted'', VInt 3)] 0 (int 3) 3 0"
    by (simp_all add: counts_def counter_def)
  from this [THEN third_refutation_condemns, of "1645 / 1000"] show ?thesis by simp
qed

section \<open>Selection\<close>

lemma foldl_best:
  fixes k :: "op_key \<times> string"
  defines "step \<equiv> \<lambda>best c :: op_key \<times> string. if fst best < fst c then c else best"
  shows "foldl step k ks \<in> set (k # ks) \<and> (\<forall>c \<in> set (k # ks). fst c \<le> fst (foldl step k ks))"
proof (induction ks arbitrary: k)
  case (Cons c ks)
  have IH: "foldl step (step k c) ks \<in> set (step k c # ks)" "\<forall>d \<in> set (step k c # ks). fst d \<le> fst (foldl step (step k c) ks)"
    using Cons [of "step k c"] by auto
  have "step k c \<in> {k, c}" "fst k \<le> fst (step k c)" "fst c \<le> fst (step k c)"
    by (auto simp: step_def)
  then show ?case using IH order_trans by (auto simp del: less_eq_prod_simp) 
qed simp

lemma res_map_iff: "res_map f xs = Inr ys \<longleftrightarrow> map f xs = map Inr ys"
  by (induction xs arbitrary: ys) (auto simp: res_bind_eq_Inr Cons_eq_map_conv)

text \<open>Of the candidates that exist the one selected has the greatest fitness, by it the most
  invocations, and by both the last id; nothing is selected only when none exists.\<close>

theorem select_fittest:
  assumes "select_op s ids = Inr chosen"
  shows "(chosen = None \<longleftrightarrow> List.map_filter (art_get s) ids = [])
    \<and> (\<forall>i. chosen = Some i \<longrightarrow> (\<exists>key. (\<exists>c \<in> set (List.map_filter (art_get s) ids). op_key c = Inr (key, i))
         \<and> (\<forall>c \<in> set (List.map_filter (art_get s) ids). \<exists>key' i'. op_key c = Inr (key', i') \<and> key' \<le> key)))"
proof -
  let ?cands = "List.map_filter (art_get s) ids"
  obtain keys where keys: "res_map op_key ?cands = Inr keys"
    using assms by (auto simp: select_op_def res_bind_eq_Inr)
  have image: "op_key ` set ?cands = Inr ` set keys" using keys by (metis list.set_map res_map_iff)
  show ?thesis
  proof (cases keys)
    case Nil
    then have "?cands = []" using image by simp
    moreover have "chosen = None" using assms keys Nil by (simp add: select_op_def)
    ultimately show ?thesis by simp
  next
    case (Cons k ks)
    let ?best = "foldl (\<lambda>best c. if fst best < fst c then c else best) k ks"
    have chosen: "chosen = Some (snd ?best)" using assms keys Cons by (simp add: select_op_def)
    have mem: "?best \<in> set keys" and most: "\<forall>c \<in> set keys. fst c \<le> fst ?best" using foldl_best [of k ks] Cons by auto
    have some: "?cands \<noteq> []" using Cons image by auto
    have "Inr ?best \<in> op_key ` set ?cands" unfolding image using mem by (rule imageI)
    then have best: "\<exists>c \<in> set ?cands. op_key c = Inr (fst ?best, snd ?best)" by (auto simp: eq_commute)
    have "\<forall>c \<in> set ?cands. \<exists>key' i'. op_key c = Inr (key', i') \<and> key' \<le> fst ?best"
    proof
      fix c assume "c \<in> set ?cands"
      then have "op_key c \<in> Inr ` set keys" unfolding image [symmetric] by (rule imageI)
      then obtain key where "op_key c = Inr key" "key \<in> set keys" by blast
      then show "\<exists>key' i'. op_key c = Inr (key', i') \<and> key' \<le> fst ?best" using most by (intro exI [of _ "fst key"] exI [of _ "snd key"]) simp
    qed
    with some best show ?thesis unfolding chosen by blast
  qed
qed

definition ex_pair :: artifacts where
  "ex_pair = [(''op.a'', [(''id'', VStr ''op.a''), (''refuted'', VInt 1)]), (''op.b'', [(''id'', VStr ''op.b'')])]"

theorem select_fittest_witness:
  "\<exists>key. (\<exists>c \<in> set (List.map_filter (art_get ex_pair) [VStr ''op.a'', VStr ''op.b'', VStr ''op.c'']). op_key c = Inr (key, ''op.b''))"
proof -
  have "select_op ex_pair [VStr ''op.a'', VStr ''op.b'', VStr ''op.c''] = Inr (Some ''op.b'')" by code_simp
  from select_fittest [OF this] show ?thesis by blast
qed

text \<open>The ranking holds every operator once, the fittest first.\<close>

definition fitter :: "pyval dict \<Rightarrow> pyval dict \<Rightarrow> bool" where
  "fitter d d' \<longleftrightarrow> (\<exists>f f'. fitness d = Inr f \<and> fitness d' = Inr f' \<and> f' \<le> f)"

lemma res_map_pure: "res_map (\<lambda>x. Inr (g x)) xs = Inr (map g xs)"
  by (induction xs) simp_all

lemma rank_sorted:
  assumes "rank_operators typed None s = Inr ds"
  shows "mset ds = mset (all_operators typed s) \<and> sorted_wrt fitter ds"
proof -
  let ?ops = "all_operators typed s"
  obtain fs where fs: "res_map (\<lambda>d. res_bind (fitness d) (\<lambda>f. Inr (f, d))) ?ops = Inr fs" "ds = map snd (sort_key (\<lambda>x. - fst x) fs)"
    using assms by (auto simp: rank_operators_def res_map_pure res_bind_eq_Inr filter_map comp_def)
  have each: "map (\<lambda>d. res_bind (fitness d) (\<lambda>f. Inr (f, d))) ?ops = map Inr fs" using fs(1) by (simp only: res_map_iff)
  have key: "fitness (snd x) = Inr (fst x)" if "x \<in> set fs" for x
  proof -
    have "Inr x \<in> set (map (\<lambda>d. res_bind (fitness d) (\<lambda>f. Inr (f, d))) ?ops)" unfolding each using that by simp
    then show ?thesis by (auto simp: res_bind_def split: sum.splits)
  qed
  have snds: "map snd fs = xs" if "map (\<lambda>d. res_bind (fitness d) (\<lambda>f. Inr (f, d))) xs = map Inr fs" for xs
    using that by (induction xs arbitrary: fs) (auto simp: Cons_eq_map_conv res_bind_eq_Inr eq_commute [of "Inr _" "res_bind _ _"])
  have "mset ds = image_mset snd (mset fs)" by (simp add: fs(2))
  also have "\<dots> = mset ?ops" using snds [OF each] by (metis mset_map)
  finally have perm: "mset ds = mset ?ops" .
  have "sorted (map (\<lambda>x. - fst x) (sort_key (\<lambda>x. - fst x) fs))" by simp
  then have "sorted_wrt (\<lambda>x y. fst y \<le> fst x) (sort_key (\<lambda>x. - fst x) fs)" by (simp add: sorted_map)
  then have "sorted_wrt (\<lambda>x y. fitter (snd x) (snd y)) (sort_key (\<lambda>x. - fst x) fs)"
    by (rule sorted_wrt_mono_rel [rotated]) (use key in \<open>auto simp: fitter_def\<close>)
  then show ?thesis using perm by (simp add: fs(2) sorted_wrt_map)
qed

section \<open>Evidence follows the behaviour\<close>

lemma carry_fitness_look:
  "map_of (carry_fitness ex doc) k = (if k \<in> set FITNESS_FIELDS \<and> map_of ex k \<noteq> None then map_of ex k else map_of doc k)"
proof -
  have "map_of (fold (\<lambda>f d. case map_of ex f of None \<Rightarrow> d | Some v \<Rightarrow> AList.update f v d) fs d) k
      = (if k \<in> set fs \<and> map_of ex k \<noteq> None then map_of ex k else map_of d k)" for fs d
    by (induction fs arbitrary: d) (auto simp del: map_of_eq_Some_iff split: option.splits)
  then show ?thesis by (simp only: carry_fitness_def)
qed

lemma dget_update: "dget (AList.update k v d) j = (if j = k then v else dget d j)"
  by (simp add: dget_def)

lemma carry_citation_look:
  "map_of (carry_citation ex doc) k = (if k \<in> {''cited_from'', ''provenance''} \<and> truthy (dget ex k) \<and> \<not> truthy (dget doc k)
     then Some (dget ex k) else map_of doc k)"
  by (auto simp: carry_citation_def dget_update)

lemma carry_creator_look:
  "k \<noteq> ''created_by'' \<Longrightarrow> map_of (carry_creator is_process ex doc) k = map_of doc k"
  by (simp add: carry_creator_def)

text \<open>C38: An operator registered again under the same behaviour, the two hashes being equal, keeps each counter it has,
  whatever the definition brings. Under another behaviour none of its counters is carried: the definition has the
  counters it brings itself, if it brings any, and what was discarded is recorded in it. What the operator is cited
  from and its provenance stand where the definition has none; the creator an operator has gives way only to another
  that the definition names and that is not a process; and nothing else of the definition is changed.\<close>

theorem evidence_follows_behaviour:
  fixes jcs :: "pyval \<Rightarrow> string" and sha :: "string \<Rightarrow> string" and is_process :: "pyval \<Rightarrow> bool"
  assumes "art_get s (dget doc ''id'') = Some ex" "map_of doc ''id'' \<noteq> None" "truthy (dget ex ''created_by'')"
  defines "d \<equiv> preserve_fitness jcs sha is_process s doc"
    and "same \<equiv> behaviour_hash jcs sha ex = behaviour_hash jcs sha doc"
  shows "list_all (\<lambda>f. map_of d f = (if same \<and> map_of ex f \<noteq> None then map_of ex f else map_of doc f)) FITNESS_FIELDS
    \<and> (same \<or> dget d ''spec_change'' = spec_change (behaviour_hash jcs sha ex) (behaviour_hash jcs sha doc) ex)
    \<and> list_all (\<lambda>f. truthy (dget d f) = (truthy (dget ex f) \<or> truthy (dget doc f))
        \<and> dget d f = (if truthy (dget ex f) \<and> \<not> truthy (dget doc f) then dget ex f else dget doc f)) [''cited_from'', ''provenance'']
    \<and> (dget d ''created_by'' = dget ex ''created_by''
       \<or> dget d ''created_by'' = dget doc ''created_by'' \<and> truthy (dget doc ''created_by'') \<and> \<not> is_process (dget doc ''created_by''))
    \<and> (k \<in> set (''spec_change'' # ''cited_from'' # ''provenance'' # ''created_by'' # FITNESS_FIELDS) \<or> map_of d k = map_of doc k)"
proof -
  define b where "b = (if same then carry_fitness ex doc
      else AList.update ''spec_change'' (spec_change (behaviour_hash jcs sha ex) (behaviour_hash jcs sha doc) ex) doc)"
  have d: "d = carry_creator is_process ex (carry_citation ex b)"
    using assms(1,2) by (auto simp: d_def b_def same_def preserve_fitness_def Let_def dget_def split: option.splits)
  have base: "map_of b k = (if same then (if k \<in> set FITNESS_FIELDS \<and> map_of ex k \<noteq> None then map_of ex k else map_of doc k)
      else if k = ''spec_change'' then Some (spec_change (behaviour_hash jcs sha ex) (behaviour_hash jcs sha doc) ex) else map_of doc k)" for k
    by (simp add: b_def carry_fitness_look)
  have look: "map_of d k = (if k \<in> {''cited_from'', ''provenance''} \<and> truthy (dget ex k) \<and> \<not> truthy (dget b k)
      then Some (dget ex k) else map_of b k)" if "k \<noteq> ''created_by''" for k
    unfolding d carry_creator_look [OF that] carry_citation_look by (rule refl)
  have fields: "list_all (\<lambda>f. map_of d f = (if same \<and> map_of ex f \<noteq> None then map_of ex f else map_of doc f)) FITNESS_FIELDS"
    by (simp add: FITNESS_FIELDS_def look base)
  have change: "same \<or> dget d ''spec_change'' = spec_change (behaviour_hash jcs sha ex) (behaviour_hash jcs sha doc) ex"
    by (simp add: dget_def [of d] look base)
  have plain: "dget b f = dget doc f" if "f \<in> {''cited_from'', ''provenance'', ''created_by''}" for f
    using that by (auto simp: dget_def base FITNESS_FIELDS_def)
  have cite: "dget d f = (if truthy (dget ex f) \<and> \<not> truthy (dget doc f) then dget ex f else dget doc f)"
    if "f \<in> {''cited_from'', ''provenance''}" for f
    using look [of f] that plain [of f] by (cases "map_of b f") (auto simp: dget_def [of d] dget_def [of b] split: if_splits)
  have cited: "list_all (\<lambda>f. truthy (dget d f) = (truthy (dget ex f) \<or> truthy (dget doc f))
        \<and> dget d f = (if truthy (dget ex f) \<and> \<not> truthy (dget doc f) then dget ex f else dget doc f)) [''cited_from'', ''provenance'']"
    by (auto simp: cite)
  have others: "k \<in> set (''spec_change'' # ''cited_from'' # ''provenance'' # ''created_by'' # FITNESS_FIELDS) \<or> map_of d k = map_of doc k"
    by (cases "k = ''created_by''") (auto simp: look base)
  have "map_of (carry_citation ex b) ''created_by'' = map_of b ''created_by''" by (simp add: carry_citation_look)
  then have maker: "dget (carry_citation ex b) ''created_by'' = dget doc ''created_by''"
    using plain [of "''created_by''"] by (simp add: dget_def)
  have "dget d ''created_by'' = dget ex ''created_by''
       \<or> dget d ''created_by'' = dget doc ''created_by'' \<and> truthy (dget doc ''created_by'') \<and> \<not> is_process (dget doc ''created_by'')"
    using assms(3) maker by (auto simp: d carry_creator_def Let_def py_or_def dget_update)
  then show ?thesis using fields change cited others by blast
qed

definition ex_old :: "pyval dict" where
  "ex_old = [(''id'', VStr ''op.a''), (''kind'', VStr ''py''), (''spec'', VStr ''one''), (''verified'', VInt 5),
     (''created_by'', VStr ''ann''), (''provenance'', VStr ''HUMAN'')]"

definition ex_new :: "pyval dict" where
  "ex_new = [(''id'', VStr ''op.a''), (''kind'', VStr ''py''), (''spec'', VStr ''two''), (''created_by'', VStr ''ember-local'')]"

theorem evidence_follows_behaviour_witness:
  "map_of (preserve_fitness py_repr id (\<lambda>v. v = VStr ''ember-local'') [(''op.a'', ex_old)] ex_new) ''verified'' = None
    \<and> dget (preserve_fitness py_repr id (\<lambda>v. v = VStr ''ember-local'') [(''op.a'', ex_old)] ex_new) ''created_by'' = VStr ''ann''"
proof -
  let ?process = "\<lambda>v. v = VStr ''ember-local''"
  have facts: "art_get [(''op.a'', ex_old)] (dget ex_new ''id'') = Some ex_old" "map_of ex_new ''id'' \<noteq> None"
    "truthy (dget ex_old ''created_by'')" "dget ex_old ''created_by'' = VStr ''ann''" "dget ex_new ''created_by'' = VStr ''ember-local''"
    "behaviour_hash py_repr id ex_old \<noteq> behaviour_hash py_repr id ex_new" "map_of ex_new ''verified'' = None"
    by code_simp+
  from evidence_follows_behaviour [OF facts(1-3), of py_repr id ?process] facts(4-)
  show ?thesis by (simp add: FITNESS_FIELDS_def)
qed

text \<open>Counters the definition brings itself are kept through a change of behaviour: it does not start from zero evidence.\<close>

lemma brought_evidence_kept:
  "fitness (preserve_fitness py_repr id (\<lambda>_. False) [(''op.a'', ex_old)] (ex_new @ [(''verified'', VInt 98)])) = Inr (99 / 125)"
  by code_simp

end
