(* ===== verification/Ontology_Lookup.thy ===== *)
theory Ontology_Lookup
  imports Ontology_Words
begin

text \<open>
  From a surface form to the concepts it could name (\<open>ontology/lookup.py\<close>): the tokeniser in the
  alphabet of the lexicon, the senses that hold a word, the parts of a coined name, the nouns a
  modifier is about, and the cost of an associative hop.

  The lookups are programs of the ontology driver. The bound store is \<open>None\<close>, as where the code passes
  none. Two functions call themselves: \<open>wn_synsets_for\<close> and \<open>projected_nouns_for\<close> take the depth the
  interpreter allows, and \<open>TOO_DEEP\<close> is the error of exceeding it; a depth of two is always enough.
\<close>

section \<open>The tokeniser\<close>

text \<open>\<open>normalize("NFD", ...)\<close> and dropping the combining marks, on Latin-1: the letters that decompose
  into a base letter and a mark.\<close>

definition NFD_BASES :: "(nat \<times> nat \<times> char) list" where
  "NFD_BASES = [
     (192, 197, CHR ''A''), (199, 199, CHR ''C''), (200, 203, CHR ''E''), (204, 207, CHR ''I''), (209, 209, CHR ''N''),
     (210, 214, CHR ''O''), (217, 220, CHR ''U''), (221, 221, CHR ''Y''),
     (224, 229, CHR ''a''), (231, 231, CHR ''c''), (232, 235, CHR ''e''), (236, 239, CHR ''i''), (241, 241, CHR ''n''),
     (242, 246, CHR ''o''), (249, 252, CHR ''u''), (253, 253, CHR ''y''), (255, 255, CHR ''y'')]"

definition fold_char :: "char \<Rightarrow> char" where
  "fold_char c = (case List.find (\<lambda>(lo, hi, b). lo \<le> code c \<and> code c \<le> hi) NFD_BASES of
       None \<Rightarrow> c
     | Some (lo, hi, b) \<Rightarrow> b)"

definition fold_to_lexicon :: "string \<Rightarrow> string" where
  "fold_to_lexicon s = map fold_char s"

text \<open>\<open>[^\W\d_]\<close>: what \<open>isalnum\<close> accepts, without the decimal digits; on Latin-1 these are the letters and
  the superscript and fraction digits.\<close>

definition word_letter :: "char \<Rightarrow> bool" where
  "word_letter c \<longleftrightarrow> (let n = code c in
     65 \<le> n \<and> n \<le> 90 \<or> 97 \<le> n \<and> n \<le> 122 \<or> n \<in> {170, 178, 179, 181, 185, 186, 188, 189, 190}
     \<or> 192 \<le> n \<and> n \<noteq> 215 \<and> n \<noteq> 247)"

definition word_tail :: "char \<Rightarrow> bool" where
  "word_tail c \<longleftrightarrow> word_letter c \<or> code c = 39 \<or> code c = 45"

text \<open>\<open>LEMMA_WORD.finditer\<close>: from the left, each match as long as it can be.\<close>

function lemma_words :: "string \<Rightarrow> string list" where
  "lemma_words s = (case dropWhile (\<lambda>c. \<not> word_letter c) s of
       [] \<Rightarrow> []
     | c # cs \<Rightarrow> (c # takeWhile word_tail cs) # lemma_words (dropWhile word_tail cs))"
  by auto
termination
proof (relation "measure length", simp)
  fix s c cs
  assume "dropWhile (\<lambda>c. \<not> word_letter c) s = c # cs"
  then have "length (c # cs) \<le> length s" by (metis length_dropWhile_le)
  then show "(dropWhile word_tail cs, s) \<in> measure length"
    using length_dropWhile_le [of word_tail cs] by simp
qed

declare lemma_words.simps [simp del]

definition lemma_tokens :: "string \<Rightarrow> nat \<Rightarrow> string list" where
  "lemma_tokens text' minimum = filter (\<lambda>t. minimum \<le> length t) (lemma_words (py_lower (fold_to_lexicon text')))"

section \<open>The senses of a word\<close>

definition holds_word :: "string \<Rightarrow> string option \<Rightarrow> synset \<Rightarrow> bool" where
  "holds_word word m x = (let lemset = map (\<lambda>l. py_lower (fst l)) (synset_lemmas x) in
     word \<in> set lemset \<or> (case m of None \<Rightarrow> False | Some b \<Rightarrow> 1 < length b \<and> b \<in> set lemset))"

definition held_senses :: "string \<Rightarrow> string \<Rightarrow> (driver, synset list) prog" where
  "held_senses word pos =
     bindM (catchM (morphy word (Some pos) None) (\<lambda>_. ret None)) (\<lambda>m.
     bindM (catchM (bindM (synsets word (Some pos) None) (\<lambda>xs. ret (Some xs))) (\<lambda>_. ret None)) (\<lambda>candidates.
       ret (case candidates of None \<Rightarrow> [] | Some xs \<Rightarrow> filter (holds_word word m) xs)))"

definition hyphen_fallback_parts :: "string \<Rightarrow> (driver, string list) prog" where
  "hyphen_fallback_parts token = (let tok = py_lower (py_strip token) in
     if CHR ''-'' \<notin> set tok then ret []
     else bindM (catchM (bindM (synsets tok None None) (\<lambda>xs. ret (xs = []))) (\<lambda>_. ret False)) (\<lambda>split.
       ret (if split then lemma_tokens (map (\<lambda>c. if c = CHR ''-'' then CHR '' '' else c) tok) 2 else [])))"

text \<open>\<open>if x not in seen: seen.add(x); out.append(x)\<close>.\<close>

definition emit :: "string \<Rightarrow> string list \<Rightarrow> string list" where
  "emit x out = (if x \<in> set out then out else out @ [x])"

definition emit_first :: "string list \<Rightarrow> string list \<Rightarrow> string list" where
  "emit_first names out = (case names of [] \<Rightarrow> out | n # _ \<Rightarrow> emit n out)"

definition emit_sense :: "string \<Rightarrow> string list \<Rightarrow> (driver, string list) prog" where
  "emit_sense part out = bindM (held_senses part ''n'') (\<lambda>senses. ret (emit_first (map sy_name senses) out))"

definition offer_token :: "string \<Rightarrow> string list \<Rightarrow> (driver, string list) prog" where
  "offer_token tok out = bindM (held_senses tok ''n'') (\<lambda>senses.
     if senses = [] then bindM (hyphen_fallback_parts tok) (\<lambda>parts. forM emit_sense parts out)
     else ret (emit_first (map sy_name senses) out))"

definition offer_synsets :: "string \<Rightarrow> (driver, string list) prog" where
  "offer_synsets text' = (if py_strip text' = [] then ret [] else forM offer_token (lemma_tokens text' 2) [])"

definition wn_prefix :: "string \<Rightarrow> (driver, bool) prog" where
  "wn_prefix surface = catchM (entry_prefix_exists surface None) (\<lambda>_. ret False)"

definition TOO_DEEP :: exc where
  "TOO_DEEP = PyError ''RecursionError'' []"

definition whole_senses :: "string \<Rightarrow> (driver, string list) prog" where
  "whole_senses w = bindM (held_senses w ''n'') (\<lambda>nouns. bindM (held_senses w ''v'') (\<lambda>verbs.
     ret (map sy_name (nouns @ verbs))))"

fun wn_synsets_for_to :: "nat \<Rightarrow> string \<Rightarrow> (driver, string list) prog" where
  "wn_synsets_for_to 0 word = raise TOO_DEEP"
| "wn_synsets_for_to (Suc depth) word = (let w = py_lower (py_strip (fold_to_lexicon word)) in
     if length w \<le> 1 then ret []
     else bindM (whole_senses w) (\<lambda>res.
       if res \<noteq> [] then ret res
       else bindM (hyphen_fallback_parts w) (\<lambda>parts.
         forM (\<lambda>part out. bindM (wn_synsets_for_to depth part) (\<lambda>names. ret (fold emit names out))) parts [])))"

definition wn_synsets_for :: "string \<Rightarrow> (driver, string list) prog" where
  "wn_synsets_for = wn_synsets_for_to 2"

definition subject_token :: "string \<Rightarrow> string list \<Rightarrow> (driver, string list) prog" where
  "subject_token tok out = bindM (wn_synsets_for tok) (\<lambda>names.
     if names \<noteq> [] then ret (emit_first names out)
     else bindM (hyphen_fallback_parts tok) (\<lambda>parts.
       forM (\<lambda>part out. bindM (wn_synsets_for part) (\<lambda>names. ret (emit_first names out))) parts out))"

definition subject_synsets :: "string \<Rightarrow> (driver, string list) prog" where
  "subject_synsets text' = (if py_strip text' = [] then ret [] else forM subject_token (lemma_tokens text' 2) [])"

section \<open>The nouns a modifier is about\<close>

definition TO_NOUN :: "string list" where
  "TO_NOUN = [''derivation'', ''attribute'', ''pertainym'']"

definition ADVERB_TO_ADJECTIVE :: "string list" where
  "ADVERB_TO_ADJECTIVE = [''pertainym'']"

definition TO_HEAD_ADJECTIVE :: "string list" where
  "TO_HEAD_ADJECTIVE = [''similar'']"

definition POS_CHARS :: "string list" where
  "POS_CHARS = [''n'', ''v'', ''a'', ''s'', ''r'']"

definition pos_of :: "string \<Rightarrow> string" where
  "pos_of name = (let parts = py_split (CHR ''.'') name; dashes = py_split (CHR ''-'') name in
     if 2 < length parts \<and> parts ! (length parts - 2) \<in> set POS_CHARS then parts ! (length parts - 2)
     else if 1 < length dashes \<and> last dashes \<in> set POS_CHARS then last dashes
     else [])"

fun hop_rows :: "string list \<Rightarrow> string \<Rightarrow> nat option \<Rightarrow> edge list \<Rightarrow> string list \<Rightarrow> (driver, string list) prog" where
  "hop_rows labels keep_pos store [] out = ret out"
| "hop_rows labels keep_pos store (e # es) out =
     (if ed_label e \<notin> set labels then hop_rows labels keep_pos store es out
      else bindM (n_of (VStr (ed_dst e)) store) (\<lambda>target.
        hop_rows labels keep_pos store es (if pos_of target = keep_pos then emit target out else out)))"

definition edges_from :: "store \<Rightarrow> string list \<Rightarrow> edge list option" where
  "edges_from s ids = map_option (filter (\<lambda>e. ed_src e \<in> set ids)) (so_edges s)"

definition hop :: "nat option \<Rightarrow> string \<Rightarrow> string list \<Rightarrow> string \<Rightarrow> (driver, string list) prog" where
  "hop store name labels keep_pos =
     bindM (concept_ids name store) (\<lambda>found. let ids = (if found = [] then [name] else found) in
     bindM (getsM (\<lambda>w. Option.bind store (\<lambda>a. edges_from (dr_stores w a) ids))) (\<lambda>rows.
       case rows of None \<Rightarrow> ret [] | Some es \<Rightarrow> hop_rows labels keep_pos store es []))"

fun projected_to :: "nat \<Rightarrow> nat option \<Rightarrow> string \<Rightarrow> (driver, string list) prog" where
  "projected_to 0 store name = raise TOO_DEEP"
| "projected_to (Suc depth) store name = (let pos = pos_of name in
     if pos = ''r'' then
       bindM (hop store name ADVERB_TO_ADJECTIVE ''a'') (\<lambda>as.
       bindM (hop store name ADVERB_TO_ADJECTIVE ''s'') (\<lambda>ss.
         forM (\<lambda>adjective out. bindM (projected_to depth store adjective) (\<lambda>ns. ret (fold emit ns out))) (as @ ss) []))
     else if pos \<notin> {''a'', ''s''} then ret []
     else bindM (hop store name TO_NOUN ''n'') (\<lambda>direct.
       if direct \<noteq> [] then ret direct
       else bindM (hop store name TO_HEAD_ADJECTIVE ''a'') (\<lambda>as.
            bindM (hop store name TO_HEAD_ADJECTIVE ''s'') (\<lambda>ss.
              forM (\<lambda>head out. bindM (hop store head TO_NOUN ''n'') (\<lambda>ns. ret (fold emit ns out))) (as @ ss) []))))"

definition projected_nouns_for :: "nat option \<Rightarrow> string \<Rightarrow> (driver, string list) prog" where
  "projected_nouns_for = projected_to 2"

definition project_pos :: "nat option \<Rightarrow> string \<Rightarrow> string \<Rightarrow> string list \<Rightarrow> (driver, string list) prog" where
  "project_pos store w pos out =
     bindM (held_senses w pos) (\<lambda>xs.
       forM (\<lambda>x out. bindM (getsM dr_source) (\<lambda>src.
         bindM (projected_nouns_for (case store of None \<Rightarrow> src | Some a \<Rightarrow> Some a) (sy_name x)) (\<lambda>ns. ret (fold emit ns out)))) xs out)"

definition projected_synsets_for :: "string \<Rightarrow> nat option \<Rightarrow> (driver, string list) prog" where
  "projected_synsets_for word store = (let w = py_lower (py_strip (fold_to_lexicon word)) in
     if length w \<le> 1 then ret [] else forM (project_pos store w) [''a'', ''s'', ''r''] [])"

section \<open>Associative hops\<close>

text \<open>The costs already measured, by store, source, target and label.\<close>

type_synonym costs = "((nat \<times> string \<times> string \<times> string) \<times> real) list"

type_synonym lookups = "costs \<times> driver"

definition on_driver :: "(driver, 'a) prog \<Rightarrow> (lookups, 'a) prog" where
  "on_driver m = (\<lambda>(c, w). case m w of (r, w') \<Rightarrow> (r, c, w'))"

definition edge_ends :: "store \<Rightarrow> string \<Rightarrow> string \<Rightarrow> string \<Rightarrow> (nat \<times> nat) option" where
  "edge_ends s src dst label = map_option (\<lambda>es.
     (length (filter (\<lambda>e. ed_src e = src \<and> ed_label e = label) es),
      length (filter (\<lambda>e. ed_dst e = dst \<and> ed_label e = label) es))) (so_edges s)"

definition hop_cost :: "nat \<Rightarrow> string \<Rightarrow> string \<Rightarrow> string \<Rightarrow> (lookups, real option) prog" where
  "hop_cost store src dst label =
     bindM (getsM (\<lambda>(c, w). edge_ends (dr_stores w store) src dst label)) (\<lambda>ends. case ends of
       None \<Rightarrow> raise (AttributeError ''read'')
     | Some (out, inn) \<Rightarrow>
         bindM (getsM (\<lambda>(c, w). map_of c (store, src, dst, label))) (\<lambda>known. case known of
           Some d \<Rightarrow> ret (Some d)
         | None \<Rightarrow>
             if out = 0 \<or> inn = 0 then ret None
             else let d = ln (max 1 (real out)) + ln (max 1 (real inn)) in
               bindM (modifyM (\<lambda>(c, w). (AList.update (store, src, dst, label) d c, w))) (\<lambda>_. ret (Some d))))"

fun related_rows :: "nat \<Rightarrow> string list \<Rightarrow> edge list \<Rightarrow> (string \<times> real) list \<Rightarrow> (lookups, (string \<times> real) list) prog" where
  "related_rows store exclude [] out = ret out"
| "related_rows store exclude (e # es) out =
     (if ed_label e \<in> set exclude then related_rows store exclude es out
      else bindM (hop_cost store (ed_src e) (ed_dst e) (ed_label e)) (\<lambda>d. case d of
        None \<Rightarrow> related_rows store exclude es out
      | Some d \<Rightarrow> bindM (on_driver (n_of (VStr (ed_dst e)) (Some store))) (\<lambda>target.
          related_rows store exclude es (out @ [(target, d)]))))"

definition IS_A :: "string list" where
  "IS_A = [''hypernym'', ''instance_of'', ''instance_hypernym'']"

definition related :: "nat \<Rightarrow> string \<Rightarrow> string list \<Rightarrow> (lookups, (string \<times> real) list) prog" where
  "related store name exclude =
     bindM (on_driver (concept_ids name (Some store))) (\<lambda>found. let ids = (if found = [] then [name] else found) in
     bindM (getsM (\<lambda>(c, w). edges_from (dr_stores w store) ids)) (\<lambda>rows.
       case rows of None \<Rightarrow> ret [] | Some es \<Rightarrow> related_rows store exclude es []))"

end
