(* ===== verification/Ontology_Lookup_Laws.thy ===== *)
theory Ontology_Lookup_Laws
  imports Ontology_Lookup Ontology_Driver_Laws
begin

text \<open>
  What the lookups guarantee: the tokeniser loses no letter and reads its own output back, a lookup
  always answers and never nests more than two calls, a modifier is only ever projected to nouns, and
  an associative hop is free exactly when the edge is the only way out and the only way in.
\<close>

section \<open>Characters\<close>

definition in_lexicon :: "char \<Rightarrow> bool" where
  "in_lexicon c \<longleftrightarrow> lower_char (fold_char c) = c"

definition foldable :: "nat \<Rightarrow> bool" where
  "foldable n \<longleftrightarrow> list_ex (\<lambda>(lo, hi, b). lo \<le> n \<and> n \<le> hi) NFD_BASES"

definition ascii_letter :: "nat \<Rightarrow> bool" where
  "ascii_letter n \<longleftrightarrow> 65 \<le> n \<and> n \<le> 90 \<or> 97 \<le> n \<and> n \<le> 122"

lemma NFD_BASES_letters: "list_all (\<lambda>(lo, hi, b). ascii_letter (code b)) NFD_BASES"
  by (simp add: NFD_BASES_def ascii_letter_def code_def)

lemma fold_char_cases:
  "\<not> foldable (code c) \<Longrightarrow> fold_char c = c"
  "foldable (code c) \<Longrightarrow> ascii_letter (code (fold_char c))"
proof -
  have none: "find (\<lambda>(lo, hi, b). lo \<le> code c \<and> code c \<le> hi) NFD_BASES = None \<longleftrightarrow> \<not> foldable (code c)"
    by (auto simp: find_None_iff foldable_def list_ex_iff)
  then show "\<not> foldable (code c) \<Longrightarrow> fold_char c = c" by (simp add: fold_char_def)
  assume "foldable (code c)"
  then obtain lo hi b where f: "find (\<lambda>(lo, hi, b). lo \<le> code c \<and> code c \<le> hi) NFD_BASES = Some (lo, hi, b)"
    using none by (metis option.exhaust prod_cases3)
  then have "(lo, hi, b) \<in> set NFD_BASES" unfolding find_Some_iff by (metis nth_mem)
  then have "ascii_letter (code b)" using NFD_BASES_letters by (auto simp: list_all_iff)
  then show "ascii_letter (code (fold_char c))" unfolding fold_char_def f by simp
qed

lemma foldable_code: "foldable n \<longleftrightarrow> 192 \<le> n \<and> n \<le> 197 \<or> 199 \<le> n \<and> n \<le> 199 \<or> 200 \<le> n \<and> n \<le> 203 \<or> 204 \<le> n \<and> n \<le> 207 \<or> 209 \<le> n \<and> n \<le> 209
    \<or> 210 \<le> n \<and> n \<le> 214 \<or> 217 \<le> n \<and> n \<le> 220 \<or> 221 \<le> n \<and> n \<le> 221 \<or> 224 \<le> n \<and> n \<le> 229 \<or> 231 \<le> n \<and> n \<le> 231
    \<or> 232 \<le> n \<and> n \<le> 235 \<or> 236 \<le> n \<and> n \<le> 239 \<or> 241 \<le> n \<and> n \<le> 241 \<or> 242 \<le> n \<and> n \<le> 246 \<or> 249 \<le> n \<and> n \<le> 252
    \<or> 253 \<le> n \<and> n \<le> 253 \<or> 255 \<le> n \<and> n \<le> 255"
  unfolding foldable_def NFD_BASES_def by (simp only: list_ex_Nil_iff list_ex_Cons_iff prod.case disj_assoc simp_thms)

lemma in_lexiconI: "\<not> foldable (code c) \<Longrightarrow> \<not> py_isupper c \<Longrightarrow> in_lexicon c"
  by (simp add: in_lexicon_def fold_char_cases lower_char_id)

lemma code_lower: "code (lower_char c) = (if py_isupper c then code c + 32 else code c)"
  by (auto simp: lower_char_def py_isupper_def Let_def)

lemma in_lexicon_lower: "in_lexicon (lower_char (fold_char c))"
proof (rule in_lexiconI)
  let ?d = "fold_char c"
  have "ascii_letter (code ?d) \<or> \<not> foldable (code ?d)" using fold_char_cases [of c] by (cases "foldable (code c)") auto
  then show "\<not> foldable (code (lower_char ?d))"
  proof (elim disjE)
    assume "ascii_letter (code ?d)"
    then have "code (lower_char ?d) < 192" unfolding code_lower ascii_letter_def by auto
    then show ?thesis unfolding foldable_code by linarith
  next
    assume n: "\<not> foldable (code ?d)"
    show ?thesis
    proof (cases "py_isupper ?d")
      case True
      then consider "code ?d \<le> 90" | "192 \<le> code ?d" "code ?d \<le> 222" "code ?d \<noteq> 215"
        unfolding py_isupper_def Let_def by linarith
      then show ?thesis
      proof cases
        case 2
        then have "code ?d \<in> {198, 208, 216, 222}" using n unfolding foldable_code by simp presburger
        then show ?thesis using True unfolding code_lower foldable_code by auto
      qed (simp add: code_lower foldable_code True)
    qed (simp add: lower_char_id n)
  qed
qed simp

lemma fold_hyphen: "lower_char (fold_char c) = CHR ''-'' \<longleftrightarrow> c = CHR ''-''"
proof (cases "foldable (code c)")
  case True
  then have "ascii_letter (code (fold_char c))" by (rule fold_char_cases)
  then have "code (lower_char (fold_char c)) \<noteq> 45" unfolding code_lower ascii_letter_def by auto
  moreover have "code c \<noteq> 45" using True by (auto simp: foldable_code)
  moreover have "code (CHR ''-'') = 45" by (simp add: code_def)
  ultimately show ?thesis by metis
next
  case False
  have "lower_char c = CHR ''-'' \<longleftrightarrow> c = CHR ''-''" by (rule lower_char_eq_id) (simp_all add: py_isupper_def code_def)
  then show ?thesis using False by (simp add: fold_char_cases)
qed

lemma lexicon_text: "list_all in_lexicon (py_lower (fold_to_lexicon s))"
  by (simp add: py_lower_def fold_to_lexicon_def list_all_iff in_lexicon_lower)

lemma lexicon_text_id: "list_all in_lexicon s \<Longrightarrow> py_lower (fold_to_lexicon s) = s"
  by (induction s) (auto simp: py_lower_def fold_to_lexicon_def in_lexicon_def)

lemma space_separates: "\<not> word_letter (CHR '' '')" "\<not> word_tail (CHR '' '')" "in_lexicon (CHR '' '')"
  by (simp_all add: word_letter_def word_tail_def code_def in_lexiconI foldable_code py_isupper_def)

section \<open>The tokeniser\<close>

definition token :: "string \<Rightarrow> bool" where
  "token t \<longleftrightarrow> (case t of [] \<Rightarrow> False | c # cs \<Rightarrow> word_letter c \<and> list_all word_tail cs)"

lemma lemma_words_cases:
  obtains (none) "dropWhile (\<lambda>c. \<not> word_letter c) s = []" "lemma_words s = []"
  | (word) c cs where "dropWhile (\<lambda>c. \<not> word_letter c) s = c # cs"
      "lemma_words s = (c # takeWhile word_tail cs) # lemma_words (dropWhile word_tail cs)" "word_letter c"
proof (cases "dropWhile (\<lambda>c. \<not> word_letter c) s")
  case Nil
  moreover from this have "lemma_words s = []" by (subst lemma_words.simps) (simp only: list.case)
  ultimately show ?thesis using that(1) by blast
next
  case (Cons c cs)
  moreover have "word_letter c" using hd_dropWhile [of "\<lambda>c. \<not> word_letter c" s] Cons by simp
  moreover have "lemma_words s = (c # takeWhile word_tail cs) # lemma_words (dropWhile word_tail cs)"
    using Cons by (subst lemma_words.simps) (simp only: list.case)
  ultimately show ?thesis using that(2) by blast
qed

lemma filter_dropWhile_not: "filter P (dropWhile (\<lambda>x. \<not> P x) xs) = filter P xs"
  by (induction xs) auto

lemma lemma_words_keep: "list_all token (lemma_words s) \<and> filter word_letter (concat (lemma_words s)) = filter word_letter s
    \<and> set (concat (lemma_words s)) \<subseteq> set s"
proof (induction "length s" arbitrary: s rule: less_induct)
  case less
  show ?case
  proof (cases s rule: lemma_words_cases)
    case none
    then show ?thesis using filter_dropWhile_not [of word_letter s] by simp
  next
    case (word c cs)
    let ?t = "takeWhile word_tail cs"
    let ?r = "dropWhile word_tail cs"
    have split: "filter word_letter ?t @ filter word_letter ?r = filter word_letter cs" "set ?t \<union> set ?r = set cs"
      by (simp_all flip: filter_append set_append)
    have sub: "set (c # cs) \<subseteq> set s" using word(1) by (metis set_dropWhileD subsetI)
    have "length (c # cs) \<le> length s" using word(1) by (metis length_dropWhile_le)
    then have "length ?r < length s" using length_dropWhile_le [of word_tail cs] by simp
    note IH = less [OF this]
    have "filter word_letter s = filter word_letter (c # cs)" using word(1) filter_dropWhile_not [of word_letter s] by simp
    then have "filter word_letter (concat (lemma_words s)) = filter word_letter s" using IH word(2,3) split(1) by simp
    moreover have "list_all word_tail ?t" by (auto simp: list_all_iff dest: set_takeWhileD)
    then have "list_all token (lemma_words s)" using IH word(2,3) by (simp add: token_def)
    moreover have "set (concat (lemma_words s)) \<subseteq> set s" using IH word(2) sub split(2) by auto
    ultimately show ?thesis by blast
  qed
qed

text \<open>Tokens written with a space after each are read back.\<close>

lemma lemma_words_spaced: "list_all token ts \<Longrightarrow> lemma_words (concat (map (\<lambda>t. t @ '' '') ts)) = ts"
proof (induction ts)
  case Nil
  show ?case by (simp add: lemma_words.simps)
next
  case (Cons t ts)
  then obtain c cs where t: "t = c # cs" "word_letter c" "list_all word_tail cs" by (auto simp: token_def split: list.splits)
  let ?r = "concat (map (\<lambda>t. t @ '' '') ts)"
  have tw: "takeWhile word_tail (cs @ CHR '' '' # ?r) = cs" "dropWhile word_tail (cs @ CHR '' '' # ?r) = CHR '' '' # ?r"
    using t(3) space_separates by (auto simp: list_all_iff takeWhile_append dropWhile_append)
  have "lemma_words (CHR '' '' # ?r) = lemma_words ?r"
    by (subst (1 2) lemma_words.simps) (simp add: space_separates)
  then show ?case using Cons t tw by (subst lemma_words.simps) simp
qed

definition respaced :: "string list \<Rightarrow> string" where
  "respaced ts = concat (map (\<lambda>t. t @ '' '') ts)"

lemma lexicon_of_tokens: "set (concat ts) \<subseteq> set s \<Longrightarrow> list_all in_lexicon s \<Longrightarrow> list_all in_lexicon (respaced ts)"
  by (auto simp: respaced_def list_all_iff space_separates)

text \<open>The tokeniser keeps every letter of the folded text, in order, in tokens that start with a letter
  and hold only letters, apostrophes and hyphens.\<close>

theorem tokens_keep_letters:
  "list_all token (lemma_tokens text' m)
   \<and> filter word_letter (concat (lemma_tokens text' 1)) = filter word_letter (py_lower (fold_to_lexicon text'))"
proof -
  let ?s = "py_lower (fold_to_lexicon text')"
  have "list_all token (lemma_words ?s)" by (simp add: lemma_words_keep)
  moreover from this have "filter (\<lambda>t. 1 \<le> length t) (lemma_words ?s) = lemma_words ?s"
    unfolding filter_id_conv by (auto simp: list_all_iff token_def Suc_le_eq split: list.splits)
  ultimately show ?thesis
    using lemma_words_keep [of ?s] by (simp add: lemma_tokens_def list_all_iff)
qed

text \<open>Tokenising is stable: the tokens of a text, written out again with a space after each, are
  tokenised to themselves.\<close>

theorem tokens_round_trip: "lemma_tokens (respaced (lemma_tokens text' m)) m = lemma_tokens text' m"
proof -
  let ?s = "py_lower (fold_to_lexicon text')"
  let ?ts = "lemma_tokens text' m"
  have sub: "set ?ts \<subseteq> set (lemma_words ?s)" by (auto simp: lemma_tokens_def)
  then have "set (concat ?ts) \<subseteq> set ?s" using lemma_words_keep [of ?s] by auto
  then have lex: "py_lower (fold_to_lexicon (respaced ?ts)) = respaced ?ts"
    by (intro lexicon_text_id lexicon_of_tokens [of _ ?s] lexicon_text)
  have "list_all token ?ts" using sub lemma_words_keep [of ?s] by (auto simp: list_all_iff)
  then have "lemma_words (respaced ?ts) = ?ts" unfolding respaced_def by (rule lemma_words_spaced)
  then show ?thesis by (simp add: lemma_tokens_def [of "respaced ?ts"] lex) (simp add: lemma_tokens_def)
qed

section \<open>A lookup always answers\<close>

lemma settles_held_senses: "settles (held_senses word pos) (\<lambda>_. True)"
  unfolding held_senses_def by (intro settles_bind [where P = "\<lambda>_. True"] settles_catch settles_ret TrueI)

lemma settles_whole_senses: "settles (whole_senses w) (\<lambda>_. True)"
  unfolding whole_senses_def by (intro settles_bind [where P = "\<lambda>_. True"] settles_held_senses settles_ret TrueI)

definition plain :: "string \<Rightarrow> bool" where
  "plain s \<longleftrightarrow> CHR ''-'' \<notin> set s"

lemma strip_sub: "set (py_strip s) \<subseteq> set s"
  by (auto simp: py_strip_def py_rstrip_def py_lstrip_def dest!: set_dropWhileD)

lemma plain_lower_fold: "plain (py_lower (fold_to_lexicon s)) \<longleftrightarrow> plain s"
proof -
  have "CHR ''-'' \<in> set (py_lower (fold_to_lexicon s)) \<longleftrightarrow> (\<exists>c \<in> set s. lower_char (fold_char c) = CHR ''-'')"
    by (auto simp: py_lower_def fold_to_lexicon_def image_iff eq_commute)
  then show ?thesis by (simp add: plain_def fold_hyphen)
qed

lemma lower_hyphen: "lower_char c = CHR ''-'' \<Longrightarrow> c = CHR ''-''"
  using lower_char_eq_id [of "CHR ''-''" c] by (simp add: py_isupper_def code_def)

lemma plain_lower: "plain s \<Longrightarrow> plain (py_lower s)"
  unfolding plain_def py_lower_def by (induction s) (auto dest: lower_hyphen [OF sym])

lemma plain_tokens: "plain s \<Longrightarrow> list_all plain (lemma_tokens s m)"
proof -
  assume "plain s"
  then have "plain (py_lower (fold_to_lexicon s))" by (simp add: plain_lower_fold)
  then show ?thesis
    using lemma_words_keep [of "py_lower (fold_to_lexicon s)"] by (auto simp: lemma_tokens_def plain_def list_all_iff)
qed

lemma hyphen_parts_plain: "settles (hyphen_fallback_parts t) (list_all plain)"
proof -
  have "plain (map (\<lambda>c. if c = CHR ''-'' then CHR '' '' else c) s)" for s by (auto simp: plain_def)
  then show ?thesis
    unfolding hyphen_fallback_parts_def Let_def
    by (auto intro!: settles_ret settles_bind [where P = "\<lambda>_. True"] settles_catch plain_tokens)
qed

lemma hyphen_parts_none: "plain t \<Longrightarrow> hyphen_fallback_parts t = ret []"
proof -
  assume "plain t"
  then have "plain (py_strip t)" using strip_sub [of t] by (auto simp: plain_def)
  then have "plain (py_lower (py_strip t))" by (simp add: plain_lower)
  then show ?thesis by (simp add: hyphen_fallback_parts_def plain_def)
qed

definition entry_form :: "string \<Rightarrow> string" where
  "entry_form word = py_lower (py_strip (fold_to_lexicon word))"

lemma plain_entry: "plain word \<Longrightarrow> plain (entry_form word)"
proof -
  assume "plain word"
  then have "CHR ''-'' \<notin> set (py_lower (fold_to_lexicon word))" using plain_lower_fold [of word] unfolding plain_def by blast
  moreover have "set (entry_form word) \<subseteq> set (py_lower (fold_to_lexicon word))"
    using strip_sub [of "fold_to_lexicon word"] by (auto simp: entry_form_def py_lower_def)
  ultimately show ?thesis by (auto simp: plain_def)
qed

lemma lookup_Suc: "wn_synsets_for_to (Suc n) word = (if length (entry_form word) \<le> 1 then ret []
    else bindM (whole_senses (entry_form word)) (\<lambda>res. if res \<noteq> [] then ret res
      else bindM (hyphen_fallback_parts (entry_form word)) (\<lambda>parts.
        forM (\<lambda>part out. bindM (wn_synsets_for_to n part) (\<lambda>names. ret (fold emit names out))) parts [])))"
  unfolding wn_synsets_for_to.simps Let_def entry_form_def ..

lemma lookup_plain: "plain word \<Longrightarrow> wn_synsets_for_to (Suc n) word = (if length (entry_form word) \<le> 1 then ret []
    else bindM (whole_senses (entry_form word)) (\<lambda>res. if res \<noteq> [] then ret res else ret []))"
proof -
  assume "plain word"
  then have "hyphen_fallback_parts (entry_form word) = ret []" by (intro hyphen_parts_none plain_entry)
  moreover have "bindM (ret []) (\<lambda>parts. forM g parts []) = ret []" for g :: "string \<Rightarrow> string list \<Rightarrow> (driver, string list) prog"
    by (rule ext) simp
  ultimately show ?thesis unfolding lookup_Suc by (simp only: cong: if_cong)
qed

lemma settles_lookup_plain: "plain word \<Longrightarrow> settles (wn_synsets_for_to (Suc n) word) (\<lambda>_. True)"
  unfolding lookup_plain
  by (auto simp del: wn_synsets_for_to.simps intro!: settles_ret settles_bind [where P = "\<lambda>_. True"] settles_whole_senses)

lemma settles_lookup: "settles (wn_synsets_for_to (Suc (Suc n)) word) (\<lambda>_. True)"
  unfolding lookup_Suc [of "Suc n"]
  by (auto simp: list_all_iff simp del: wn_synsets_for_to.simps
       intro!: settles_ret settles_forM settles_bind [where P = "\<lambda>_. True"] settles_whole_senses
         settles_bind [OF hyphen_parts_plain] settles_bind [OF settles_lookup_plain])

lemma lookup_depth: "wn_synsets_for_to (Suc (Suc n)) word = wn_synsets_for_to (Suc (Suc 0)) word"
proof -
  have "bindM (hyphen_fallback_parts t) (\<lambda>parts. forM (\<lambda>part out. bindM (wn_synsets_for_to (Suc n) part) (\<lambda>names. ret (fold emit names out))) parts [])
      = bindM (hyphen_fallback_parts t) (\<lambda>parts. forM (\<lambda>part out. bindM (wn_synsets_for_to (Suc 0) part) (\<lambda>names. ret (fold emit names out))) parts [])" for t
    by (rule bind_same [OF settles_yields [OF hyphen_parts_plain]], rule forM_same) (simp add: list_all_iff lookup_plain del: wn_synsets_for_to.simps)
  then show ?thesis unfolding lookup_Suc [of "Suc n"] lookup_Suc [of "Suc 0"] by (simp only: cong: if_cong)
qed

text \<open>C26: A lookup always answers, whatever the driver does, and never nests more than two calls: the parts of
  a word carry no hyphen, so they are not taken apart again.\<close>

theorem lookup_answers:
  "(\<exists>names w'. wn_synsets_for word w = (Inr names, w')) \<and> wn_synsets_for_to (2 + n) word = wn_synsets_for word"
  using settlesD [OF settles_lookup [of 0 word]] lookup_depth [of n word]
  by (auto simp: wn_synsets_for_def numeral_2_eq_2)

section \<open>A modifier is projected to nouns\<close>

definition names_of :: "string \<Rightarrow> string list \<Rightarrow> bool" where
  "names_of k xs \<longleftrightarrow> distinct xs \<and> list_all (\<lambda>x. pos_of x = k) xs"

lemma names_of_emit: "names_of k out \<Longrightarrow> pos_of x = k \<Longrightarrow> names_of k (emit x out)"
  by (auto simp: names_of_def emit_def)

lemma names_of_fold: "names_of k out \<Longrightarrow> list_all (\<lambda>x. pos_of x = k) ns \<Longrightarrow> names_of k (fold emit ns out)"
  by (induction ns arbitrary: out) (auto intro: names_of_emit)

lemma names_of_Nil: "names_of k []"
  by (simp add: names_of_def)

lemma hop_rows_pos: "names_of k out \<Longrightarrow> yields (hop_rows labels k store es out) (names_of k)"
proof (induction es arbitrary: out)
  case Nil
  then show ?case by (simp only: hop_rows.simps does_ret)
next
  case (Cons e es)
  have "yields (hop_rows labels k store es (if pos_of target = k then emit target out else out)) (names_of k)" for target
    by (rule Cons.IH) (simp add: Cons.prems names_of_emit)
  then show ?case
    using Cons.IH [OF Cons.prems] unfolding hop_rows.simps by (auto intro: does_keep [OF yields_any])
qed

lemma hop_pos: "yields (hop store name labels k) (names_of k)"
proof -
  have "yields (case rows of None \<Rightarrow> ret [] | Some es \<Rightarrow> hop_rows labels k store es []) (names_of k)" for rows
    by (cases rows) (simp_all only: option.case does_ret names_of_Nil hop_rows_pos)
  then show ?thesis unfolding hop_def Let_def by (intro does_keep [OF yields_any])
qed

lemma yields_each:
  assumes "\<And>x. x \<in> set xs \<Longrightarrow> yields (m x) (names_of k)"
  shows "yields (forM (\<lambda>x out. bindM (m x) (\<lambda>ns. ret (fold emit ns out))) xs []) (names_of k)"
proof (rule does_forM)
  fix x out assume x: "x \<in> set xs" "names_of k out"
  show "yields (bindM (m x) (\<lambda>ns. ret (fold emit ns out))) (names_of k)"
    by (rule does_keep [OF assms [OF x(1)]], rule does_ret, rule names_of_fold [OF x(2)]) (simp add: names_of_def)
qed (rule names_of_Nil)

lemma projection_Suc: "projected_to (Suc depth) store name = (if pos_of name = ''r'' then
       bindM (hop store name ADVERB_TO_ADJECTIVE ''a'') (\<lambda>as.
       bindM (hop store name ADVERB_TO_ADJECTIVE ''s'') (\<lambda>ss.
         forM (\<lambda>adjective out. bindM (projected_to depth store adjective) (\<lambda>ns. ret (fold emit ns out))) (as @ ss) []))
     else if pos_of name \<notin> {''a'', ''s''} then ret []
     else bindM (hop store name TO_NOUN ''n'') (\<lambda>direct.
       if direct \<noteq> [] then ret direct
       else bindM (hop store name TO_HEAD_ADJECTIVE ''a'') (\<lambda>as.
            bindM (hop store name TO_HEAD_ADJECTIVE ''s'') (\<lambda>ss.
              forM (\<lambda>head out. bindM (hop store head TO_NOUN ''n'') (\<lambda>ns. ret (fold emit ns out))) (as @ ss) []))))"
  unfolding projected_to.simps Let_def ..

lemma projection_pos: "yields (projected_to depth store name) (names_of ''n'')"
proof (induction depth arbitrary: name)
  case 0
  then show ?case by (simp only: projected_to.simps does_raise)
next
  case (Suc depth)
  have "yields (if direct \<noteq> [] then ret direct else m) (names_of ''n'')"
    if "names_of ''n'' direct" "yields m (names_of ''n'')" for direct m
    using that by (cases "direct = []") (simp_all only: if_True if_False not_True_eq_False simp_thms does_ret)
  note either = this
  show ?case
  proof (cases "pos_of name = ''r''")
    case True
    show ?thesis unfolding projection_Suc if_P [OF True] by (intro does_keep [OF yields_any] yields_each Suc)
  next
    case False
    show ?thesis unfolding projection_Suc if_not_P [OF False]
    proof (cases "pos_of name \<notin> {''a'', ''s''}")
      case adjective: False
      show "yields (if pos_of name \<notin> {''a'', ''s''} then ret [] else bindM (hop store name TO_NOUN ''n'') (\<lambda>direct.
          if direct \<noteq> [] then ret direct else bindM (hop store name TO_HEAD_ADJECTIVE ''a'') (\<lambda>as.
            bindM (hop store name TO_HEAD_ADJECTIVE ''s'') (\<lambda>ss.
              forM (\<lambda>head out. bindM (hop store head TO_NOUN ''n'') (\<lambda>ns. ret (fold emit ns out))) (as @ ss) [])))) (names_of ''n'')"
        unfolding if_not_P [OF adjective]
        by (rule does_keep [OF hop_pos], rule either, assumption) (intro does_keep [OF yields_any] yields_each hop_pos)
    qed (simp only: if_True simp_thms does_ret names_of_Nil)
  qed
qed

lemma projection_adjective: "pos_of name \<in> {''a'', ''s''} \<Longrightarrow> projected_to (Suc n) store name = projected_to (Suc m) store name"
  unfolding projection_Suc by (elim insertE emptyE) simp_all

lemma projection_depth: "projected_to (Suc (Suc n)) store name = projected_to (Suc (Suc 0)) store name"
proof (cases "pos_of name = ''r''")
  case True
  have "projected_to (Suc n) store a = projected_to (Suc 0) store a" if "a \<in> set (as @ ss)" "names_of ''a'' as" "names_of ''s'' ss" for a as ss
    using that by (intro projection_adjective) (auto simp: names_of_def list_all_iff)
  then show ?thesis
    unfolding projection_Suc [of "Suc n"] projection_Suc [of "Suc 0"] if_P [OF True]
    by (intro bind_same [OF hop_pos] forM_same) simp
next
  case False
  then show ?thesis unfolding projection_Suc [of "Suc n"] projection_Suc [of "Suc 0"] by simp
qed

text \<open>C27: A modifier is only ever projected to nouns, each once, and the walk never nests more than two calls:
  an adverb reaches adjectives, and an adjective reaches nouns or its head.\<close>

theorem projection_is_nominal:
  "(case fst (projected_nouns_for store name w) of Inl _ \<Rightarrow> True | Inr ns \<Rightarrow> distinct ns \<and> list_all (\<lambda>n. pos_of n = ''n'') ns)
   \<and> projected_to (2 + n) store name = projected_nouns_for store name"
proof
  show "case fst (projected_nouns_for store name w) of Inl _ \<Rightarrow> True | Inr ns \<Rightarrow> distinct ns \<and> list_all (\<lambda>n. pos_of n = ''n'') ns"
    using projection_pos [of 2 store name]
    by (auto simp: does_def names_of_def projected_nouns_for_def split: sum.split)
  show "projected_to (2 + n) store name = projected_nouns_for store name"
    using projection_depth [of n store name] by (simp add: projected_nouns_for_def numeral_2_eq_2)
qed

section \<open>Associative hops\<close>

text \<open>A hop whose edges can be counted costs the logarithm of the choices both ways: it is free exactly when
  the edge is the only way out and the only way in, and has no cost when the graph does not attest it.\<close>

theorem hop_cost_counts:
  assumes "edge_ends (dr_stores w store) src dst label = Some (out, inn)" "map_of c (store, src, dst, label) = None"
  shows "if out = 0 \<or> inn = 0 then fst (hop_cost store src dst label (c, w)) = Inr None
    else \<exists>d. fst (hop_cost store src dst label (c, w)) = Inr (Some d) \<and> d = ln (real (out * inn))
      \<and> 0 \<le> d \<and> (d = 0 \<longleftrightarrow> out = 1 \<and> inn = 1)"
proof (cases "out = 0 \<or> inn = 0")
  case False
  then have "1 \<le> real out" "1 \<le> real inn" by linarith+
  then have d: "ln (max 1 (real out)) + ln (max 1 (real inn)) = ln (real (out * inn))" by (simp add: ln_mult max_def)
  have "0 < out * inn" using False by simp
  then have "1 \<le> real (out * inn)" by linarith
  moreover from this have "ln (real (out * inn)) = 0 \<longleftrightarrow> real (out * inn) = 1" by (subst ln_eq_zero_iff) linarith+
  ultimately have "0 \<le> ln (real (out * inn))" "ln (real (out * inn)) = 0 \<longleftrightarrow> out * inn = 1" by (simp, linarith)
  then show ?thesis using False assms d by (simp add: hop_cost_def Let_def del: of_nat_mult)
qed (use assms in \<open>simp add: hop_cost_def\<close>)

text \<open>What the cache answers once a hop was measured: the writes to the edges since are not seen.\<close>

lemma hop_cost_remembered:
  assumes "map_of c (store, src, dst, label) = Some d" "edge_ends (dr_stores w store) src dst label \<noteq> None"
  shows "hop_cost store src dst label (c, w) = (Inr (Some d), c, w)"
  using assms by (auto simp: hop_cost_def)

text \<open>Two edges out of \<open>a\<close> under one label, one of them into \<open>b\<close>.\<close>

definition ex_linked :: store where
  "ex_linked = (ex_dog_store 1)\<lparr>so_edges := Some
     [\<lparr> ed_src = ''a'', ed_dst = ''b'', ed_label = ''topic'', ed_props = [] \<rparr>,
      \<lparr> ed_src = ''a'', ed_dst = ''c'', ed_label = ''topic'', ed_props = [] \<rparr>]\<rparr>"

theorem hop_cost_counts_witness:
  "\<exists>d. fst (hop_cost 0 ''a'' ''b'' ''topic'' ([], driver_start (\<lambda>_. ex_linked) ex_no_float)) = Inr (Some d) \<and> d = ln 2"
proof -
  let ?w = "driver_start (\<lambda>_. ex_linked) ex_no_float"
  have "edge_ends (dr_stores ?w 0) ''a'' ''b'' ''topic'' = Some (2, 1)"
    by (simp add: driver_start_def edge_ends_def ex_linked_def)
  then show ?thesis using hop_cost_counts [where w = ?w and c = "[]"] by fastforce
qed

end
