(* ===== verification/Crystal_Object.thy ===== *)
theory Crystal_Object
  imports Effects
begin

text \<open>
  The crystal as a live object (\<open>crystal.py\<close>): its structure, the conversions bound onto its facets,
  the discharge of an organon through its two gates, and the flow of a signal over the membrane.

  What the object is given is not under \<open>src\<close>, and is a parameter. The contract of \<open>prism\<close> (validation,
  content address, reach of a capability) is the record \<open>contract\<close>. The embodiment and the accountant are
  the record \<open>slots\<close>: for each member the object asks for, what \<open>prism.embodiment.require\<close> answers, the
  member or the exception of its absence. A screen is the function from what was asked of it so far, and
  what is asked now, to its answer. A frame, a surface and a concept are Python values.
\<close>

section \<open>What it is given\<close>

record reach =
  rc_required :: string
  rc_basis :: string
  rc_nearest :: pyval

record contract =
  ct_validate :: "pyval dict \<Rightarrow> string list"
  ct_sha :: "pyval dict \<Rightarrow> string"
  ct_artifact :: "pyval dict \<Rightarrow> pyval dict res"
  ct_verify :: "pyval dict \<Rightarrow> pyval dict res"
  ct_required :: "pyval dict \<Rightarrow> string list"
  ct_activates :: "pyval dict \<Rightarrow> string list option \<Rightarrow> bool"
  ct_reach :: "pyval list \<Rightarrow> string list \<Rightarrow> reach list"

type_synonym callable = "pyval \<Rightarrow> pyval res"

datatype ask =
    Register string callable "callable option" "callable option" "callable option"
  | Place string pyval
  | Render string pyval
  | Couple string string
  | Coupling string string
  | Read
  | Balance
  | Certify string pyval
  | Transfer string string
  | Clear "string option"
  | Placed

type_synonym answers = "ask list \<Rightarrow> ask \<Rightarrow> pyval res"

datatype booking = Absorb pyval pyval pyval pyval | Emit pyval

type_synonym split = "pyval \<times> pyval \<times> pyval"

text \<open>A path ledger is opened on the incident beam at a place; its certificate is read after the bookings.\<close>

record slots =
  sl_absorb :: "(pyval \<Rightarrow> split option res) res"
  sl_screen :: "(pyval dict \<Rightarrow> answers res) res"
  sl_ledger :: "(pyval \<Rightarrow> pyval \<Rightarrow> (booking list \<Rightarrow> pyval dict res) res) res"
  sl_energy :: "callable res"

section \<open>The object\<close>

record binding =
  bd_entry :: "callable option"
  bd_inverse :: "callable option"
  bd_energy :: "callable option"
  bd_zero :: "callable option"

record screen =
  sn_answers :: answers
  sn_asked :: "ask list"

type_synonym parts = "(pyval \<times> pyval) list"

record crystal =
  cr_spec :: "pyval dict"
  cr_facets :: parts
  cr_tektons :: parts
  cr_organons :: parts
  cr_bound :: "binding dict"
  cr_kwargs :: "pyval dict"
  cr_screen :: "screen option"
  cr_incident :: pyval
  cr_split :: "split option"
  cr_slots :: slots

text \<open>\<open>d.get(k, [])\<close> and \<open>d.get(k) or []\<close>, as the lists they are iterated as.\<close>

definition get_list :: "pyval dict \<Rightarrow> string \<Rightarrow> pyval list res" where
  "get_list d k = py_list (case map_of d k of None \<Rightarrow> VList [] | Some v \<Rightarrow> v)"

definition or_list :: "pyval \<Rightarrow> pyval list res" where
  "or_list v = py_list (py_or v (VList []))"

text \<open>\<open>{p["name"]: p for p in ...}\<close>.\<close>

fun by_name :: "pyval list \<Rightarrow> parts \<Rightarrow> parts res" where
  "by_name [] d = Inr d"
| "by_name (p # ps) d = res_bind (py_subscript p ''name'') (\<lambda>n.
     if hashable n then by_name ps (AList.update n p d) else Inl (TypeError ''unhashable''))"

definition crystal_init :: "contract \<Rightarrow> pyval dict \<Rightarrow> slots \<Rightarrow> pyval dict \<Rightarrow> crystal res" where
  "crystal_init ct spec sl kwargs = (let problems = ct_validate ct spec in
     if problems \<noteq> [] then Inl (ValueError (''invalid crystal: '' @ py_join ''; '' problems))
     else res_bind (res_bind (get_list spec ''facets'') (\<lambda>fs. by_name fs [])) (\<lambda>facets.
       res_bind (res_bind (get_list spec ''tektons'') (\<lambda>ts. by_name ts [])) (\<lambda>tektons.
       res_bind (res_bind (or_list (dget spec ''organons'')) (\<lambda>os. by_name os [])) (\<lambda>organons.
         Inr \<lparr> cr_spec = spec, cr_facets = facets, cr_tektons = tektons, cr_organons = organons, cr_bound = [],
               cr_kwargs = kwargs, cr_screen = None, cr_incident = VNone, cr_split = None, cr_slots = sl \<rparr>))))"

definition from_artifact :: "contract \<Rightarrow> pyval dict \<Rightarrow> slots \<Rightarrow> pyval dict \<Rightarrow> crystal res" where
  "from_artifact ct artifact sl kwargs = res_bind (ct_verify ct artifact) (\<lambda>spec. crystal_init ct spec sl kwargs)"

section \<open>Structure and identity\<close>

definition crystal_name :: "crystal \<Rightarrow> pyval res" where
  "crystal_name c = py_subscript (VDict (cr_spec c)) ''name''"

definition crystal_sha :: "contract \<Rightarrow> crystal \<Rightarrow> string" where
  "crystal_sha ct c = ct_sha ct (cr_spec c)"

definition crystal_facets :: "crystal \<Rightarrow> pyval list res" where
  "crystal_facets c = get_list (cr_spec c) ''facets''"

definition crystal_tektons :: "crystal \<Rightarrow> pyval list res" where
  "crystal_tektons c = get_list (cr_spec c) ''tektons''"

definition crystal_organons :: "crystal \<Rightarrow> pyval list res" where
  "crystal_organons c = or_list (dget (cr_spec c) ''organons'')"

definition crystal_artifact :: "contract \<Rightarrow> crystal \<Rightarrow> pyval dict res" where
  "crystal_artifact ct c = ct_artifact ct (cr_spec c)"

definition crystal_required :: "contract \<Rightarrow> crystal \<Rightarrow> string list" where
  "crystal_required ct c = ct_required ct (cr_spec c)"

definition crystal_activates_on :: "contract \<Rightarrow> crystal \<Rightarrow> string list option \<Rightarrow> bool" where
  "crystal_activates_on ct c caps = ct_activates ct (cr_spec c) caps"

definition no_such :: "crystal \<Rightarrow> string \<Rightarrow> string \<Rightarrow> exc" where
  "no_such c kind' name = (case crystal_name c of Inl e \<Rightarrow> e
     | Inr n \<Rightarrow> KeyError (''no such '' @ kind' @ '' on '' @ py_repr n @ '': '' @ repr_str name))"

definition require_facet :: "crystal \<Rightarrow> string \<Rightarrow> pyval res" where
  "require_facet c name = (case map_of (cr_facets c) (VStr name) of
       None \<Rightarrow> Inl (no_such c ''facet'' name)
     | Some f \<Rightarrow> Inr f)"

definition require_organon :: "crystal \<Rightarrow> string \<Rightarrow> pyval res" where
  "require_organon c name = (case map_of (cr_organons c) (VStr name) of
       None \<Rightarrow> Inl (no_such c ''organon'' name)
     | Some o' \<Rightarrow> Inr o')"

definition require_direction :: "crystal \<Rightarrow> string \<Rightarrow> string list \<Rightarrow> string \<Rightarrow> unit res" where
  "require_direction c facet allowed act =
     res_bind (require_facet c facet) (\<lambda>f. res_bind (py_get f ''direction'') (\<lambda>d.
       if d \<in> VStr ` set allowed then Inr ()
       else Inl (ValueError (''facet '' @ repr_str facet @ '' (direction='' @ py_repr d @ '') cannot '' @ act))))"

definition require_bound :: "crystal \<Rightarrow> string \<Rightarrow> unit res" where
  "require_bound c facet = (if map_of (cr_bound c) facet \<noteq> None then Inr ()
     else Inl (ValueError (''facet '' @ repr_str facet @ '' is not bound'')))"

definition crystal_repr :: "crystal \<Rightarrow> string res" where
  "crystal_repr c = res_bind (crystal_name c) (\<lambda>n. Inr (''Crystal(name='' @ py_repr n @ '', facets='' @ nat_str (length (cr_facets c))
     @ '', tektons='' @ nat_str (length (cr_tektons c)) @ '', organons='' @ nat_str (length (cr_organons c)) @ '')''))"

section \<open>Discharge\<close>

definition can_discharge :: "crystal \<Rightarrow> string \<Rightarrow> string list option \<Rightarrow> bool res" where
  "can_discharge c organon caps =
     res_bind (require_organon c organon) (\<lambda>o'. res_bind (py_get o' ''requires'') (\<lambda>v. res_bind (or_list v) (\<lambda>requires.
       if list_all hashable requires
       then Inr (set requires \<subseteq> VStr ` set (case caps of None \<Rightarrow> [] | Some xs \<Rightarrow> xs))
       else Inl (TypeError ''unhashable''))))"

text \<open>An energy is a value, or an object, by its attribute \<open>created_by\<close> when it has one.\<close>

datatype energy = Value pyval | Object "pyval option"

definition principal_of :: "energy \<Rightarrow> string option" where
  "principal_of energy = (let got = (case energy of
       Value (VDict d) \<Rightarrow> dget d ''created_by''
     | Value v \<Rightarrow> VNone
     | Object a \<Rightarrow> (case a of None \<Rightarrow> VNone | Some v \<Rightarrow> v))
     in case got of VStr s \<Rightarrow> if s = [] then None else Some s | _ \<Rightarrow> None)"

record prism_env =
  pe_advertises :: "string list res"
  pe_capability :: callable

type_synonym authority = "string option \<Rightarrow> string \<Rightarrow> string \<Rightarrow> bool res"

datatype discharged =
    Lit string "(pyval \<times> pyval) list"
  | NoHardware string "string list" "reach list"
  | NoAuthority string
  | NoGrant string "string option"

fun handles_of :: "callable \<Rightarrow> pyval list \<Rightarrow> (pyval \<times> pyval) list \<Rightarrow> (pyval \<times> pyval) list res" where
  "handles_of cap [] d = Inr d"
| "handles_of cap (r # rs) d = res_bind (cap r) (\<lambda>h.
     if hashable r then handles_of cap rs (AList.update r h d) else Inl (TypeError ''unhashable''))"

definition crystal_discharge :: "contract \<Rightarrow> crystal \<Rightarrow> string \<Rightarrow> prism_env \<Rightarrow> energy \<Rightarrow> authority option \<Rightarrow> discharged res" where
  "crystal_discharge ct c organon prism energy authority =
     res_bind (require_organon c organon) (\<lambda>o'. res_bind (py_get o' ''requires'') (\<lambda>v. res_bind (or_list v) (\<lambda>requires.
     res_bind (pe_advertises prism) (\<lambda>affords.
     let advertised = sort (remdups affords);
         gaps = filter (\<lambda>m. rc_basis m \<noteq> ''exact'') (ct_reach ct requires advertised) in
     if gaps \<noteq> [] then Inr (NoHardware organon (sort (map rc_required gaps)) gaps)
     else case authority of
       None \<Rightarrow> Inr (NoAuthority organon)
     | Some may_discharge \<Rightarrow>
         let owner = principal_of energy in
         res_bind (may_discharge owner organon (crystal_sha ct c)) (\<lambda>granted.
           if \<not> granted then Inr (NoGrant organon owner)
           else res_bind (handles_of (pe_capability prism) requires []) (\<lambda>handles. Inr (Lit organon handles)))))))"

section \<open>Binding\<close>

text \<open>One question to the screen: it is remembered, whatever the answer.\<close>

definition ask :: "ask \<Rightarrow> (crystal, pyval) prog" where
  "ask q = (\<lambda>c. case cr_screen c of
       None \<Rightarrow> (Inl (AttributeError ''screen''), c)
     | Some s \<Rightarrow> (sn_answers s (sn_asked s) q, c\<lparr>cr_screen := Some (s\<lparr>sn_asked := sn_asked s @ [q]\<rparr>)\<rparr>))"

definition out_only_entry :: "string \<Rightarrow> callable" where
  "out_only_entry facet = (\<lambda>_. Inl (TypeError (''facet '' @ repr_str facet @ '' is out-only'')))"

definition register_facet :: "string \<Rightarrow> (crystal, unit) prog" where
  "register_facet facet = bindM (getsM (\<lambda>c. c)) (\<lambda>c.
     if cr_screen c = None then ret ()
     else case map_of (cr_bound c) facet of
       None \<Rightarrow> raise (KeyError facet)
     | Some b \<Rightarrow>
         bindM (ask (Register facet (case bd_entry b of None \<Rightarrow> out_only_entry facet | Some f \<Rightarrow> f)
                      (bd_inverse b) (bd_energy b) (bd_zero b))) (\<lambda>_. ret ()))"

definition bind_facet :: "string \<Rightarrow> binding \<Rightarrow> (crystal, unit) prog" where
  "bind_facet facet b =
     bindM (getsM (\<lambda>c. require_facet c facet)) (\<lambda>r. bindM (liftR r) (\<lambda>f.
     bindM (liftR (py_get f ''direction'')) (\<lambda>direction.
     if direction \<in> {VStr ''in'', VStr ''both''} \<and> bd_entry b = None
     then raise (ValueError (''facet '' @ repr_str facet @ '' conducts in''))
     else if direction \<in> {VStr ''out'', VStr ''both''} \<and> bd_inverse b = None
     then raise (ValueError (''facet '' @ repr_str facet @ '' conducts out''))
     else bindM (modifyM (\<lambda>c. c\<lparr>cr_bound := AList.update facet b (cr_bound c)\<rparr>)) (\<lambda>_. register_facet facet))))"

section \<open>The flow\<close>

definition the_screen :: "(crystal, unit) prog" where
  "the_screen = bindM (getsM (\<lambda>c. c)) (\<lambda>c.
     if cr_screen c \<noteq> None then ret ()
     else bindM (liftR (sl_screen (cr_slots c))) (\<lambda>membrane_screen.
          bindM (liftR (membrane_screen (cr_kwargs c))) (\<lambda>answers.
          bindM (modifyM (\<lambda>c. c\<lparr>cr_screen := Some \<lparr> sn_answers = answers, sn_asked = [] \<rparr>\<rparr>)) (\<lambda>_.
            forM (\<lambda>facet _. register_facet facet) (map fst (cr_bound c)) ()))))"

definition on_screen :: "ask \<Rightarrow> (crystal, pyval) prog" where
  "on_screen q = bindM the_screen (\<lambda>_. ask q)"

definition checked :: "(crystal \<Rightarrow> unit res) \<Rightarrow> (crystal, unit) prog" where
  "checked check = bindM (getsM check) liftR"

definition conduct :: "string \<Rightarrow> pyval \<Rightarrow> (crystal, pyval) prog" where
  "conduct facet surface =
     bindM (checked (\<lambda>c. require_direction c facet [''in'', ''both''] ''conduct a surface in'')) (\<lambda>_.
     bindM (checked (\<lambda>c. require_bound c facet)) (\<lambda>_.
     bindM (getsM (\<lambda>c. map_of (cr_bound c) facet)) (\<lambda>b.
     bindM (liftR (case Option.bind b bd_entry of None \<Rightarrow> Inl (TypeError ''not callable'') | Some f \<Rightarrow> f surface)) (\<lambda>beam.
     bindM (modifyM (\<lambda>c. c\<lparr>cr_incident := beam, cr_split := None\<rparr>)) (\<lambda>_.
       if beam = VNone then ret VNone else on_screen (Place facet surface))))))"

definition crossing :: "(crystal, split option) prog" where
  "crossing = bindM (getsM (\<lambda>c. c)) (\<lambda>c.
     if cr_split c \<noteq> None then ret (cr_split c)
     else if cr_incident c = VNone then ret None
     else bindM (liftR (sl_absorb (cr_slots c))) (\<lambda>absorb_transmit.
          bindM (liftR (absorb_transmit (cr_incident c))) (\<lambda>r.
          bindM (modifyM (\<lambda>c. c\<lparr>cr_split := r\<rparr>)) (\<lambda>_. ret r))))"

definition condense :: "(crystal, pyval) prog" where
  "condense = bindM crossing (\<lambda>r. ret (case r of
       None \<Rightarrow> VNone
     | Some (absorbed, transmitted, k) \<Rightarrow> if truthy k then absorbed else VNone))"

definition transmit :: "(crystal, pyval) prog" where
  "transmit = bindM crossing (\<lambda>r. ret (case r of None \<Rightarrow> VNone | Some (absorbed, transmitted, k) \<Rightarrow> transmitted))"

definition zero_float :: pyval where
  "zero_float = VFloat ''0.0'' 0"

definition account :: "pyval \<Rightarrow> pyval \<Rightarrow> pyval \<Rightarrow> int \<Rightarrow> pyval \<Rightarrow> pyval dict" where
  "account incident absorbed transmitted k conserved = [(''incident'', incident), (''absorbed'', absorbed),
     (''transmitted'', transmitted), (''k'', VInt k), (''conserved'', conserved)]"

text \<open>\<open>led = PathLedger(...); led.absorb(...); ...; led.certificate()\<close>.\<close>

definition open_ledger :: "(pyval \<Rightarrow> pyval \<Rightarrow> (booking list \<Rightarrow> pyval dict res) res) \<Rightarrow> (crystal, (booking list \<Rightarrow> pyval dict res) \<times> pyval) prog" where
  "open_ledger path_ledger = bindM (getsM (\<lambda>c. c)) (\<lambda>c.
     bindM (liftR (crystal_name c)) (\<lambda>here.
     bindM (liftR (path_ledger (cr_incident c) here)) (\<lambda>led. ret (led, here))))"

definition crystal_ledger :: "(crystal, pyval dict) prog" where
  "crystal_ledger = bindM (getsM (\<lambda>c. c)) (\<lambda>c.
     bindM (liftR (sl_ledger (cr_slots c))) (\<lambda>path_ledger.
     bindM (liftR (sl_energy (cr_slots c))) (\<lambda>energy.
     if cr_incident c = VNone then ret (account zero_float zero_float zero_float 0 (VBool True))
     else bindM crossing (\<lambda>r. case r of
       None \<Rightarrow> bindM (liftR (energy (cr_incident c))) (\<lambda>inc. ret (account inc zero_float inc 0 (VBool True)))
     | Some (absorbed, transmitted, k) \<Rightarrow>
         bindM (open_ledger path_ledger) (\<lambda>(led, here).
         bindM (liftR (led [Absorb absorbed transmitted here k])) (\<lambda>cert.
         bindM (liftR (py_subscript (VDict cert) ''incident'')) (\<lambda>inc.
         bindM (liftR (py_subscript (VDict cert) ''absorbed'')) (\<lambda>taken.
         bindM (liftR (energy transmitted)) (\<lambda>passed.
         bindM (liftR (py_int k)) (\<lambda>n.
         bindM (liftR (py_subscript (VDict cert) ''closed'')) (\<lambda>closed.
           ret (account inc taken passed n closed))))))))))))"

definition crystal_certificate :: "(crystal, pyval dict) prog" where
  "crystal_certificate = bindM (getsM (\<lambda>c. c)) (\<lambda>c.
     bindM (liftR (sl_ledger (cr_slots c))) (\<lambda>path_ledger.
     bindM (open_ledger path_ledger) (\<lambda>(led, here).
     bindM (if cr_incident c \<noteq> VNone then crossing else ret None) (\<lambda>r.
       liftR (led ((case r of None \<Rightarrow> [] | Some (absorbed, transmitted, k) \<Rightarrow> [Absorb absorbed transmitted here k]) @ [Emit here]))))))"

definition crystal_emit :: "string \<Rightarrow> pyval \<Rightarrow> (crystal, pyval) prog" where
  "crystal_emit facet concept =
     bindM (checked (\<lambda>c. require_direction c facet [''out'', ''both''] ''emit a surface out'')) (\<lambda>_.
     bindM (checked (\<lambda>c. require_bound c facet)) (\<lambda>_. on_screen (Render facet concept)))"

definition couple :: "string \<Rightarrow> string \<Rightarrow> (crystal, pyval) prog" where
  "couple a b = on_screen (Couple a b)"

definition coupling :: "string \<Rightarrow> string \<Rightarrow> (crystal, pyval) prog" where
  "coupling a b = on_screen (Coupling a b)"

definition crystal_read :: "(crystal, pyval) prog" where
  "crystal_read = on_screen Read"

definition balance :: "(crystal, pyval) prog" where
  "balance = on_screen Balance"

definition certify :: "string \<Rightarrow> pyval \<Rightarrow> (crystal, pyval) prog" where
  "certify facet surface = on_screen (Certify facet surface)"

definition transfer :: "string \<Rightarrow> string \<Rightarrow> (crystal, pyval) prog" where
  "transfer a b = on_screen (Transfer a b)"

definition clear :: "string option \<Rightarrow> (crystal, unit) prog" where
  "clear facet = bindM (on_screen (Clear facet)) (\<lambda>_. ret ())"

definition placed :: "(crystal, pyval list) prog" where
  "placed = bindM (on_screen Placed) (\<lambda>v. liftR (py_list v))"

end
