(* ===== verification/Crystal_Laws.thy ===== *)
theory Crystal_Laws
  imports Crystal_Object
begin

text \<open>
  What a live crystal guarantees over its life. A crystal is grounded by its constructor and driven by
  its methods, in any order and whether or not they raise; the relation \<open>crystal_step\<close> is one call. The
  structure never changes, a conversion is only ever bound in its declared direction, the split is the
  split of the incident beam, and the screen is only asked to place and to render what may cross.
\<close>

section \<open>One call\<close>

definition only_reads :: "ask \<Rightarrow> bool" where
  "only_reads q = (case q of Register _ _ _ _ _ \<Rightarrow> False | Place _ _ \<Rightarrow> False | Render _ _ \<Rightarrow> False | _ \<Rightarrow> True)"

inductive crystal_step :: "crystal \<Rightarrow> crystal \<Rightarrow> bool" where
  step_bind: "crystal_step c (snd (bind_facet facet b c))"
| step_conduct: "crystal_step c (snd (conduct facet surface c))"
| step_condense: "crystal_step c (snd (condense c))"
| step_transmit: "crystal_step c (snd (transmit c))"
| step_ledger: "crystal_step c (snd (crystal_ledger c))"
| step_certificate: "crystal_step c (snd (crystal_certificate c))"
| step_emit: "crystal_step c (snd (crystal_emit facet concept c))"
| step_ask: "only_reads q \<Longrightarrow> crystal_step c (snd (on_screen q c))"

inductive lives :: "contract \<Rightarrow> pyval dict \<Rightarrow> slots \<Rightarrow> pyval dict \<Rightarrow> crystal \<Rightarrow> bool" for ct spec sl kwargs where
  grounded: "crystal_init ct spec sl kwargs = Inr c \<Longrightarrow> lives ct spec sl kwargs c"
| driven: "lives ct spec sl kwargs c \<Longrightarrow> crystal_step c c' \<Longrightarrow> lives ct spec sl kwargs c'"

inductive_cases crystal_stepE: "crystal_step c c'"

section \<open>The invariant\<close>

definition declares :: "crystal \<Rightarrow> string \<Rightarrow> string list \<Rightarrow> bool" where
  "declares c facet allowed \<longleftrightarrow> (\<exists>f d. map_of (cr_facets c) (VStr facet) = Some f
     \<and> py_get f ''direction'' = Inr (VStr d) \<and> d \<in> set allowed)"

definition binding_ok :: "crystal \<Rightarrow> string \<Rightarrow> binding \<Rightarrow> bool" where
  "binding_ok c facet b \<longleftrightarrow> map_of (cr_facets c) (VStr facet) \<noteq> None
     \<and> (declares c facet [''in'', ''both''] \<longrightarrow> bd_entry b \<noteq> None)
     \<and> (declares c facet [''out'', ''both''] \<longrightarrow> bd_inverse b \<noteq> None)"

fun ask_ok :: "crystal \<Rightarrow> ask \<Rightarrow> bool" where
  "ask_ok c (Place facet surface) = (declares c facet [''in'', ''both''] \<and> map_of (cr_bound c) facet \<noteq> None)"
| "ask_ok c (Render facet concept) = (declares c facet [''out'', ''both''] \<and> map_of (cr_bound c) facet \<noteq> None)"
| "ask_ok c (Register facet entry' inv' energy zero) = (map_of (cr_bound c) facet \<noteq> None)"
| "ask_ok c q = True"

definition split_ok :: "crystal \<Rightarrow> bool" where
  "split_ok c \<longleftrightarrow> (case cr_split c of None \<Rightarrow> True
     | Some r \<Rightarrow> (\<exists>f. sl_absorb (cr_slots c) = Inr f \<and> cr_incident c \<noteq> VNone \<and> f (cr_incident c) = Inr (Some r)))"

definition wf_crystal :: "crystal \<Rightarrow> bool" where
  "wf_crystal c \<longleftrightarrow> all_entries (binding_ok c) (cr_bound c) \<and> split_ok c
     \<and> (case cr_screen c of None \<Rightarrow> True | Some s \<Rightarrow> list_all (ask_ok c) (sn_asked s))"

text \<open>What never changes, and what only grows.\<close>

definition continues :: "crystal \<Rightarrow> crystal \<Rightarrow> bool" where
  "continues c c' \<longleftrightarrow> cr_spec c' = cr_spec c \<and> cr_facets c' = cr_facets c \<and> cr_tektons c' = cr_tektons c
     \<and> cr_organons c' = cr_organons c \<and> cr_kwargs c' = cr_kwargs c \<and> cr_slots c' = cr_slots c
     \<and> (wf_crystal c \<longrightarrow> wf_crystal c')
     \<and> (\<forall>f. map_of (cr_bound c) f \<noteq> None \<longrightarrow> map_of (cr_bound c') f \<noteq> None)"

interpretation life: world_relation continues
proof
  show "continues c c" for c by (simp add: continues_def)
  show "continues c c''" if "continues c c'" "continues c' c''" for c c' c''
    using that by (simp add: continues_def)
qed

lemma declares_same: "cr_facets c' = cr_facets c \<Longrightarrow> declares c' = declares c"
  by (intro ext) (simp only: declares_def)

lemma binding_ok_same: "cr_facets c' = cr_facets c \<Longrightarrow> binding_ok c' = binding_ok c"
  by (intro ext) (simp only: binding_ok_def declares_def)

lemma split_ok_same: "cr_split c' = cr_split c \<Longrightarrow> cr_incident c' = cr_incident c \<Longrightarrow> cr_slots c' = cr_slots c
    \<Longrightarrow> split_ok c' = split_ok c"
  by (simp only: split_ok_def)

lemma ask_ok_grows:
  assumes "cr_facets c' = cr_facets c" "\<And>f. map_of (cr_bound c) f \<noteq> None \<Longrightarrow> map_of (cr_bound c') f \<noteq> None" "ask_ok c q"
  shows "ask_ok c' q"
  using assms(2,3) by (cases q) (auto simp: declares_same [OF assms(1)])

lemma ask_ok_same: "cr_facets c' = cr_facets c \<Longrightarrow> cr_bound c' = cr_bound c \<Longrightarrow> ask_ok c' = ask_ok c"
proof
  fix q
  assume "cr_facets c' = cr_facets c" "cr_bound c' = cr_bound c"
  then show "ask_ok c' q = ask_ok c q" by (cases q) (simp_all add: declares_def)
qed

lemma wf_same:
  assumes "cr_facets c' = cr_facets c" "cr_bound c' = cr_bound c" "cr_screen c' = cr_screen c" "split_ok c'" "wf_crystal c"
  shows "wf_crystal c'"
  using assms(4,5) unfolding wf_crystal_def assms(3) assms(2) ask_ok_same [OF assms(1,2)] binding_ok_same [OF assms(1)] by simp

text \<open>A program that asks the screen is fine when what it asks is.\<close>

lemma asks_continue: "ask_ok c q \<Longrightarrow> continues c (snd (ask q c))"
proof (cases "cr_screen c")
  case (Some s)
  assume q: "ask_ok c q"
  let ?c = "c\<lparr>cr_screen := Some (s\<lparr>sn_asked := sn_asked s @ [q]\<rparr>)\<rparr>"
  have "ask_ok ?c = ask_ok c" by (rule ask_ok_same) simp_all
  moreover have "binding_ok ?c = binding_ok c" by (rule binding_ok_same) simp
  moreover have "split_ok ?c = split_ok c" by (rule split_ok_same) simp_all
  ultimately have "wf_crystal c \<Longrightarrow> wf_crystal ?c" using q Some by (simp add: wf_crystal_def list_all_iff)
  then show ?thesis using Some by (simp add: ask_def continues_def)
qed (simp add: ask_def continues_def)

lemma gets_run: "bindM (getsM f) g c = g (f c) c"
  by simp

lemma register_continues: "life.keeps (register_facet facet)"
  unfolding life.keeps_def
proof
  fix c :: crystal
  show "continues c (snd (register_facet facet c))"
  proof (cases "cr_screen c = None \<or> map_of (cr_bound c) facet = None")
    case True
    then show ?thesis by (auto simp: register_facet_def life.refl split: option.splits)
  next
    case False
    then obtain b where b: "map_of (cr_bound c) facet = Some b" "cr_screen c \<noteq> None" by auto
    let ?q = "Register facet (case bd_entry b of None \<Rightarrow> out_only_entry facet | Some f \<Rightarrow> f) (bd_inverse b) (bd_energy b) (bd_zero b)"
    have "snd (register_facet facet c) = snd (ask ?q c)"
      using b by (auto simp: register_facet_def bindM_def split: prod.splits sum.splits)
    moreover have "continues c (snd (ask ?q c))" by (rule asks_continue) (simp add: b)
    ultimately show ?thesis by simp
  qed
qed

lemma modify_continues: "(\<And>c. continues c (f c)) \<Longrightarrow> life.keeps (modifyM f)"
  by (simp add: life.keeps_def)

lemma gets_continue: "(\<And>c. continues c (snd (g (f c) c))) \<Longrightarrow> life.keeps (bindM (getsM f) g)"
  by (simp add: life.keeps_def)

lemma screen_continues: "life.keeps the_screen"
  unfolding life.keeps_def
proof
  fix c :: crystal
  have made: "continues c (c\<lparr>cr_screen := Some \<lparr> sn_answers = a, sn_asked = [] \<rparr>\<rparr>)" for a
  proof -
    let ?c = "c\<lparr>cr_screen := Some \<lparr> sn_answers = a, sn_asked = [] \<rparr>\<rparr>"
    have "binding_ok ?c = binding_ok c" by (rule binding_ok_same) simp
    moreover have "split_ok ?c = split_ok c" by (rule split_ok_same) simp_all
    ultimately show ?thesis by (auto simp: continues_def wf_crystal_def)
  qed
  have all: "life.keeps (forM (\<lambda>facet _. register_facet facet) fs ())" for fs
    by (intro life.keeps_forM register_continues)
  show "continues c (snd (the_screen c))"
  proof (cases "cr_screen c = None")
    case True
    then show ?thesis
      using life.trans [OF made] all
      by (auto simp: the_screen_def bindM_def life.keeps_def life.refl split: prod.splits sum.splits)
  qed (simp add: the_screen_def life.refl)
qed

section \<open>Every call keeps it\<close>

lemma on_screen_continues: "ask_ok c q \<Longrightarrow> continues c (snd (on_screen q c))"
proof -
  assume q: "ask_ok c q"
  obtain r c1 where run: "the_screen c = (r, c1)" by (cases "the_screen c")
  then have c1: "continues c c1" by (rule life.keepsD [OF screen_continues])
  then have "ask_ok c1 q" using q by (intro ask_ok_grows [of c1 c]) (auto simp: continues_def)
  then have "continues c (snd (ask q c1))" by (rule life.trans [OF c1 asks_continue])
  then show ?thesis using run c1 by (simp add: on_screen_def bindM_def split: sum.split)
qed

lemma crossing_continues: "life.keeps crossing"
  unfolding life.keeps_def
proof
  fix c :: crystal
  have "continues c (c\<lparr>cr_split := r\<rparr>)"
    if "sl_absorb (cr_slots c) = Inr f" "cr_incident c \<noteq> VNone" "f (cr_incident c) = Inr r" for f r
  proof -
    let ?c = "c\<lparr>cr_split := r\<rparr>"
    have "split_ok ?c" using that by (simp add: split_ok_def split: option.split)
    then have "wf_crystal c \<Longrightarrow> wf_crystal ?c" by (intro wf_same [of ?c c]) simp_all
    then show ?thesis by (simp add: continues_def)
  qed
  then show "continues c (snd (crossing c))"
    by (auto simp: crossing_def bindM_def life.refl split: sum.splits)
qed

lemma bind_continues: "life.keeps (bind_facet facet b)"
  unfolding life.keeps_def
proof
  fix c :: crystal
  let ?c = "c\<lparr>cr_bound := AList.update facet b (cr_bound c)\<rparr>"
  show "continues c (snd (bind_facet facet b c))"
  proof (cases "\<exists>f. require_facet c facet = Inr f \<and> (\<exists>d. py_get f ''direction'' = Inr d
      \<and> \<not> (d \<in> {VStr ''in'', VStr ''both''} \<and> bd_entry b = None) \<and> \<not> (d \<in> {VStr ''out'', VStr ''both''} \<and> bd_inverse b = None))")
    case True
    then obtain f d where f: "require_facet c facet = Inr f" "py_get f ''direction'' = Inr d"
      "\<not> (d \<in> {VStr ''in'', VStr ''both''} \<and> bd_entry b = None)" "\<not> (d \<in> {VStr ''out'', VStr ''both''} \<and> bd_inverse b = None)"
      by blast
    have run: "bind_facet facet b c = register_facet facet ?c" 
      unfolding bind_facet_def gets_run f(1) bindM_prims f(2) if_not_P [OF f(3)] if_not_P [OF f(4)] ..
    have "map_of (cr_facets c) (VStr facet) = Some f" using f(1) by (simp add: require_facet_def split: option.splits)
    then have ok: "binding_ok c facet b" using f by (auto simp: binding_ok_def declares_def)
    have "ask_ok c q \<Longrightarrow> ask_ok ?c q" for q by (rule ask_ok_grows) auto
    moreover have "binding_ok ?c = binding_ok c" by (rule binding_ok_same) simp
    moreover have "split_ok ?c = split_ok c" by (rule split_ok_same) simp_all
    ultimately have "continues c ?c"
      using ok by (auto simp: continues_def wf_crystal_def list_all_iff split: option.splits)
    then show ?thesis unfolding run by (rule life.trans) (metis register_continues life.keeps_def)
  next
    case False
    then have "snd (bind_facet facet b c) = c"
      by (cases "require_facet c facet"; cases "py_get (projr (require_facet c facet)) ''direction''") (auto simp: bind_facet_def)
    then show ?thesis by (simp add: life.refl)
  qed
qed

lemma direction_declared: "require_direction c facet allowed act = Inr u \<Longrightarrow> declares c facet allowed"
  by (auto simp: require_direction_def require_facet_def declares_def res_bind_eq_Inr split: option.splits if_splits)

lemma bound_known: "require_bound c facet = Inr u \<Longrightarrow> map_of (cr_bound c) facet \<noteq> None"
  by (simp add: require_bound_def split: if_splits)

lemma checked_run: "checked f c = (f c, c)"
  by (simp add: checked_def)

lemma checked_bind: "bindM (checked f) g c = (case f c of Inl e \<Rightarrow> (Inl e, c) | Inr u \<Rightarrow> g u c)"
  by (simp add: bindM_def checked_run)

lemma conduct_continues: "life.keeps (conduct facet surface)"
  unfolding life.keeps_def
proof
  fix c :: crystal
  have beam: "continues c (snd (on_screen (Place facet surface) (c\<lparr>cr_incident := x, cr_split := None\<rparr>)))"
      "continues c (c\<lparr>cr_incident := x, cr_split := None\<rparr>)"
    if ok: "declares c facet [''in'', ''both'']" "map_of (cr_bound c) facet \<noteq> None" for x
  proof -
    let ?c = "c\<lparr>cr_incident := x, cr_split := None\<rparr>"
    have same: "ask_ok ?c = ask_ok c" by (rule ask_ok_same) simp_all
    have "wf_crystal c \<Longrightarrow> wf_crystal ?c" by (rule wf_same [of ?c c]) (simp_all add: split_ok_def)
    then show here: "continues c ?c" by (simp add: continues_def)
    show "continues c (snd (on_screen (Place facet surface) ?c))"
      by (rule life.trans [OF here on_screen_continues]) (use ok same in simp)
  qed
  show "continues c (snd (conduct facet surface c))"
  proof (cases "require_direction c facet [''in'', ''both''] ''conduct a surface in''")
    case (Inl e)
    then show ?thesis by (simp add: conduct_def checked_bind life.refl)
  next
    case dir: (Inr u)
    show ?thesis
    proof (cases "require_bound c facet")
      case (Inl e)
      then show ?thesis using dir by (simp add: conduct_def checked_bind life.refl)
    next
      case bound: (Inr v)
      show ?thesis
        using dir bound beam [OF direction_declared [OF dir] bound_known [OF bound]]
        by (cases "case Option.bind (map_of (cr_bound c) facet) bd_entry of None \<Rightarrow> Inl (TypeError ''not callable'') | Some f \<Rightarrow> f surface")
          (simp_all add: conduct_def checked_bind life.refl)
    qed
  qed
qed

lemma emit_continues: "life.keeps (crystal_emit facet concept)"
  unfolding life.keeps_def
proof
  fix c :: crystal
  show "continues c (snd (crystal_emit facet concept c))"
    using direction_declared [of c facet "[''out'', ''both'']"] bound_known [of c facet]
    by (auto simp: crystal_emit_def checked_bind life.refl on_screen_continues split: sum.split)
qed

lemma open_ledger_continues: "life.keeps (open_ledger p)"
  unfolding open_ledger_def by (intro life.keeps_bind life.keeps_basic)

lemma certificate_continues: "life.keeps crystal_certificate"
  unfolding crystal_certificate_def split_def
  by (intro life.keeps_bind life.keeps_basic open_ledger_continues life.keeps_if crossing_continues)

lemma keeps_case: "life.keeps m \<Longrightarrow> (\<And>x. life.keeps (f x)) \<Longrightarrow> life.keeps (case r of None \<Rightarrow> m | Some x \<Rightarrow> f x)"
  by (cases r) simp_all

lemma ledger_continues: "life.keeps crystal_ledger"
  unfolding crystal_ledger_def split_def
  by (intro life.keeps_bind life.keeps_basic open_ledger_continues life.keeps_if crossing_continues keeps_case)

lemma keepsS: "life.keeps m \<Longrightarrow> continues c (snd (m c))"
  by (simp add: life.keeps_def)

lemma reads_continue: "life.keeps condense" "life.keeps transmit"
  unfolding condense_def transmit_def by (intro life.keeps_bind life.keeps_basic crossing_continues)+

lemma step_continues: "crystal_step c c' \<Longrightarrow> continues c c'"
proof (induction rule: crystal_step.induct)
  case (step_ask q c)
  then show ?case using on_screen_continues [of c q] by (cases q) (simp_all add: only_reads_def)
qed (intro keepsS bind_continues conduct_continues reads_continue ledger_continues certificate_continues emit_continues)+

lemma init_parts:
  assumes "crystal_init ct spec sl kwargs = Inr c"
  shows "cr_spec c = spec" "cr_slots c = sl" "cr_bound c = []" "cr_screen c = None" "cr_split c = None" "ct_validate ct spec = []"
  using assms by (auto simp: crystal_init_def Let_def res_bind_eq_Inr split: if_splits)

lemma lives_wf: "lives ct spec sl kwargs c \<Longrightarrow> wf_crystal c \<and> cr_spec c = spec \<and> cr_slots c = sl"
proof (induction rule: lives.induct)
  case (grounded c)
  then show ?case by (simp add: init_parts wf_crystal_def split_ok_def)
next
  case (driven c c')
  then show ?case using step_continues [of c c'] by (simp add: continues_def)
qed

text \<open>C12: Over the whole life of a crystal, whatever is called and whatever raises: its structure and content
  address are those of the spec it was grounded on, every conversion is bound on a declared facet and
  complete for its direction, the split it remembers is the split of the beam it is accounting for, and its
  screen was only ever asked to place on bound facets that conduct in and to render on bound facets that
  conduct out.\<close>

theorem crystal_life:
  assumes "lives ct spec sl kwargs c"
  shows "crystal_sha ct c = ct_sha ct spec \<and> all_entries (binding_ok c) (cr_bound c) \<and> split_ok c
    \<and> (case cr_screen c of None \<Rightarrow> True | Some s \<Rightarrow> list_all (ask_ok c) (sn_asked s))"
  using lives_wf [OF assms] by (simp add: wf_crystal_def crystal_sha_def)

section \<open>The two gates\<close>

text \<open>What \<open>capability_reach\<close> is documented to report: a row that is not exact for each requirement the prism
  does not advertise, and for no other.\<close>

definition measures_reach :: "contract \<Rightarrow> bool" where
  "measures_reach ct \<longleftrightarrow> (\<forall>requires advertised.
     list_all (\<lambda>m. rc_basis m = ''exact'') (ct_reach ct requires advertised) = (set requires \<subseteq> VStr ` set advertised))"

text \<open>C13: An organon is lit only when the prism affords what it requires and the authority granted the energy's own
  principal this organon of this crystal; otherwise the answer names the gate that held.\<close>

theorem discharge_gates:
  assumes law: "measures_reach ct" and affords: "pe_advertises prism = Inr caps" and gate: "can_discharge c organon (Some caps) = Inr afforded"
  shows "case crystal_discharge ct c organon prism energy authority of
      Inr (Lit x hs) \<Rightarrow> afforded \<and> (\<exists>a. authority = Some a \<and> a (principal_of energy) organon (crystal_sha ct c) = Inr True)
    | Inr (NoHardware x missing gaps) \<Rightarrow> \<not> afforded \<and> gaps \<noteq> []
    | Inr (NoAuthority x) \<Rightarrow> afforded \<and> authority = None
    | Inr (NoGrant x p) \<Rightarrow> afforded \<and> p = principal_of energy \<and> (\<exists>a. authority = Some a \<and> a p organon (crystal_sha ct c) = Inr False)
    | Inl e \<Rightarrow> afforded \<and> (\<exists>a. authority = Some a \<and> a (principal_of energy) organon (crystal_sha ct c) \<noteq> Inr False)"
proof -
  obtain o' v requires where o': "require_organon c organon = Inr o'" "py_get o' ''requires'' = Inr v" "or_list v = Inr requires"
    and afforded: "afforded = (set requires \<subseteq> VStr ` set caps)"
    using gate by (auto simp: can_discharge_def res_bind_eq_Inr split: if_splits)
  let ?gaps = "filter (\<lambda>m. rc_basis m \<noteq> ''exact'') (ct_reach ct requires (sort (remdups caps)))"
  have "?gaps = [] \<longleftrightarrow> list_all (\<lambda>m. rc_basis m = ''exact'') (ct_reach ct requires (sort (remdups caps)))"
    by (simp add: filter_empty_conv list_all_iff)
  also have "\<dots> \<longleftrightarrow> afforded" using law afforded by (simp add: measures_reach_def)
  finally have gaps: "?gaps = [] \<longleftrightarrow> afforded" .
  show ?thesis
  proof (cases "?gaps = []")
    case False
    then show ?thesis using gaps o' affords by (simp add: crystal_discharge_def Let_def)
  next
    case True
    note run = crystal_discharge_def o' affords True gaps res_bind_simps
    show ?thesis
    proof (cases authority)
      case None
      then show ?thesis using True gaps o' affords by (simp add: crystal_discharge_def Let_def)
    next
      case (Some a)
      show ?thesis
      proof (cases "a (principal_of energy) organon (crystal_sha ct c)")
        case (Inl e)
        then show ?thesis using True gaps o' affords Some by (simp add: crystal_discharge_def Let_def)
      next
        case (Inr granted)
        then show ?thesis using True gaps o' affords Some
          by (cases granted; cases "handles_of (pe_capability prism) requires []") (simp_all add: crystal_discharge_def Let_def)
      qed
    qed
  qed
qed

section \<open>One crossing\<close>

text \<open>Asking the screen leaves the beam, its split, the spec and the slots alone.\<close>

definition same_crossing :: "crystal \<Rightarrow> crystal \<Rightarrow> bool" where
  "same_crossing c c' \<longleftrightarrow> cr_incident c' = cr_incident c \<and> cr_split c' = cr_split c \<and> cr_slots c' = cr_slots c \<and> cr_spec c' = cr_spec c"

interpretation crosses: world_relation same_crossing
  by unfold_locales (simp_all add: same_crossing_def)

lemma ask_crosses: "crosses.keeps (ask q)"
  by (simp add: crosses.keeps_def ask_def same_crossing_def split: option.split)

lemma register_crosses: "crosses.keeps (register_facet facet)"
proof -
  have "crosses.keeps (case b of None \<Rightarrow> raise e | Some b \<Rightarrow> bindM (ask (q b)) (\<lambda>_. ret ()))" for b :: "binding option" and e q
    by (cases b) (auto intro: crosses.keeps_basic crosses.keeps_bind ask_crosses)
  then show ?thesis unfolding register_facet_def by (intro crosses.keeps_bind crosses.keeps_basic crosses.keeps_if)
qed

lemma screen_crosses: "crosses.keeps (on_screen q)"
proof -
  have "crosses.keeps (modifyM (\<lambda>c. c\<lparr>cr_screen := s\<rparr>))" for s by (simp add: crosses.keeps_def same_crossing_def)
  then show ?thesis
    unfolding on_screen_def the_screen_def
    by (intro crosses.keeps_bind crosses.keeps_basic crosses.keeps_if crosses.keeps_forM ask_crosses register_crosses)
qed

lemma conduct_beam:
  assumes "conduct facet surface c = (Inr v, c1)"
  shows "\<exists>b f beam. map_of (cr_bound c) facet = Some b \<and> bd_entry b = Some f \<and> f surface = Inr beam
    \<and> cr_incident c1 = beam \<and> cr_split c1 = None \<and> cr_slots c1 = cr_slots c \<and> cr_spec c1 = cr_spec c"
proof -
  obtain u u' where ok: "require_direction c facet [''in'', ''both''] ''conduct a surface in'' = Inr u" "require_bound c facet = Inr u'"
    using assms by (auto simp: conduct_def checked_bind split: sum.splits)
  obtain b where b: "map_of (cr_bound c) facet = Some b" using bound_known [OF ok(2)] by auto
  obtain f where f: "bd_entry b = Some f" using assms b ok by (cases "bd_entry b") (auto simp: conduct_def checked_bind)
  obtain beam where beam: "f surface = Inr beam" using assms b f ok by (cases "f surface") (auto simp: conduct_def checked_bind)
  let ?c = "c\<lparr>cr_incident := beam, cr_split := None\<rparr>"
  have "conduct facet surface c = (if beam = VNone then ret VNone else on_screen (Place facet surface)) ?c"
    using ok b f beam by (simp add: conduct_def checked_bind)
  moreover have "crosses.keeps (if beam = VNone then ret VNone else on_screen (Place facet surface))"
    by (intro crosses.keeps_if crosses.keeps_basic screen_crosses)
  ultimately have "same_crossing ?c c1" using assms crosses.keepsD by metis
  then show ?thesis using b f beam by (auto simp: same_crossing_def)
qed

text \<open>What the reads of a crossing answer for a beam: silence condenses and transmits nothing and balances at
  zero without asking the instrument; of any other beam both reads give the parts of one split.\<close>

definition split_read :: "crystal \<Rightarrow> split option \<Rightarrow> bool" where
  "split_read c r \<longleftrightarrow> (case r of
       None \<Rightarrow> fst (condense c) = Inr VNone \<and> fst (transmit (snd (condense c))) = Inr VNone
     | Some (absorbed, transmitted, k) \<Rightarrow> fst (condense c) = Inr (if truthy k then absorbed else VNone)
         \<and> fst (transmit (snd (condense c))) = Inr transmitted)"

definition silence_read :: "crystal \<Rightarrow> bool" where
  "silence_read c \<longleftrightarrow> condense c = (Inr VNone, c) \<and> transmit c = (Inr VNone, c)
     \<and> (case (sl_ledger (cr_slots c), sl_energy (cr_slots c)) of
          (Inr p, Inr e) \<Rightarrow> crystal_ledger c = (Inr (account zero_float zero_float zero_float 0 (VBool True)), c)
        | _ \<Rightarrow> (\<exists>e. crystal_ledger c = (Inl e, c)))"

definition accounts_for :: "crystal \<Rightarrow> pyval \<Rightarrow> bool" where
  "accounts_for c beam \<longleftrightarrow> (if beam = VNone then silence_read c
     else case res_bind (sl_absorb (cr_slots c)) (\<lambda>absorb_transmit. absorb_transmit beam) of
       Inl e \<Rightarrow> condense c = (Inl e, c) \<and> transmit c = (Inl e, c)
     | Inr r \<Rightarrow> split_read c r)"

lemma silence: "cr_incident c = VNone \<Longrightarrow> cr_split c = None \<Longrightarrow> silence_read c"
  by (cases "sl_ledger (cr_slots c)"; cases "sl_energy (cr_slots c)")
    (simp_all add: silence_read_def condense_def transmit_def crossing_def crystal_ledger_def bindM_def)

lemma accounts: "cr_incident c = beam \<Longrightarrow> cr_split c = None \<Longrightarrow> accounts_for c beam"
proof (cases "beam = VNone")
  case beam: False
  assume c: "cr_incident c = beam" "cr_split c = None"
  show ?thesis
  proof (cases "sl_absorb (cr_slots c)")
    case (Inl e)
    then show ?thesis using c beam by (simp add: accounts_for_def condense_def transmit_def crossing_def bindM_def)
  next
    case (Inr g)
    then show ?thesis using c beam
      by (cases "g beam"; cases "projr (g beam)")
        (auto simp: accounts_for_def split_read_def condense_def transmit_def crossing_def bindM_def split: prod.split)
  qed
qed (simp add: accounts_for_def silence)

text \<open>C31: What is condensed and what is transmitted after a surface was conducted are the two parts of one split, of the
  beam the facet's entry made of that surface; a beam that is silence condenses and transmits nothing and
  balances at zero without asking the instrument.\<close>

theorem conducted_crossing:
  assumes "conduct facet surface c = (Inr v, c1)"
  shows "\<exists>b f beam. map_of (cr_bound c) facet = Some b \<and> bd_entry b = Some f \<and> f surface = Inr beam \<and> accounts_for c1 beam"
  using conduct_beam [OF assms] accounts by blast

section \<open>An example\<close>

definition ex_contract :: contract where
  "ex_contract = \<lparr> ct_validate = (\<lambda>_. []), ct_sha = (\<lambda>_. ''sha''), ct_artifact = Inr, ct_verify = Inr,
     ct_required = (\<lambda>_. []), ct_activates = (\<lambda>_ _. True),
     ct_reach = (\<lambda>requires advertised. map (\<lambda>r. \<lparr> rc_required = py_str r,
       rc_basis = (if r \<in> VStr ` set advertised then ''exact'' else ''none''), rc_nearest = VNone \<rparr>) requires) \<rparr>"

definition ex_spec :: "pyval dict" where
  "ex_spec = [(''name'', VStr ''crystal.test''),
     (''facets'', VList [VDict [(''name'', VStr ''a''), (''direction'', VStr ''both'')]]), (''tektons'', VList []),
     (''organons'', VList [VDict [(''name'', VStr ''op.retrieve''), (''requires'', VList [VStr ''store.read''])]])]"

definition ex_slots :: slots where
  "ex_slots = \<lparr> sl_absorb = Inr (\<lambda>x. Inr (Some (x, VInt 0, VInt 1))), sl_screen = Inr (\<lambda>_. Inr (\<lambda>_ _. Inr VNone)),
     sl_ledger = Inr (\<lambda>_ _. Inr (\<lambda>_. Inr [])), sl_energy = Inr (\<lambda>_. Inr zero_float) \<rparr>"

definition ex_binding :: binding where
  "ex_binding = \<lparr> bd_entry = Some Inr, bd_inverse = Some Inr, bd_energy = None, bd_zero = None \<rparr>"

definition ex_grounded :: crystal where
  "ex_grounded = \<lparr> cr_spec = ex_spec, cr_facets = [(VStr ''a'', VDict [(''name'', VStr ''a''), (''direction'', VStr ''both'')])],
     cr_tektons = [], cr_organons = [(VStr ''op.retrieve'', VDict [(''name'', VStr ''op.retrieve''), (''requires'', VList [VStr ''store.read''])])],
     cr_bound = [], cr_kwargs = [], cr_screen = None, cr_incident = VNone, cr_split = None, cr_slots = ex_slots \<rparr>"

definition ex_facet_bound :: crystal where
  "ex_facet_bound = ex_grounded\<lparr>cr_bound := [(''a'', ex_binding)]\<rparr>"

definition ex_conducted :: crystal where
  "ex_conducted = snd (conduct ''a'' (VInt 3) ex_facet_bound)"

lemma ex_grounding: "crystal_init ex_contract ex_spec ex_slots [] = Inr ex_grounded"
  by (simp add: crystal_init_def ex_contract_def ex_spec_def get_list_def or_list_def py_or_def dget_def
      py_list_def py_subscript_def hashable_def ex_grounded_def)

lemma ex_bind: "bind_facet ''a'' ex_binding ex_grounded = (Inr (), ex_facet_bound)"
  by (simp add: bind_facet_def require_facet_def ex_grounded_def py_get_def dget_def ex_binding_def register_facet_def ex_facet_bound_def)

lemma ex_conduct: "conduct ''a'' (VInt 3) ex_facet_bound = (Inr VNone, ex_conducted)"
  by (simp add: ex_conducted_def conduct_def checked_run require_direction_def require_bound_def require_facet_def
      ex_facet_bound_def ex_grounded_def ex_binding_def py_get_def dget_def on_screen_def the_screen_def ex_slots_def
      register_facet_def ask_def bindM_def)

theorem crystal_life_witness: "crystal_sha ex_contract ex_conducted = ''sha'' \<and> split_ok ex_conducted"
proof -
  have "lives ex_contract ex_spec ex_slots [] ex_facet_bound"
    using lives.driven [OF lives.grounded [OF ex_grounding] step_bind [of _ "''a''" ex_binding]] by (simp add: ex_bind)
  from lives.driven [OF this step_conduct [of _ "''a''" "VInt 3"]]
  have "lives ex_contract ex_spec ex_slots [] ex_conducted" by (simp add: ex_conduct)
  then show ?thesis using crystal_life [of ex_contract ex_spec ex_slots "[]" ex_conducted] by (simp add: ex_contract_def)
qed

theorem conducted_crossing_witness: "\<exists>beam. accounts_for ex_conducted beam \<and> beam = VInt 3"
  using conducted_crossing [OF ex_conduct] by (auto simp: ex_facet_bound_def ex_binding_def)

theorem discharge_gates_witness:
  "case crystal_discharge ex_contract ex_grounded ''op.retrieve'' \<lparr> pe_advertises = Inr [''net''], pe_capability = Inr \<rparr>
      (Value VNone) (Some (\<lambda>_ _ _. Inr True)) of
     Inr (NoHardware x missing gaps) \<Rightarrow> gaps \<noteq> [] | _ \<Rightarrow> False"
proof -
  let ?prism = "\<lparr> pe_advertises = Inr [''net''], pe_capability = Inr \<rparr>"
  have law: "measures_reach ex_contract"
    by (auto simp: measures_reach_def ex_contract_def list_all_iff)
  have gate: "can_discharge ex_grounded ''op.retrieve'' (Some [''net'']) = Inr False"
    by (simp add: can_discharge_def require_organon_def ex_grounded_def py_get_def dget_def or_list_def py_or_def py_list_def hashable_def)
  have "pe_advertises ?prism = Inr [''net'']" by simp
  from discharge_gates [OF law this gate, where energy = "Value VNone" and authority = "Some (\<lambda>_ _ _. Inr True)"]
  show ?thesis by (auto split: sum.splits discharged.splits)
qed

section \<open>A screen that was half built\<close>

text \<open>When a registration raises while the screen is built, the screen is kept and the facets that were not yet
  registered never are: the next use finds a screen and goes on to it.\<close>

definition ex_two_bound :: crystal where
  "ex_two_bound = ex_grounded\<lparr>cr_bound := [(''a'', ex_binding), (''b'', ex_binding)],
     cr_slots := ex_slots\<lparr>sl_screen := Inr (\<lambda>_. Inr (\<lambda>asked q. if asked = [] then Inl (RuntimeError ''register'') else Inr VNone))\<rparr>\<rparr>"

lemma half_built_screen:
  "fst (crystal_read ex_two_bound) = Inl (RuntimeError ''register'')"
  "fst (crystal_read (snd (crystal_read ex_two_bound))) = Inr VNone"
  "map_option (map (\<lambda>q. case q of Register f _ _ _ _ \<Rightarrow> f | _ \<Rightarrow> [])  \<circ> sn_asked) (cr_screen (snd (crystal_read (snd (crystal_read ex_two_bound))))) = Some [''a'', []]"
  by (simp_all add: crystal_read_def on_screen_def the_screen_def ex_two_bound_def ex_grounded_def ex_slots_def ex_binding_def
      register_facet_def ask_def bindM_def)

end
