(* ===== verification/Mint_Context.thy ===== *)
theory Mint_Context
  imports Ontology_Lookup_Laws
begin

text \<open>
  The seam a store calls when it mints an artifact (\<open>context.py\<close>): the text an artifact offers itself
  with, the concepts that text names, and the structure of markdown content. The state is the driver of
  the ontology and whether the seam has bound it to a store. Whether \<open>crystal.ontology\<close> can be imported
  in the process is a parameter.
\<close>

section \<open>The offer\<close>

definition OFFER_CHARS :: nat where
  "OFFER_CHARS = 2000"

definition BODY_CHARS :: nat where
  "BODY_CHARS = 20000"

definition ANCHOR_BODY_KEY :: string where
  "ANCHOR_BODY_KEY = ''anchor_body''"

text \<open>\<open>base.get("caller") or {}\<close>, when it is a mapping.\<close>

definition caller_of :: "pyval dict \<Rightarrow> pyval dict option" where
  "caller_of base = (case py_or (dget base ''caller'') (VDict []) of VDict d \<Rightarrow> Some d | _ \<Rightarrow> None)"

definition offered :: "pyval \<Rightarrow> string list" where
  "offered v = (case v of VStr s \<Rightarrow> if py_strip s = [] then [] else [py_strip s] | _ \<Rightarrow> [])"

definition offer_text :: "pyval dict \<Rightarrow> string" where
  "offer_text base = (case caller_of base of
       None \<Rightarrow> []
     | Some caller \<Rightarrow>
         let parts = concat (map (\<lambda>key. offered (dget caller key)) [''title'', ''name'', ''description'', ''heading'']);
             tags = (case dget caller ''tags'' of VList ts \<Rightarrow> map py_str (filter truthy ts) | _ \<Rightarrow> [])
         in take OFFER_CHARS (py_join '' '' (parts @ tags)))"

section \<open>Binding and anchors\<close>

type_synonym seam = "bool \<times> driver"

definition on_ontology :: "(driver, 'a) prog \<Rightarrow> (seam, 'a) prog" where
  "on_ontology m = (\<lambda>(b, w). case m w of (r, w') \<Rightarrow> (r, b, w'))"

definition bind_ontology :: "bool \<Rightarrow> nat option \<Rightarrow> (seam, unit) prog" where
  "bind_ontology importable db = bindM (getsM fst) (\<lambda>bound.
     if bound \<or> db = None then ret ()
     else catchM
       (bindM (if importable then on_ontology (bind_store db) else raise (PyError ''ImportError'' []))
         (\<lambda>_. modifyM (\<lambda>(b, w). (True, w))))
       (\<lambda>_. ret ()))"

definition anchors :: "bool \<Rightarrow> string \<Rightarrow> (seam, string list option) prog" where
  "anchors importable text' = (if py_strip text' = [] \<or> \<not> importable then ret None
     else catchM (bindM (on_ontology (offer_synsets text')) (\<lambda>names. ret (Some names))) (\<lambda>_. ret None))"

section \<open>Structure\<close>

text \<open>\<open>_HEADING.findall\<close>: at the start of a line one to six hashes, white space, which may run over lines, and
  the rest of the line that follows it, without the white space at its end. When only white space
  follows, its last character that is not a line feed is the heading, if one is left over.\<close>

definition blank_heading :: "string \<Rightarrow> string" where
  "blank_heading run = (case filter (\<lambda>c. code c \<noteq> 10) (rev (tl run)) of [] \<Rightarrow> [] | c # _ \<Rightarrow> [c])"

definition heading_at :: "string \<Rightarrow> (nat \<times> string) option" where
  "heading_at s = (let hashes = takeWhile (\<lambda>c. code c = 35) s; rest = dropWhile (\<lambda>c. code c = 35) s;
       run = takeWhile py_isspace rest; after = dropWhile py_isspace rest;
       title = (if after = [] then blank_heading run else py_rstrip (takeWhile (\<lambda>c. code c \<noteq> 10) after)) in
     if hashes = [] \<or> 6 < length hashes \<or> run = [] \<or> title = [] then None
     else Some (length hashes, title))"

definition next_line :: "string \<Rightarrow> string" where
  "next_line s = tl (dropWhile (\<lambda>c. code c \<noteq> 10) s)"

definition after_heading :: "string \<Rightarrow> string" where
  "after_heading s = dropWhile py_isspace (dropWhile (\<lambda>c. code c = 35) s)"

lemma next_line_shorter: "s \<noteq> [] \<Longrightarrow> length (next_line s) < length s"
proof -
  assume s: "s \<noteq> []"
  have "length (dropWhile (\<lambda>c. code c \<noteq> 10) s) \<le> length s" by (rule length_dropWhile_le)
  moreover have "0 < length s" using s by simp
  ultimately show ?thesis unfolding next_line_def length_tl by linarith
qed

lemma after_heading_shorter: "length (after_heading s) \<le> length s"
  unfolding after_heading_def by (meson length_dropWhile_le order_trans)

function headings :: "string \<Rightarrow> (nat \<times> string) list" where
  "headings s = (if s = [] then []
     else case heading_at s of
       None \<Rightarrow> headings (next_line s)
     | Some h \<Rightarrow> h # headings (next_line (after_heading s)))"
  by auto
termination
proof (relation "measure length", simp, simp add: next_line_shorter)
  fix s :: string and h :: "nat \<times> string"
  assume "s \<noteq> []"
  show "(next_line (after_heading s), s) \<in> measure length"
  proof (cases "after_heading s = []")
    case True
    then show ?thesis using \<open>s \<noteq> []\<close> by (simp add: next_line_def)
  next
    case False
    then show ?thesis using next_line_shorter [OF False] after_heading_shorter [of s] by simp
  qed
qed

declare headings.simps [simp del]

definition is_markdown :: "string \<Rightarrow> bool" where
  "is_markdown content_type \<longleftrightarrow> py_contains ''markdown'' (py_lower content_type)"

definition structure_of :: "string option \<Rightarrow> string option \<Rightarrow> pyval dict option" where
  "structure_of content content_type = (case (content, content_type) of
       (Some (c # cs), Some (t # ts)) \<Rightarrow>
         if \<not> is_markdown (t # ts) then None
         else (case headings (take BODY_CHARS (c # cs)) of
           [] \<Rightarrow> None
         | (depth, title) # hs \<Rightarrow> Some [(''format'', VStr ''markdown''), (''heading'', VStr title),
             (''heading_depth'', VInt (int depth)), (''headings'', VInt (int (length hs + 1)))])
     | _ \<Rightarrow> None)"

section \<open>The entry point\<close>

definition strs :: "string list \<Rightarrow> pyval" where
  "strs xs = VList (map VStr xs)"

definition wants_body :: "pyval dict \<Rightarrow> string option \<Rightarrow> string option" where
  "wants_body base content = (case (caller_of base, content) of
       (Some caller, Some (c # cs)) \<Rightarrow> if truthy (dget caller ANCHOR_BODY_KEY) then Some (c # cs) else None
     | _ \<Rightarrow> None)"

definition anchored :: "string list option \<Rightarrow> string list option \<Rightarrow> pyval dict" where
  "anchored offer body = (case body of
       Some xs \<Rightarrow> [(''anchors'', strs (fold emit ((case offer of None \<Rightarrow> [] | Some ys \<Rightarrow> ys) @ xs) [])),
                   (''anchors_from'', VStr ''offer+body'')]
     | None \<Rightarrow> (case offer of None \<Rightarrow> [] | Some ys \<Rightarrow> [(''anchors'', strs ys), (''anchors_from'', VStr ''offer'')]))"

definition enrich :: "bool \<Rightarrow> pyval dict \<Rightarrow> string option \<Rightarrow> string option \<Rightarrow> nat option \<Rightarrow> (seam, pyval dict option) prog" where
  "enrich importable base content_type content db =
     bindM (bind_ontology importable db) (\<lambda>_.
     bindM (anchors importable (offer_text base)) (\<lambda>offer.
     bindM (case wants_body base content of None \<Rightarrow> ret None | Some text' \<Rightarrow> anchors importable (take BODY_CHARS text')) (\<lambda>body.
       let found = anchored offer body @ (case structure_of content content_type of None \<Rightarrow> [] | Some d \<Rightarrow> [(''structure'', VDict d)])
       in ret (if found = [] then None else Some found))))"

section \<open>What the seam promises\<close>

lemma settles_on_ontology: "settles m P \<Longrightarrow> settles (on_ontology m) P"
  unfolding settles_def
proof (intro allI)
  fix s :: seam
  assume m: "\<forall>w. \<exists>x w'. m w = (Inr x, w') \<and> P x"
  obtain b w where s: "s = (b, w)" by (cases s)
  from m obtain x w' where "m w = (Inr x, w')" "P x" by blast
  then show "\<exists>x w'. on_ontology m s = (Inr x, w') \<and> P x" by (simp add: s on_ontology_def)
qed

lemma settles_gets: "settles (getsM f) (\<lambda>_. True)" "settles (modifyM g) (\<lambda>_. True)"
  by (simp_all add: settles_def)

lemma settles_offer_synsets: "settles (offer_synsets text') (\<lambda>_. True)"
proof -
  have "settles (hyphen_fallback_parts t) (\<lambda>_. True)" for t
    by (rule settles_mono [OF hyphen_parts_plain]) simp
  then have "settles (offer_token t out) (\<lambda>_. True)" for t out
    unfolding offer_token_def emit_sense_def
    by (auto intro!: settles_bind [where P = "\<lambda>_. True"] settles_held_senses settles_forM settles_ret)
  then show ?thesis unfolding offer_synsets_def by (auto intro!: settles_ret settles_forM)
qed

lemma anchors_asked: "settles (anchors importable text') (\<lambda>r. r = None \<longleftrightarrow> py_strip text' = [] \<or> \<not> importable)"
proof (cases "py_strip text' = [] \<or> \<not> importable")
  case True
  then show ?thesis unfolding anchors_def by (simp only: if_True settles_ret simp_thms)
next
  case False
  have "settles (bindM (on_ontology (offer_synsets text')) (\<lambda>names. ret (Some names))) (\<lambda>r. r \<noteq> None)"
    by (rule settles_bind [OF settles_on_ontology [OF settles_offer_synsets]]) (rule settles_ret, simp)
  then have "settles (catchM (bindM (on_ontology (offer_synsets text')) (\<lambda>names. ret (Some names))) (\<lambda>_. ret None)) (\<lambda>r. r \<noteq> None)"
    unfolding settles_def by (metis catchM_run(2))
  then have "settles (anchors importable text') (\<lambda>r. r \<noteq> None)" unfolding anchors_def if_not_P [OF False] .
  then show ?thesis by (rule settles_mono) (use False in blast)
qed

definition keys_of :: "pyval dict option \<Rightarrow> string set" where
  "keys_of r = fst ` set (case r of None \<Rightarrow> [] | Some d \<Rightarrow> d)"

text \<open>Whether there is a text to ask the ontology about: the offer, or the body when the caller wants it anchored.\<close>

definition has_text :: "pyval dict \<Rightarrow> string option \<Rightarrow> bool" where
  "has_text base content \<longleftrightarrow> py_strip (offer_text base) \<noteq> []
     \<or> (\<exists>t. wants_body base content = Some t \<and> py_strip (take BODY_CHARS t) \<noteq> [])"

lemma keys_found: "''anchors'' \<in> keys_of (if anchored offer body @ st = [] then None else Some (anchored offer body @ st))
    \<longleftrightarrow> offer \<noteq> None \<or> body \<noteq> None" if "''anchors'' \<notin> fst ` set st"
  using that by (cases offer; cases body) (auto simp: keys_of_def anchored_def)

lemma settles_enrich:
  "settles (enrich importable base content_type content db)
     (\<lambda>r. ''anchors'' \<in> keys_of r \<longleftrightarrow> importable \<and> has_text base content)"
proof -
  have bind: "settles (bind_ontology importable db) (\<lambda>_. True)"
    unfolding bind_ontology_def
    by (rule settles_bind [OF settles_gets(1)]) (auto intro!: settles_ret settles_catch)
  have body: "settles (case wants_body base content of None \<Rightarrow> ret None | Some text' \<Rightarrow> anchors importable (take BODY_CHARS text'))
      (\<lambda>r. r = None \<longleftrightarrow> (\<forall>t. wants_body base content = Some t \<longrightarrow> py_strip (take BODY_CHARS t) = [] \<or> \<not> importable))"
  proof (cases "wants_body base content")
    case None
    show ?thesis unfolding None option.case by (rule settles_ret) simp
  next
    case (Some t)
    show ?thesis unfolding Some option.case by (rule settles_mono [OF anchors_asked]) simp
  qed
  have st: "''anchors'' \<notin> fst ` set (case structure_of content content_type of None \<Rightarrow> [] | Some d \<Rightarrow> [(''structure'', VDict d)])"
    by (cases "structure_of content content_type") simp_all
  show ?thesis
    unfolding enrich_def Let_def
    by (rule settles_bind [OF bind], rule settles_bind [OF anchors_asked], rule settles_bind [OF body], rule settles_ret)
      (simp only: keys_found [OF st], auto simp: has_text_def)
qed

text \<open>C28: The seam never fails a write: whatever the artifact, the store and the ontology, it answers. What it answers
  has anchors exactly when the ontology can be imported and there is a text to ask about, the offer or a
  body the caller wants anchored; an ontology that cannot answer is recorded as one that names nothing.\<close>

theorem enrich_never_fails:
  "\<exists>r w'. enrich importable base content_type content db w = (Inr r, w')
     \<and> (''anchors'' \<in> keys_of r) = (importable \<and> has_text base content)"
  using settlesD [OF settles_enrich] by blast

text \<open>Headings.\<close>

lemma heading_bounds: "heading_at s = Some (d, t) \<Longrightarrow> 1 \<le> d \<and> d \<le> 6 \<and> t \<noteq> []"
  by (auto simp: heading_at_def Let_def Suc_le_eq split: if_splits)

lemma headings_bounds: "list_all (\<lambda>(d, t). 1 \<le> d \<and> d \<le> 6 \<and> t \<noteq> []) (headings s)"
proof (induction s rule: headings.induct)
  case (1 s)
  show ?case
  proof (cases "s = []")
    case False
    then show ?thesis
      using 1 heading_bounds [of s]
      by (subst headings.simps) (auto split: option.split)
  qed (simp add: headings.simps)
qed

lemma headings_examples:
  "headings ''# A  '' = [(1, ''A'')]"
  "headings (''text'' @ [CHR 0x0A] @ ''## Two words'' @ [CHR 0x0A, CHR 0x0A] @ ''#none'') = [(2, ''Two words'')]"
  "headings (''#'' @ [CHR 0x0A] @ ''# B'') = [(1, ''# B'')]"
  "headings ''#  '' = [(1, '' '')]"
  by (simp_all add: headings.simps heading_at_def next_line_def after_heading_def py_isspace_def code_def
      py_rstrip_def blank_heading_def)

end
