(* ===== verification/Seed_Lattice.thy ===== *)
theory Seed_Lattice
  imports Ontology_Index Operator_Schema
begin

text \<open>
  Laying the substrate of the ontology (\<open>ontology/seed_lattice.py\<close>): the measurement of the information
  content written onto the rows that disagree with it, ConceptNet's own measurement, the signature of a
  relation, the edges that anchor words, and the build that composes them.

  A write to the store may fail; what is written so far is recorded in order. \<open>wr_answer\<close> says what a write
  answers after the writes before it, \<open>wr_apply\<close> what it makes of the store: both are the store's own. The
  stored form of a float, the time and the constants of \<open>prism.grounding\<close> are parameters.
\<close>

section \<open>Writing\<close>

type_synonym row = "string \<times> string \<times> string \<times> pyval dict"

datatype seed_write = PutMany "pyval dict list" | PutArtifact "pyval dict" | AddEdges "row list" | Backfill | Checkpoint

record seeding =
  sd_driver :: driver
  sd_answer :: "seed_write list \<Rightarrow> seed_write \<Rightarrow> int res"
  sd_apply :: "seed_write \<Rightarrow> store \<Rightarrow> store"
  sd_writes :: "seed_write list"
  sd_reg :: "string list"

record constants =
  gr_now :: pyval
  gr_observed :: pyval
  gr_human :: pyval
  gr_op :: string
  gr_float :: "pyfloat \<Rightarrow> pyval"
  gr_fixed3 :: "rat \<Rightarrow> string"

definition writes_to :: "nat \<Rightarrow> seed_write \<Rightarrow> (seeding, int) prog" where
  "writes_to a q = (\<lambda>s. case sd_answer s (sd_writes s) q of
       Inl e \<Rightarrow> (Inl e, s)
     | Inr n \<Rightarrow> (Inr n, s\<lparr>sd_writes := sd_writes s @ [q],
         sd_driver := (sd_driver s)\<lparr>dr_stores := (dr_stores (sd_driver s))(a := sd_apply s q (dr_stores (sd_driver s) a))\<rparr>\<rparr>))"

definition with_driver :: "(driver, 'a) prog \<Rightarrow> (seeding, 'a) prog" where
  "with_driver m = (\<lambda>s. case m (sd_driver s) of (r, d) \<Rightarrow> (r, s\<lparr>sd_driver := d\<rparr>))"

definition wal :: "nat \<Rightarrow> (seeding, unit) prog" where
  "wal a = catchM (bindM (writes_to a Checkpoint) (\<lambda>_. ret ())) (\<lambda>_. ret ())"

definition IC_BATCH :: nat where
  "IC_BATCH = 2000"

text \<open>Two numbers compare equal; a value that is not finite is not taken for unchanged.\<close>

definition seed_unchanged :: "(string \<Rightarrow> pyfloat res) \<Rightarrow> pyval \<Rightarrow> pyfloat \<Rightarrow> bool res" where
  "seed_unchanged fl prev v = (if prev = VNone then Inr False
     else res_bind (py_float fl prev) (\<lambda>p. Inr (case (p, v) of (Fin x, Fin y) \<Rightarrow> x = y | _ \<Rightarrow> False)))"

definition seed_crossed :: "int \<Rightarrow> int \<Rightarrow> int \<Rightarrow> bool" where
  "seed_crossed n every flushed \<longleftrightarrow> (if every \<le> 0 \<or> flushed \<le> 0 then False else n mod every < flushed)"

type_synonym staged = "int \<times> pyval dict list"

definition flush :: "nat \<Rightarrow> int \<Rightarrow> staged \<Rightarrow> (seeding, staged) prog" where
  "flush a every = (\<lambda>(n, batch).
     if length batch < IC_BATCH then ret (n, batch)
     else bindM (writes_to a (PutMany batch)) (\<lambda>_. let flushed = int (length batch) in
          if seed_crossed (n + flushed) every flushed then bindM (wal a) (\<lambda>_. ret (n + flushed, []))
          else ret (n + flushed, [])))"

definition flush_rest :: "nat \<Rightarrow> staged \<Rightarrow> (seeding, int) prog" where
  "flush_rest a = (\<lambda>(n, batch). if batch = [] then ret n
     else bindM (writes_to a (PutMany batch)) (\<lambda>_. ret (n + int (length batch))))"

text \<open>\<open>doc["ic"] = v\<close> on a row that does not already hold the measurement.\<close>

definition stage :: "constants \<Rightarrow> nat \<Rightarrow> int \<Rightarrow> pyval dict \<Rightarrow> pyfloat \<Rightarrow> staged \<Rightarrow> (seeding, staged) prog" where
  "stage g a every doc v st = (case st of (n, batch) \<Rightarrow>
     bindM (getsM (\<lambda>s. seed_unchanged (dr_float (sd_driver s)) (dget doc ''ic'') v)) (\<lambda>r. bindM (liftR r) (\<lambda>same.
       if same then ret (n, batch)
       else flush a every (n, batch @ [AList.update ''ic'' (gr_float g v) doc]))))"

section \<open>The measurement of the corpus\<close>

definition IC_BASIS_CT :: string where
  "IC_BASIS_CT = ''application/vnd.agience.ic-basis+json''"

definition INTRINSIC_IC_FORMULA :: string where
  "INTRINSIC_IC_FORMULA = ''1 - log(desc(s)+1)/log(N+1)''"

definition basis_doc :: "constants \<Rightarrow> string \<Rightarrow> string \<Rightarrow> string \<Rightarrow> string \<Rightarrow> nat \<Rightarrow> string \<Rightarrow> string list \<Rightarrow> string \<Rightarrow> pyval dict" where
  "basis_doc g bid ct source formula n content lemmas author = [(''id'', VStr bid), (''content_type'', VStr ct), (''state'', VStr ''live''),
     (''basis'', VDict [(''source'', VStr source), (''n'', VInt (int n)), (''formula'', VStr formula)]),
     (''content'', VStr content), (''lemmas'', VList (map VStr lemmas)), (''provenance'', gr_observed g),
     (''created_by'', VStr author), (''created_time'', gr_now g)]"

definition ic_basis_doc :: "constants \<Rightarrow> string \<Rightarrow> nat \<Rightarrow> pyval dict" where
  "ic_basis_doc g author n = basis_doc g IC_BASIS_ID IC_BASIS_CT INTRINSIC_IC_SOURCE INTRINSIC_IC_FORMULA n
     (''information content over '' @ nat_str n @ '' synsets, '' @ INTRINSIC_IC_FORMULA @ '' ('' @ INTRINSIC_IC_SOURCE @ '')'')
     [''information'', ''content'', ''basis''] author"

definition measured_ic :: "index \<Rightarrow> string \<Rightarrow> pyfloat option" where
  "measured_ic idx name = (case map_of idx name of None \<Rightarrow> None
     | Some s \<Rightarrow> if has_ic s then Some (synset_ic s) else None)"

definition ic_step :: "constants \<Rightarrow> nat \<Rightarrow> int \<Rightarrow> index \<Rightarrow> pyval dict \<Rightarrow> staged \<Rightarrow> (seeding, staged) prog" where
  "ic_step g a every idx doc st =
     bindM (with_driver (n_of (py_or (dget doc ''id'') (VStr [])) None)) (\<lambda>name.
       case measured_ic idx name of None \<Rightarrow> ret st | Some v \<Rightarrow> stage g a every doc v st)"

definition record_ic :: "constants \<Rightarrow> nat \<Rightarrow> index \<Rightarrow> string \<Rightarrow> staged \<Rightarrow> (seeding, int) prog" where
  "record_ic g a idx author st =
     bindM (flush_rest a st) (\<lambda>n.
     bindM (wal a) (\<lambda>_.
     bindM (writes_to a (PutArtifact (ic_basis_doc g author (length idx)))) (\<lambda>_.
     bindM (wal a) (\<lambda>_. ret n))))"

definition persist_ic :: "constants \<Rightarrow> nat \<Rightarrow> index \<Rightarrow> pyval dict list \<Rightarrow> string \<Rightarrow> int \<Rightarrow> (seeding, int) prog" where
  "persist_ic g a idx docs author every = bindM (forM (ic_step g a every idx) docs (0, [])) (record_ic g a idx author)"

definition seed_invalidate :: "(seeding, unit) prog" where
  "seed_invalidate = modifyM (\<lambda>s. s\<lparr>sd_driver := invalidate_caches False (sd_driver s)\<rparr>)"

text \<open>The rows of the store page by page, each page read when the rows before it were staged. \<open>page\<close> is the
  store's: the rows behind an id, with their ids. \<open>None\<close> when the pages outnumber \<open>fuel\<close>.\<close>

fun refresh_rows :: "(store \<Rightarrow> string \<Rightarrow> string \<Rightarrow> (string \<times> pyval dict) list res) \<Rightarrow> constants \<Rightarrow> nat \<Rightarrow> int \<Rightarrow> index \<Rightarrow> string
    \<Rightarrow> nat \<Rightarrow> string \<Rightarrow> staged \<Rightarrow> (seeding, staged option) prog" where
  "refresh_rows page g a every idx ct 0 after st = ret None"
| "refresh_rows page g a every idx ct (Suc fuel) after st =
     bindM (getsM (\<lambda>s. page (dr_stores (sd_driver s) a) ct after)) (\<lambda>r. bindM (liftR r) (\<lambda>rows.
       if rows = [] then ret (Some st)
       else bindM (forM (ic_step g a every idx) (map snd rows) st) (\<lambda>st.
            refresh_rows page g a every idx ct fuel (fst (last rows)) st)))"

definition refresh_ic :: "(store \<Rightarrow> string \<Rightarrow> string \<Rightarrow> (string \<times> pyval dict) list res) \<Rightarrow> nat \<Rightarrow> constants \<Rightarrow> nat \<Rightarrow> string \<Rightarrow> int
    \<Rightarrow> (seeding, (int \<times> int) option) prog" where
  "refresh_ic page fuel g a author every =
     bindM seed_invalidate (\<lambda>_.
     bindM (with_driver (load_synsets None)) (\<lambda>idx.
     bindM (with_driver (spec_str ''content_type'' (Some a))) (\<lambda>ct.
     bindM (refresh_rows page g a every idx ct fuel [] (0, [])) (\<lambda>staged. case staged of
       None \<Rightarrow> ret None
     | Some st \<Rightarrow> bindM (record_ic g a idx author st) (\<lambda>n. bindM seed_invalidate (\<lambda>_.
         ret (Some (int (length idx), n))))))))"

section \<open>ConceptNet\<close>

text \<open>\<open>LIKE 'cn-%'\<close> does not distinguish the case of ASCII letters.\<close>

definition conceptnet_id :: "string \<Rightarrow> bool" where
  "conceptnet_id s \<longleftrightarrow> (case s of c # n # d # _ \<Rightarrow> c \<in> {CHR ''c'', CHR ''C''} \<and> n \<in> {CHR ''n'', CHR ''N''} \<and> d = CHR ''-'' | _ \<Rightarrow> False)"

definition is_a_rows :: "store \<Rightarrow> (string \<times> string) list res" where
  "is_a_rows s = (case so_edges s of None \<Rightarrow> Inl (AttributeError ''read'')
     | Some es \<Rightarrow> Inr (map (\<lambda>e. (ed_src e, ed_dst e)) (filter (\<lambda>e. ed_label e = ''is_a'' \<and> conceptnet_id (ed_src e) \<and> conceptnet_id (ed_dst e)) es)))"

definition cn_kids :: "(string \<times> string) list \<Rightarrow> string \<Rightarrow> string list" where
  "cn_kids rows b = remdups (map fst (filter (\<lambda>r. snd r = b) rows))"

definition cn_verts :: "(string \<times> string) list \<Rightarrow> string list" where
  "cn_verts rows = remdups (concat (map (\<lambda>(a, b). [a, b]) rows))"

lemma cn_kids_verts: "set (cn_kids rows u) \<subseteq> set (cn_verts rows)"
  by (force simp: cn_kids_def cn_verts_def)

lemma distinct_kids: "distinct (cn_kids rows u)"
  by (simp add: cn_kids_def)

text \<open>The breadth-first search: the queue, and what was seen, which holds the queue.\<close>

function cn_bfs :: "(string \<times> string) list \<Rightarrow> string list \<Rightarrow> string list \<Rightarrow> string list" where
  "cn_bfs rows [] seen = seen"
| "cn_bfs rows (u # q) seen = (let new = filter (\<lambda>k. k \<notin> set seen) (cn_kids rows u) in cn_bfs rows (q @ new) (seen @ new))"
  by pat_completeness auto

termination
proof (relation "measures [\<lambda>(rows, q, seen). card (set (cn_verts rows) - set seen), \<lambda>(rows, q, seen). length q]", simp, goal_cases)
  case (1 rows u q seen new)
  show ?case
  proof (cases "new = []")
    case False
    then obtain k where k: "k \<in> set new" by (cases new) auto
    then have "k \<in> set (cn_verts rows) - set seen" "k \<notin> set (cn_verts rows) - set (seen @ new)"
      using 1 cn_kids_verts [of rows u] by auto
    then have "set (cn_verts rows) - set (seen @ new) \<subset> set (cn_verts rows) - set seen" by auto
    then have "card (set (cn_verts rows) - set (seen @ new)) < card (set (cn_verts rows) - set seen)"
      by (rule psubset_card_mono [rotated]) simp
    then show ?thesis by simp
  qed simp
qed

definition cn_descendants :: "(string \<times> string) list \<Rightarrow> string \<Rightarrow> string list" where
  "cn_descendants rows v = cn_bfs rows (cn_kids rows v) (remdups (v # cn_kids rows v))"

definition conceptnet_ic :: "(string \<times> string) list \<Rightarrow> real dict" where
  "conceptnet_ic rows = (let verts = cn_verts rows; n = length verts in
     if n < 2 then []
     else map (\<lambda>v. (v, 1 - ln (real (length (cn_descendants rows v))) / ln (real n + 1))) verts)"

definition CN_IC_BASIS_ID :: string where
  "CN_IC_BASIS_ID = ''geom.conceptnet-ic-basis''"

definition CN_IC_SOURCE :: string where
  "CN_IC_SOURCE = ''conceptnet-is_a-intrinsic''"

definition CN_IC_FORMULA :: string where
  "CN_IC_FORMULA = ''1 - log(desc+1)/log(N+1)''"

definition cn_basis_doc :: "constants \<Rightarrow> string \<Rightarrow> nat \<Rightarrow> pyval dict" where
  "cn_basis_doc g author n = basis_doc g CN_IC_BASIS_ID ''geom.ic-basis'' CN_IC_SOURCE CN_IC_FORMULA n
     (''ConceptNet information content over '' @ nat_str n @ '' concepts, '' @ CN_IC_FORMULA @ '' ('' @ CN_IC_SOURCE @ '')'')
     [''information'', ''content'', ''basis'', ''conceptnet''] author"

definition cn_step :: "constants \<Rightarrow> nat \<Rightarrow> int \<Rightarrow> string \<times> real \<Rightarrow> staged \<Rightarrow> (seeding, staged) prog" where
  "cn_step g a every = (\<lambda>(vid, v) st.
     bindM (getsM (\<lambda>s. so_get (dr_stores (sd_driver s) a) vid)) (\<lambda>r. case r of
       Inr (Some (f # doc)) \<Rightarrow> stage g a every (f # doc) (Fin v) st
     | _ \<Rightarrow> ret st))"

definition persist_conceptnet_ic :: "constants \<Rightarrow> nat \<Rightarrow> string \<Rightarrow> int \<Rightarrow> (seeding, int \<times> int) prog" where
  "persist_conceptnet_ic g a author every =
     bindM (getsM (\<lambda>s. is_a_rows (dr_stores (sd_driver s) a))) (\<lambda>r. bindM (liftR r) (\<lambda>rows.
     let ic = conceptnet_ic rows in
     if ic = [] then ret (0, 0)
     else bindM (forM (cn_step g a every) ic (0, [])) (\<lambda>st.
          bindM (flush_rest a st) (\<lambda>n.
          bindM (wal a) (\<lambda>_.
          bindM (writes_to a (PutArtifact (cn_basis_doc g author (length ic)))) (\<lambda>_.
          bindM (wal a) (\<lambda>_. ret (int (length ic), n))))))))"

section \<open>Relations\<close>

text \<open>What the graph keeps beside its edges: the counter of a label and the labels in use, and the row id of each
  edge, by its place among the edges of the store.\<close>

record graph_face =
  gf_count :: "store \<Rightarrow> string \<Rightarrow> int option"
  gf_labels :: "store \<Rightarrow> string list option"
  gf_rowid :: "store \<Rightarrow> nat \<Rightarrow> int"

record signature =
  sg_n :: "int option"
  sg_edges :: "int option"
  sg_measured :: bool
  sg_symmetry :: "rat option"
  sg_inverse :: "string option"
  sg_share :: "rat option"

definition UNMEASURED_SIGNATURE :: signature where
  "UNMEASURED_SIGNATURE = \<lparr> sg_n = None, sg_edges = None, sg_measured = False, sg_symmetry = None, sg_inverse = None, sg_share = None \<rparr>"

definition sampled :: "graph_face \<Rightarrow> store \<Rightarrow> edge list \<Rightarrow> string \<Rightarrow> int \<Rightarrow> int \<Rightarrow> (string \<times> string) list" where
  "sampled gf s es label stride sample =
     (let rows = map (\<lambda>(i, e). (ed_src e, ed_dst e)) (filter (\<lambda>(i, e). ed_label e = label \<and> gf_rowid gf s i mod stride = 0) (List.enumerate 0 es))
      in if sample < 0 then rows else take (nat sample) rows)"

definition labels_between :: "edge list \<Rightarrow> string \<Rightarrow> string \<Rightarrow> string list" where
  "labels_between es a b = map ed_label (filter (\<lambda>e. ed_src e = a \<and> ed_dst e = b) es)"

text \<open>\<open>inv[l] = inv.get(l, 0) + 1\<close>.\<close>

definition tally :: "string \<Rightarrow> int dict \<Rightarrow> int dict" where
  "tally l d = AList.update l ((case map_of d l of None \<Rightarrow> 0 | Some n \<Rightarrow> n) + 1) d"

definition inverse_tally :: "edge list \<Rightarrow> string \<Rightarrow> (string \<times> string) list \<Rightarrow> int dict" where
  "inverse_tally es label pairs = fold (\<lambda>(a, b) d. fold (\<lambda>l d. if l \<noteq> label then tally l d else d) (labels_between es b a) d) pairs []"

text \<open>\<open>max(inv, key=...)\<close>: the first of the largest.\<close>

definition first_max :: "int dict \<Rightarrow> (string \<times> int) option" where
  "first_max d = (case d of [] \<Rightarrow> None
     | kv # rest \<Rightarrow> Some (fold (\<lambda>x best. if snd best < snd x then x else best) rest kv))"

definition measured_signature :: "edge list \<Rightarrow> string \<Rightarrow> int \<Rightarrow> (string \<times> string) list \<Rightarrow> signature" where
  "measured_signature es label extent pairs =
     (let n = of_int (int (length pairs));
          sym = length (filter (\<lambda>(a, b). label \<in> set (labels_between es b a)) pairs);
          best = first_max (inverse_tally es label pairs)
      in \<lparr> sg_n = Some (int (length pairs)), sg_edges = Some extent, sg_measured = True, sg_symmetry = Some (of_int (int sym) / n),
           sg_inverse = map_option fst best,
           sg_share = Some (case best of None \<Rightarrow> 0 | Some (l, k) \<Rightarrow> if l = [] then 0 else of_int k / n) \<rparr>)"

definition relation_signature :: "graph_face \<Rightarrow> store \<Rightarrow> string \<Rightarrow> int \<Rightarrow> signature res" where
  "relation_signature gf s label sample = (case so_edges s of None \<Rightarrow> Inl (AttributeError ''read'')
     | Some es \<Rightarrow> (case gf_count gf s label of
         None \<Rightarrow> Inr UNMEASURED_SIGNATURE
       | Some extent \<Rightarrow>
           let none = \<lparr> sg_n = Some 0, sg_edges = Some (max 0 extent), sg_measured = True, sg_symmetry = Some 0, sg_inverse = None, sg_share = Some 0 \<rparr>;
               pairs = sampled gf s es label (max (extent div max sample 1) 1) sample
           in Inr (if extent \<le> 0 \<or> pairs = [] then none else measured_signature es label extent pairs)))"

definition RELATION_PREFIX :: string where
  "RELATION_PREFIX = ''rel-''"

definition RELATION_CT :: string where
  "RELATION_CT = ''ontology.relation''"

definition RELATION_BASIS :: string where
  "RELATION_BASIS = ''relation-vertex/extensional/2026-08-02''"

definition vint :: "int option \<Rightarrow> pyval" where
  "vint x = (case x of None \<Rightarrow> VNone | Some n \<Rightarrow> VInt n)"

definition vrat :: "constants \<Rightarrow> rat option \<Rightarrow> pyval" where
  "vrat g x = (case x of None \<Rightarrow> VNone | Some q \<Rightarrow> gr_float g (Fin (of_rat q)))"

definition signature_spec :: "constants \<Rightarrow> string \<Rightarrow> signature \<Rightarrow> pyval dict" where
  "signature_spec g label sg = [(''n'', vint (sg_n sg)), (''edges'', vint (sg_edges sg)), (''measured'', VBool (sg_measured sg)),
     (''symmetry'', vrat g (sg_symmetry sg)), (''inverse'', vopt (sg_inverse sg)), (''inverse_share'', vrat g (sg_share sg)),
     (''basis'', VStr RELATION_BASIS), (''label'', VStr label)]"

definition relation_doc :: "constants \<Rightarrow> string \<Rightarrow> string \<Rightarrow> signature \<Rightarrow> pyval dict" where
  "relation_doc g author label sg = [(''id'', VStr (RELATION_PREFIX @ label)), (''content_type'', VStr RELATION_CT), (''state'', VStr ''live''),
     (''kind'', VStr ''relation''), (''spec'', VDict (signature_spec g label sg)), (''context'', VStr (''ontology relation - '' @ label)),
     (''content'', VStr (''the relation `'' @ label @ ''`, as the corpus uses it: '' @ int_str (case sg_edges sg of None \<Rightarrow> 0 | Some n \<Rightarrow> n)
        @ '' edges, symmetry '' @ gr_fixed3 g (case sg_symmetry sg of None \<Rightarrow> 0 | Some q \<Rightarrow> q)
        @ (case sg_inverse sg of Some (c # cs) \<Rightarrow> '', inverse of `'' @ (c # cs) @ ''`'' | _ \<Rightarrow> []))),
     (''lemmas'', VList (map VStr (py_words (map (\<lambda>c. if c = CHR '':'' \<or> c = CHR ''_'' then CHR '' '' else c) label)))),
     (''provenance'', gr_observed g), (''created_by'', VStr author), (''created_time'', gr_now g)]"

definition relation_step :: "graph_face \<Rightarrow> constants \<Rightarrow> nat \<Rightarrow> string \<Rightarrow> string \<Rightarrow> int \<Rightarrow> (seeding, int) prog" where
  "relation_step gf g a author label n =
     bindM (getsM (\<lambda>s. relation_signature gf (dr_stores (sd_driver s) a) label 4000)) (\<lambda>r. bindM (liftR r) (\<lambda>sg.
       if \<not> sg_measured sg then raise (RuntimeError (''relation_vertices: relation '' @ repr_str label @ '' has no measured extent''))
       else bindM (writes_to a (PutArtifact (relation_doc g author label sg))) (\<lambda>_. ret (n + 1))))"

definition relation_vertices :: "graph_face \<Rightarrow> constants \<Rightarrow> nat \<Rightarrow> string \<Rightarrow> (seeding, int) prog" where
  "relation_vertices gf g a author =
     bindM (writes_to a Backfill) (\<lambda>_.
     bindM (getsM (\<lambda>s. gf_labels gf (dr_stores (sd_driver s) a))) (\<lambda>labels. case labels of
       None \<Rightarrow> raise (RuntimeError ''relation_vertices: the per-label edge counters are not measured on this store'')
     | Some ls \<Rightarrow> bindM (forM (relation_step gf g a author) ls 0) (\<lambda>n. bindM (wal a) (\<lambda>_. ret n))))"

section \<open>Anchoring words\<close>

text \<open>The rows are written in chunks; a checkpoint follows every full one.\<close>

definition chunk_step :: "nat \<Rightarrow> int \<Rightarrow> row \<Rightarrow> int \<times> row list \<Rightarrow> (seeding, int \<times> row list) prog" where
  "chunk_step a every e = (\<lambda>(n, chunk). let chunk = chunk @ [e] in
     if int (length chunk) < every then ret (n, chunk)
     else bindM (writes_to a (AddEdges chunk)) (\<lambda>k. bindM (wal a) (\<lambda>_. ret (n + k, []))))"

definition add_all_edges :: "nat \<Rightarrow> int \<Rightarrow> row list \<Rightarrow> (seeding, int) prog" where
  "add_all_edges a every rows = bindM (forM (chunk_step a every) rows (0, [])) (\<lambda>(n, chunk).
     if chunk = [] then ret n else bindM (writes_to a (AddEdges chunk)) (\<lambda>k. ret (n + k)))"

definition ASSOC_LABEL_PREFIX :: string where
  "ASSOC_LABEL_PREFIX = ''assoc:''"

text \<open>The vertices are those of the graph; \<open>None\<close> when they cannot be read.\<close>

definition assoc_terms :: "(store \<Rightarrow> string list option) \<Rightarrow> string \<Rightarrow> store \<Rightarrow> string list option" where
  "assoc_terms vertices lang s = (case (vertices s, so_edges s) of
       (Some vs, Some es) \<Rightarrow> Some (filter (\<lambda>v. conceptnet_id v \<and> CHR ''_'' \<notin> set v
         \<and> list_ex (\<lambda>e. ed_label e = ''lex:'' @ lang \<and> ed_src e = ''lemma:'' @ drop 3 v) es) vs)
     | _ \<Rightarrow> None)"

definition assoc_row :: "string \<Rightarrow> string \<Rightarrow> row" where
  "assoc_row lang vid = (''lemma:'' @ drop 3 vid, vid, ASSOC_LABEL_PREFIX @ lang,
     [(''source'', VStr ''conceptnet''), (''rank'', VNone), (''associative'', VInt 1)])"

definition anchor_associative :: "(store \<Rightarrow> string list option) \<Rightarrow> nat \<Rightarrow> string \<Rightarrow> int \<Rightarrow> (seeding, int) prog" where
  "anchor_associative vertices a lang every =
     bindM (getsM (\<lambda>s. assoc_terms vertices lang (dr_stores (sd_driver s) a))) (\<lambda>terms. case terms of
       None \<Rightarrow> ret 0
     | Some vs \<Rightarrow> bindM (add_all_edges a every (map (assoc_row lang) (filter (\<lambda>v. drop 3 v \<noteq> []) vs))) (\<lambda>n.
         bindM (wal a) (\<lambda>_. ret n)))"

section \<open>The build\<close>

text \<open>\<open>list(counts.keys()) or list(doc.get("lemmas") or [])\<close>.\<close>

definition doc_lemmas :: "pyval dict \<Rightarrow> pyval list res" where
  "doc_lemmas doc = (case dget doc ''lemma_counts'' of
       VDict (c # cs) \<Rightarrow> Inr (map (\<lambda>kv. VStr (fst kv)) (c # cs))
     | _ \<Rightarrow> py_list (py_or (dget doc ''lemmas'') (VList [])))"

definition lex_rank :: "constants \<Rightarrow> pyval \<Rightarrow> pyval" where
  "lex_rank g v = (case v of
       VInt n \<Rightarrow> gr_float g (Fin (of_int n))
     | VBool b \<Rightarrow> gr_float g (Fin (if b then 1 else 0))
     | VFloat r q \<Rightarrow> gr_float g (Fin (of_rat q))
     | _ \<Rightarrow> VNone)"

definition lex_row :: "constants \<Rightarrow> string \<Rightarrow> string \<Rightarrow> pyval \<Rightarrow> pyval dict \<Rightarrow> pyval \<Rightarrow> row" where
  "lex_row g label name pos ranks lm = (let s = py_str lm;
       (written, rank) = (case map_of (by_lower ranks) (py_lower s) of None \<Rightarrow> (s, VNone) | Some wr \<Rightarrow> wr)
     in (''lemma:'' @ underscored s, ''wn-'' @ name, label,
         [(''pos'', pos), (''proper'', VInt (if written \<noteq> py_lower written then 1 else 0)), (''rank'', lex_rank g rank)]))"

definition lex_pos :: "string \<Rightarrow> pyval dict \<Rightarrow> pyval" where
  "lex_pos name doc = py_or (dget doc ''pos'') (VStr (pos_of_name name))"

definition lex_rows :: "constants \<Rightarrow> string \<Rightarrow> string \<Rightarrow> pyval dict \<Rightarrow> row list res" where
  "lex_rows g label name doc = res_bind (doc_lemmas doc) (\<lambda>lms. res_bind (py_items (py_or (dget doc ''sense_ranks'') (VDict []))) (\<lambda>ranks.
     Inr (map (lex_row g label name (lex_pos name doc) ranks) (filter truthy lms))))"

text \<open>The irregular forms of a row: the last writer of a key wins.\<close>

fun lex_forms :: "pyval \<Rightarrow> pyval dict \<Rightarrow> string dict \<Rightarrow> string dict res" where
  "lex_forms pos [] exc = Inr exc"
| "lex_forms pos ((lm, fs) # forms) exc = res_bind (py_list (py_or fs (VList []))) (\<lambda>xs.
     res_bind (if xs = [] then Inr [] else case pos of VStr p \<Rightarrow> Inr p | _ \<Rightarrow> Inl (TypeError ''str'')) (\<lambda>p.
       lex_forms pos forms (fold (\<lambda>f e. AList.update (underscored (py_str f) @ ''|'' @ p) (underscored lm) e) xs exc)))"

type_synonym lexing = "(int \<times> row list) \<times> string dict"

definition lex_doc :: "constants \<Rightarrow> nat \<Rightarrow> int \<Rightarrow> string \<Rightarrow> string \<times> pyval dict \<Rightarrow> lexing \<Rightarrow> (seeding, lexing) prog" where
  "lex_doc g a every lang = (\<lambda>(name, doc) (st, exc).
     if py_or (dget doc ''lang'') (VStr lang) \<noteq> VStr lang then ret (st, exc)
     else bindM (liftR (lex_rows g (''lex:'' @ lang) name doc)) (\<lambda>rows.
          bindM (forM (chunk_step a every) rows st) (\<lambda>st.
          bindM (liftR (res_bind (py_items (py_or (dget doc ''forms'') (VDict []))) (\<lambda>forms. lex_forms (lex_pos name doc) forms exc))) (\<lambda>exc.
            ret (st, exc)))))"

definition meta_step :: "pyval dict \<Rightarrow> pyval dict dict \<Rightarrow> (seeding, pyval dict dict) prog" where
  "meta_step doc meta = bindM (with_driver (n_of (py_or (dget doc ''id'') (VStr [])) None)) (\<lambda>name.
     ret (if name = [] then meta else AList.update name doc meta))"

definition TRANSDUCER_CT :: string where
  "TRANSDUCER_CT = ''application/x-transducer''"

definition transducer_doc :: "constants \<Rightarrow> string \<Rightarrow> string \<Rightarrow> pyval \<Rightarrow> pyval \<Rightarrow> string dict \<Rightarrow> pyval dict" where
  "transducer_doc g author lang xi geometry exceptions = [(''id'', VStr (gr_op g @ ''language.'' @ lang)), (''content_type'', VStr TRANSDUCER_CT),
     (''state'', VStr ''live''), (''kind'', VStr ''transducer''),
     (''spec'', VDict [(''name'', VStr (''language.'' @ lang)), (''kind'', VStr ''language''), (''lang'', VStr lang), (''entry_label'', VStr (''lex:'' @ lang)),
        (''frame_t'', VStr ''surface-sequence''), (''frame_f'', VStr ''ontology-coordinate''), (''xi'', xi), (''geometry'', geometry),
        (''exceptions'', VDict (map (\<lambda>(k, v). (k, VStr v)) exceptions))]),
     (''context'', VStr (''language:'' @ lang @ '' transducer - surface-concept conversion'')),
     (''content'', VStr (''language:'' @ lang @ '' transducer (data-driven): lemma-synset over the shared lattice'')),
     (''lemmas'', VList [VStr ''transducer'', VStr ''language'', VStr lang]), (''provenance'', gr_human g),
     (''created_by'', VStr author), (''created_time'', gr_now g)]"

text \<open>The provider of the geometry answers a dictionary or nothing, or raises.\<close>

definition geometry_of :: "pyval dict option res option \<Rightarrow> (pyval \<times> pyval \<times> pyval) res" where
  "geometry_of provider = (case provider of
       Some (Inr (Some d)) \<Rightarrow> res_bind (py_subscript (VDict d) ''xi'') (\<lambda>xi. res_bind (py_subscript (VDict d) ''gap'') (\<lambda>gap. Inr (VDict d, xi, gap)))
     | _ \<Rightarrow> Inr (VNone, VNone, VNone))"

definition seed_build :: "constants \<Rightarrow> (store \<Rightarrow> string list option) \<Rightarrow> pyval dict option res option \<Rightarrow> nat \<Rightarrow> string \<Rightarrow> string \<Rightarrow> int
    \<Rightarrow> (seeding, pyval dict) prog" where
  "seed_build g vertices provider a lang author every =
     bindM seed_invalidate (\<lambda>_.
     bindM (with_driver (load_synsets None)) (\<lambda>idx.
     bindM (getsM (\<lambda>s. list_artifacts (dr_stores (sd_driver s) a) ''text/x-wordnet'')) (\<lambda>r. bindM (liftR r) (\<lambda>docs.
     bindM (forM meta_step docs []) (\<lambda>meta.
     bindM (persist_ic g a idx (map snd meta) author every) (\<lambda>stored.
     bindM (forM (lex_doc g a every lang) meta ((0, []), [])) (\<lambda>((n, chunk), exceptions).
     bindM (if chunk = [] then ret n else bindM (writes_to a (AddEdges chunk)) (\<lambda>k. ret (n + k))) (\<lambda>lexed.
     bindM (wal a) (\<lambda>_.
     bindM (anchor_associative vertices a lang every) (\<lambda>assoc.
     bindM (liftR (geometry_of provider)) (\<lambda>(geometry, xi, gap).
     bindM (writes_to a (PutArtifact (transducer_doc g author lang xi geometry exceptions))) (\<lambda>_.
     bindM (wal a) (\<lambda>_.
     bindM seed_invalidate (\<lambda>_.
     bindM (modifyM (\<lambda>s. s\<lparr>sd_reg := []\<rparr>)) (\<lambda>_.
       ret [(''ic_stored'', VInt stored), (''lex_edges'', VInt lexed), (''xi'', xi), (''exceptions'', VInt (int (length exceptions))),
            (''assoc_edges'', VInt assoc), (''gap'', gap), (''transducer'', VStr (gr_op g @ ''language.'' @ lang))])))))))))))))))"

end
