(* ===== verification/Seed_Writes.thy ===== *)
theory Seed_Writes
  imports Seed_Lattice
begin

text \<open>
  What the programs of the seed lattice write, in full: from one state to another they record a list of
  writes, the contents of the store are what those writes make of it, and the naming of the rows stays what
  the transducer's artifact says as long as that artifact is not written. On this the rows of a measurement and
  the edges of a lexicon are followed document by document.
\<close>

section \<open>How rows are named\<close>

text \<open>The prefix of the ids of concepts, as the transducer's artifact of a store declares it.\<close>

definition transducer_in :: "store \<Rightarrow> pyval dict" where
  "transducer_in t = (case so_get t TRANSDUCER_ID of Inl e \<Rightarrow> [] | Inr None \<Rightarrow> [] | Inr (Some doc) \<Rightarrow> doc)"

definition prefix_in :: "store \<Rightarrow> string res" where
  "prefix_in t = res_bind (spec_of (transducer_in t)) (\<lambda>sp. Inr (spec_str_of sp ''id_prefix''))"

definition named :: "string \<Rightarrow> driver \<Rightarrow> bool" where
  "named p d \<longleftrightarrow> (\<forall>a. prefix_in (dr_stores d a) = Inr p) \<and> (\<forall>sp. dr_spec d = Some sp \<longrightarrow> spec_str_of sp ''id_prefix'' = p)"

text \<open>What a read of the driver leaves as it was.\<close>

definition still :: "driver \<Rightarrow> driver \<Rightarrow> bool" where
  "still d d' \<longleftrightarrow> dr_stores d' = dr_stores d \<and> dr_float d' = dr_float d \<and> (\<forall>p. named p d \<longrightarrow> named p d')"

interpretation stilled: world_relation still
  by unfold_locales (auto simp: still_def)

lemma still_fields:
  "dr_stores d' = dr_stores d \<Longrightarrow> dr_float d' = dr_float d \<Longrightarrow> dr_spec d' = None \<or> dr_spec d' = dr_spec d \<Longrightarrow> still d d'"
  by (auto simp: still_def named_def)

lemma still_modify:
  "(\<And>w. dr_stores (f w) = dr_stores w \<and> dr_float (f w) = dr_float w \<and> (dr_spec (f w) = None \<or> dr_spec (f w) = dr_spec w))
    \<Longrightarrow> stilled.keeps (modifyM f)"
  by (simp add: stilled.keeps_def still_fields)

lemma still_arts: "stilled.keeps (arts store)"
  unfolding stilled.keeps_def
  by (rule allI, rule still_fields) (auto simp: arts_def invalidate_caches_def Let_def split: option.splits)

lemma still_gate: "stilled.keeps (modifyM (gate a))" "stilled.keeps (modifyM (spec_fresh a))"
  by (rule still_modify, simp add: gate_def spec_fresh_def Let_def)+

lemma still_option: "stilled.keeps m \<Longrightarrow> (\<And>x. stilled.keeps (f x)) \<Longrightarrow> stilled.keeps (case v of None \<Rightarrow> m | Some x \<Rightarrow> f x)"
  by (cases v) simp_all

lemmas still_intros = stilled.keeps_basic stilled.keeps_bind stilled.keeps_catch stilled.keeps_if stilled.keeps_forM
  still_arts still_gate still_option

lemma still_observe: "stilled.keeps (observe_store store)"
  unfolding observe_store_def by (intro still_intros)

text \<open>The one program that sets what is remembered of the artifact.\<close>

definition read_spec :: "nat \<Rightarrow> (driver, pyval dict) prog" where
  "read_spec a = bindM (getsM (\<lambda>w.
           case so_get (dr_stores w a) TRANSDUCER_ID of Inl e \<Rightarrow> [] | Inr None \<Rightarrow> [] | Inr (Some doc) \<Rightarrow> doc)) (\<lambda>doc.
         bindM (liftR (spec_of doc)) (\<lambda>d. bindM (modifyM (\<lambda>w. w\<lparr>dr_spec := Some d\<rparr>)) (\<lambda>_. ret d)))"

lemma read_spec_run:
  "read_spec a d = (case spec_of (transducer_in (dr_stores d a)) of Inl e \<Rightarrow> (Inl e, d) | Inr sp \<Rightarrow> (Inr sp, d\<lparr>dr_spec := Some sp\<rparr>))"
  unfolding read_spec_def transducer_in_def [symmetric] by (simp add: bindM_def split: sum.splits)

lemma prefix_read: "named p d \<Longrightarrow> spec_of (transducer_in (dr_stores d a)) = Inr sp \<Longrightarrow> spec_str_of sp ''id_prefix'' = p"
  unfolding named_def prefix_in_def by (metis res_bind_simps(2) sum.inject(2))

lemma still_read_spec: "stilled.keeps (read_spec a)"
proof -
  have "still d (d\<lparr>dr_spec := Some sp\<rparr>)" if "spec_of (transducer_in (dr_stores d a)) = Inr sp" for d sp
    using prefix_read [OF _ that] by (auto simp: still_def named_def)
  then show ?thesis by (simp add: stilled.keeps_def read_spec_run stilled.refl split: sum.split)
qed

lemma names_read_spec: "does (named p) (read_spec a) (named p) (\<lambda>sp. spec_str_of sp ''id_prefix'' = p)"
proof -
  have "named p d \<Longrightarrow> named p (snd (read_spec a d))" for d
    using still_read_spec [of a] by (simp add: stilled.keeps_def still_def)
  moreover have "named p d \<Longrightarrow> fst (read_spec a d) = Inr sp \<Longrightarrow> spec_str_of sp ''id_prefix'' = p" for d sp
    using prefix_read [of p d a sp] by (simp add: read_spec_run split: sum.splits)
  ultimately show ?thesis by (simp add: does_def)
qed

lemma lang_spec_read: "lang_spec store = bindM (arts store) (\<lambda>a. bindM (modifyM (spec_fresh a)) (\<lambda>_. bindM (getsM dr_spec) (\<lambda>sp.
     case sp of Some d \<Rightarrow> ret d | None \<Rightarrow> bindM (observe_store store) read_spec)))"
  unfolding lang_spec_def read_spec_def ..

lemma still_lang_spec: "stilled.keeps (lang_spec store)"
  unfolding lang_spec_read by (intro still_intros still_observe still_read_spec)

lemma names_kept: "stilled.keeps m \<Longrightarrow> does (named p) m (named p) (\<lambda>_. True)"
  by (simp add: stilled.keeps_def still_def does_def)

lemma names_lang_spec: "does (named p) (lang_spec store) (named p) (\<lambda>sp. spec_str_of sp ''id_prefix'' = p)"
  unfolding lang_spec_read
proof (rule does_keep [OF names_kept [OF still_arts]], rule does_keep [OF names_kept [OF still_gate(2)]])
  show "does (named p) (bindM (getsM dr_spec) (\<lambda>sp. case sp of Some d \<Rightarrow> ret d
      | None \<Rightarrow> bindM (observe_store store) read_spec)) (named p) (\<lambda>sp. spec_str_of sp ''id_prefix'' = p)"
  proof (rule does_keep [where P = "\<lambda>x. \<forall>sp. x = Some sp \<longrightarrow> spec_str_of sp ''id_prefix'' = p"])
    show "does (named p) (getsM dr_spec) (named p) (\<lambda>x. \<forall>sp. x = Some sp \<longrightarrow> spec_str_of sp ''id_prefix'' = p)"
      by (rule does_gets) (simp add: named_def)
    fix x assume x: "\<forall>sp. x = Some sp \<longrightarrow> spec_str_of sp ''id_prefix'' = p"
    show "does (named p) (case x of Some d \<Rightarrow> ret d | None \<Rightarrow> bindM (observe_store store) read_spec) (named p)
        (\<lambda>sp. spec_str_of sp ''id_prefix'' = p)"
      using x by (auto intro: does_ret does_keep [OF names_kept [OF still_observe]] names_read_spec split: option.split)
  qed
qed

lemma still_spec: "stilled.keeps (spec_str key store)" "stilled.keeps (spec_list key store)"
  unfolding spec_str_def spec_list_def by (intro still_intros still_lang_spec)+

lemma still_n_of: "stilled.keeps (n_of x store)"
  unfolding n_of_def by (intro still_intros still_spec)

lemma names_n_of: "does (named p) (n_of x store) (named p) (\<lambda>n. n = strip_prefix p (py_str (py_or x (VStr []))))"
  unfolding n_of_def spec_str_def
  by (rule does_keep, rule does_keep [OF names_lang_spec], rule does_ret, assumption, rule does_ret, simp)

lemma py_or_twice: "py_or (py_or v d) d = py_or v d"
  by (simp add: py_or_def)

text \<open>Loading the index reads only.\<close>

lemma still_new_oid: "stilled.keeps new_oid"
  by (simp add: stilled.keeps_def new_oid_def still_fields)

lemma still_add_forms: "stilled.keeps (add_forms pos forms)"
proof (induction forms)
  case (Cons f forms)
  obtain lm fs where f: "f = (lm, fs)" by (cases f)
  have "stilled.keeps (modifyM (exc_set pos lm xs))" for xs by (rule still_modify) (simp add: exc_set_def)
  then show ?case unfolding f add_forms.simps by (intro still_intros Cons.IH)
qed (simp only: add_forms.simps still_intros)

lemma still_add_row: "stilled.keeps (add_row p doc l)"
  unfolding add_row_def Let_def by (intro still_intros still_add_forms still_new_oid)

lemma still_ic_basis: "stilled.keeps (ic_basis store)"
  unfolding ic_basis_def by (intro still_intros still_observe)

lemma still_load_index: "stilled.keeps (load_index store)"
  unfolding load_index_def Let_def
  by (intro still_intros still_observe still_spec still_add_row still_ic_basis still_modify) simp

lemma still_load_synsets: "stilled.keeps (load_synsets store)"
proof -
  have both: "stilled.keeps both_indexes" unfolding both_indexes_def by (intro still_intros)
  have "stilled.keeps (load_indexes store)"
    unfolding load_indexes_def by (intro still_intros still_observe still_load_index both still_modify) simp
  then show ?thesis unfolding load_synsets_def split_def by (intro still_intros)
qed

section \<open>From one state to another\<close>

text \<open>The artifact whose presence moves the readers onto the keyed path.\<close>

definition is_flag :: "seed_write \<Rightarrow> bool" where
  "is_flag q \<longleftrightarrow> (case q of PutArtifact d \<Rightarrow> dget d ''content_type'' = VStr TRANSDUCER_CT | _ \<Rightarrow> False)"

lemma no_flag: "\<not> is_flag (PutMany ds)" "\<not> is_flag (AddEdges rows)" "\<not> is_flag Checkpoint" "\<not> is_flag (PutArtifact (ic_basis_doc g author n))"
  by (simp_all add: is_flag_def ic_basis_doc_def basis_doc_def dget_def IC_BASIS_CT_def TRANSDUCER_CT_def)

lemma flag_transducer: "is_flag (PutArtifact (transducer_doc g author lang xi geometry exceptions))"
  by (simp add: is_flag_def transducer_doc_def dget_def)

text \<open>The rows are named by \<open>p\<close>, now and after every write that is no transducer's artifact.\<close>

definition steady :: "string \<Rightarrow> seeding \<Rightarrow> bool" where
  "steady p s \<longleftrightarrow> named p (sd_driver s) \<and> (\<forall>q t. \<not> is_flag q \<longrightarrow> prefix_in (sd_apply s q t) = prefix_in t)"

definition spans :: "nat \<Rightarrow> seeding \<Rightarrow> seed_write list \<Rightarrow> seeding \<Rightarrow> bool" where
  "spans a s ws s' \<longleftrightarrow> sd_writes s' = sd_writes s @ ws \<and> sd_apply s' = sd_apply s
     \<and> dr_float (sd_driver s') = dr_float (sd_driver s)
     \<and> dr_stores (sd_driver s') = (dr_stores (sd_driver s))(a := fold (sd_apply s) ws (dr_stores (sd_driver s) a))
     \<and> (list_all (\<lambda>q. \<not> is_flag q) ws \<longrightarrow> (\<forall>p. steady p s \<longrightarrow> steady p s'))"

lemma span_refl: "spans a s [] s"
  by (simp add: spans_def)

lemma span_trans: "spans a s ws s1 \<Longrightarrow> spans a s1 ws' s2 \<Longrightarrow> spans a s (ws @ ws') s2"
  by (auto simp: spans_def)

lemma span_steady: "spans a s ws s' \<Longrightarrow> list_all (\<lambda>q. \<not> is_flag q) ws \<Longrightarrow> steady p s \<Longrightarrow> steady p s'"
  by (simp add: spans_def)

lemma span_float: "spans a s ws s' \<Longrightarrow> dr_float (sd_driver s') = dr_float (sd_driver s)"
  by (simp add: spans_def)

lemma span_store: "spans a s ws s' \<Longrightarrow> dr_stores (sd_driver s') a = fold (sd_apply s) ws (dr_stores (sd_driver s) a)"
  by (simp add: spans_def)

lemma span_write: "outcome (writes_to a q) s (\<lambda>n s'. spans a s [q] s') (\<lambda>s'. s' = s)"
proof (cases "sd_answer s (sd_writes s) q")
  case (Inr n)
  let ?s = "s\<lparr>sd_writes := sd_writes s @ [q],
     sd_driver := (sd_driver s)\<lparr>dr_stores := (dr_stores (sd_driver s))(a := sd_apply s q (dr_stores (sd_driver s) a))\<rparr>\<rparr>"
  have "steady p s \<Longrightarrow> \<not> is_flag q \<Longrightarrow> steady p ?s" for p by (auto simp: steady_def named_def)
  then have "spans a s [q] ?s" by (simp add: spans_def)
  then show ?thesis by (simp add: outcome_def writes_to_def Inr)
qed (simp add: outcome_def writes_to_def)

lemma span_driver: "stilled.keeps m \<Longrightarrow> outcome (with_driver m) s (\<lambda>x s'. spans a s [] s') (spans a s [])"
proof -
  assume m: "stilled.keeps m"
  obtain r d where run: "m (sd_driver s) = (r, d)" by fastforce
  have "still (sd_driver s) d" by (rule stilled.keepsD [OF m run])
  then have "spans a s [] (s\<lparr>sd_driver := d\<rparr>)" by (simp add: spans_def still_def steady_def)
  then show ?thesis by (simp add: outcome_def with_driver_def run split: sum.split)
qed

lemma span_named:
  assumes "steady p s"
  shows "outcome (with_driver (n_of (py_or (dget doc ''id'') (VStr [])) None)) s (\<lambda>n s'. n = row_name p doc \<and> spans a s [] s') (spans a s [])"
proof -
  let ?m = "n_of (py_or (dget doc ''id'') (VStr [])) None"
  obtain r d where run: "?m (sd_driver s) = (r, d)" by fastforce
  have "r = Inr n \<Longrightarrow> n = row_name p doc" for n
    using does_result [OF names_n_of, of p "sd_driver s" "py_or (dget doc ''id'') (VStr [])" None n d] assms run
    by (simp add: steady_def row_name_def py_or_twice)
  then show ?thesis
    using span_driver [OF still_n_of, of "py_or (dget doc ''id'') (VStr [])" None s a] run
    by (auto simp: outcome_def with_driver_def split: sum.split)
qed

lemma span_wal: "outcome (wal a) s (\<lambda>u s'. \<exists>cs. spans a s cs s' \<and> list_all (\<lambda>q. q = Checkpoint) cs) (\<lambda>_. False)"
proof -
  have "outcome (bindM (writes_to a Checkpoint) (\<lambda>_. ret ())) s (\<lambda>u s'. \<exists>cs. spans a s cs s' \<and> list_all (\<lambda>q. q = Checkpoint) cs) (\<lambda>s'. s' = s)"
    by (rule outcome_bind, rule outcome_mono [OF span_write]) (auto simp: outcome_def intro: exI [of _ "[Checkpoint]"])
  then show ?thesis unfolding wal_def
    by (intro outcome_catch, elim outcome_mono) (auto simp: outcome_def intro: exI [of _ "[]"] span_refl)
qed

text \<open>A loop, with what it has gone through.\<close>

lemma outcome_forM_done:
  assumes "\<And>ys x zs st w. xs = ys @ x # zs \<Longrightarrow> J ys st w \<Longrightarrow> outcome (f x st) w (J (ys @ [x])) R" and "J [] st w"
  shows "outcome (forM f xs st) w (J xs) R"
proof -
  have "xs = ys @ zs \<Longrightarrow> J ys st w \<Longrightarrow> outcome (forM f zs st) w (J xs) R" for ys zs st w
  proof (induction zs arbitrary: ys st w)
    case Nil
    then show ?case by (simp add: outcome_def)
  next
    case (Cons z zs)
    have "outcome (f z st) w (J (ys @ [z])) R" using assms(1) Cons.prems by blast
    moreover have "J (ys @ [z]) st' w' \<Longrightarrow> outcome (forM f zs st') w' (J xs) R" for st' w'
      by (rule Cons.IH) (simp add: Cons.prems(1))
    ultimately show ?case unfolding forM.simps by (intro outcome_bind) (rule outcome_mono)
  qed
  from this [of "[]" xs] show ?thesis using assms(2) by simp
qed

definition wrote :: "seeding \<Rightarrow> seeding \<Rightarrow> seed_write list" where
  "wrote s s' = drop (length (sd_writes s)) (sd_writes s')"

lemma span_wrote: "spans a s ws s' \<Longrightarrow> wrote s s' = ws" "spans a s ws s' \<Longrightarrow> sd_writes s' = sd_writes s @ wrote s s'"
  by (simp_all add: wrote_def spans_def)

section \<open>The rows of a measurement\<close>

fun rows_of :: "seed_write \<Rightarrow> pyval dict list" where
  "rows_of (PutMany ds) = ds"
| "rows_of q = []"

fun edge_rows :: "seed_write \<Rightarrow> row list" where
  "edge_rows (AddEdges es) = es"
| "edge_rows q = []"

definition put_rows :: "seed_write list \<Rightarrow> pyval dict list" where
  "put_rows ws = concat (map rows_of ws)"

definition put_edges :: "seed_write list \<Rightarrow> row list" where
  "put_edges ws = concat (map edge_rows ws)"

lemma put_simps [simp]:
  "put_rows [] = []" "put_rows (q # ws) = rows_of q @ put_rows ws" "put_rows (ws @ ws') = put_rows ws @ put_rows ws'"
  "put_edges [] = []" "put_edges (q # ws) = edge_rows q @ put_edges ws" "put_edges (ws @ ws') = put_edges ws @ put_edges ws'"
  by (simp_all add: put_rows_def put_edges_def)

lemma checkpoints_put:
  "list_all (\<lambda>q. q = Checkpoint) cs \<Longrightarrow> put_rows cs = [] \<and> put_edges cs = [] \<and> list_all (\<lambda>q. \<not> is_flag q) cs"
  by (induction cs) (auto simp: is_flag_def)

text \<open>A batch of rows, or a checkpoint.\<close>

definition row_write :: "seed_write \<Rightarrow> bool" where
  "row_write q \<longleftrightarrow> (case q of PutMany ds \<Rightarrow> ds \<noteq> [] \<and> length ds \<le> IC_BATCH | Checkpoint \<Rightarrow> True | _ \<Rightarrow> False)"

lemma row_writes_flagless: "list_all row_write ws \<Longrightarrow> list_all (\<lambda>q. \<not> is_flag q) ws"
  by (induction ws) (auto simp: row_write_def is_flag_def split: seed_write.splits)

lemma checkpoints_rows: "list_all (\<lambda>q. q = Checkpoint) cs \<Longrightarrow> list_all row_write cs"
  by (induction cs) (auto simp: row_write_def)

text \<open>The row already holds the value: its number reads as the same finite one.\<close>

definition holds_value :: "(string \<Rightarrow> pyfloat res) \<Rightarrow> pyval dict \<Rightarrow> pyfloat \<Rightarrow> bool" where
  "holds_value fl doc v \<longleftrightarrow> dget doc ''ic'' \<noteq> VNone \<and> (\<exists>x. py_float fl (dget doc ''ic'') = Inr (Fin x) \<and> v = Fin x)"

lemma unchanged_holds_value: "seed_unchanged fl (dget doc ''ic'') v = Inr b \<Longrightarrow> b = holds_value fl doc v"
proof (cases "py_float fl (dget doc ''ic'')")
  case (Inr x)
  then show "seed_unchanged fl (dget doc ''ic'') v = Inr b \<Longrightarrow> b = holds_value fl doc v"
    by (cases x; cases v) (auto simp: seed_unchanged_def holds_value_def split: if_splits)
qed (auto simp: seed_unchanged_def holds_value_def split: if_splits)

text \<open>What a measurement has to write for a document: the value of the synset its id names, where that synset
  carries one and the document does not hold it.\<close>

definition due :: "constants \<Rightarrow> (string \<Rightarrow> pyfloat res) \<Rightarrow> index \<Rightarrow> string \<Rightarrow> pyval dict \<Rightarrow> pyval dict list" where
  "due g fl idx p doc = (case map_of idx (row_name p doc) of
       None \<Rightarrow> []
     | Some syn \<Rightarrow> (case sy_ic syn of
         None \<Rightarrow> []
       | Some v \<Rightarrow> if holds_value fl doc v then [] else [AList.update ''ic'' (gr_float g v) doc]))"

definition due_rows :: "constants \<Rightarrow> (string \<Rightarrow> pyfloat res) \<Rightarrow> index \<Rightarrow> string \<Rightarrow> pyval dict list \<Rightarrow> pyval dict list" where
  "due_rows g fl idx p docs = concat (map (due g fl idx p) docs)"

text \<open>The state of the loop: the rows put so far and the rows staged are those due for the documents gone through.\<close>

definition holding :: "nat \<Rightarrow> pyval dict list \<Rightarrow> seeding \<Rightarrow> staged \<Rightarrow> seeding \<Rightarrow> bool" where
  "holding a L s0 st s \<longleftrightarrow> (\<exists>ws. spans a s0 ws s \<and> list_all row_write ws \<and> put_rows ws @ snd st = L \<and> fst st = int (length (put_rows ws)))"

definition staging :: "nat \<Rightarrow> pyval dict list \<Rightarrow> seeding \<Rightarrow> staged \<Rightarrow> seeding \<Rightarrow> bool" where
  "staging a L s0 st s \<longleftrightarrow> holding a L s0 st s \<and> length (snd st) < IC_BATCH"

definition partly :: "nat \<Rightarrow> pyval dict list \<Rightarrow> seeding \<Rightarrow> seeding \<Rightarrow> bool" where
  "partly a L s0 s \<longleftrightarrow> (\<exists>ws rest. spans a s0 ws s \<and> list_all row_write ws \<and> L = put_rows ws @ rest)"

lemma holding_partly: "holding a L s0 st s \<Longrightarrow> partly a (L @ M) s0 s"
  by (fastforce simp: holding_def partly_def)

lemma holding_quiet: "holding a L s0 st s \<Longrightarrow> spans a s cs s' \<Longrightarrow> list_all (\<lambda>q. q = Checkpoint) cs \<Longrightarrow> holding a L s0 st s'"
  unfolding holding_def using checkpoints_put checkpoints_rows span_trans by (fastforce simp: list_all_append)

lemma holding_put:
  assumes "holding a L s0 (n, batch) s" "spans a s [PutMany batch] s'" "batch \<noteq> []" "length batch \<le> IC_BATCH"
  shows "holding a L s0 (n + int (length batch), []) s'"
proof -
  obtain ws where ws: "spans a s0 ws s" "list_all row_write ws" "put_rows ws @ batch = L" "n = int (length (put_rows ws))"
    using assms(1) by (auto simp: holding_def)
  then show ?thesis using span_trans [OF ws(1) assms(2)] assms(3,4) unfolding holding_def
    by (intro exI [of _ "ws @ [PutMany batch]"]) (auto simp: row_write_def)
qed

lemma flush_outcome:
  assumes "holding a L s0 (n, batch) s" "length batch \<le> IC_BATCH"
  shows "outcome (flush a every (n, batch)) s (staging a L s0) (partly a (L @ M) s0)"
proof (cases "length batch < IC_BATCH")
  case True
  then show ?thesis using assms by (simp add: flush_def outcome_def staging_def)
next
  case False
  have pos: "0 < IC_BATCH" by (simp add: IC_BATCH_def)
  then have batch: "batch \<noteq> []" using False by auto
  show ?thesis
    unfolding flush_def prod.case if_not_P [OF False] Let_def
  proof (rule outcome_bind, rule outcome_mono [OF span_write], goal_cases)
    case (1 k s1)
    have st: "holding a L s0 (n + int (length batch), []) s1" by (rule holding_put [OF assms(1) 1 batch assms(2)])
    have "outcome (bindM (wal a) (\<lambda>_. ret (n + int (length batch), []))) s1 (staging a L s0) (partly a (L @ M) s0)"
      by (rule outcome_bind, rule outcome_mono [OF span_wal]) (auto simp: outcome_def staging_def pos intro: holding_quiet [OF st])
    then show ?case using st pos by (auto simp: outcome_def staging_def)
  next
    case (2 s1)
    then show ?case using holding_partly [OF assms(1)] by simp
  qed
qed

lemma stage_outcome:
  assumes st: "staging a L s0 st s"
  shows "outcome (stage g a every doc v st) s
    (staging a (L @ (if holds_value (dr_float (sd_driver s0)) doc v then [] else [AList.update ''ic'' (gr_float g v) doc])) s0)
    (partly a (L @ (if holds_value (dr_float (sd_driver s0)) doc v then [] else [AList.update ''ic'' (gr_float g v) doc]) @ M) s0)"
    (is "outcome _ _ (staging a (L @ ?new) s0) _")
proof -
  obtain n batch where nb: "st = (n, batch)" by (cases st)
  have hold: "holding a L s0 (n, batch) s" and short: "length batch < IC_BATCH" using st by (simp_all add: staging_def nb)
  then have fl: "dr_float (sd_driver s) = dr_float (sd_driver s0)" using span_float by (fastforce simp: holding_def)
  show ?thesis
  proof (cases "seed_unchanged (dr_float (sd_driver s0)) (dget doc ''ic'') v")
    case (Inl e)
    then show ?thesis using holding_partly [OF hold] by (simp add: stage_def nb fl outcome_def)
  next
    case (Inr same)
    note same = unchanged_holds_value [OF Inr]
    show ?thesis
    proof (cases same)
      case True
      then show ?thesis using st Inr same by (simp add: stage_def nb fl outcome_def)
    next
      case False
      let ?row = "AList.update ''ic'' (gr_float g v) doc"
      have "holding a (L @ [?row]) s0 (n, batch @ [?row]) s" using hold by (auto simp: holding_def)
      then have "outcome (flush a every (n, batch @ [?row])) s (staging a (L @ [?row]) s0) (partly a ((L @ [?row]) @ M) s0)"
        by (rule flush_outcome) (use short in simp)
      then show ?thesis using Inr same False by (simp add: stage_def nb fl outcome_def)
    qed
  qed
qed

lemma ic_step_outcome:
  assumes steady: "steady p s0" and st: "staging a L s0 st s"
  shows "outcome (ic_step g a every idx doc st) s (staging a (L @ due g (dr_float (sd_driver s0)) idx p doc) s0)
    (partly a (L @ due g (dr_float (sd_driver s0)) idx p doc @ M) s0)" (is "outcome _ _ (staging a (L @ ?due) s0) ?R")
proof -
  have "steady p s" using st span_steady [OF _ row_writes_flagless steady] by (auto simp: staging_def holding_def)
  note name = span_named [OF this, of doc a]
  have hold: "holding a L s0 st s1" and staged: "staging a L s0 st s1" if "spans a s [] s1" for s1
    using st holding_quiet [of a L s0 st s "[]" s1] that by (simp_all add: staging_def)
  show ?thesis unfolding ic_step_def
  proof (rule outcome_bind, rule outcome_mono [OF name], goal_cases)
    case (1 n s1)
    then have st1: "staging a L s0 st s1" and n: "n = row_name p doc" using staged by auto
    show ?case
    proof (cases "\<exists>syn v. map_of idx n = Some syn \<and> sy_ic syn = Some v")
      case True
      then obtain syn v where syn: "map_of idx n = Some syn" "sy_ic syn = Some v" by blast
      then have "measured_ic idx n = Some v" by (simp add: measured_ic_def has_ic_def synset_ic_def)
      then show ?thesis using stage_outcome [OF st1, of g every doc v M] syn by (simp add: due_def n)
    next
      case False
      then have "measured_ic idx n = None" "?due = []"
        by (auto simp: measured_ic_def has_ic_def due_def n split: option.splits)
      then show ?thesis using st1 by (simp add: outcome_def)
    qed
  next
    case (2 s1)
    then show ?case using holding_partly [OF hold] by blast
  qed
qed

lemma staging_start: "staging a [] s (0, []) s"
  by (auto simp: staging_def holding_def IC_BATCH_def intro: exI [of _ "[]"] span_refl)

lemma due_rows_append: "due_rows g fl idx p (xs @ ys) = due_rows g fl idx p xs @ due_rows g fl idx p ys"
  by (simp add: due_rows_def)

lemma persist_loop:
  assumes "steady p s"
  shows "outcome (forM (ic_step g a every idx) docs (0, [])) s
     (staging a (due_rows g (dr_float (sd_driver s)) idx p docs) s) (partly a (due_rows g (dr_float (sd_driver s)) idx p docs) s)"
proof (rule outcome_forM_done [where J = "\<lambda>ys. staging a (due_rows g (dr_float (sd_driver s)) idx p ys) s"])
  fix ys x zs st w assume "docs = ys @ x # zs" "staging a (due_rows g (dr_float (sd_driver s)) idx p ys) s st w"
  then show "outcome (ic_step g a every idx x st) w (staging a (due_rows g (dr_float (sd_driver s)) idx p (ys @ [x])) s)
      (partly a (due_rows g (dr_float (sd_driver s)) idx p docs) s)"
    using ic_step_outcome [OF assms, of a _ st w g every idx x "due_rows g (dr_float (sd_driver s)) idx p zs"]
    by (simp add: due_rows_def)
qed (simp add: due_rows_def staging_start)

text \<open>What is written of a whole measurement: every row due, in order, then the record of it.\<close>

definition recorded :: "nat \<Rightarrow> pyval dict list \<Rightarrow> pyval dict \<Rightarrow> seeding \<Rightarrow> int \<Rightarrow> seeding \<Rightarrow> bool" where
  "recorded a L basis s n s' \<longleftrightarrow> (\<exists>ws cs. spans a s (ws @ PutArtifact basis # cs) s' \<and> list_all row_write ws \<and> put_rows ws = L
     \<and> n = int (length L) \<and> list_all (\<lambda>q. q = Checkpoint) cs)"

lemma flush_rest_outcome:
  assumes st: "staging a L s0 st s"
  shows "outcome (flush_rest a st) s (\<lambda>n s'. n = int (length L) \<and> holding a L s0 (n, []) s') (partly a L s0)"
proof -
  obtain n batch where nb: "st = (n, batch)" by (cases st)
  have hold: "holding a L s0 (n, batch) s" and short: "length batch \<le> IC_BATCH" using st by (simp_all add: staging_def nb)
  show ?thesis
  proof (cases "batch = []")
    case True
    then show ?thesis using hold by (auto simp: flush_rest_def nb outcome_def holding_def)
  next
    case False
    then have "holding a L s0 (n + int (length batch), []) s1 \<and> n + int (length batch) = int (length L)"
      if "spans a s [PutMany batch] s1" for s1
      using holding_put [OF hold that False short] by (auto simp: holding_def)
    then have "n' = n + int (length batch) \<Longrightarrow> spans a s [PutMany batch] s1 \<Longrightarrow> n' = int (length L) \<and> holding a L s0 (n', []) s1" for n' s1
      by blast
    then show ?thesis
      using False holding_partly [OF hold, of "[]"] unfolding flush_rest_def nb prod.case if_not_P [OF False]
      by (intro outcome_bind) (rule outcome_mono [OF span_write], auto simp: outcome_def)
  qed
qed

lemma record_outcome:
  assumes st: "staging a L s0 st s"
  shows "outcome (bindM (flush_rest a st) (\<lambda>n. bindM (wal a) (\<lambda>_. bindM (writes_to a (PutArtifact basis)) (\<lambda>_. bindM (wal a) (\<lambda>_. ret n))))) s
    (recorded a L basis s0) (partly a L s0)"
proof (rule outcome_bind, rule outcome_mono [OF flush_rest_outcome [OF st]], goal_cases)
  case (1 n s1)
  then have n: "n = int (length L)" and h1: "holding a L s0 (n, []) s1" by auto
  show ?case
  proof (rule outcome_bind, rule outcome_mono [OF span_wal], goal_cases)
    case (1 u s2)
    then have "holding a L s0 (n, []) s2" using holding_quiet [OF h1] by blast
    then obtain ws where ws: "spans a s0 ws s2" "list_all row_write ws" "put_rows ws = L" by (auto simp: holding_def)
    show ?case
    proof (rule outcome_bind, rule outcome_mono [OF span_write], goal_cases)
      case (1 k s3)
      have s3: "spans a s0 (ws @ [PutArtifact basis]) s3" by (rule span_trans [OF ws(1) 1])
      show ?case
      proof (rule outcome_bind, rule outcome_mono [OF span_wal], goal_cases)
        case (1 u s4)
        then obtain cs where "spans a s3 cs s4" "list_all (\<lambda>q. q = Checkpoint) cs" by blast
        then show ?case using span_trans [OF s3, of cs s4] ws(2,3) n by (auto simp: outcome_def recorded_def)
      qed simp
    next
      case (2 s3)
      then show ?case using ws by (auto simp: partly_def)
    qed
  qed simp
qed

lemma persist_outcome:
  assumes "steady p s"
  shows "outcome (persist_ic g a idx docs author every) s
    (recorded a (due_rows g (dr_float (sd_driver s)) idx p docs) (ic_basis_doc g author (length idx)) s)
    (partly a (due_rows g (dr_float (sd_driver s)) idx p docs) s)"
  unfolding persist_ic_def record_ic_def
  by (rule outcome_bind, rule outcome_mono [OF persist_loop [OF assms]]) (simp_all add: record_outcome)

section \<open>The edges of a lexicon\<close>

text \<open>Edges, or a checkpoint.\<close>

definition edge_write :: "seed_write \<Rightarrow> bool" where
  "edge_write q \<longleftrightarrow> (case q of AddEdges es \<Rightarrow> True | Checkpoint \<Rightarrow> True | _ \<Rightarrow> False)"

lemma edge_writes_flagless: "list_all edge_write ws \<Longrightarrow> list_all (\<lambda>q. \<not> is_flag q) ws"
  by (induction ws) (auto simp: edge_write_def is_flag_def split: seed_write.splits)

lemma checkpoints_edges: "list_all (\<lambda>q. q = Checkpoint) cs \<Longrightarrow> list_all edge_write cs"
  by (induction cs) (auto simp: edge_write_def)

text \<open>The edges put so far and the chunk are the edges gone through; nothing else is written.\<close>

definition edging :: "nat \<Rightarrow> row list \<Rightarrow> seeding \<Rightarrow> row list \<Rightarrow> seeding \<Rightarrow> bool" where
  "edging a E s0 chunk s \<longleftrightarrow> (\<exists>ws. spans a s0 ws s \<and> list_all edge_write ws \<and> put_edges ws @ chunk = E)"

definition unflagged :: "nat \<Rightarrow> seeding \<Rightarrow> seeding \<Rightarrow> bool" where
  "unflagged a s s' \<longleftrightarrow> (\<exists>ws. spans a s ws s' \<and> list_all (\<lambda>q. \<not> is_flag q) ws)"

lemma unflagged_trans: "unflagged a s s1 \<Longrightarrow> unflagged a s1 s2 \<Longrightarrow> unflagged a s s2"
  unfolding unflagged_def using span_trans by (fastforce simp: list_all_append)

lemma edging_unflagged: "edging a E s0 chunk s \<Longrightarrow> unflagged a s0 s"
  unfolding edging_def unflagged_def using edge_writes_flagless by blast

lemma edging_quiet: "edging a E s0 chunk s \<Longrightarrow> spans a s cs s' \<Longrightarrow> list_all (\<lambda>q. q = Checkpoint) cs \<Longrightarrow> edging a E s0 chunk s'"
  unfolding edging_def using checkpoints_put checkpoints_edges span_trans by (fastforce simp: list_all_append)

lemma edging_put: "edging a E s0 chunk s \<Longrightarrow> spans a s [AddEdges chunk] s' \<Longrightarrow> edging a E s0 [] s'"
proof -
  assume e: "edging a E s0 chunk s" and put: "spans a s [AddEdges chunk] s'"
  from e obtain ws where "spans a s0 ws s" "list_all edge_write ws" "put_edges ws @ chunk = E" by (auto simp: edging_def)
  then show ?thesis using span_trans [OF _ put] unfolding edging_def
    by (intro exI [of _ "ws @ [AddEdges chunk]"]) (auto simp: edge_write_def)
qed

lemma chunk_outcome:
  assumes "edging a E s0 (snd st) s"
  shows "outcome (chunk_step a every e st) s (\<lambda>st'. edging a (E @ [e]) s0 (snd st')) (unflagged a s0)"
proof -
  obtain n chunk where nc: "st = (n, chunk)" by (cases st)
  have more: "edging a (E @ [e]) s0 (chunk @ [e]) s" using assms by (auto simp: edging_def nc)
  show ?thesis
  proof (cases "int (length (chunk @ [e])) < every")
    case True
    then show ?thesis using more by (simp add: chunk_step_def nc Let_def outcome_def)
  next
    case False
    show ?thesis unfolding chunk_step_def nc prod.case Let_def if_not_P [OF False]
    proof (rule outcome_bind, rule outcome_mono [OF span_write], goal_cases)
      case (1 k s1)
      then have put: "edging a (E @ [e]) s0 [] s1" by (rule edging_put [OF more])
      show ?case
        by (rule outcome_bind, rule outcome_mono [OF span_wal]) (auto simp: outcome_def intro: edging_quiet [OF put])
    next
      case (2 s1)
      then show ?case using edging_unflagged [OF more] by simp
    qed
  qed
qed

lemma chunks_outcome:
  assumes "edging a E s0 (snd st) s"
  shows "outcome (forM (chunk_step a every) es st) s (\<lambda>st'. edging a (E @ es) s0 (snd st')) (unflagged a s0)"
proof (rule outcome_forM_done [where J = "\<lambda>ys st'. edging a (E @ ys) s0 (snd st')"])
  fix ys x zs and st :: "int \<times> row list" and w assume "edging a (E @ ys) s0 (snd st) w"
  then show "outcome (chunk_step a every x st) w (\<lambda>st'. edging a (E @ ys @ [x]) s0 (snd st')) (unflagged a s0)"
    using chunk_outcome [of a "E @ ys" s0 st w every x] by simp
qed (use assms in simp)

lemma last_chunk_outcome:
  assumes "edging a E s0 chunk s"
  shows "outcome (if chunk = [] then ret n else bindM (writes_to a (AddEdges chunk)) (\<lambda>k. ret (n + k))) s
    (\<lambda>k. edging a E s0 []) (unflagged a s0)"
proof (cases "chunk = []")
  case True
  then show ?thesis using assms by (simp add: outcome_def)
next
  case False
  show ?thesis unfolding if_not_P [OF False]
    by (rule outcome_bind, rule outcome_mono [OF span_write])
      (use edging_put [OF assms] edging_unflagged [OF assms] in \<open>auto simp: outcome_def\<close>)
qed

text \<open>The entry edges of one document: from each of its lemmas to its synset, for a document of the language.\<close>

definition lexed :: "constants \<Rightarrow> string \<Rightarrow> string \<times> pyval dict \<Rightarrow> row list" where
  "lexed g lang = (\<lambda>(name, doc).
     if py_or (dget doc ''lang'') (VStr lang) \<noteq> VStr lang then []
     else case (doc_lemmas doc, py_items (py_or (dget doc ''sense_ranks'') (VDict []))) of
       (Inr lms, Inr ranks) \<Rightarrow> map (\<lambda>lm. (''lemma:'' @ underscored (py_str lm), ''wn-'' @ name, ''lex:'' @ lang,
           snd (snd (snd (lex_row g (''lex:'' @ lang) name (lex_pos name doc) ranks lm))))) (filter truthy lms)
     | _ \<Rightarrow> [])"

lemma lex_rows_lexed:
  "lex_rows g (''lex:'' @ lang) name doc = Inr rows \<Longrightarrow> py_or (dget doc ''lang'') (VStr lang) = VStr lang \<Longrightarrow> lexed g lang (name, doc) = rows"
  by (auto simp: lex_rows_def lexed_def res_bind_eq_Inr lex_row_def Let_def split: prod.splits)

text \<open>The irregular forms of the documents of the language, in their order.\<close>

fun irregular_forms :: "string \<Rightarrow> (string \<times> pyval dict) list \<Rightarrow> string dict \<Rightarrow> string dict res" where
  "irregular_forms lang [] exc = Inr exc"
| "irregular_forms lang ((name, doc) # docs) exc =
     (if py_or (dget doc ''lang'') (VStr lang) \<noteq> VStr lang then irregular_forms lang docs exc
      else res_bind (res_bind (py_items (py_or (dget doc ''forms'') (VDict []))) (\<lambda>forms. lex_forms (lex_pos name doc) forms exc))
        (irregular_forms lang docs))"

lemma irregular_append: "irregular_forms lang (xs @ ys) exc = res_bind (irregular_forms lang xs exc) (irregular_forms lang ys)"
proof (induction lang xs exc rule: irregular_forms.induct)
  case (2 lang name doc docs exc)
  then show ?case
    by (cases "res_bind (py_items (py_or (dget doc ''forms'') (VDict []))) (\<lambda>forms. lex_forms (lex_pos name doc) forms exc)") auto
qed simp

lemma outcome_lift:
  "(\<And>x. r = Inr x \<Longrightarrow> outcome (f x) w Q R) \<Longrightarrow> (\<And>e. r = Inl e \<Longrightarrow> R w) \<Longrightarrow> outcome (bindM (liftR r) f) w Q R"
  by (cases r) (simp_all add: outcome_def bindM_def)

lemma outcome_look: "outcome (f (h w)) w Q R \<Longrightarrow> outcome (bindM (getsM h) f) w Q R"
  by (simp add: outcome_def bindM_def)

lemma lex_doc_outcome:
  assumes "edging a E s0 (snd (fst st)) s" and "irregular_forms lang ys [] = Inr (snd st)"
  shows "outcome (lex_doc g a every lang d st) s
    (\<lambda>st' s'. edging a (E @ lexed g lang d) s0 (snd (fst st')) s' \<and> irregular_forms lang (ys @ [d]) [] = Inr (snd st')) (unflagged a s0)"
proof -
  obtain name doc where d: "d = (name, doc)" by (cases d)
  obtain c exc where st: "st = (c, exc)" by (cases st)
  have e: "edging a E s0 (snd c) s" and exc: "irregular_forms lang ys [] = Inr exc" using assms by (simp_all add: st)
  show ?thesis
  proof (cases "py_or (dget doc ''lang'') (VStr lang) = VStr lang")
    case False
    then show ?thesis using e exc by (simp add: lex_doc_def d st lexed_def irregular_append outcome_def)
  next
    case True
    then have own: "\<not> py_or (dget doc ''lang'') (VStr lang) \<noteq> VStr lang" by simp
    let ?forms = "res_bind (py_items (py_or (dget doc ''forms'') (VDict []))) (\<lambda>forms. lex_forms (lex_pos name doc) forms exc)"
    have forms: "irregular_forms lang (ys @ [d]) [] = ?forms"
      using True exc by (cases ?forms) (simp_all add: irregular_append d)
    have run: "lex_doc g a every lang d st = bindM (liftR (lex_rows g (''lex:'' @ lang) name doc)) (\<lambda>rows.
          bindM (forM (chunk_step a every) rows c) (\<lambda>c. bindM (liftR ?forms) (\<lambda>exc. ret (c, exc))))"
      unfolding lex_doc_def d st prod.case using own by (rule if_not_P)
    show ?thesis unfolding run
    proof (rule outcome_lift, goal_cases)
      case (1 rows)
      have rows: "lexed g lang (name, doc) = rows" by (rule lex_rows_lexed [OF 1 True])
      show ?case
      proof (rule outcome_bind, rule outcome_mono [OF chunks_outcome [OF e]], goal_cases)
        case (1 c' s1)
        show ?case
          by (rule outcome_lift)
            (use 1 forms edging_unflagged [OF 1] in \<open>auto simp: outcome_def rows d\<close>)
      qed
    next
      case (2 x)
      show ?case by (rule edging_unflagged [OF e])
    qed
  qed
qed

lemma lex_outcome:
  shows "outcome (forM (lex_doc g a every lang) meta ((0, []), [])) s
    (\<lambda>st' s'. edging a (concat (map (lexed g lang) meta)) s (snd (fst st')) s' \<and> irregular_forms lang meta [] = Inr (snd st')) (unflagged a s)"
proof (rule outcome_forM_done [where J = "\<lambda>ys st' s'. edging a (concat (map (lexed g lang) ys)) s (snd (fst st')) s' \<and> irregular_forms lang ys [] = Inr (snd st')"])
  show "edging a (concat (map (lexed g lang) [])) s (snd (fst ((0, []), []))) s \<and> irregular_forms lang [] [] = Inr (snd ((0, []), []))"
    by (auto simp: edging_def intro: exI [of _ "[]"] span_refl)
  fix ys x zs and st :: lexing and w
  assume "edging a (concat (map (lexed g lang) ys)) s (snd (fst st)) w \<and> irregular_forms lang ys [] = Inr (snd st)"
  then show "outcome (lex_doc g a every lang x st) w (\<lambda>st' s'. edging a (concat (map (lexed g lang) (ys @ [x]))) s (snd (fst st')) s'
      \<and> irregular_forms lang (ys @ [x]) [] = Inr (snd st')) (unflagged a s)"
    using lex_doc_outcome [of a "concat (map (lexed g lang) ys)" s st w lang ys g every x] by simp
qed

text \<open>The edges that anchor the terms of the other corpus, as the store has them at that moment.\<close>

definition associations :: "(store \<Rightarrow> string list option) \<Rightarrow> string \<Rightarrow> store \<Rightarrow> row list" where
  "associations vertices lang t = (case assoc_terms vertices lang t of
       None \<Rightarrow> []
     | Some vs \<Rightarrow> map (assoc_row lang) (filter (\<lambda>v. drop 3 v \<noteq> []) vs))"

lemma edging_start: "edging a [] s [] s"
  by (auto simp: edging_def intro: exI [of _ "[]"] span_refl)

lemma anchor_outcome:
  "outcome (anchor_associative vertices a lang every) s
     (\<lambda>n. edging a (associations vertices lang (dr_stores (sd_driver s) a)) s []) (unflagged a s)"
proof (cases "assoc_terms vertices lang (dr_stores (sd_driver s) a)")
  case None
  then show ?thesis using edging_start by (simp add: anchor_associative_def associations_def outcome_def)
next
  case (Some vs)
  let ?es = "map (assoc_row lang) (filter (\<lambda>v. drop 3 v \<noteq> []) vs)"
  have all: "outcome (add_all_edges a every ?es) s (\<lambda>n. edging a ?es s []) (unflagged a s)"
    unfolding add_all_edges_def
  proof (rule outcome_bind, rule outcome_mono [OF chunks_outcome [where st = "(0, [])" and E = "[]", unfolded snd_conv, OF edging_start]], goal_cases)
    case (1 st s1)
    then show ?case using last_chunk_outcome [of a ?es s "snd st" s1 "fst st"] by (simp add: split_def)
  qed
  have "outcome (bindM (add_all_edges a every ?es) (\<lambda>n. bindM (wal a) (\<lambda>_. ret n))) s (\<lambda>n. edging a ?es s []) (unflagged a s)"
  proof (rule outcome_bind, rule outcome_mono [OF all], goal_cases)
    case (1 n s1)
    show ?case
      by (rule outcome_bind, rule outcome_mono [OF span_wal]) (use edging_quiet [OF 1] in \<open>force simp: outcome_def\<close>)+
  qed
  then show ?thesis using Some by (simp add: anchor_associative_def associations_def outcome_def)
qed

section \<open>The whole build\<close>

text \<open>The documents under their names: a later one of the same name takes the place of the one before.\<close>

definition docs_by_name :: "string \<Rightarrow> pyval dict list \<Rightarrow> pyval dict dict" where
  "docs_by_name p docs = fold (\<lambda>doc meta. if row_name p doc = [] then meta else AList.update (row_name p doc) doc meta) docs []"

lemma meta_outcome:
  assumes "steady p s0" and "spans a s0 [] s"
  shows "outcome (forM meta_step docs []) s (\<lambda>meta s'. meta = docs_by_name p docs \<and> spans a s0 [] s') (unflagged a s0)"
proof (rule outcome_forM_done [where J = "\<lambda>ys meta s'. meta = docs_by_name p ys \<and> spans a s0 [] s'"])
  fix ys doc zs meta w assume w: "meta = docs_by_name p ys \<and> spans a s0 [] w"
  then have "steady p w" using span_steady [of a s0 "[]" w p] assms(1) by simp
  note name = span_named [OF this, of doc a]
  show "outcome (meta_step doc meta) w (\<lambda>meta s'. meta = docs_by_name p (ys @ [doc]) \<and> spans a s0 [] s') (unflagged a s0)"
    unfolding meta_step_def
  proof (rule outcome_bind, rule outcome_mono [OF name], goal_cases)
    case (1 n s1)
    then show ?case using w span_trans [of a s0 "[]" w "[]" s1] by (simp add: outcome_def docs_by_name_def)
  next
    case (2 s1)
    then show ?case using w span_trans [of a s0 "[]" w "[]" s1] by (auto simp: unflagged_def intro: exI [of _ "[]"])
  qed
qed (use assms in \<open>simp add: docs_by_name_def\<close>)

text \<open>What a finished build has written, in its order: the rows of the measurement and its record, the entry edges
  of every document, the edges that anchor the other corpus, and then the flag, with the irregular forms.\<close>

definition laid :: "constants \<Rightarrow> (store \<Rightarrow> string list option) \<Rightarrow> pyval dict option res option \<Rightarrow> nat \<Rightarrow> string \<Rightarrow> string \<Rightarrow> string
    \<Rightarrow> seeding \<Rightarrow> seed_write list \<Rightarrow> bool" where
  "laid g vertices provider a lang author p s ws \<longleftrightarrow> (\<exists>idx docs rows lex assoc exceptions geometry xi gap cs.
     fst (load_synsets None (invalidate_caches False (sd_driver s))) = Inr idx
     \<and> list_artifacts (dr_stores (sd_driver s) a) ''text/x-wordnet'' = Inr docs
     \<and> geometry_of provider = Inr (geometry, xi, gap)
     \<and> irregular_forms lang (docs_by_name p docs) [] = Inr exceptions
     \<and> ws = rows @ lex @ assoc @ PutArtifact (transducer_doc g author lang xi geometry exceptions) # cs
     \<and> list_all (\<lambda>q. \<not> is_flag q) (rows @ lex @ assoc) \<and> list_all (\<lambda>q. q = Checkpoint) cs
     \<and> put_rows rows = due_rows g (dr_float (sd_driver s)) idx p (map snd (docs_by_name p docs))
     \<and> PutArtifact (ic_basis_doc g author (length idx)) \<in> set rows
     \<and> put_edges lex = concat (map (lexed g lang) (docs_by_name p docs))
     \<and> put_edges assoc = associations vertices lang (fold (sd_apply s) (rows @ lex) (dr_stores (sd_driver s) a)))"

lemma seed_invalidate_outcome: "outcome seed_invalidate s (\<lambda>u s'. s' = s\<lparr>sd_driver := invalidate_caches False (sd_driver s)\<rparr> \<and> spans a s [] s') (\<lambda>_. False)"
proof -
  have "still (sd_driver s) (invalidate_caches False (sd_driver s))"
    by (rule still_fields) (simp_all add: invalidate_caches_def Let_def)
  then show ?thesis by (simp add: outcome_def seed_invalidate_def spans_def still_def steady_def)
qed

text \<open>The last phase: the flag, and the caches dropped.\<close>

lemma flag_outcome:
  assumes "spans a s before s1" "list_all (\<lambda>q. \<not> is_flag q) before"
  shows "outcome (bindM (writes_to a (PutArtifact d)) (\<lambda>_. bindM (wal a) (\<lambda>_. bindM seed_invalidate (\<lambda>_.
      bindM (modifyM (\<lambda>s. s\<lparr>sd_reg := []\<rparr>)) (\<lambda>_. ret x))))) s1
    (\<lambda>y s'. \<exists>cs. list_all (\<lambda>q. q = Checkpoint) cs \<and> spans a s (before @ PutArtifact d # cs) s') (unflagged a s)"
proof (rule outcome_bind, rule outcome_mono [OF span_write], goal_cases)
  case (1 k s2)
  have s2: "spans a s (before @ [PutArtifact d]) s2" by (rule span_trans [OF assms(1) 1])
  show ?case
  proof (rule outcome_bind, rule outcome_mono [OF span_wal], goal_cases)
    case (1 u s3)
    then obtain cs where cs: "list_all (\<lambda>q. q = Checkpoint) cs" and s3: "spans a s (before @ PutArtifact d # cs) s3"
      using span_trans [OF s2] by fastforce
    have after: "spans a s (before @ PutArtifact d # cs) (s4\<lparr>sd_reg := []\<rparr>)" if "spans a s3 [] s4" for s4
      using span_trans [OF s3 that] by (simp add: spans_def steady_def)
    show ?case
      by (rule outcome_bind, rule outcome_mono [OF seed_invalidate_outcome [where a = a]])
        (use after cs in \<open>auto simp: outcome_def\<close>)
  qed simp
next
  case (2 s2)
  then show ?case using assms by (auto simp: unflagged_def)
qed

lemma build_outcome:
  assumes steady: "steady p s"
  shows "outcome (seed_build g vertices provider a lang author every) s
    (\<lambda>summary s'. \<exists>ws. spans a s ws s' \<and> laid g vertices provider a lang author p s ws) (unflagged a s)"
  unfolding seed_build_def
proof (rule outcome_bind, rule outcome_mono [OF seed_invalidate_outcome [where a = a]], goal_cases)
  case (1 u s1)
  then have s1: "sd_driver s1 = invalidate_caches False (sd_driver s)" "spans a s [] s1" by auto
  have loaded: "outcome (with_driver (load_synsets None)) s1
      (\<lambda>idx s2. fst (load_synsets None (invalidate_caches False (sd_driver s))) = Inr idx \<and> spans a s [] s2) (unflagged a s)"
    using span_driver [OF still_load_synsets, of None s1 a] span_trans [OF s1(2), of "[]"]
    by (auto simp: outcome_def with_driver_def s1(1) unflagged_def intro: exI [of _ "[]"] split: prod.splits sum.splits)
  show ?case
  proof (rule outcome_bind, rule outcome_mono [OF loaded], goal_cases)
    case (1 idx s2)
    then have idx: "fst (load_synsets None (invalidate_caches False (sd_driver s))) = Inr idx" and s2: "spans a s [] s2" by auto
    have store: "dr_stores (sd_driver s2) a = dr_stores (sd_driver s) a" using span_store [OF s2] by simp
    show ?case
    proof (rule outcome_look, rule outcome_lift, goal_cases)
      case (1 docs)
      then have docs: "list_artifacts (dr_stores (sd_driver s) a) ''text/x-wordnet'' = Inr docs" by (simp add: store)
      show ?case
      proof (rule outcome_bind, rule outcome_mono [OF meta_outcome [OF steady s2]], goal_cases)
        case (1 meta s3)
        then have meta: "meta = docs_by_name p docs" and s3: "spans a s [] s3" by auto
        have steady3: "steady p s3" using span_steady [OF s3 _ steady] by simp
        have fl: "dr_float (sd_driver s3) = dr_float (sd_driver s)" by (rule span_float [OF s3])
        show ?case
        proof (rule outcome_bind, rule outcome_mono [OF persist_outcome [OF steady3]], goal_cases)
          case (1 stored s4)
          let ?due = "due_rows g (dr_float (sd_driver s)) idx p (map snd (docs_by_name p docs))"
          from 1 obtain rs cs where rs: "spans a s3 (rs @ PutArtifact (ic_basis_doc g author (length idx)) # cs) s4"
            "list_all row_write rs" "put_rows rs = ?due" "list_all (\<lambda>q. q = Checkpoint) cs"
            by (auto simp: recorded_def fl meta)
          define rows where "rows = rs @ PutArtifact (ic_basis_doc g author (length idx)) # cs"
          have rows: "spans a s rows s4" "list_all (\<lambda>q. \<not> is_flag q) rows" "put_rows rows = ?due"
            "PutArtifact (ic_basis_doc g author (length idx)) \<in> set rows"
            using span_trans [OF s3 rs(1)] row_writes_flagless [OF rs(2)] checkpoints_put [OF rs(4)] rs(3)
            by (simp_all add: rows_def no_flag)
          have un4: "unflagged a s s4" using rows by (auto simp: unflagged_def)
          show ?case
          proof (rule outcome_bind, rule outcome_mono [OF lex_outcome], goal_cases)
            case (1 st s5)
            obtain n chunk exceptions where st: "st = ((n, chunk), exceptions)" by (metis prod.collapse)
            from 1 have e5: "edging a (concat (map (lexed g lang) (docs_by_name p docs))) s4 chunk s5"
              and exc: "irregular_forms lang (docs_by_name p docs) [] = Inr exceptions" by (simp_all add: st meta)
            show ?case unfolding st prod.case
            proof (rule outcome_bind, rule outcome_mono [OF last_chunk_outcome [OF e5]], goal_cases)
              case (1 lexed_n s6)
              show ?case
              proof (rule outcome_bind, rule outcome_mono [OF span_wal], goal_cases)
                case (1 u s7)
                then have "edging a (concat (map (lexed g lang) (docs_by_name p docs))) s4 [] s7"
                  using edging_quiet [OF \<open>edging a _ s4 [] s6\<close>] by blast
                then obtain lex where lex: "spans a s4 lex s7" "list_all edge_write lex"
                  "put_edges lex = concat (map (lexed g lang) (docs_by_name p docs))" by (auto simp: edging_def)
                have s7: "spans a s (rows @ lex) s7" by (rule span_trans [OF rows(1) lex(1)])
                have flagless: "list_all (\<lambda>q. \<not> is_flag q) (rows @ lex)" using rows(2) edge_writes_flagless [OF lex(2)] by simp
                show ?case
                proof (rule outcome_bind, rule outcome_mono [OF anchor_outcome], goal_cases)
                  case (1 assoc_n s8)
                  then obtain assoc where assoc: "spans a s7 assoc s8" "list_all edge_write assoc"
                    "put_edges assoc = associations vertices lang (fold (sd_apply s) (rows @ lex) (dr_stores (sd_driver s) a))"
                    unfolding span_store [OF s7] by (auto simp: edging_def)
                  have s8: "spans a s (rows @ lex @ assoc) s8" using span_trans [OF s7 assoc(1)] by simp
                  have flagless8: "list_all (\<lambda>q. \<not> is_flag q) (rows @ lex @ assoc)"
                    using flagless edge_writes_flagless [OF assoc(2)] by simp
                  show ?case
                  proof (rule outcome_lift, goal_cases)
                    case (1 geo)
                    obtain geometry xi gap where geo: "geo = (geometry, xi, gap)" by (cases geo)
                    show ?case unfolding geo prod.case
                    proof (rule outcome_mono [OF flag_outcome [OF s8 flagless8]], goal_cases)
                      case (1 y s9)
                      then obtain cs' where cs': "list_all (\<lambda>q. q = Checkpoint) cs'" and
                        s9: "spans a s ((rows @ lex @ assoc) @ PutArtifact (transducer_doc g author lang xi geometry exceptions) # cs') s9"
                        by blast
                      have "laid g vertices provider a lang author p s
                          ((rows @ lex @ assoc) @ PutArtifact (transducer_doc g author lang xi geometry exceptions) # cs')"
                        unfolding laid_def
                        by (rule exI [of _ idx], rule exI [of _ docs], rule exI [of _ rows], rule exI [of _ lex], rule exI [of _ assoc],
                            rule exI [of _ exceptions], rule exI [of _ geometry], rule exI [of _ xi], rule exI [of _ gap], rule exI [of _ cs'])
                          (use idx docs \<open>geometry_of provider = Inr geo\<close> geo exc flagless8 cs' rows lex assoc in simp)
                      with s9 show ?case by blast
                    qed
                  next
                    case (2 err)
                    show ?case using s8 flagless8 by (auto simp: unflagged_def)
                  qed
                next
                  case (2 s8)
                  have "unflagged a s s7" using s7 flagless unfolding unflagged_def by blast
                  then show ?case using 2 by (rule unflagged_trans)
                qed
              qed simp
            next
              case (2 s6)
              then show ?case by (rule unflagged_trans [OF un4])
            qed
          next
            case (2 s5)
            then show ?case by (rule unflagged_trans [OF un4])
          qed
        next
          case (2 s4)
          then obtain rs where "spans a s3 rs s4" "list_all row_write rs" by (auto simp: partly_def)
          then show ?case using span_trans [OF s3] row_writes_flagless by (auto simp: unflagged_def)
        qed
      qed
    next
      case (2 err)
      show ?case using s2 unfolding unflagged_def by (intro exI [of _ "[]"]) simp
    qed
  qed
qed simp

end
