(* ===== verification/Seed_Lattice_Laws.thy ===== *)
theory Seed_Lattice_Laws
  imports Seed_Writes Ontology_Driver_Laws Intrinsic_Ic
begin

text \<open>
  What laying the substrate guarantees: what is written is measured and differs from what is stored, the
  record of a measurement follows the values it describes, the readiness flag is written last, and the two
  measurements are the ones the formulas name.
\<close>

section \<open>Checkpoints\<close>

text \<open>A checkpoint falls due exactly when the rows just flushed cross a multiple of the cadence, however many
  they are.\<close>

theorem crossed_exact:
  "seed_crossed n every flushed \<longleftrightarrow> 0 < every \<and> 0 < flushed \<and> (\<exists>m. n - flushed < m * every \<and> m * every \<le> n)"
proof (cases "0 < every \<and> 0 < flushed")
  case True
  have "n mod every < flushed \<longleftrightarrow> (\<exists>m. n - flushed < m * every \<and> m * every \<le> n)"
  proof
    assume "n mod every < flushed"
    moreover have "n = n div every * every + n mod every" by simp
    moreover have "0 \<le> n mod every" using True by simp
    ultimately have "n - flushed < n div every * every" "n div every * every \<le> n" by linarith+
    then show "\<exists>m. n - flushed < m * every \<and> m * every \<le> n" by blast
  next
    assume "\<exists>m. n - flushed < m * every \<and> m * every \<le> n"
    then obtain m where m: "n - flushed < m * every" "m * every \<le> n" by blast
    have "m \<le> n div every" using zdiv_mono1 [OF m(2), of every] True by simp
    then have "m * every \<le> n div every * every" using True by (simp add: mult_right_mono)
    moreover have "n mod every = n - n div every * every" by (simp add: minus_div_mult_eq_mod)
    ultimately show "n mod every < flushed" using m(1) by linarith
  qed
  then show ?thesis using True by (simp add: seed_crossed_def)
qed (auto simp: seed_crossed_def)

section \<open>ConceptNet's measurement\<close>

definition kind_of :: "(string \<times> string) list \<Rightarrow> (string \<times> string) set" where
  "kind_of rows = set rows"

lemma set_cn_kids: "set (cn_kids rows b) = {a. (a, b) \<in> kind_of rows}"
  by (force simp: cn_kids_def kind_of_def)

lemma bfs_distinct: "distinct seen \<Longrightarrow> distinct (cn_bfs rows q seen)"
proof (induction rows q seen rule: cn_bfs.induct)
  case (2 rows u q seen)
  have "distinct (seen @ filter (\<lambda>k. k \<notin> set seen) (cn_kids rows u))" using 2(2) distinct_kids by auto
  then show ?case unfolding cn_bfs.simps Let_def by (rule 2(1) [OF refl])
qed simp

definition reaching :: "(string \<times> string) list \<Rightarrow> string set \<Rightarrow> string set" where
  "reaching rows S = {k. \<exists>u \<in> S. (k, u) \<in> (kind_of rows)\<^sup>*}"

lemma reaching_closed: "(\<And>k u. u \<in> S \<Longrightarrow> (k, u) \<in> kind_of rows \<Longrightarrow> k \<in> S) \<Longrightarrow> reaching rows S = S"
proof
  assume closed: "\<And>k u. u \<in> S \<Longrightarrow> (k, u) \<in> kind_of rows \<Longrightarrow> k \<in> S"
  show "reaching rows S \<subseteq> S"
  proof
    fix k assume "k \<in> reaching rows S"
    then obtain u where u: "u \<in> S" "(k, u) \<in> (kind_of rows)\<^sup>*" by (auto simp: reaching_def)
    from u(2,1) show "k \<in> S" by (induction rule: converse_rtrancl_induct) (auto intro: closed)
  qed
qed (auto simp: reaching_def)

lemma reaching_kids: "u \<in> S \<Longrightarrow> T \<subseteq> {k. (k, u) \<in> kind_of rows} \<Longrightarrow> reaching rows (S \<union> T) = reaching rows S"
  by (auto simp: reaching_def intro: rtrancl_into_rtrancl)

lemma bfs_set:
  assumes "set q \<subseteq> set seen" "\<And>k u. u \<in> set seen \<Longrightarrow> u \<notin> set q \<Longrightarrow> (k, u) \<in> kind_of rows \<Longrightarrow> k \<in> set seen"
  shows "set (cn_bfs rows q seen) = reaching rows (set seen)"
  using assms
proof (induction rows q seen rule: cn_bfs.induct)
  case (1 rows seen)
  then show ?case by (simp add: reaching_closed)
next
  case (2 rows u q seen)
  let ?new = "filter (\<lambda>k. k \<notin> set seen) (cn_kids rows u)"
  have "set (cn_bfs rows (q @ ?new) (seen @ ?new)) = reaching rows (set (seen @ ?new))"
  proof (rule 2(1) [OF refl])
    show "set (q @ ?new) \<subseteq> set (seen @ ?new)" using 2(2) by auto
    fix k v assume v: "v \<in> set (seen @ ?new)" "v \<notin> set (q @ ?new)" "(k, v) \<in> kind_of rows"
    then have seen: "v \<in> set seen" "v \<notin> set q" by auto
    show "k \<in> set (seen @ ?new)"
    proof (cases "v = u")
      case True
      then show ?thesis using v(3) by (auto simp: set_cn_kids)
    next
      case False
      then have "k \<in> set seen" using 2(3) [of v k] seen v(3) by simp
      then show ?thesis by simp
    qed
  qed
  also have "\<dots> = reaching rows (set seen)"
  proof -
    have "u \<in> set seen" using 2(2) by simp
    moreover have "set ?new \<subseteq> {k. (k, u) \<in> kind_of rows}" by (auto simp: set_cn_kids)
    ultimately have "reaching rows (set seen \<union> set ?new) = reaching rows (set seen)" by (rule reaching_kids)
    then show ?thesis by simp
  qed
  finally show ?case unfolding cn_bfs.simps Let_def .
qed

lemma descendants_set: "set (cn_descendants rows v) = {u. (u, v) \<in> (kind_of rows)\<^sup>*}"
proof -
  have "set (cn_descendants rows v) = reaching rows (set (remdups (v # cn_kids rows v)))"
    unfolding cn_descendants_def by (rule bfs_set) (auto simp: set_cn_kids)
  also have "\<dots> = reaching rows ({v} \<union> {k. (k, v) \<in> kind_of rows})" 
    by (rule arg_cong [of _ _ "reaching rows"]) (auto simp: set_cn_kids)
  also have "\<dots> = reaching rows {v}" by (rule reaching_kids) auto
  finally show ?thesis by (simp add: reaching_def)
qed

lemma descendants_length: "length (cn_descendants rows v) = card {u. (u, v) \<in> (kind_of rows)\<^sup>*}"
proof -
  have "distinct (cn_descendants rows v)" unfolding cn_descendants_def by (rule bfs_distinct) simp
  then show ?thesis by (metis descendants_set distinct_card)
qed

lemma descendants_verts: "v \<in> set (cn_verts rows) \<Longrightarrow> {u. (u, v) \<in> (kind_of rows)\<^sup>*} \<subseteq> set (cn_verts rows)"
proof
  fix u assume v: "v \<in> set (cn_verts rows)" "u \<in> {u. (u, v) \<in> (kind_of rows)\<^sup>*}"
  from v(2) have "(u, v) \<in> (kind_of rows)\<^sup>*" by simp
  then show "u \<in> set (cn_verts rows)"
    by (cases rule: converse_rtranclE) (use v(1) in \<open>auto simp: kind_of_def cn_verts_def\<close>)
qed

text \<open>C29: The value derived for a ConceptNet concept is the one the formula names, over the concepts that reach it by
  \<open>is_a\<close>, itself included, whatever the cycles; it is above 0 for every concept, also for one that subsumes
  the whole taxonomy, and 1 exactly for a concept nothing else reaches.\<close>

theorem conceptnet_ic_measures:
  assumes "map_of (conceptnet_ic rows) v = Some x"
  shows "x = 1 - ln (real (card {u. (u, v) \<in> (kind_of rows)\<^sup>*})) / ln (real (card (fst ` kind_of rows \<union> snd ` kind_of rows)) + 1)
    \<and> 0 < x \<and> x \<le> 1 \<and> (x = 1 \<longleftrightarrow> {u. (u, v) \<in> (kind_of rows)\<^sup>*} = {v})"
proof -
  let ?D = "{u. (u, v) \<in> (kind_of rows)\<^sup>*}"
  let ?n = "length (cn_verts rows)"
  have n: "\<not> ?n < 2" using assms by (auto simp: conceptnet_ic_def Let_def split: if_splits)
  have pair: "map_of (map (\<lambda>v. (v, f v)) vs) v = (if v \<in> set vs then Some (f v) else None)" for f :: "string \<Rightarrow> real" and vs
    by (induction vs) auto
  have v: "v \<in> set (cn_verts rows)" and x: "x = 1 - ln (real (card ?D)) / ln (real ?n + 1)"
    using assms n by (auto simp: conceptnet_ic_def Let_def pair descendants_length split: if_splits)
  have verts: "set (cn_verts rows) = fst ` kind_of rows \<union> snd ` kind_of rows"
    by (force simp: cn_verts_def kind_of_def)
  have "distinct (cn_verts rows)" by (simp add: cn_verts_def)
  then have "?n = card (set (cn_verts rows))" by (simp add: distinct_card)
  then have card: "?n = card (fst ` kind_of rows \<union> snd ` kind_of rows)" using verts by simp
  have fin: "finite ?D" using descendants_verts [OF v] by (rule finite_subset) simp
  have mem: "v \<in> ?D" by simp
  have pos: "1 \<le> card ?D" using fin mem by (metis One_nat_def Suc_leI card_gt_0_iff empty_iff)
  have le: "card ?D \<le> ?n"
    using card_mono [OF _ descendants_verts [OF v]] by (metis List.finite_set card_length dual_order.trans)
  have "0 < real ?n" using n by linarith
  then have denom: "0 < ln (real ?n + 1)" by simp
  have "ln (real (card ?D)) < ln (real ?n + 1)" using pos le by (intro ln_less_cancel_iff [THEN iffD2]) linarith+
  then have "ln (real (card ?D)) / ln (real ?n + 1) < 1" using denom by simp
  moreover have "0 \<le> ln (real (card ?D)) / ln (real ?n + 1)" using pos denom by simp
  moreover have "x = 1 \<longleftrightarrow> card ?D = 1" using denom pos unfolding x by simp
  moreover have "card ?D = 1 \<longleftrightarrow> ?D = {v}" using mem by (metis card_1_singletonE is_singletonI is_singleton_altdef singletonD)
  ultimately show ?thesis using x card by simp
qed

definition ex_taxonomy :: "(string \<times> string) list" where
  "ex_taxonomy = [(''cn-cow'', ''cn-animal''), (''cn-animal'', ''cn-cow'')]"

text \<open>Two concepts that are each a kind of the other: both subsume the whole taxonomy, neither has value 0.\<close>

theorem conceptnet_ic_measures_witness: "\<exists>x. map_of (conceptnet_ic ex_taxonomy) ''cn-cow'' = Some x \<and> 0 < x \<and> x \<le> 1"
proof -
  have "cn_verts ex_taxonomy = [''cn-cow'', ''cn-animal''] \<or> cn_verts ex_taxonomy = [''cn-animal'', ''cn-cow'']"
    by (simp add: cn_verts_def ex_taxonomy_def)
  then obtain x where "map_of (conceptnet_ic ex_taxonomy) ''cn-cow'' = Some x"
    by (auto simp: conceptnet_ic_def Let_def)
  with conceptnet_ic_measures [OF this] show ?thesis by blast
qed

section \<open>The measurement is what is written\<close>

text \<open>C15: A measurement puts exactly the rows that are due, in the order of the documents and in batches of at
  most 2000: for each document whose id names a synset of the index that carries an information content the
  document does not hold, the document with the value of that very synset under \<open>ic\<close>; nothing for a synset
  that was never measured and for a row that holds the value already. The record of the measurement is
  written after all of them. When it dies on the way, what was put is the beginning of those rows, and the
  record of the corpus is as it was. The stores are taken to be \<open>steady\<close>: each declares the id prefix \<open>p\<close>, and only
  a write of a transducer's artifact can change that.\<close>

theorem persist_ic_writes:
  assumes "steady p s" and "persist_ic g a idx docs author every s = (r, s')"
  shows "sd_writes s' = sd_writes s @ wrote s s'
    \<and> (case r of
        Inl e \<Rightarrow> list_all row_write (wrote s s')
          \<and> (\<exists>rest. due_rows g (dr_float (sd_driver s)) idx p docs = put_rows (wrote s s') @ rest)
      | Inr n \<Rightarrow> (\<exists>ws cs. wrote s s' = ws @ PutArtifact (ic_basis_doc g author (length idx)) # cs
          \<and> list_all row_write ws \<and> list_all (\<lambda>q. q = Checkpoint) cs
          \<and> put_rows ws = due_rows g (dr_float (sd_driver s)) idx p docs \<and> n = int (length (put_rows ws))))"
proof (cases r)
  case (Inl e)
  then show ?thesis using outcomeD [OF persist_outcome [OF assms(1)] assms(2)]
    by (auto simp: partly_def span_wrote dest: span_wrote)
next
  case (Inr n)
  then obtain ws cs where run: "spans a s (ws @ PutArtifact (ic_basis_doc g author (length idx)) # cs) s'" "list_all row_write ws"
    "put_rows ws = due_rows g (dr_float (sd_driver s)) idx p docs" "n = int (length (put_rows ws))" "list_all (\<lambda>q. q = Checkpoint) cs"
    using outcomeD [OF persist_outcome [OF assms(1)] assms(2)] by (auto simp: recorded_def)
  then show ?thesis using Inr span_wrote [OF run(1)] unfolding Inr sum.case
    by (intro conjI exI [of _ ws] exI [of _ cs]) simp_all
qed

section \<open>A second run\<close>

text \<open>The row the first run left for a document: the one it put under its id, or the document as it was.\<close>

definition stored :: "seed_write list \<Rightarrow> pyval dict \<Rightarrow> pyval dict" where
  "stored ws doc = (case List.find (\<lambda>d. dget d ''id'' = dget doc ''id'') (put_rows ws) of None \<Rightarrow> doc | Some d \<Rightarrow> d)"

text \<open>A stored float reads back as the float it was.\<close>

definition exact_floats :: "constants \<Rightarrow> (string \<Rightarrow> pyfloat res) \<Rightarrow> index \<Rightarrow> bool" where
  "exact_floats g fl idx \<longleftrightarrow> (\<forall>name syn v. map_of idx name = Some syn \<and> sy_ic syn = Some v \<longrightarrow>
     gr_float g v \<noteq> VNone \<and> (\<exists>x. v = Fin x \<and> py_float fl (gr_float g v) = Inr (Fin x)))"

definition is_put :: "seed_write \<Rightarrow> bool" where
  "is_put q \<longleftrightarrow> (case q of PutMany ds \<Rightarrow> True | _ \<Rightarrow> False)"

lemma no_rows_no_puts: "list_all row_write ws \<Longrightarrow> put_rows ws = [] \<Longrightarrow> list_all (\<lambda>q. \<not> is_put q) ws"
  by (induction ws) (auto simp: row_write_def is_put_def split: seed_write.splits)

lemma due_same_id: "d \<in> set (due g fl idx p doc) \<Longrightarrow> dget d ''id'' = dget doc ''id''"
  by (auto simp: due_def dget_def update_conv' split: option.splits if_splits)

lemma find_due:
  assumes "distinct (map (\<lambda>d. dget d ''id'') docs)" "doc \<in> set docs"
  shows "List.find (\<lambda>d. dget d ''id'' = dget doc ''id'') (due_rows g fl idx p docs)
    = (case due g fl idx p doc of [] \<Rightarrow> None | d # _ \<Rightarrow> Some d)"
  using assms
proof (induction docs)
  case (Cons e docs)
  have find_append: "List.find P (xs @ ys) = (case List.find P xs of None \<Rightarrow> List.find P ys | Some x \<Rightarrow> Some x)"
    for P and xs ys :: "pyval dict list" by (induction xs) auto
  show ?case
  proof (cases "e = doc")
    case True
    have "dget d ''id'' \<noteq> dget doc ''id''" if "d \<in> set (due_rows g fl idx p docs)" for d
    proof -
      from that obtain e' where e': "e' \<in> set docs" "d \<in> set (due g fl idx p e')" by (auto simp: due_rows_def)
      then have "dget e' ''id'' \<in> (\<lambda>d. dget d ''id'') ` set docs" by blast
      then have "dget e' ''id'' \<noteq> dget doc ''id''" using Cons.prems(1) unfolding True by auto
      then show ?thesis using due_same_id [OF e'(2)] by simp
    qed
    then have "List.find (\<lambda>d. dget d ''id'' = dget doc ''id'') (due_rows g fl idx p docs) = None"
      by (auto simp: find_None_iff)
    moreover have "List.find (\<lambda>d. dget d ''id'' = dget doc ''id'') (due g fl idx p doc)
        = (case due g fl idx p doc of [] \<Rightarrow> None | d # _ \<Rightarrow> Some d)"
      using due_same_id [of _ g fl idx p doc] by (auto split: list.split)
    ultimately show ?thesis using True by (simp add: due_rows_def find_append split: option.splits list.splits)
  next
    case False
    then have in_docs: "doc \<in> set docs" using Cons.prems(2) by simp
    then have "dget e ''id'' \<noteq> dget doc ''id''" using Cons.prems(1) by force
    then have "List.find (\<lambda>d. dget d ''id'' = dget doc ''id'') (due g fl idx p e) = None"
      using due_same_id by (force simp: find_None_iff)
    then show ?thesis using Cons.IH [OF _ in_docs] Cons.prems(1) by (simp add: due_rows_def find_append)
  qed
qed simp

lemma due_again:
  assumes "exact_floats g fl idx" "d \<in> set (due g fl idx p doc)"
  shows "due g fl idx p d = []"
proof -
  obtain syn v where syn: "map_of idx (row_name p doc) = Some syn" "sy_ic syn = Some v"
    and d: "d = AList.update ''ic'' (gr_float g v) doc"
    using assms(2) by (force simp: due_def split: option.splits if_splits)
  have "row_name p d = row_name p doc" by (simp add: d row_name_def dget_def update_conv')
  moreover have "holds_value fl d v" using assms(1) syn unfolding exact_floats_def holds_value_def d by (fastforce simp: dget_def)
  ultimately show ?thesis using syn by (simp add: due_def)
qed

lemma stored_settled:
  assumes "exact_floats g fl idx" "distinct (map (\<lambda>d. dget d ''id'') docs)" "put_rows ws = due_rows g fl idx p docs"
  shows "due_rows g fl idx p (map (stored ws) docs) = []"
proof -
  have "due g fl idx p (stored ws doc) = []" if "doc \<in> set docs" for doc
    using find_due [OF assms(2) that, of g fl idx p] due_again [OF assms(1), of _ p doc]
    by (cases "due g fl idx p doc") (auto simp: stored_def assms(3))
  then show ?thesis by (simp add: due_rows_def)
qed

text \<open>C30: A second run writes no row: over the rows of the store as the first run left them, with its own rows in
  the place of the documents of the same ids, it writes only the record of the measurement and answers that
  no row was written. The documents of a store have distinct ids, a float it stores must read back as
  the float it was, and the stores are \<open>steady\<close>.\<close>

theorem persist_ic_idempotent:
  assumes "steady p s" "exact_floats g (dr_float (sd_driver s)) idx" "distinct (map (\<lambda>d. dget d ''id'') docs)"
    and "persist_ic g a idx docs author every s = (Inr n, s1)"
    and "persist_ic g a idx (map (stored (wrote s s1)) docs) author every s1 = (r, s2)"
  shows "list_all (\<lambda>q. \<not> is_put q) (wrote s1 s2) \<and> (case r of Inl e \<Rightarrow> True | Inr m \<Rightarrow> m = 0)"
proof -
  obtain ws cs where first: "spans a s (ws @ PutArtifact (ic_basis_doc g author (length idx)) # cs) s1" "list_all row_write ws"
    "put_rows ws = due_rows g (dr_float (sd_driver s)) idx p docs" "list_all (\<lambda>q. q = Checkpoint) cs"
    using outcomeD [OF persist_outcome [OF assms(1)] assms(4)] by (auto simp: recorded_def)
  have "put_rows (wrote s s1) = due_rows g (dr_float (sd_driver s)) idx p docs"
    using first(3) checkpoints_put [OF first(4)] by (simp add: span_wrote(1) [OF first(1)])
  then have none: "due_rows g (dr_float (sd_driver s)) idx p (map (stored (wrote s s1)) docs) = []"
    by (rule stored_settled [OF assms(2,3)])
  have "steady p s1"
    using span_steady [OF first(1) _ assms(1)] row_writes_flagless [OF first(2)] checkpoints_put [OF first(4)] by (simp add: no_flag)
  note second = outcomeD [OF persist_outcome [OF this] assms(5), unfolded span_float [OF first(1)] none]
  have "case r of Inl e \<Rightarrow> partly a [] s1 s2 | Inr m \<Rightarrow> recorded a [] (ic_basis_doc g author (length idx)) s1 m s2"
    using second by (cases r) auto
  then show ?thesis
  proof (cases r)
    case (Inl e)
    with \<open>case r of Inl e \<Rightarrow> _ e | Inr m \<Rightarrow> _ m\<close> show ?thesis
      by (auto simp: partly_def span_wrote intro: no_rows_no_puts)
  next
    case (Inr m)
    with \<open>case r of Inl e \<Rightarrow> _ e | Inr m \<Rightarrow> _ m\<close> obtain rows cs' where
      second: "spans a s1 (rows @ PutArtifact (ic_basis_doc g author (length idx)) # cs') s2" "list_all row_write rows"
        "put_rows rows = []" "m = 0" "list_all (\<lambda>q. q = Checkpoint) cs'" by (auto simp: recorded_def)
    have "list_all (\<lambda>q. \<not> is_put q) cs'" using second(5) by (induction cs') (auto simp: is_put_def)
    then show ?thesis using Inr second no_rows_no_puts [OF second(2,3)] by (simp add: span_wrote(1) [OF second(1)] is_put_def)
  qed
qed

section \<open>Page by page\<close>

text \<open>A store that pages the rows behind an id in the order of their ids, at most \<open>n\<close> at a time.\<close>

definition pages_of :: "(string \<times> pyval dict) list \<Rightarrow> nat \<Rightarrow> store \<Rightarrow> string \<Rightarrow> string \<Rightarrow> (string \<times> pyval dict) list res" where
  "pages_of rows n s ct after = Inr (take n (filter (\<lambda>r. after < fst r) rows))"

lemma page_advances:
  fixes rows :: "(string \<times> pyval dict) list" and after :: string
  assumes "take n (filter (\<lambda>r. after < fst r) rows) \<noteq> []"
  shows "length (filter (\<lambda>r. fst (last (take n (filter (\<lambda>r. after < fst r) rows))) < fst r) rows) < length (filter (\<lambda>r. after < fst r) rows)"
proof -
  let ?x = "last (take n (filter (\<lambda>r. after < fst r) rows))"
  have "?x \<in> set (take n (filter (\<lambda>r. after < fst r) rows))" using assms by (rule last_in_set)
  then have x: "?x \<in> set rows" "after < fst ?x" by (auto dest: in_set_takeD)
  have "(after < fst r \<and> fst ?x < fst r) = (fst ?x < fst r)" for r :: "string \<times> pyval dict"
    using x(2) by auto
  then have "filter (\<lambda>r. fst ?x < fst r) rows = filter (\<lambda>r. fst ?x < fst r) (filter (\<lambda>r. after < fst r) rows)"
    unfolding filter_filter by simp
  moreover have "length (filter (\<lambda>r. fst ?x < fst r) (filter (\<lambda>r. after < fst r) rows)) < length (filter (\<lambda>r. after < fst r) rows)"
    using x by (intro length_filter_less [of ?x]) auto
  ultimately show ?thesis by simp
qed

lemma refresh_rows_settles:
  assumes "length (filter (\<lambda>r. after < fst r) rows) < fuel"
  shows "outcome (refresh_rows (pages_of rows n) g a every idx ct fuel after st) s (\<lambda>r s'. r \<noteq> None) (\<lambda>_. True)"
  using assms
proof (induction fuel arbitrary: after st s)
  case (Suc fuel)
  let ?page = "take n (filter (\<lambda>r. after < fst r) rows)"
  show ?case
  proof (cases "?page = []")
    case True
    then show ?thesis by (simp add: pages_of_def outcome_def)
  next
    case False
    have "length (filter (\<lambda>r. fst (last ?page) < fst r) rows) < fuel"
      using page_advances [OF False] Suc.prems by linarith
    then have IH: "outcome (refresh_rows (pages_of rows n) g a every idx ct fuel (fst (last ?page)) st') s' (\<lambda>r s'. r \<noteq> None) (\<lambda>_. True)" for st' s'
      by (rule Suc.IH)
    have "outcome (forM (ic_step g a every idx) (map snd ?page) st) s (\<lambda>_ _. True) (\<lambda>_. True)"
      by (simp add: outcome_def split: prod.split sum.split)
    then have "outcome (bindM (forM (ic_step g a every idx) (map snd ?page) st)
        (\<lambda>st. refresh_rows (pages_of rows n) g a every idx ct fuel (fst (last ?page)) st)) s (\<lambda>r s'. r \<noteq> None) (\<lambda>_. True)"
      by (intro outcome_bind) (rule outcome_mono, simp_all only: IH)
    moreover have "pages_of rows n t ct after = Inr ?page" for t by (simp add: pages_of_def)
    ultimately show ?thesis using False by (simp add: outcome_def)
  qed
qed simp

section \<open>The readiness flag\<close>

text \<open>Only what is written matters here.\<close>

definition grown :: "(seed_write \<Rightarrow> bool) \<Rightarrow> seeding \<Rightarrow> seeding \<Rightarrow> bool" where
  "grown P s s' \<longleftrightarrow> (\<exists>ws. sd_writes s' = sd_writes s @ ws \<and> list_all P ws)"

interpretation growth: world_relation "grown P" for P
proof
  show "grown P s s" for s by (simp add: grown_def)
  show "grown P s s''" if "grown P s s'" "grown P s' s''" for s s' s'' using that by (fastforce simp: grown_def)
qed

lemma grown_write: "P q \<Longrightarrow> growth.keeps P (writes_to a q)"
  by (auto simp: growth.keeps_def grown_def writes_to_def split: sum.split)

lemma grown_modify: "(\<And>s. sd_writes (f s) = sd_writes s) \<Longrightarrow> growth.keeps P (modifyM f)"
  by (simp add: growth.keeps_def grown_def)

lemma grown_driver: "growth.keeps P (with_driver m)"
  by (auto simp: growth.keeps_def grown_def with_driver_def split: prod.split)

lemma grown_option: "growth.keeps P m \<Longrightarrow> (\<And>x. growth.keeps P (f x)) \<Longrightarrow> growth.keeps P (case v of None \<Rightarrow> m | Some x \<Rightarrow> f x)"
  by (cases v) simp_all

lemma grown_wal: "P Checkpoint \<Longrightarrow> growth.keeps P (wal a)"
  unfolding wal_def by (intro growth.keeps_catch growth.keeps_bind growth.keeps_basic grown_write)

lemmas grown_intros = growth.keeps_basic growth.keeps_bind growth.keeps_catch growth.keeps_if growth.keeps_forM grown_write grown_modify
  grown_driver grown_option grown_wal

text \<open>C14: The build writes the transducer's artifact, whose presence moves the readers onto the keyed path, only
  when everything the keyed path reads has been written: before it stand, in this order, every row due of the
  measurement of the whole index and the record of that measurement, the entry edges from every lemma of every
  document of the language to its synset, and the edges that anchor the terms the store holds by then; the
  artifact carries the irregular forms of those documents; after it come only checkpoints. A build that fails
  on the way, in any of these phases, leaves no flag behind. The stores are taken to be \<open>steady\<close>.\<close>

theorem build_flags_last:
  assumes "steady p s" and "seed_build g vertices provider a lang author every s = (r, s')"
  shows "sd_writes s' = sd_writes s @ wrote s s'
    \<and> (case r of
        Inl e \<Rightarrow> list_all (\<lambda>q. \<not> is_flag q) (wrote s s')
      | Inr summary \<Rightarrow> laid g vertices provider a lang author p s (wrote s s'))"
  using outcomeD [OF build_outcome [OF assms(1)] assms(2)]
  by (cases r) (auto simp: unflagged_def span_wrote dest: span_wrote)

section \<open>Relations\<close>

definition reverses :: "edge list \<Rightarrow> string \<Rightarrow> bool" where
  "reverses es label \<longleftrightarrow> list_all (\<lambda>e. ed_label e = label \<longrightarrow> label \<in> set (labels_between es (ed_dst e) (ed_src e))) es"

lemma sampled_rows: "(x, y) \<in> set (sampled gf s es label stride sample) \<Longrightarrow> \<exists>e \<in> set es. ed_label e = label \<and> ed_src e = x \<and> ed_dst e = y"
proof -
  let ?rows = "map (\<lambda>(i, e). (ed_src e, ed_dst e)) (filter (\<lambda>(i, e). ed_label e = label \<and> gf_rowid gf s i mod stride = 0) (List.enumerate 0 es))"
  assume "(x, y) \<in> set (sampled gf s es label stride sample)"
  then have "(x, y) \<in> set ?rows" by (auto simp: sampled_def Let_def dest: in_set_takeD split: if_splits)
  then obtain i e where "(i, e) \<in> set (List.enumerate 0 es)" "ed_label e = label" "ed_src e = x" "ed_dst e = y" by auto
  moreover from this(1) have "snd (i, e) \<in> set (map snd (List.enumerate 0 es))" unfolding set_map by (rule imageI)
  then have "e \<in> set es" by simp
  ultimately show ?thesis by blast
qed

lemma all_reversed: "reverses es label \<Longrightarrow> filter (\<lambda>(x, y). label \<in> set (labels_between es y x)) (sampled gf s es label stride sample) = sampled gf s es label stride sample"
  unfolding filter_id_conv
proof
  fix p assume rev: "reverses es label" and p: "p \<in> set (sampled gf s es label stride sample)"
  obtain x y where xy: "p = (x, y)" by (cases p)
  from sampled_rows p obtain e where "e \<in> set es" "ed_label e = label" "ed_src e = x" "ed_dst e = y" unfolding xy by blast
  with rev show "case p of (x, y) \<Rightarrow> label \<in> set (labels_between es y x)" by (auto simp: reverses_def list_all_iff xy)
qed

lemma measured_symmetry:
  assumes "pairs \<noteq> []"
  shows "\<exists>y. sg_symmetry (measured_signature es label n pairs) = Some y \<and> 0 \<le> y \<and> y \<le> 1
    \<and> (filter (\<lambda>(x, y). label \<in> set (labels_between es y x)) pairs = pairs \<longrightarrow> y = 1)"
proof -
  let ?k = "length (filter (\<lambda>(x, y). label \<in> set (labels_between es y x)) pairs)"
  have "?k \<le> length pairs" "0 < length pairs" using assms by simp_all
  then have "(0 :: rat) \<le> of_int (int ?k) / of_int (int (length pairs))" "of_int (int ?k) / of_int (int (length pairs)) \<le> (1 :: rat)"
    by (simp_all add: divide_le_eq_1)
  then show ?thesis using assms by (auto simp: measured_signature_def Let_def)
qed

text \<open>A relation whose extent was never counted has a signature that measures nothing. A counted one is measured: its
  extent is never negative, its symmetry lies between 0 and 1, and it is 1 for a relation every edge of which
  is held in reverse as well, once an edge was sampled.\<close>

theorem signature_measures:
  assumes "relation_signature gf s label sample = Inr sg" "so_edges s = Some es"
  shows "case gf_count gf s label of
      None \<Rightarrow> sg = UNMEASURED_SIGNATURE
    | Some extent \<Rightarrow> sg_measured sg \<and> sg_edges sg = Some (max 0 extent)
        \<and> (\<exists>y. sg_symmetry sg = Some y \<and> 0 \<le> y \<and> y \<le> 1 \<and> (reverses es label \<and> sg_n sg \<noteq> Some 0 \<longrightarrow> y = 1))"
proof (cases "gf_count gf s label")
  case None
  then show ?thesis using assms by (simp add: relation_signature_def)
next
  case (Some extent)
  let ?pairs = "sampled gf s es label (max (extent div max sample 1) 1) sample"
  show ?thesis
  proof (cases "extent \<le> 0 \<or> ?pairs = []")
    case True
    then show ?thesis using assms Some by (auto simp: relation_signature_def Let_def)
  next
    case False
    then have sg: "sg = measured_signature es label extent ?pairs" using assms Some by (simp add: relation_signature_def Let_def)
    from False measured_symmetry [of ?pairs es label extent] obtain y where
      y: "sg_symmetry sg = Some y" "0 \<le> y" "y \<le> 1" "filter (\<lambda>(x, y). label \<in> set (labels_between es y x)) ?pairs = ?pairs \<longrightarrow> y = 1"
      unfolding sg by blast
    have rev: "reverses es label \<longrightarrow> y = 1" using y(4) all_reversed by blast
    have "sg_measured sg" "sg_edges sg = Some (max 0 extent)" using False unfolding sg by (simp_all add: measured_signature_def Let_def)
    with y(1-3) rev Some show ?thesis by auto
  qed
qed

text \<open>What is published of a relation is measured.\<close>

definition published :: "seed_write \<Rightarrow> bool" where
  "published q \<longleftrightarrow> (case q of PutArtifact d \<Rightarrow> (\<exists>g author label sg. d = relation_doc g author label sg \<and> sg_measured sg)
     | Backfill \<Rightarrow> True | Checkpoint \<Rightarrow> True | _ \<Rightarrow> False)"

lemma relations_measured: "growth.keeps published (relation_vertices gf g a author)"
proof -
  have "growth.keeps published (relation_step gf g a author label n)" for label n
    unfolding relation_step_def by (intro grown_intros) (auto simp: published_def)
  then show ?thesis unfolding relation_vertices_def by (intro grown_intros) (simp_all add: published_def)
qed

section \<open>Irregular forms\<close>

text \<open>Of two lemmas with one irregular form the build keeps the last, the driver the first.\<close>

definition ex_forms :: "pyval dict" where
  "ex_forms = [(''leaf'', VList [VStr ''leaves'']), (''leave'', VList [VStr ''leaves''])]"

lemma exceptions_disagree:
  "lex_forms (VStr ''n'') ex_forms [] = Inr [(''leaves|n'', ''leave'')]"
  "dr_exc (snd (add_forms ''n'' ex_forms (driver_start (\<lambda>_. ex_dog_store 1) ex_no_float))) = [((''leaves'', ''n''), ''leaf'')]"
  by code_simp+

section \<open>An example\<close>

definition ex_constants :: constants where
  "ex_constants = \<lparr> gr_now = VStr ''now'', gr_observed = VStr ''observed'', gr_human = VStr ''human'', gr_op = ''op.transducer.'',
     gr_float = (\<lambda>v. VInt 1), gr_fixed3 = (\<lambda>_. ''0.000'') \<rparr>"

definition ex_seeding :: seeding where
  "ex_seeding = \<lparr> sd_driver = ex_bound, sd_answer = (\<lambda>ws q. Inr 0), sd_apply = (\<lambda>q s. s), sd_writes = [], sd_reg = [] \<rparr>"

text \<open>One measured synset and its row, which holds no measurement yet.\<close>

definition ex_measured :: index where
  "ex_measured = [(''dog'', \<lparr> sy_oid = 0, sy_name = ''dog'', sy_pos = ''n'', sy_hyper = [], sy_inst = [], sy_ic = Some (Fin 1), sy_se = None, sy_counts = [] \<rparr>)]"

lemma ex_steady: "steady ''wn-'' ex_seeding"
proof -
  have "prefix_in (ex_dog_store 1) = Inr ''wn-''" by code_simp
  moreover have "dr_stores ex_bound = (\<lambda>_. ex_dog_store 1)" "dr_spec ex_bound = None"
    by (simp_all add: ex_bound_def bind_store_def bindM_def arts_def driver_start_def)
  ultimately show ?thesis by (simp add: steady_def named_def ex_seeding_def)
qed

theorem persist_ic_writes_witness:
  "\<exists>s' ws. persist_ic ex_constants 7 ex_measured [[(''id'', VStr ''wn-dog'')], [(''id'', VStr ''wn-cat'')]] ''me'' 40000 ex_seeding = (Inr 1, s')
     \<and> put_rows ws = [[(''id'', VStr ''wn-dog''), (''ic'', VInt 1)]] \<and> wrote ex_seeding s' \<noteq> ws \<and> take (length ws) (wrote ex_seeding s') = ws"
proof -
  let ?m = "persist_ic ex_constants 7 ex_measured [[(''id'', VStr ''wn-dog'')], [(''id'', VStr ''wn-cat'')]] ''me'' 40000"
  have due: "due_rows ex_constants (dr_float (sd_driver ex_seeding)) ex_measured ''wn-'' [[(''id'', VStr ''wn-dog'')], [(''id'', VStr ''wn-cat'')]]
      = [[(''id'', VStr ''wn-dog''), (''ic'', VInt 1)]]" 
    by (simp add: due_rows_def due_def ex_measured_def row_name_def strip_prefix_def holds_value_def dget_def py_or_def ex_constants_def py_startswith_def)
  obtain r s' where run: "?m ex_seeding = (r, s')" by fastforce
  have "fst (?m ex_seeding) = Inr 1" by code_simp
  then have n: "r = Inr 1" using run by simp
  from persist_ic_writes [OF ex_steady run] n due obtain ws cs where
    "wrote ex_seeding s' = ws @ PutArtifact (ic_basis_doc ex_constants ''me'' (length ex_measured)) # cs"
    "put_rows ws = [[(''id'', VStr ''wn-dog''), (''ic'', VInt 1)]]" by auto
  then show ?thesis using run n by (intro exI [of _ s'] exI [of _ ws]) simp
qed

theorem build_flags_last_witness:
  "\<exists>r s'. seed_build ex_constants (\<lambda>_. None) None 7 ''en'' ''me'' 40000 ex_seeding = (r, s')
     \<and> (case r of Inl e \<Rightarrow> list_all (\<lambda>q. \<not> is_flag q) (wrote ex_seeding s')
        | Inr summary \<Rightarrow> laid ex_constants (\<lambda>_. None) None 7 ''en'' ''me'' ''wn-'' ex_seeding (wrote ex_seeding s'))"
proof -
  obtain r s' where run: "seed_build ex_constants (\<lambda>_. None) None 7 ''en'' ''me'' 40000 ex_seeding = (r, s')" by fastforce
  from build_flags_last [OF ex_steady run] run show ?thesis by blast
qed

theorem persist_ic_idempotent_witness:
  "\<exists>n s1 r s2. persist_ic ex_constants 7 ex_measured [[(''id'', VStr ''wn-dog'')]] ''me'' 40000 ex_seeding = (Inr n, s1)
     \<and> persist_ic ex_constants 7 ex_measured [[(''id'', VStr ''wn-dog''), (''ic'', VInt 1)]] ''me'' 40000 s1 = (r, s2)
     \<and> list_all (\<lambda>q. \<not> is_put q) (wrote s1 s2)"
proof -
  let ?doc = "[(''id'', VStr ''wn-dog'')]"
  let ?m = "persist_ic ex_constants 7 ex_measured [?doc] ''me'' 40000"
  have exact: "exact_floats ex_constants (dr_float (sd_driver ex_seeding)) ex_measured"
    by (auto simp: exact_floats_def ex_measured_def ex_constants_def py_float_def split: if_splits)
  have "fst (?m ex_seeding) = Inr 1" by code_simp
  then have run: "?m ex_seeding = (Inr 1, snd (?m ex_seeding))" by (rule prog_at)
  define s1 where "s1 = snd (?m ex_seeding)"
  have "put_rows (wrote ex_seeding s1) = [[(''id'', VStr ''wn-dog''), (''ic'', VInt 1)]]" unfolding s1_def by code_simp
  then have left: "map (stored (wrote ex_seeding s1)) [?doc] = [[(''id'', VStr ''wn-dog''), (''ic'', VInt 1)]]"
    by (simp add: stored_def dget_def)
  obtain r s2 where again: "persist_ic ex_constants 7 ex_measured (map (stored (wrote ex_seeding s1)) [?doc]) ''me'' 40000 s1 = (r, s2)" by fastforce
  have "list_all (\<lambda>q. \<not> is_put q) (wrote s1 s2)"
    using persist_ic_idempotent [OF ex_steady exact _ run [folded s1_def] again] by simp
  with run [folded s1_def] again show ?thesis unfolding left by blast
qed

definition ex_graph :: graph_face where
  "ex_graph = \<lparr> gf_count = (\<lambda>s l. if l = ''hypernym'' then Some 1 else None), gf_labels = (\<lambda>s. Some [''hypernym'']), gf_rowid = (\<lambda>s i. int i + 1) \<rparr>"

theorem signature_measures_witness:
  "\<exists>sg. relation_signature ex_graph (ex_dog_store 1) ''hypernym'' 4000 = Inr sg \<and> sg_measured sg
     \<and> relation_signature ex_graph (ex_dog_store 1) ''antonym'' 4000 = Inr UNMEASURED_SIGNATURE"
proof -
  have es: "so_edges (ex_dog_store 1) = Some (the (so_edges (ex_dog_store 1)))" by (simp add: ex_dog_store_def)
  obtain sg where sg: "relation_signature ex_graph (ex_dog_store 1) ''hypernym'' 4000 = Inr sg"
    by (simp add: relation_signature_def ex_dog_store_def ex_graph_def Let_def)
  obtain sg' where sg': "relation_signature ex_graph (ex_dog_store 1) ''antonym'' 4000 = Inr sg'"
    by (simp add: relation_signature_def ex_dog_store_def ex_graph_def Let_def)
  from signature_measures [OF sg es] signature_measures [OF sg' es] sg sg' show ?thesis by (simp add: ex_graph_def)
qed

end
