(* ===== verification/Process_Setup.thy ===== *)
theory Process_Setup
  imports Ontology_Index Evolution
begin

text \<open>
  What a process of the package is set up from: the configuration read from the environment
  (\<open>config.py\<close>), the author of seeded rows (\<open>authorship.py\<close>), the filter that keeps query strings out of
  the logs (\<open>logging_config.py\<close>), the manifest a persona collects (\<open>manifest_base.py\<close>), and two data the
  ontology is read with (\<open>ontology/coupling.py\<close>, \<open>ontology/transducer.py\<close>). The environment is a
  dictionary; a logged record is the tuple of its arguments.
\<close>

section \<open>Configuration\<close>

type_synonym environment = "string dict"

definition getenv :: "environment \<Rightarrow> string \<Rightarrow> string \<Rightarrow> string" where
  "getenv env name default' = (case map_of env name of None \<Rightarrow> default' | Some v \<Rightarrow> v)"

definition int_env :: "environment \<Rightarrow> string \<Rightarrow> int \<Rightarrow> int" where
  "int_env env name default' = (case parse_int (getenv env name (int_str default')) of Inr n \<Rightarrow> n | Inl e \<Rightarrow> default')"

record configuration =
  cf_mantle_uri :: string
  cf_mantle_api_key :: string
  cf_type_content_type :: string
  cf_port :: int
  cf_max_body_bytes :: int
  cf_host :: string
  cf_keys_dir :: string
  cf_origin_uri :: string
  cf_events_enabled :: bool
  cf_log_level :: string
  cf_embeddings_uri :: string
  cf_embeddings_api_key :: string

text \<open>\<open>upper\<close> is \<open>str.upper\<close>.\<close>

definition configure :: "(string \<Rightarrow> string) \<Rightarrow> environment \<Rightarrow> configuration" where
  "configure upper env = \<lparr>
     cf_mantle_uri = rstrip_char (CHR ''/'') (getenv env ''MANTLE_URI'' ''http://localhost:8081''),
     cf_mantle_api_key = getenv env ''MANTLE_API_KEY'' [],
     cf_type_content_type = getenv env ''TYPE_CONTENT_TYPE'' ''application/vnd.agience.type+json'',
     cf_port = int_env env ''CRYSTAL_PORT'' 8085,
     cf_max_body_bytes = int_env env ''CRYSTAL_MAX_BODY_BYTES'' (16 * 1024 * 1024),
     cf_host = getenv env ''CRYSTAL_HOST'' ''0.0.0.0'',
     cf_keys_dir = getenv env ''KEYS_DIR'' [],
     cf_origin_uri = rstrip_char (CHR ''/'') (getenv env ''ORIGIN_URI'' ''http://localhost:8080''),
     cf_events_enabled = (py_lower (getenv env ''CRYSTAL_EVENTS_ENABLED'' ''1'') \<notin> {''0'', ''false'', ''no''}),
     cf_log_level = upper (getenv env ''LOG_LEVEL'' ''INFO''),
     cf_embeddings_uri = rstrip_char (CHR ''/'') (getenv env ''EMBEDDINGS_URI'' []),
     cf_embeddings_api_key = getenv env ''EMBEDDINGS_API_KEY'' [] \<rparr>"

section \<open>Authorship\<close>

definition UNATTRIBUTED :: string where
  "UNATTRIBUTED = ''crystal-local''"

definition default_author :: "environment \<Rightarrow> string" where
  "default_author env = first_nonempty (map_of env ''AGIENCE_AUTHOR'') UNATTRIBUTED"

section \<open>Logs\<close>

definition redact_arg :: "pyval \<Rightarrow> pyval" where
  "redact_arg v = (case v of
       VStr s \<Rightarrow> if py_startswith s ''/'' \<and> CHR ''?'' \<in> set s then VStr (hd (py_split (CHR ''?'') s)) else v
     | _ \<Rightarrow> v)"

text \<open>\<open>filter\<close> keeps every record; the arguments that are no tuple are left alone.\<close>

definition redact_filter :: "pyval list option \<Rightarrow> bool \<times> pyval list option" where
  "redact_filter args = (True, map_option (map redact_arg) args)"

text \<open>The configuration handed to \<open>logging.config.dictConfig\<close>; \<open>build_log_config\<close> is a copy of it.\<close>

definition LOG_CONFIG :: "pyval dict" where
  "LOG_CONFIG = [
     (''version'', VInt 1),
     (''disable_existing_loggers'', VBool False),
     (''filters'', VDict [(''redact_access_query'', VDict [(''()'', VStr ''crystal.logging_config.RedactAccessQueryFilter'')])]),
     (''formatters'', VDict [
        (''default'', VDict [(''()'', VStr ''crystal.logging_config.UTCFormatter''),
           (''fmt'', VStr ''%(asctime)s.%(msecs)03dZ %(levelname)s - %(name)s - %(filename)s:%(lineno)d - %(message)s''),
           (''datefmt'', VStr ''%Y-%m-%dT%H:%M:%S'')]),
        (''access'', VDict [(''()'', VStr ''crystal.logging_config.UTCFormatter''),
           (''fmt'', VStr ''%(asctime)s.%(msecs)03dZ %(levelname)s - %(name)s - %(message)s''),
           (''datefmt'', VStr ''%Y-%m-%dT%H:%M:%S'')])]),
     (''handlers'', VDict [
        (''default'', VDict [(''class'', VStr ''logging.StreamHandler''), (''formatter'', VStr ''default''),
           (''filters'', VList [VStr ''redact_access_query'']), (''stream'', VStr ''ext://sys.stdout'')]),
        (''access'', VDict [(''class'', VStr ''logging.StreamHandler''), (''formatter'', VStr ''access''),
           (''filters'', VList [VStr ''redact_access_query'']), (''stream'', VStr ''ext://sys.stdout'')])]),
     (''loggers'', VDict [
        (''uvicorn'', VDict [(''handlers'', VList [VStr ''default'']), (''level'', VStr ''INFO''), (''propagate'', VBool False)]),
        (''uvicorn.error'', VDict [(''level'', VStr ''INFO'')]),
        (''uvicorn.access'', VDict [(''handlers'', VList [VStr ''access'']), (''level'', VStr ''INFO''), (''propagate'', VBool False)])]),
     (''root'', VDict [(''handlers'', VList [VStr ''default'']), (''level'', VStr ''INFO'')])]"

definition build_log_config :: "pyval dict" where
  "build_log_config = LOG_CONFIG"

section \<open>The manifest of a persona\<close>

type_synonym capture = "pyval dict dict"

definition cap_get :: "string \<Rightarrow> (capture, pyval dict option) prog" where
  "cap_get aid = getsM (\<lambda>docs. map_of docs aid)"

definition cap_put :: "pyval dict \<Rightarrow> (capture, pyval dict) prog" where
  "cap_put doc = bindM (liftR (res_bind (py_subscript (VDict doc) ''id'') (as_str ''id''))) (\<lambda>aid.
     bindM (modifyM (AList.update aid doc)) (\<lambda>_. ret doc))"

type_synonym 's registrar = "('s, int) prog"

definition collect_manifest :: "'s registrar list \<Rightarrow> ('s, int) prog" where
  "collect_manifest registrars = forM (\<lambda>r total. bindM r (\<lambda>n. ret (total + n))) registrars 0"

definition manifest_of :: "capture registrar list \<Rightarrow> pyval dict list res" where
  "manifest_of registrars = (case collect_manifest registrars [] of (r, docs) \<Rightarrow> res_bind r (\<lambda>_. Inr (map snd docs)))"

section \<open>The sign of a relation\<close>

definition SEED_ETYPE_COUPLING :: "(int \<times> string list) dict" where
  "SEED_ETYPE_COUPLING = [(''hypernym'', 1, [''kind'', ''type'', ''sort'']), (''instance_hypernym'', 1, []), (''instance_of'', 1, []),
     (''hyponym'', 1, []), (''synonym'', 1, [''same'', ''synonym'', ''like'']),
     (''antonym'', - 1, [''opposite'', ''antonym'', ''contrary'', ''reverse''])]"

section \<open>The stored scale\<close>

text \<open>\<open>TRANSDUCER_OP\<close> is a constant of \<open>prism\<close>: the prefix of the operators' ids.\<close>

definition persisted_xi :: "string \<Rightarrow> string \<Rightarrow> (driver, pyfloat option) prog" where
  "persisted_xi transducer_op lang =
     bindM (catchM (bindM (arts None) (\<lambda>a. bindM (getsM (\<lambda>w. so_get (dr_stores w a) (transducer_op @ ''language.'' @ lang))) liftR))
       (\<lambda>_. ret None)) (\<lambda>doc.
     bindM (case doc of None \<Rightarrow> ret VNone
       | Some d \<Rightarrow> if d = [] then ret VNone else liftR (py_get (py_or (dget d ''spec'') (VDict [])) ''xi'')) (\<lambda>v.
     case v of
       VInt n \<Rightarrow> ret (Some (Fin (of_int n)))
     | VBool b \<Rightarrow> ret (Some (Fin (if b then 1 else 0)))
     | VFloat r q \<Rightarrow> ret (Some (Fin (of_rat q)))
     | _ \<Rightarrow> ret None))"

section \<open>What the set-up guarantees\<close>

text \<open>No argument that is a path keeps its query string.\<close>

definition shows_no_query :: "pyval \<Rightarrow> bool" where
  "shows_no_query v \<longleftrightarrow> (case v of VStr s \<Rightarrow> \<not> (py_startswith s ''/'' \<and> CHR ''?'' \<in> set s) | _ \<Rightarrow> True)"

lemma redact_arg_shows: "shows_no_query (redact_arg v)"
  by (auto simp: shows_no_query_def redact_arg_def hd_py_split dest: set_takeWhileD split: pyval.split)

theorem logs_hide_queries:
  "fst (redact_filter args) \<and> (case snd (redact_filter args) of None \<Rightarrow> True | Some shown \<Rightarrow> list_all shows_no_query shown)"
  by (simp add: redact_filter_def list_all_iff redact_arg_shows split: option.split)

text \<open>Every logger hands its records to declared handlers only, and each handler has the filter and a formatter
  that are declared.\<close>

definition entries :: "pyval \<Rightarrow> pyval dict" where
  "entries v = (case v of VDict d \<Rightarrow> d | _ \<Rightarrow> [])"

definition items_of :: "pyval \<Rightarrow> pyval list" where
  "items_of v = (case v of VList xs \<Rightarrow> xs | _ \<Rightarrow> [])"

definition declared :: "pyval dict \<Rightarrow> string \<Rightarrow> pyval \<Rightarrow> bool" where
  "declared config kind v = (v \<in> VStr ` set (map fst (entries (dget config kind))))"

definition redacting_handler :: "pyval dict \<Rightarrow> pyval \<Rightarrow> bool" where
  "redacting_handler config h \<longleftrightarrow> VStr ''redact_access_query'' \<in> set (items_of (dget (entries h) ''filters''))
     \<and> list_all (declared config ''filters'') (items_of (dget (entries h) ''filters''))
     \<and> declared config ''formatters'' (dget (entries h) ''formatter'')"

lemma log_config_redacts:
  "list_all (\<lambda>(n, h). redacting_handler build_log_config h) (entries (dget build_log_config ''handlers''))
   \<and> list_all (\<lambda>(n, l). list_all (declared build_log_config ''handlers'') (items_of (dget (entries l) ''handlers'')))
       ((''root'', dget build_log_config ''root'') # entries (dget build_log_config ''loggers''))"
  by (simp add: build_log_config_def LOG_CONFIG_def entries_def items_of_def declared_def redacting_handler_def dget_def)

text \<open>A number that does not parse is the default; so is an absent one.\<close>

lemma seeded_rows_have_author: "default_author env \<noteq> []"
  by (auto simp: default_author_def UNATTRIBUTED_def first_nonempty_def split: option.split list.split)

text \<open>The manifest holds one definition for each id, the last one registered.\<close>

lemma manifest_last:
  assumes "py_subscript (VDict doc) ''id'' = Inr (VStr aid)"
  shows "cap_put doc docs = (Inr doc, AList.update aid doc docs)" "cap_get aid (snd (cap_put doc docs)) = (Inr (Some doc), AList.update aid doc docs)"
  using assms by (simp_all add: cap_put_def cap_get_def as_str_def)

end
