(* ===== verification/Host_Life.thy ===== *)
theory Host_Life
  imports Host Process_Setup
begin

text \<open>
  The life of the persona host (\<open>host.py\<close>): where its personas come from when none are handed in, where it
  listens, and what the start-up and the shut-down of the process do, in which order.

  A persona's start-up function and its session manager are outside \<open>src\<close>: whether each of them succeeds is
  part of the roster. The personas an entry point yields, or the error it raises, are an argument.
\<close>

section \<open>Discovery and address\<close>

text \<open>An entry point that fails costs its own personas and no others.\<close>

definition discover_personas :: "bool \<Rightarrow> 'a list res list \<Rightarrow> 'a list" where
  "discover_personas importable entry_points =
     (if importable then concat (map (\<lambda>r. case r of Inl e \<Rightarrow> [] | Inr ps \<Rightarrow> ps) entry_points) else [])"

record serving =
  sv_host :: string
  sv_port :: int
  sv_tls :: "(string \<times> string) option"

definition run_host :: "(string \<Rightarrow> bool) \<Rightarrow> environment \<Rightarrow> string option \<Rightarrow> int option \<Rightarrow> serving res" where
  "run_host isfile env host port =
     (let bind_host = (case host of Some (c # cs) \<Rightarrow> c # cs | _ \<Rightarrow> getenv env ''MCP_HOST'' ''0.0.0.0'') in
      res_bind (case port of Some n \<Rightarrow> Inr n | None \<Rightarrow> parse_int (getenv env ''MCP_PORT'' ''8082'')) (\<lambda>bind_port.
      res_bind (tls_of isfile (map_of env ''CRYSTAL_TLS_CERT'') (map_of env ''CRYSTAL_TLS_KEY'')) (\<lambda>tls.
        Inr \<lparr> sv_host = bind_host, sv_port = bind_port, sv_tls = tls \<rparr>)))"

section \<open>Start-up and shut-down\<close>

datatype boot =
    Startup string
  | Background string
  | Enter string
  | Serving
  | Cancel string
  | Leave string

text \<open>What a persona brings: whether its start-up function returns and its session manager can be entered, when it
  has them, and its operators.\<close>

record hooks =
  hk_name :: string
  hk_startup :: "bool option"
  hk_manager :: "bool option"
  hk_operators :: "pyval list"

definition having :: "(hooks \<Rightarrow> bool option) \<Rightarrow> hooks list \<Rightarrow> (string \<times> bool) list" where
  "having f ps = List.map_filter (\<lambda>p. map_option (\<lambda>ok. (hk_name p, ok)) (f p)) ps"

text \<open>One after another, up to and with the first that raises.\<close>

fun one_by_one :: "(string \<Rightarrow> boot) \<Rightarrow> (string \<times> bool) list \<Rightarrow> boot list \<times> bool" where
  "one_by_one action [] = ([], True)"
| "one_by_one action ((n, ok) # xs) =
     (if ok then (case one_by_one action xs of (acts, all_ok) \<Rightarrow> (action n # acts, all_ok)) else ([action n], False))"

definition TASKS :: "string list" where
  "TASKS = [''register'', ''operators'']"

definition manifest_operators :: "hooks list \<Rightarrow> pyval list" where
  "manifest_operators ps = concat (map hk_operators ps)"

text \<open>\<open>entered\<close>: the managers the exit stack holds, which it leaves in the opposite order.\<close>

definition entered :: "(string \<times> bool) list \<Rightarrow> string list" where
  "entered ms = map fst (takeWhile snd ms)"

text \<open>The shut-down goes over the background tasks in the order they were started: it cancels one and awaits it.
  \<open>ended t\<close>: the task \<open>t\<close> had ended by itself before that; then nothing is cancelled, and an error of its own is
  suppressed. A task that still runs ends with \<open>CancelledError\<close>, which is no \<open>Exception\<close>: the await raises it past
  \<open>suppress(Exception)\<close> and out of the loop, and the stack leaves the managers on its way.\<close>

definition cancelling :: "(string \<Rightarrow> bool) \<Rightarrow> boot list" where
  "cancelling ended = fst (one_by_one Cancel (map (\<lambda>t. (t, ended t)) TASKS))"

definition host_lifespan :: "(string \<Rightarrow> bool) \<Rightarrow> hooks list \<Rightarrow> boot list" where
  "host_lifespan ended ps = (case one_by_one Startup (having hk_startup ps) of (ups, up) \<Rightarrow>
     if \<not> up then ups
     else let ms = having hk_manager ps in (case one_by_one Enter ms of (ins, ok) \<Rightarrow>
       ups @ map Background TASKS @ ins
       @ (if ok then Serving # cancelling ended else [])
       @ map Leave (rev (entered ms))))"

text \<open>The handler of an error no task receives: a peer that went away is noted, all else goes to the default.\<close>

definition quiet_peer_disconnect :: "bool \<Rightarrow> bool \<Rightarrow> bool" where
  "quiet_peer_disconnect connection_reset has_future \<longleftrightarrow> connection_reset \<and> \<not> has_future"

section \<open>Staying registered\<close>

datatype watch = Register | Wait rat | Probe

text \<open>\<open>_keep_registered\<close> over as many ticks as \<open>probes\<close> has answers: the loop itself does not end.\<close>

fun watch_ticks :: "rat \<Rightarrow> pyval option list \<Rightarrow> watch list" where
  "watch_ticks interval [] = []"
| "watch_ticks interval (answer # answers) =
     Wait interval # Probe # (if registers_again answer then [Register] else []) @ watch_ticks interval answers"

definition keep_registered :: "rat \<Rightarrow> pyval option list \<Rightarrow> watch list" where
  "keep_registered interval probes = Register # watch_ticks interval probes"

section \<open>Answers of its own\<close>

definition index_document :: "provider list \<Rightarrow> int option \<Rightarrow> string \<Rightarrow> pyval dict" where
  "index_document personas port scheme = [(''service'', VStr ''crystal-host''), (''port'', VInt (index_port port scheme)),
     (''servers'', VList (map (\<lambda>p. VDict (discovery_entry p)) personas))]"

definition healthz :: "pyval dict" where
  "healthz = [(''status'', VStr ''ok'')]"

record answered =
  an_status :: int
  an_headers :: "string dict"
  an_body :: string

text \<open>What the caller of an upstream is given: its answer, or that it could not be reached. \<open>rs_headers\<close> are the
  headers of the answer, in order; of the media type of the refusal, the framework names the charset too.\<close>

definition proxied :: "string \<Rightarrow> response option \<Rightarrow> answered" where
  "proxied addr up = (case up of
       None \<Rightarrow> \<lparr> an_status = 502, an_headers = [(''content-type'', ''text/plain'')], an_body = ''upstream '' @ addr @ '' unreachable'' \<rparr>
     | Some r \<Rightarrow> \<lparr> an_status = rs_status r, an_headers = returned_headers (rs_headers r), an_body = rs_text r \<rparr>)"

section \<open>What the life of the host promises\<close>

lemma one_by_one_ok: "one_by_one action xs = (map (action \<circ> fst) (takeWhile snd xs) @ map (action \<circ> fst) (take 1 (dropWhile snd xs)), list_all snd xs)"
  by (induction xs) auto

lemma one_by_one_all: "list_all snd xs \<Longrightarrow> one_by_one action xs = (map (action \<circ> fst) xs, True)"
  by (induction xs) auto

lemma entered_all: "list_all snd ms \<Longrightarrow> entered ms = map fst ms"
  by (induction ms) (auto simp: entered_def)

lemma cancelling_is:
  "cancelling ended = (if ended ''register'' then [Cancel ''register'', Cancel ''operators''] else [Cancel ''register''])"
  by (simp add: cancelling_def TASKS_def)

lemma lifespan_up:
  assumes "list_all snd (having hk_startup ps)" "list_all snd (having hk_manager ps)"
  shows "host_lifespan ended ps = map (Startup \<circ> fst) (having hk_startup ps) @ map Background TASKS
    @ map (Enter \<circ> fst) (having hk_manager ps) @ Serving # cancelling ended @ map Leave (rev (map fst (having hk_manager ps)))"
  using assms by (simp add: host_lifespan_def one_by_one_all entered_all Let_def)

lemma lifespan_manager_fails:
  assumes "list_all snd (having hk_startup ps)" "having hk_manager ps = ms @ (m, False) # rest" "list_all snd ms"
  shows "host_lifespan ended ps = map (Startup \<circ> fst) (having hk_startup ps) @ map Background TASKS
    @ map (Enter \<circ> fst) ms @ Enter m # map Leave (rev (map fst ms))"
proof -
  have w: "takeWhile snd (ms @ (m, False) # rest) = ms" "dropWhile snd (ms @ (m, False) # rest) = (m, False) # rest"
    using assms(3) by (auto simp: list_all_iff takeWhile_append dropWhile_append)
  show ?thesis
    by (simp add: host_lifespan_def assms(2) one_by_one_all [OF assms(1)] one_by_one_ok [of Enter] w entered_def Let_def)
qed

lemma first_failing: "\<not> list_all snd (xs :: ('a \<times> bool) list) \<Longrightarrow> \<exists>ms m rest. xs = ms @ (m, False) # rest \<and> list_all snd ms"
proof -
  assume "\<not> list_all snd xs"
  then have "\<exists>x\<in>set xs. \<not> snd x" by (auto simp: list_all_iff)
  then obtain ms x rest where "xs = ms @ x # rest" "\<not> snd x" "\<forall>y\<in>set ms. snd y"
    using split_list_first_prop [of xs "\<lambda>x. \<not> snd x"] by blast
  then show ?thesis by (cases x) (auto simp: list_all_iff)
qed

text \<open>C24: The host serves exactly when every start-up function returned and every session manager was entered.
  Then what it does is, in this order: the start-up functions, the two background tasks, the managers, serving;
  at the end it cancels the registration task, and the operators' task only when the registration task had
  ended before by itself; and it leaves each manager, the last entered first. When a manager cannot be entered
  those entered before it are left, the last first, and no task is cancelled. When a start-up function fails
  nothing was put in the background or entered.\<close>

theorem lifespan_order:
  "(Serving \<in> set (host_lifespan ended ps)) = (list_all snd (having hk_startup ps) \<and> list_all snd (having hk_manager ps))
   \<and> (Serving \<in> set (host_lifespan ended ps) \<longrightarrow> (let ms = map fst (having hk_manager ps) in
       host_lifespan ended ps = map (Startup \<circ> fst) (having hk_startup ps)
         @ [Background ''register'', Background ''operators''] @ map Enter ms @ [Serving]
         @ Cancel ''register'' # (if ended ''register'' then [Cancel ''operators''] else [])
         @ map Leave (rev ms)))
   \<and> (list_all snd (having hk_startup ps) \<and> having hk_manager ps = ms @ (m, False) # rest \<and> list_all snd ms \<longrightarrow>
       host_lifespan ended ps = map (Startup \<circ> fst) (having hk_startup ps)
         @ [Background ''register'', Background ''operators''] @ map (Enter \<circ> fst) ms @ [Enter m]
         @ map Leave (rev (map fst ms)))
   \<and> (list_ex (\<lambda>(n, ok). \<not> ok) (having hk_startup ps) \<longrightarrow> set (host_lifespan ended ps) \<subseteq> range Startup)"
proof -
  have tasks: "map Background TASKS = [Background ''register'', Background ''operators'']" by (simp add: TASKS_def)
  have failed: "\<not> list_all snd (having hk_startup ps) \<Longrightarrow> set (host_lifespan ended ps) \<subseteq> range Startup"
    by (auto simp: host_lifespan_def one_by_one_ok)
  have "Serving \<in> set (host_lifespan ended ps) \<longleftrightarrow> list_all snd (having hk_startup ps) \<and> list_all snd (having hk_manager ps)"
  proof (cases "list_all snd (having hk_startup ps)")
    case up: True
    show ?thesis
    proof (cases "list_all snd (having hk_manager ps)")
      case True
      then show ?thesis using up by (simp add: lifespan_up)
    next
      case False
      then obtain ms m rest where "having hk_manager ps = ms @ (m, False) # rest" "list_all snd ms"
        using first_failing by blast
      then show ?thesis using up False by (auto simp: lifespan_manager_fails)
    qed
  qed (use failed in auto)
  moreover have "list_ex (\<lambda>(n, ok). \<not> ok) (having hk_startup ps) \<Longrightarrow> \<not> list_all snd (having hk_startup ps)"
    by (induction "having hk_startup ps" rule: list.induct) (fastforce simp: list_all_iff list_ex_iff)+
  ultimately show ?thesis using failed by (simp add: lifespan_up lifespan_manager_fails cancelling_is tasks Let_def)
qed

definition ex_hooks :: "hooks list" where
  "ex_hooks = [\<lparr> hk_name = ''aria'', hk_startup = Some True, hk_manager = Some True, hk_operators = [] \<rparr>,
     \<lparr> hk_name = ''sage'', hk_startup = None, hk_manager = Some True, hk_operators = [] \<rparr>]"

theorem lifespan_order_witness:
  "host_lifespan (\<lambda>t. False) ex_hooks = [Startup ''aria'', Background ''register'', Background ''operators'', Enter ''aria'',
     Enter ''sage'', Serving, Cancel ''register'', Leave ''sage'', Leave ''aria'']
   \<and> host_lifespan (\<lambda>t. True) ex_hooks = [Startup ''aria'', Background ''register'', Background ''operators'', Enter ''aria'',
     Enter ''sage'', Serving, Cancel ''register'', Cancel ''operators'', Leave ''sage'', Leave ''aria'']"
proof -
  have "having hk_startup ex_hooks = [(''aria'', True)]" "having hk_manager ex_hooks = [(''aria'', True), (''sage'', True)]"
    by code_simp+
  then show ?thesis using lifespan_order [of "\<lambda>t. False" ex_hooks] lifespan_order [of "\<lambda>t. True" ex_hooks] by simp
qed

text \<open>The registration task waits for its next tick without end, so the host goes down with the operators' task not
  cancelled.\<close>

lemma operators_task_left: "\<not> ended ''register'' \<Longrightarrow> Cancel ''operators'' \<notin> set (host_lifespan ended ps)"
  by (auto simp: host_lifespan_def one_by_one_ok cancelling_is TASKS_def Let_def)

text \<open>When a manager cannot be entered, the two tasks were started and nothing cancels them.\<close>

lemma failed_manager_leaves_tasks:
  assumes "list_all snd (having hk_startup ps)" "\<not> list_all snd (having hk_manager ps)"
  shows "Background ''register'' \<in> set (host_lifespan ended ps)" "Cancel ''register'' \<notin> set (host_lifespan ended ps)"
  using assms by (auto simp: host_lifespan_def one_by_one_ok TASKS_def Let_def)

text \<open>A certificate that is named is served or the host does not start.\<close>

lemma named_certificate_served:
  assumes "run_host isfile env host port = Inr s" "map_of env ''CRYSTAL_TLS_CERT'' = Some c" "py_strip c \<noteq> []"
  shows "\<exists>k. sv_tls s = Some (py_strip c, k) \<and> isfile (py_strip c) \<and> isfile k"
proof -
  obtain tls where "tls_of isfile (Some c) (map_of env ''CRYSTAL_TLS_KEY'') = Inr tls" "sv_tls s = tls"
    using assms(1,2) by (auto simp: run_host_def Let_def res_bind_eq_Inr)
  then show ?thesis using assms(3) by (auto simp: tls_of_def or_else_def Let_def split: if_splits)
qed

text \<open>The personas are registered once at the start and once more for each time the gateway knew nobody; an answer
  that cannot be read is no reason.\<close>

lemma registered_as_often:
  "length (filter (\<lambda>a. a = Register) (keep_registered interval probes)) = Suc (length (filter (\<lambda>a. persona_count a = Some 0) probes))"
proof -
  have "length (filter (\<lambda>a. a = Register) (watch_ticks interval probes)) = length (filter (\<lambda>a. persona_count a = Some 0) probes)"
    by (induction interval probes rule: watch_ticks.induct) (auto simp: registers_again_def)
  then show ?thesis by (simp add: keep_registered_def)
qed

text \<open>No header that belongs to the connection of the upstream is handed on.\<close>

lemma proxied_headers: "map_of (an_headers (proxied addr (Some r))) k = Some v \<Longrightarrow> py_lower k \<notin> set DROPPED"
proof -
  assume k: "map_of (an_headers (proxied addr (Some r))) k = Some v"
  have "map_of (returned_headers (rs_headers r)) k \<noteq> None" using k by (simp add: proxied_def)
  then have "k \<in> fst ` set (filter (\<lambda>(k, v). py_lower k \<notin> set DROPPED) (rs_headers r))"
    by (auto simp: returned_headers_def map_of_dict_update map_of_eq_None_iff image_iff split: option.splits dest!: map_of_SomeD)
  then show ?thesis by auto
qed

lemma discovery_isolates: "discover_personas True (Inl e # eps) = discover_personas True eps"
  by (simp add: discover_personas_def)

end
