(* ===== verification/Geometry_Signal.thy ===== *)
theory Geometry_Signal
  imports Geometry_Basis Ontology_Lookup
begin

text \<open>
  From a text to what the geometry makes of it (\<open>ontology/geometry.py\<close>, Step 4 and the signal): the rows of
  a text, one for a token, their weighted covariance, and the check of the construction against the
  metric it realises.

  The senses of a token are read from the driver; \<open>on\<close> is the ontology the numbers come from. The
  functions of \<open>prism.vector\<close> are parameters, collected in a record. Numbers are reals, where the code
  rounds to floats.
\<close>

record vectors =
  ve_norm :: "real list \<Rightarrow> real"
  ve_unit :: "real list \<Rightarrow> real list"
  ve_unit_all :: "real list list \<Rightarrow> real list list"
  ve_distance :: "real list list \<Rightarrow> real list list \<Rightarrow> real"

section \<open>The rows of a text\<close>

text \<open>The tokens, as the two users of \<open>_WORD_finditer\<close> read them.\<close>

definition signal_words :: "string \<Rightarrow> string list" where
  "signal_words text' = map py_lower (lemma_words (fold_to_lexicon text'))"

definition NOUN :: string where
  "NOUN = ''n''"

definition trigrams :: "string \<Rightarrow> string list" where
  "trigrams token = (let t = ''^'' @ py_lower token @ ''$'' in map (\<lambda>i. take 3 (drop i t)) [0..<length t - 2])"

definition oov_vec :: "vectors \<Rightarrow> (string \<Rightarrow> nat) \<Rightarrow> nat \<Rightarrow> string \<Rightarrow> real list res" where
  "oov_vec ve blake2b D token =
     res_bind (dense_of blake2b D (map (\<lambda>g. (''tri:'' @ g, 1)) (trigrams token))) (\<lambda>v. Inr (ve_unit ve v))"

definition oov_step :: "string \<Rightarrow> string list \<Rightarrow> (driver, string list) prog" where
  "oov_step tok out = (if tok \<in> set out then ret out
     else bindM (synsets tok (Some NOUN) None) (\<lambda>senses. ret (if senses = [] then out @ [tok] else out)))"

definition oov_tokens :: "string \<Rightarrow> (driver, string list) prog" where
  "oov_tokens text' = forM oov_step (signal_words text') []"

fun superpose :: "ontology \<Rightarrow> (string \<Rightarrow> nat) \<Rightarrow> nat \<Rightarrow> (synset \<times> real) list \<Rightarrow> real list \<Rightarrow> real list res" where
  "superpose on blake2b D [] v = Inr v"
| "superpose on blake2b D ((s, w) # sws) v = res_bind (dense_vec on blake2b D None s) (\<lambda>x.
     superpose on blake2b D sws (map2 (\<lambda>a b. a + w * b) v x))"

definition sense_weights :: "real list \<Rightarrow> real list" where
  "sense_weights ws = (let tot = sum_list ws in
     if 0 < tot then map (\<lambda>w. w / tot) ws else replicate (length ws) (1 / real (length ws)))"

text \<open>The row of a token with senses; none when they cancel. \<open>log1p\<close> is not defined at -1 and below.\<close>

definition sense_row :: "vectors \<Rightarrow> ontology \<Rightarrow> (string \<Rightarrow> nat) \<Rightarrow> nat \<Rightarrow> synset list \<Rightarrow> real list option res" where
  "sense_row ve on blake2b D senses =
     res_bind (res_map (ic_of on True) senses) (\<lambda>ws.
     res_bind (superpose on blake2b D (zip senses (sense_weights ws)) (replicate D 0)) (\<lambda>v.
       if ve_norm ve v = 0 then Inr None
       else if Max (set ws) \<le> -1 then Inl (ValueError ''math domain error'')
       else Inr (Some (map ((*) (ln (1 + Max (set ws)))) (ve_unit ve v)))))"

definition centred :: "real list option \<Rightarrow> real list \<Rightarrow> real list" where
  "centred center row = (case center of None \<Rightarrow> row | Some c \<Rightarrow> map2 (-) row c)"

definition signal_step :: "vectors \<Rightarrow> ontology \<Rightarrow> (string \<Rightarrow> nat) \<Rightarrow> nat \<Rightarrow> real list option \<Rightarrow> string \<Rightarrow> string
    \<Rightarrow> real list list \<Rightarrow> (driver, real list list) prog" where
  "signal_step ve on blake2b D center oov tok rows =
     bindM (synsets tok (Some NOUN) None) (\<lambda>senses.
       if senses \<noteq> [] then bindM (liftR (sense_row ve on blake2b D senses)) (\<lambda>row.
         ret (case row of None \<Rightarrow> rows | Some row \<Rightarrow> rows @ [centred center row]))
       else if oov = ''surface'' then bindM (liftR (oov_vec ve blake2b D tok)) (\<lambda>v.
         ret (rows @ [centred center (map ((*) (3 / 10)) v)]))
       else ret rows)"

definition text_to_signal :: "vectors \<Rightarrow> ontology \<Rightarrow> (string \<Rightarrow> nat) \<Rightarrow> nat \<Rightarrow> real list option \<Rightarrow> string \<Rightarrow> string
    \<Rightarrow> (driver, real list list) prog" where
  "text_to_signal ve on blake2b D center oov text' =
     (if oov \<notin> {''surface'', ''skip''} then raise (ValueError (''oov must be 'surface' or 'skip', got '' @ repr_str oov))
      else if (case center of None \<Rightarrow> False | Some c \<Rightarrow> length c \<noteq> D) then raise (ValueError ''centering mean'')
      else forM (signal_step ve on blake2b D center oov) (signal_words text') [])"

section \<open>The state of a text\<close>

text \<open>The newest frame weighs 1, each older one \<open>forgetting\<close> times the next.\<close>

definition frame_weights :: "nat \<Rightarrow> real \<Rightarrow> real list" where
  "frame_weights n forgetting = map (\<lambda>i. forgetting ^ (n - 1 - i)) [0..<n]"

definition column_mean :: "nat \<Rightarrow> real list \<Rightarrow> real list list \<Rightarrow> real list" where
  "column_mean D w frames = map (\<lambda>j. \<Sum>(x, row)\<leftarrow>zip w frames. x * row ! j) [0..<D]"

definition second_moment :: "nat \<Rightarrow> real list \<Rightarrow> real list list \<Rightarrow> real list list" where
  "second_moment D w X = map (\<lambda>a. map (\<lambda>b. \<Sum>(x, row)\<leftarrow>zip w X. row ! a * x * row ! b) [0..<D]) [0..<D]"

text \<open>The covariance before it is normalised. \<open>None\<close>: the weights sum to 0 and every entry is NaN.\<close>

definition covariance :: "nat \<Rightarrow> real list list \<Rightarrow> real \<Rightarrow> real list list option" where
  "covariance D frames forgetting =
     (if frames = [] then Some (replicate D (replicate D 0))
      else let w = frame_weights (length frames) forgetting; s = sum_list w in
        if s = 0 then None
        else let w = map (\<lambda>x. x / s) w; mean = column_mean D w frames in
          Some (second_moment D w (map (\<lambda>row. map2 (-) row mean) frames)))"

definition feature_covariance :: "vectors \<Rightarrow> nat \<Rightarrow> real list list \<Rightarrow> real \<Rightarrow> real list list option" where
  "feature_covariance ve D frames forgetting =
     (if frames = [] then covariance D frames forgetting else map_option (ve_unit_all ve) (covariance D frames forgetting))"

definition fingerprint :: "vectors \<Rightarrow> ontology \<Rightarrow> (string \<Rightarrow> nat) \<Rightarrow> nat \<Rightarrow> real \<Rightarrow> string \<Rightarrow> (driver, real list list option) prog" where
  "fingerprint ve on blake2b D forgetting text' =
     bindM (text_to_signal ve on blake2b D None ''surface'' text') (\<lambda>frames. ret (feature_covariance ve D frames forgetting))"

text \<open>\<open>None\<close>: not a number, as an entry of one of the states is not.\<close>

definition e_distance :: "vectors \<Rightarrow> ontology \<Rightarrow> (string \<Rightarrow> nat) \<Rightarrow> nat \<Rightarrow> real \<Rightarrow> string \<Rightarrow> string \<Rightarrow> (driver, real option) prog" where
  "e_distance ve on blake2b D forgetting text_a text_b =
     bindM (fingerprint ve on blake2b D forgetting text_a) (\<lambda>fa.
     bindM (fingerprint ve on blake2b D forgetting text_b) (\<lambda>fb.
       ret (case (fa, fb) of (Some a, Some b) \<Rightarrow> Some (ve_distance ve a b) | _ \<Rightarrow> None)))"

section \<open>The check of the construction\<close>

definition DEFAULT_PAIRS :: "(string \<times> string) list" where
  "DEFAULT_PAIRS = [
     (''dog.n.01'', ''wolf.n.01''), (''dog.n.01'', ''cat.n.01''), (''dog.n.01'', ''domestic_cat.n.01''),
     (''car.n.01'', ''truck.n.01''), (''car.n.01'', ''bicycle.n.01''), (''car.n.01'', ''boat.n.01''),
     (''dog.n.01'', ''car.n.01''), (''dog.n.01'', ''tree.n.01''), (''dog.n.01'', ''justice.n.01''),
     (''copper.n.01'', ''gold.n.01''), (''copper.n.01'', ''metal.n.01''), (''river.n.01'', ''lake.n.01''),
     (''river.n.01'', ''mountain.n.01''), (''happiness.n.01'', ''joy.n.01''), (''happiness.n.01'', ''anger.n.01''),
     (''happiness.n.01'', ''dog.n.01''), (''apple.n.01'', ''banana.n.01''), (''apple.n.01'', ''fruit.n.01''),
     (''apple.n.01'', ''computer.n.01''), (''king.n.01'', ''queen.n.01''), (''king.n.01'', ''monarch.n.01''),
     (''king.n.01'', ''peasant.n.01''), (''doctor.n.01'', ''nurse.n.01''), (''doctor.n.01'', ''lawyer.n.01''),
     (''piano.n.01'', ''guitar.n.01''), (''piano.n.01'', ''violin.n.01''), (''piano.n.01'', ''hammer.n.01''),
     (''water.n.01'', ''ice.n.01''), (''sun.n.01'', ''star.n.01''), (''sun.n.01'', ''moon.n.01'')]"

text \<open>The lists the loop fills. A skipped pair keeps the exception, where the code keeps its text.\<close>

record measured =
  me_tree :: "real list"
  me_dag :: "real list"
  me_hashed :: "real list"
  me_worst :: real
  me_rows :: "(string \<times> string \<times> real \<times> real) list"
  me_skipped :: "(string \<times> string \<times> exc) list"

definition nothing_measured :: measured where
  "nothing_measured = \<lparr> me_tree = [], me_dag = [], me_hashed = [], me_worst = 0, me_rows = [], me_skipped = [] \<rparr>"

definition measure_pair :: "ontology \<Rightarrow> (string \<Rightarrow> nat) \<Rightarrow> nat \<Rightarrow> string \<Rightarrow> string \<Rightarrow> synset \<Rightarrow> synset \<Rightarrow> measured \<Rightarrow> measured res" where
  "measure_pair on blake2b D a b s1 s2 m =
     res_bind (jc_tree on s1 s2) (\<lambda>jt. res_bind (jc_exact on s1 s2) (\<lambda>jd.
     res_bind (sparse_vec on s1) (\<lambda>d1. res_bind (sparse_vec on s2) (\<lambda>d2.
     res_bind (dense_vec on blake2b D None s1) (\<lambda>v1. res_bind (dense_vec on blake2b D None s2) (\<lambda>v2.
     let jh = l2_dense v1 v2 in
     Inr (m\<lparr> me_tree := me_tree m @ [jt], me_dag := me_dag m @ [jd], me_hashed := me_hashed m @ [jh],
       me_worst := max (me_worst m) \<bar>l2_sparse d1 d2 - jt\<bar>,
       me_rows := me_rows m @ [(a, b, py_round jt 3, py_round jh 3)] \<rparr>)))))))"

definition check_pair :: "ontology \<Rightarrow> (string \<Rightarrow> nat) \<Rightarrow> nat \<Rightarrow> string \<times> string \<Rightarrow> measured \<Rightarrow> (driver, measured) prog" where
  "check_pair on blake2b D = (\<lambda>(a, b) m.
     bindM (catchM (bindM (synset_named a None) (\<lambda>s1. bindM (synset_named b None) (\<lambda>s2. ret (Inr (s1, s2)))))
       (\<lambda>e. ret (Inl e))) (\<lambda>r. case r of
       Inl e \<Rightarrow> ret (m\<lparr> me_skipped := me_skipped m @ [(a, b, e)] \<rparr>)
     | Inr (s1, s2) \<Rightarrow> liftR (measure_pair on blake2b D a b s1 s2 m)))"

record faithfulness =
  fa_dim :: nat
  fa_pairs :: nat
  fa_measured :: bool
  fa_requested :: nat
  fa_skipped :: "(string \<times> string \<times> exc) list"
  fa_complete :: bool
  fa_prehash :: "real option"
  fa_spearman_tree :: "real option"
  fa_spearman_dag :: "real option"
  fa_rows :: "(string \<times> string \<times> real \<times> real) list"

definition faithfulness_check :: "ontology \<Rightarrow> (string \<Rightarrow> nat) \<Rightarrow> nat \<Rightarrow> (string \<times> string) list option \<Rightarrow> (driver, faithfulness) prog" where
  "faithfulness_check on blake2b D given =
     (let pairs = (case given of Some (p # ps) \<Rightarrow> p # ps | _ \<Rightarrow> DEFAULT_PAIRS) in
      bindM (forM (check_pair on blake2b D) pairs nothing_measured) (\<lambda>m.
        let n = length (me_hashed m) in
        ret \<lparr> fa_dim = D, fa_pairs = n, fa_measured = (2 \<le> n), fa_requested = length pairs, fa_skipped = me_skipped m,
          fa_complete = (2 \<le> n \<and> me_skipped m = []),
          fa_prehash = (if me_hashed m = [] then None else Some (py_round (me_worst m) 9)),
          fa_spearman_tree = map_option round4 (spearman (me_tree m) (me_hashed m)),
          fa_spearman_dag = map_option round4 (spearman (me_dag m) (me_hashed m)), fa_rows = me_rows m \<rparr>))"

end
