(* ===== verification/Geometry_Signal_Laws.thy ===== *)
theory Geometry_Signal_Laws
  imports Geometry_Signal Geometry_Dense
begin

text \<open>
  What the signal of a text promises: every row has the dimension of the basis, a translation of the rows
  leaves the state of the text as it is, the state is a covariance, and the check of the construction
  accounts for every pair it was given.
\<close>

section \<open>Rows\<close>

definition keeps_length :: "vectors \<Rightarrow> bool" where
  "keeps_length ve \<longleftrightarrow> (\<forall>v. length (ve_unit ve v) = length v)"

lemma dense_of_length: "dense_of blake2b D d = Inr v \<Longrightarrow> length v = D"
  by (auto simp: dense_of_def split: if_splits)

lemma dense_vec_length: "dense_vec on blake2b D None s = Inr v \<Longrightarrow> length v = D"
  by (auto simp: dense_vec_def res_bind_eq_Inr subtract_center_def dest: dense_of_length)

lemma superpose_length: "superpose on blake2b D sws v = Inr x \<Longrightarrow> length v = D \<Longrightarrow> length x = D"
  by (induction on blake2b D sws v rule: superpose.induct) (auto simp: res_bind_eq_Inr dest: dense_vec_length)

lemma sense_row_length: "keeps_length ve \<Longrightarrow> sense_row ve on blake2b D senses = Inr (Some row) \<Longrightarrow> length row = D"
  by (auto simp: sense_row_def res_bind_eq_Inr keeps_length_def dest!: superpose_length split: if_splits)

lemma oov_vec_length: "keeps_length ve \<Longrightarrow> oov_vec ve blake2b D tok = Inr v \<Longrightarrow> length v = D"
  by (auto simp: oov_vec_def res_bind_eq_Inr keeps_length_def dest: dense_of_length)

lemma signal_step_rows:
  assumes "keeps_length ve" "\<forall>r \<in> set rows. length r = D"
  shows "yields (signal_step ve on blake2b D None oov tok rows) (\<lambda>rows. \<forall>r \<in> set rows. length r = D)"
proof -
  have P: "\<forall>r \<in> set (case row of None \<Rightarrow> rows | Some row \<Rightarrow> rows @ [centred None row]). length r = D"
    if "sense_row ve on blake2b D senses = Inr row" for senses row
    using assms that by (auto simp: centred_def dest: sense_row_length split: option.splits)
  have Q: "\<forall>r \<in> set (rows @ [centred None (map ((*) (3 / 10)) v)]). length r = D" if "oov_vec ve blake2b D tok = Inr v" for v
    using assms that by (auto simp: centred_def dest: oov_vec_length)
  have known: "yields (bindM (liftR (sense_row ve on blake2b D senses)) (\<lambda>row.
      ret (case row of None \<Rightarrow> rows | Some row \<Rightarrow> rows @ [centred None row]))) (\<lambda>rows. \<forall>r \<in> set rows. length r = D)" for senses
    by (rule does_keep, rule does_lift, assumption, rule does_ret, rule P)
  have surface: "yields (bindM (liftR (oov_vec ve blake2b D tok)) (\<lambda>v.
      ret (rows @ [centred None (map ((*) (3 / 10)) v)]))) (\<lambda>rows. \<forall>r \<in> set rows. length r = D)"
    by (rule does_keep, rule does_lift, assumption, rule does_ret, rule Q)
  have keep: "yields (ret rows) (\<lambda>rows. \<forall>r \<in> set rows. length r = D)" by (rule does_ret) (rule assms)
  show ?thesis
    unfolding signal_step_def
    by (rule does_keep [where P = "\<lambda>_. True", OF yields_any]) (auto intro: known surface keep)
qed

lemma signal_rows:
  assumes "keeps_length ve"
  shows "yields (text_to_signal ve on blake2b D None oov text') (\<lambda>rows. \<forall>r \<in> set rows. length r = D)"
  unfolding text_to_signal_def
  using signal_step_rows [OF assms] by (auto intro!: does_raise does_forM)

section \<open>Centering\<close>

lemma forM_map:
  assumes "\<And>x s. f' x (g s) = bindM (f x s) (\<lambda>s'. ret (g s'))"
  shows "forM f' xs (g s) = bindM (forM f xs s) (\<lambda>s'. ret (g s'))"
proof (induction xs arbitrary: s)
  case Nil
  show ?case by (rule ext) (simp add: bindM_def)
next
  case (Cons x xs)
  show ?case
  proof
    fix w
    show "forM f' (x # xs) (g s) w = bindM (forM f (x # xs) s) (\<lambda>s'. ret (g s')) w"
      by (cases "f x s w"; cases "fst (f x s w)") (auto simp: assms Cons.IH bindM_def ret_def split: prod.splits sum.splits)
  qed
qed

definition shifted :: "real list \<Rightarrow> real list list \<Rightarrow> real list list" where
  "shifted c = map (\<lambda>r. map2 (-) r c)"

lemma signal_step_centred:
  "signal_step ve on blake2b D (Some c) oov tok (shifted c rows)
   = bindM (signal_step ve on blake2b D None oov tok rows) (\<lambda>rows. ret (shifted c rows))"
proof
  fix w
  show "signal_step ve on blake2b D (Some c) oov tok (shifted c rows) w
      = bindM (signal_step ve on blake2b D None oov tok rows) (\<lambda>rows. ret (shifted c rows)) w"
    by (auto simp: signal_step_def bindM_def shifted_def centred_def split: prod.splits sum.splits option.splits)
qed

lemma signal_centred:
  assumes "length c = D"
  shows "text_to_signal ve on blake2b D (Some c) oov text'
    = bindM (text_to_signal ve on blake2b D None oov text') (\<lambda>rows. ret (shifted c rows))"
proof (cases "oov \<in> {''surface'', ''skip''}")
  case True
  have "forM (signal_step ve on blake2b D (Some c) oov) (signal_words text') (shifted c [])
      = bindM (forM (signal_step ve on blake2b D None oov) (signal_words text') []) (\<lambda>rows. ret (shifted c rows))"
    by (rule forM_map [where g = "shifted c"]) (rule signal_step_centred)
  then show ?thesis using True assms by (simp add: text_to_signal_def shifted_def)
next
  case False
  then show ?thesis by (auto simp: text_to_signal_def bindM_def raise_def)
qed

section \<open>The covariance\<close>

lemma sum_zip: "length w = length X \<Longrightarrow> (\<Sum>(x, row)\<leftarrow>zip w X. f x row) = (\<Sum>i < length X. f (w ! i) (X ! i) :: real)"
  by (simp add: sum_list_sum_nth atLeast0LessThan)

lemma length_frame_weights [simp]: "length (frame_weights n f) = n"
  by (simp add: frame_weights_def)

lemma frame_weights_nth: "i < n \<Longrightarrow> frame_weights n f ! i = f ^ (n - 1 - i)"
  by (simp add: frame_weights_def)

definition frame_share :: "nat \<Rightarrow> real \<Rightarrow> nat \<Rightarrow> real" where
  "frame_share n f i = f ^ (n - 1 - i) / sum_list (frame_weights n f)"

lemma frame_shares: "sum_list (frame_weights n f) \<noteq> 0 \<Longrightarrow> (\<Sum>i < n. frame_share n f i) = 1"
proof -
  assume s: "sum_list (frame_weights n f) \<noteq> 0"
  have "sum_list (frame_weights n f) = (\<Sum>i < n. f ^ (n - 1 - i))"
    by (simp add: frame_weights_def sum_list_sum_nth atLeast0LessThan)
  then show ?thesis using s by (simp add: frame_share_def flip: sum_divide_distrib)
qed

definition mean_at :: "real list list \<Rightarrow> real \<Rightarrow> nat \<Rightarrow> real" where
  "mean_at frames f j = (\<Sum>i < length frames. frame_share (length frames) f i * frames ! i ! j)"

definition covariance_at :: "real list list \<Rightarrow> real \<Rightarrow> nat \<Rightarrow> nat \<Rightarrow> real" where
  "covariance_at frames f a b = (\<Sum>i < length frames. (frames ! i ! a - mean_at frames f a)
     * frame_share (length frames) f i * (frames ! i ! b - mean_at frames f b))"

lemma covariance_entries:
  assumes "frames \<noteq> []" "\<forall>r \<in> set frames. length r = D"
  shows "covariance D frames f = (if sum_list (frame_weights (length frames) f) = 0 then None
    else Some (map (\<lambda>a. map (covariance_at frames f a) [0..<D]) [0..<D]))"
proof (cases "sum_list (frame_weights (length frames) f) = 0")
  case False
  let ?w = "map (\<lambda>x. x / sum_list (frame_weights (length frames) f)) (frame_weights (length frames) f)"
  let ?mean = "column_mean D ?w frames"
  have mean: "?mean ! j = mean_at frames f j" "length ?mean = D" if "j < D" for j
    using that by (simp_all add: column_mean_def sum_zip mean_at_def frame_share_def frame_weights_nth)
  have "second_moment D ?w (map (\<lambda>row. map2 (-) row ?mean) frames) = map (\<lambda>a. map (covariance_at frames f a) [0..<D]) [0..<D]"
    using assms(2) by (auto simp: second_moment_def sum_zip covariance_at_def mean frame_share_def frame_weights_nth intro!: sum.cong)
  then show ?thesis using False assms(1) by (simp add: covariance_def Let_def)
qed (simp add: covariance_def assms(1))

lemma covariance_shifted:
  assumes rows: "\<forall>r \<in> set frames. length r = D" and c: "length c = D"
  shows "covariance D (shifted c frames) f = covariance D frames f"
proof (cases "frames = []")
  case False
  let ?n = "length frames"
  have rows': "\<forall>r \<in> set (shifted c frames). length r = D" using rows c by (auto simp: shifted_def)
  have at: "shifted c frames ! i ! j = frames ! i ! j - c ! j" if "i < ?n" "j < D" for i j
    using that rows c by (auto simp: shifted_def)
  have "covariance_at (shifted c frames) f a b = covariance_at frames f a b"
    if s: "sum_list (frame_weights ?n f) \<noteq> 0" and ab: "a < D" "b < D" for a b
  proof -
    have "mean_at (shifted c frames) f j = mean_at frames f j - c ! j" if "j < D" for j
    proof -
      have "mean_at (shifted c frames) f j = (\<Sum>i < ?n. frame_share ?n f i * frames ! i ! j - frame_share ?n f i * c ! j)"
        using at that by (simp add: mean_at_def shifted_def right_diff_distrib)
      also have "\<dots> = mean_at frames f j - (\<Sum>i < ?n. frame_share ?n f i) * c ! j"
        by (simp add: mean_at_def sum_subtractf sum_distrib_right)
      finally show ?thesis using frame_shares [OF s] by simp
    qed
    then show ?thesis using at ab by (simp add: covariance_at_def shifted_def)
  qed
  moreover have "length (shifted c frames) = ?n" "shifted c frames \<noteq> []" using False by (simp_all add: shifted_def)
  ultimately show ?thesis
    using False by (simp add: covariance_entries rows rows')
qed (simp add: shifted_def)

text \<open>C22: A translation of the rows changes nothing the state of a text is made of: whatever text, tokens,
  senses and forgetting factor, and whatever profile is subtracted, the covariance of the centred signal
  is the one of the plain signal, and one raises or is not a number exactly when the other does.\<close>

theorem centering_is_noop:
  assumes "keeps_length ve" "length c = D"
  shows "bindM (text_to_signal ve on blake2b D (Some c) oov text') (\<lambda>frames. ret (feature_covariance ve D frames forgetting))
       = bindM (text_to_signal ve on blake2b D None oov text') (\<lambda>frames. ret (feature_covariance ve D frames forgetting))"
proof -
  have same: "feature_covariance ve D (shifted c rows) forgetting = feature_covariance ve D rows forgetting"
    if "\<forall>r \<in> set rows. length r = D" for rows
  proof -
    have "shifted c rows = [] \<longleftrightarrow> rows = []" by (simp add: shifted_def)
    then show ?thesis using covariance_shifted [OF that assms(2)] by (auto simp: feature_covariance_def shifted_def)
  qed
  have "bindM (text_to_signal ve on blake2b D (Some c) oov text') (\<lambda>frames. ret (feature_covariance ve D frames forgetting))
      = bindM (text_to_signal ve on blake2b D None oov text') (\<lambda>frames. ret (feature_covariance ve D (shifted c frames) forgetting))"
    unfolding signal_centred [OF assms(2)] by (rule ext) (auto simp: bindM_def split: prod.splits sum.splits)
  also have "\<dots> = bindM (text_to_signal ve on blake2b D None oov text') (\<lambda>frames. ret (feature_covariance ve D frames forgetting))"
    by (rule bind_same [OF signal_rows [OF assms(1)]]) (simp only: same)
  finally show ?thesis .
qed

definition euclidean :: vectors where
  "euclidean = (let norm2 = \<lambda>v. sqrt (\<Sum>x\<leftarrow>v. x\<^sup>2); unit = \<lambda>v. if norm2 v = 0 then v else map (\<lambda>x. x / norm2 v) v in
     \<lparr> ve_norm = norm2, ve_unit = unit,
       ve_unit_all = (\<lambda>m. let n = norm2 (concat m) in if n = 0 then m else map (map (\<lambda>x. x / n)) m),
       ve_distance = (\<lambda>a b. sqrt (l2_dense (concat a) (concat b))) \<rparr>)"

theorem centering_is_noop_witness:
  "keeps_length euclidean \<and>
   bindM (text_to_signal euclidean \<lparr> on_index = [], on_bound = None \<rparr> (\<lambda>_. 5) 3 (Some [1, 2, 3]) ''surface'' ''a wolf'')
     (\<lambda>frames. ret (feature_covariance euclidean 3 frames (9 / 10)))
   = bindM (text_to_signal euclidean \<lparr> on_index = [], on_bound = None \<rparr> (\<lambda>_. 5) 3 None ''surface'' ''a wolf'')
     (\<lambda>frames. ret (feature_covariance euclidean 3 frames (9 / 10)))"
proof
  show ok: "keeps_length euclidean" by (simp add: keeps_length_def euclidean_def Let_def)
  show "bindM (text_to_signal euclidean \<lparr> on_index = [], on_bound = None \<rparr> (\<lambda>_. 5) 3 (Some [1, 2, 3]) ''surface'' ''a wolf'')
     (\<lambda>frames. ret (feature_covariance euclidean 3 frames (9 / 10)))
   = bindM (text_to_signal euclidean \<lparr> on_index = [], on_bound = None \<rparr> (\<lambda>_. 5) 3 None ''surface'' ''a wolf'')
     (\<lambda>frames. ret (feature_covariance euclidean 3 frames (9 / 10)))"
    by (rule centering_is_noop [OF ok]) simp
qed

section \<open>What kind of number the state is\<close>

lemma weights_sum: "sum_list (frame_weights n f) = (\<Sum>k < n. f ^ k)"
  unfolding frame_weights_def
  by (simp add: sum_list_sum_nth atLeast0LessThan sum.nat_diff_reindex)

lemma unit_power: "f ^ n = 1 \<Longrightarrow> 0 < n \<Longrightarrow> f = 1 \<or> f = - 1 \<and> even n" for f :: real
proof -
  assume f: "f ^ n = 1" and n: "0 < n"
  then have "\<bar>f\<bar> ^ n = 1 ^ n" by (simp flip: power_abs)
  then have "\<bar>f\<bar> = 1" using n power_eq_imp_eq_base [of "\<bar>f\<bar>" n 1] by simp
  then have "f = 1 \<or> f = - 1" by linarith
  then show ?thesis using f by (auto simp: minus_one_power_iff split: if_splits)
qed

lemma weights_cancel:
  assumes "0 < n"
  shows "sum_list (frame_weights n f) = 0 \<longleftrightarrow> f = - 1 \<and> even n"
proof (cases "f = 1")
  case False
  have "sum_list (frame_weights n f) = (f ^ n - 1) / (f - 1)" using geometric_sum [OF False] by (simp add: weights_sum)
  then show ?thesis using False unit_power [of f n] assms by (auto simp: minus_one_power_iff)
qed (use assms in \<open>simp add: weights_sum\<close>)

text \<open>The state is defined for every forgetting factor but -1, and there only for an odd number of frames;
  for a factor that is not negative it is symmetric and positive semidefinite.\<close>

definition quadratic :: "nat \<Rightarrow> real list list \<Rightarrow> (nat \<Rightarrow> real) \<Rightarrow> real" where
  "quadratic D C x = (\<Sum>a < D. \<Sum>b < D. x a * C ! a ! b * x b)"

lemma quadratic_square:
  "(\<Sum>a < D. \<Sum>b < D. x a * covariance_at frames f a b * x b)
   = (\<Sum>i < length frames. frame_share (length frames) f i * (\<Sum>a < D. x a * (frames ! i ! a - mean_at frames f a))\<^sup>2)"
proof -
  let ?n = "length frames" and ?d = "\<lambda>i a. frames ! i ! a - mean_at frames f a"
  have "(\<Sum>a < D. \<Sum>b < D. x a * covariance_at frames f a b * x b)
      = (\<Sum>a < D. \<Sum>b < D. \<Sum>i < ?n. frame_share ?n f i * ((x a * ?d i a) * (x b * ?d i b)))"
    by (simp add: covariance_at_def sum_distrib_left sum_distrib_right algebra_simps)
  also have "\<dots> = (\<Sum>i < ?n. \<Sum>a < D. \<Sum>b < D. frame_share ?n f i * ((x a * ?d i a) * (x b * ?d i b)))"
    by (subst (2) sum.swap, subst sum.swap) (rule refl)
  also have "\<dots> = (\<Sum>i < ?n. frame_share ?n f i * (\<Sum>a < D. x a * ?d i a)\<^sup>2)"
    by (simp add: power2_eq_square sum_product flip: sum_distrib_left)
  finally show ?thesis .
qed

lemma frame_share_nonneg: "0 \<le> f \<Longrightarrow> 0 \<le> frame_share n f i"
  unfolding frame_share_def weights_sum by (intro divide_nonneg_nonneg sum_nonneg zero_le_power)

text \<open>C23: The state of a text is a covariance: it is not a number only for the forgetting factor -1 and an even
  number of rows; for a factor that is not negative it has an entry for each pair of dimensions, is
  symmetric and positive semidefinite.\<close>

theorem state_is_covariance:
  assumes "frames \<noteq> []" "\<forall>r \<in> set frames. length r = D"
  shows "(covariance D frames f = None \<longleftrightarrow> f = - 1 \<and> even (length frames))
    \<and> (0 \<le> f \<longrightarrow> (\<exists>C. covariance D frames f = Some C \<and> length C = D \<and> (\<forall>row \<in> set C. length row = D)
        \<and> (\<forall>a < D. \<forall>b < D. C ! a ! b = C ! b ! a) \<and> (\<forall>x. 0 \<le> quadratic D C x)))"
proof (intro conjI impI)
  have n: "0 < length frames" using assms(1) by simp
  show "covariance D frames f = None \<longleftrightarrow> f = - 1 \<and> even (length frames)"
    unfolding covariance_entries [OF assms] weights_cancel [OF n] by simp
  assume f: "0 \<le> f"
  let ?C = "map (\<lambda>a. map (covariance_at frames f a) [0..<D]) [0..<D]"
  have "quadratic D ?C x = (\<Sum>a < D. \<Sum>b < D. x a * covariance_at frames f a b * x b)" for x
    by (simp add: quadratic_def)
  then have "0 \<le> quadratic D ?C x" for x
    unfolding quadratic_square by (simp add: sum_nonneg frame_share_nonneg [OF f])
  moreover have "covariance_at frames f a b = covariance_at frames f b a" for a b
    by (simp add: covariance_at_def mult.commute mult.left_commute)
  moreover have "f \<noteq> - 1" using f by auto
  ultimately show "\<exists>C. covariance D frames f = Some C \<and> length C = D \<and> (\<forall>row \<in> set C. length row = D)
        \<and> (\<forall>a < D. \<forall>b < D. C ! a ! b = C ! b ! a) \<and> (\<forall>x. 0 \<le> quadratic D C x)"
    by (intro exI [of _ ?C]) (simp add: covariance_entries [OF assms] weights_cancel [OF n])
qed

theorem state_is_covariance_witness:
  "covariance 1 [[1], [3]] (- 1) = None \<and> (\<exists>C. covariance 2 [[1, 0], [0, 1]] (1 / 2) = Some C \<and> C ! 0 ! 1 = C ! 1 ! 0 \<and> 0 \<le> quadratic 2 C (\<lambda>_. 1))"
  using state_is_covariance [of "[[1], [3]]" 1 "- 1"] state_is_covariance [of "[[1, 0], [0, 1]]" 2 "1 / 2"] by auto

section \<open>Tokens for the keyed arm\<close>

lemma oov_tokens_ok: "yields (oov_tokens text') (\<lambda>out. distinct out \<and> set out \<subseteq> set (signal_words text'))"
  unfolding oov_tokens_def
proof (rule does_forM)
  fix tok out
  assume "tok \<in> set (signal_words text')" "distinct out \<and> set out \<subseteq> set (signal_words text')"
  then show "yields (oov_step tok out) (\<lambda>out. distinct out \<and> set out \<subseteq> set (signal_words text'))"
    unfolding oov_step_def
    by (cases "tok \<in> set out") (auto intro!: does_ret does_keep [where P = "\<lambda>_. True", OF yields_any] split: if_splits)
qed simp

text \<open>The vector of a token without senses is not always a unit vector: when its trigrams share a slot with
  opposite signs, it is zero before it is scaled.\<close>

lemma oov_row_can_vanish:
  assumes "D dvd 2 ^ 40" "0 < D"
  shows "oov_vec ve (\<lambda>s. if s = ''genesis-geom-v1tri:^ab'' then 2 ^ 40 else 0) D ''ab'' = Inr (ve_unit ve (replicate D 0))"
proof -
  have "trigrams ''ab'' = [''^ab'', ''ab$'']"
    by (simp add: trigrams_def upt_rec py_lower_def lower_char_def py_isupper_def code_def)
  moreover have "(replicate D 0)[0 := 0 :: real] = replicate D 0" using assms(2) by (cases D) simp_all
  ultimately show ?thesis
    using assms by (simp add: oov_vec_def dense_of_def bump_def hash_node_def)
qed

section \<open>The check of the construction\<close>

definition rooted :: "ontology \<Rightarrow> synset \<Rightarrow> bool" where
  "rooted on s \<longleftrightarrow> map_of (on_index on) (sy_name s) = Some s \<and> (\<exists>p vs. measured_path on s p vs \<and> last vs = 0)"

text \<open>A pair whose paths carry measured numbers up to roots of no information adds no error.\<close>

lemma measure_pair_exact:
  assumes "wf_index (on_index on)" "rooted on s1" "rooted on s2"
    and run: "measure_pair on blake2b D a b s1 s2 m = Inr m'"
  shows "me_worst m' = max (me_worst m) 0"
proof -
  obtain p1 vs1 p2 vs2 where p: "measured_path on s1 p1 vs1" "last vs1 = 0" "measured_path on s2 p2 vs2" "last vs2 = 0"
    using assms(2,3) by (auto simp: rooted_def)
  obtain d1 d2 where "sparse_vec on s1 = Inr d1" "sparse_vec on s2 = Inr d2"
      "jc_tree on s1 s2 = Inr (l2_sparse d1 d2 + (case first_shared p1 p2 of Some l \<Rightarrow> 0 | None \<Rightarrow> last vs1 + last vs2))"
    using coordinate_distance [OF assms(1) _ _ p(1,3)] assms(2,3) by (auto simp: rooted_def)
  then show ?thesis using run p by (auto simp: measure_pair_def res_bind_eq_Inr Let_def split: option.splits)
qed

definition accounted :: "nat \<Rightarrow> measured \<Rightarrow> bool" where
  "accounted n m \<longleftrightarrow> length (me_hashed m) + length (me_skipped m) = n \<and> length (me_tree m) = length (me_hashed m)
     \<and> length (me_dag m) = length (me_hashed m) \<and> length (me_rows m) = length (me_hashed m) \<and> 0 \<le> me_worst m"

lemma measure_pair_accounted:
  "accounted n m \<Longrightarrow> measure_pair on blake2b D a b s1 s2 m = Inr m' \<Longrightarrow> accounted (Suc n) m'"
  by (auto simp: measure_pair_def res_bind_eq_Inr accounted_def Let_def)

lemma check_pair_accounted:
  assumes "accounted n m"
  shows "yields (check_pair on blake2b D ab m) (accounted (Suc n))"
proof -
  obtain a b where ab: "ab = (a, b)" by (cases ab)
  have "yields (case r of Inl e \<Rightarrow> ret (m\<lparr> me_skipped := me_skipped m @ [(a, b, e)] \<rparr>)
      | Inr (s1, s2) \<Rightarrow> liftR (measure_pair on blake2b D a b s1 s2 m)) (accounted (Suc n))" for r
    using assms measure_pair_accounted [OF assms]
    by (auto intro!: does_ret does_lift simp: accounted_def split: sum.splits)
  then show ?thesis unfolding check_pair_def ab by (auto intro!: does_keep [where P = "\<lambda>_. True", OF yields_any])
qed

lemma pairs_accounted:
  "accounted n m \<Longrightarrow> yields (forM (check_pair on blake2b D) pairs m) (accounted (n + length pairs))"
proof (induction pairs arbitrary: n m)
  case Nil
  show ?case unfolding forM.simps by (rule does_ret) (use Nil in simp)
next
  case (Cons ab pairs)
  show ?case unfolding forM.simps
    by (rule does_keep [OF check_pair_accounted [OF Cons.prems]]) (use Cons.IH [of "Suc n"] in simp)
qed

text \<open>The check answers for every pair it was asked about: what it measured and what it skipped add up to the
  request, it calls itself complete exactly when nothing was skipped and there are two pairs to compare,
  and it reports no error of the construction exactly when it measured no pair.\<close>

theorem check_accounts:
  "yields (faithfulness_check on blake2b D given) (\<lambda>r.
     fa_pairs r + length (fa_skipped r) = fa_requested r \<and> length (fa_rows r) = fa_pairs r
     \<and> fa_complete r = (2 \<le> fa_requested r \<and> fa_pairs r = fa_requested r)
     \<and> (fa_prehash r = None) = (fa_pairs r = 0))"
proof -
  have "yields (forM (check_pair on blake2b D) ps nothing_measured) (accounted (length ps))" for ps
    using pairs_accounted [of 0 nothing_measured] by (simp add: accounted_def nothing_measured_def)
  then show ?thesis
    unfolding faithfulness_check_def Let_def
    by (rule does_keep, intro does_ret) (auto simp: accounted_def)
qed

end
