(* ===== verification/Change_Feed.thy ===== *)
theory Change_Feed
  imports Gateway_Main
begin

text \<open>
  The driver of the change feed (\<open>events.py\<close>): the loop that connects to Mantle, reads messages until the
  connection ends and connects again. What one message does is \<open>feed_message\<close> of theory \<open>Gateway_Main\<close>.

  The web socket is not under \<open>src\<close>: \<open>connect\<close> says how the other side takes the k-th connection, opened with
  the headers and the subscription it is given. \<open>stop\<close> may be called while the driver waits, so the flag is a
  function of how often it was read.
\<close>

datatype link =
    Refused exc
  | Open "string list" "exc option" \<comment> \<open>the messages, and the error the connection ends with, if any\<close>

definition feed_headers :: "(string \<Rightarrow> string) \<Rightarrow> string dict" where
  "feed_headers service_jwt = [(''Authorization'', ''Bearer '' @ service_jwt ''mantle'')]"

definition SUBSCRIPTION :: pyval where
  "SUBSCRIPTION = VDict [(''op'', VStr ''subscribe''), (''id'', VStr ''describers''),
     (''filter'', VDict [(''event_names'', VList (map VStr CHANGE_EVENTS))])]"

definition feed_session :: "link \<Rightarrow> (gateway, unit) prog" where
  "feed_session link = (case link of
       Refused e \<Rightarrow> raise e
     | Open messages ended \<Rightarrow> bindM (forM (\<lambda>raw _. feed_message raw) messages ()) (\<lambda>_.
         case ended of None \<Rightarrow> ret () | Some e \<Rightarrow> raise e))"

text \<open>Whether the loop was left, before \<open>fuel\<close> connections were made.\<close>

fun run_feed :: "(string \<Rightarrow> string) \<Rightarrow> (nat \<Rightarrow> string dict \<Rightarrow> pyval \<Rightarrow> link) \<Rightarrow> (nat \<Rightarrow> bool) \<Rightarrow> rat \<Rightarrow> nat \<Rightarrow> nat
    \<Rightarrow> (gateway, bool) prog" where
  "run_feed service_jwt connect stopped delay k 0 = ret False"
| "run_feed service_jwt connect stopped delay k (Suc fuel) =
     (if stopped (2 * k) then ret True
      else bindM (catchM (feed_session (connect k (feed_headers service_jwt) SUBSCRIPTION)) (\<lambda>_. ret ())) (\<lambda>_.
        if stopped (2 * k + 1) then ret True
        else bindM (sleep delay) (\<lambda>_. run_feed service_jwt connect stopped delay (k + 1) fuel)))"

section \<open>What the feed promises\<close>

lemma settles_sleep: "settles (sleep d) (\<lambda>_. True)"
  by (simp add: settles_def sleep_def log_event_def)

lemma settles_session: "settles (catchM (feed_session link) (\<lambda>_. ret ())) (\<lambda>_. True)"
  by (rule settles_catch) (rule settles_ret, rule TrueI)

lemma run_feed_step:
  assumes "\<And>k. settles (run_feed sj connect stopped delay k fuel) (Q k)"
  shows "settles (run_feed sj connect stopped delay k (Suc fuel))
    (\<lambda>left. if stopped (2 * k) \<or> stopped (2 * k + 1) then left else Q (k + 1) left)"
proof (cases "stopped (2 * k)")
  case True
  then show ?thesis by (simp add: settles_ret)
next
  case False
  have rest: "settles (if stopped (2 * k + 1) then ret True
      else bindM (sleep delay) (\<lambda>_. run_feed sj connect stopped delay (k + 1) fuel))
      (\<lambda>left. if stopped (2 * k) \<or> stopped (2 * k + 1) then left else Q (k + 1) left)"
    using False settles_bind [OF settles_sleep assms]
    by (cases "stopped (2 * k + 1)") (simp_all add: settles_ret)
  show ?thesis unfolding run_feed.simps if_not_P [OF False] by (rule settles_bind [OF settles_session rest])
qed

lemma run_feed_leaves:
  "settles (run_feed sj connect stopped delay k fuel) (\<lambda>left. left \<longleftrightarrow> (\<exists>i. 2 * k \<le> i \<and> i < 2 * (k + fuel) \<and> stopped i))"
proof (induction fuel arbitrary: k)
  case 0
  show ?case unfolding run_feed.simps by (rule settles_ret) simp
next
  case (Suc fuel)
  let ?now = "stopped (2 * k) \<or> stopped (2 * k + 1)"
  have split: "2 * k \<le> i \<and> i < 2 * (k + Suc fuel)
      \<longleftrightarrow> i = 2 * k \<or> i = 2 * k + 1 \<or> 2 * (k + 1) \<le> i \<and> i < 2 * (k + 1 + fuel)" for i by presburger
  have "(\<exists>i. 2 * k \<le> i \<and> i < 2 * (k + Suc fuel) \<and> stopped i)
      \<longleftrightarrow> (\<exists>i. (i = 2 * k \<or> i = 2 * k + 1 \<or> 2 * (k + 1) \<le> i \<and> i < 2 * (k + 1 + fuel)) \<and> stopped i)"
    by (simp only: split conj_assoc [symmetric])
  also have "\<dots> \<longleftrightarrow> ?now \<or> (\<exists>i. 2 * (k + 1) \<le> i \<and> i < 2 * (k + 1 + fuel) \<and> stopped i)"
    by (simp only: conj_disj_distribR ex_disj_distrib simp_thms conj_assoc disj_assoc)
  finally have reads: "(\<exists>i. 2 * k \<le> i \<and> i < 2 * (k + Suc fuel) \<and> stopped i)
      \<longleftrightarrow> ?now \<or> (\<exists>i. 2 * (k + 1) \<le> i \<and> i < 2 * (k + 1 + fuel) \<and> stopped i)" .
  show ?case unfolding reads
    by (rule settles_mono [OF run_feed_step [OF Suc]]) (cases ?now; simp only: if_True if_False simp_thms)
qed

text \<open>C25: However Mantle answers, whatever it sends and however the connections end, no error leaves the driver of
  the feed: it goes on connecting until it is stopped and it returns exactly when it is, at the latest
  when the connection during which it was stopped has ended.\<close>

theorem feed_runs_until_stopped:
  "\<exists>left w'. run_feed sj connect stopped delay 0 connections w = (Inr left, w') \<and> left = list_ex stopped [0..<2 * connections]"
proof -
  have reads: "list_ex stopped [0..<2 * connections] \<longleftrightarrow> (\<exists>i. 2 * 0 \<le> i \<and> i < 2 * (0 + connections) \<and> stopped i)"
    by (simp add: list_ex_iff Bex_def)
  show ?thesis unfolding reads by (rule settlesD [OF run_feed_leaves])
qed

text \<open>A message that is not JSON is passed over. One that is, and is no object, ends the session: the messages
  after it are lost.\<close>

lemma not_json_skipped: "w_loads w raw = None \<Longrightarrow> feed_message raw w = (Inr (), w)"
  by (simp add: feed_message_def)

lemma number_ends_session:
  assumes "w_loads w raw = Some (VInt n)"
  shows "\<exists>e. feed_session (Open (raw # raws) None) w = (Inl e, w)"
  using assms by (simp add: feed_session_def feed_message_def bindM_def py_in_def)

lemma other_events_ignored:
  "w_loads w raw = Some (VDict msg) \<Longrightarrow> dget msg ''event'' \<notin> VStr ` set CHANGE_EVENTS \<Longrightarrow> feed_message raw w = (Inr (), w)"
  by (auto simp: feed_message_def handle_change_def changed_artifact_def py_in_def py_items_def bindM_def)

end
