(* ===== verification/Spec2Isabelle.thy ===== *)
theory Spec2Isabelle
  imports Host_Laws Gateway_Laws Gateway_Middleware Ontology_Index_Laws Geometry_Memo_Laws Geometry_Smooth Geometry_Basis_Laws
    Operator_Push_Laws Type_Registration_Laws Evolution_Laws Ontology_Lookup_Laws Crystal_Laws Mint_Context Seed_Lattice_Laws Host_Life Geometry_Signal_Laws Change_Feed
begin

text \<open>
  A model of the crystal package (\<open>src/src/crystal\<close>) and the theorems that make it correct.

  \<^bold>\<open>The program.\<close> Three processes are built from the package. The \<^emph>\<open>gateway\<close> (\<open>main.py\<close>) serves typed
  operations on artifacts: it holds the registry of content types (\<open>type_registry.py\<close>) and the topology
  of the personas (\<open>topology.py\<close>), resolves an operation and its arguments (\<open>dispatcher.py\<close>), asks Mantle
  whether the caller holds the grant and whether an operator is offered (\<open>mantle.py\<close>,
  \<open>operator_gate.py\<close>), and runs it on Mantle or on a persona over MCP (\<open>mcp_client.py\<close>,
  \<open>personas.py\<close>). The \<^emph>\<open>host\<close> (\<open>host.py\<close>) mounts personas and facets (\<open>web_serve.py\<close>), routes by the
  host header, relays to desktops over web sockets (\<open>relay_manager.py\<close>, \<open>gateway_middleware.py\<close>,
  \<open>mantle_client.py\<close>) and registers the personas with the gateway. The \<^emph>\<open>ontology\<close> (\<open>ontology/\<close>) reads
  synsets from a store of artifacts and measures information content, paths and distances over them.
  Operators are described by a schema (\<open>operator_schema.py\<close>, \<open>registry.py\<close>), collected by the personas and
  pushed to Mantle (\<open>manifest_base.py\<close>, \<open>push.py\<close>), and kept or retired by their evidence
  (\<open>evolution.py\<close>). The \<^emph>\<open>crystal\<close> (\<open>crystal.py\<close>) is the live object a persona binds its conversions on.
  The lattice the ontology reads is laid by \<open>ontology/seed_lattice.py\<close>; \<open>ontology/lookup.py\<close> finds the
  concepts of a word in it, and \<open>context.py\<close> records them when Mantle mints an artifact.

  \<^bold>\<open>The theories.\<close>
  \<^item> \<open>Prelude\<close>, \<open>Py_Values\<close>, \<open>Effects\<close>: strings, dictionaries in insertion order, JSON values,
    exceptions as values, programs that thread a world with its trace of requests, clock readings,
    sleeps and spawned tasks. The locale \<open>keyed_store\<close> is the contract of a table, the locale of
    kept predicates the one of a program that preserves an invariant. Three more ways to speak of a
    program are shared: \<open>does\<close> (an invariant and what the result satisfies), \<open>settles\<close> (it always
    answers) and \<open>outcome\<close> (what holds when it returns and when it raises).
  \<^item> \<open>Type_Registry\<close>, \<open>Topology\<close>, \<open>Mantle\<close>, \<open>Mcp_Client\<close>, \<open>Operator_Gate\<close>, \<open>Personas\<close>, \<open>Identity\<close>,
    \<open>Ttl_Cache\<close>: the parts of the gateway, a theory for each file; \<open>Gateway_State\<close> is the state of
    the process. \<open>Dispatcher\<close> is \<open>dispatcher.py\<close>, with its laws in \<open>Dispatcher_Laws\<close> (references,
    mappings, links) and \<open>Dispatcher_Safety\<close> (grants before effects, the caller's credential,
    the operator gate). \<open>Gateway_Main\<close> holds the routes of \<open>main.py\<close> with \<open>events.py\<close> and
    \<open>type_publish.py\<close>; \<open>Gateway_Laws\<close> their laws.
  \<^item> \<open>Base64\<close>, \<open>Relay_Manager\<close>, \<open>Gateway_Client\<close>, \<open>Gateway_Middleware\<close>: the relay. Its handlers are
    steps of an inductive relation; the invariant holds under every interleaving of them.
  \<^item> \<open>Web_Serve\<close>, \<open>Host\<close>, \<open>Host_Laws\<close>: facets, host routing, the proxy, the challenge, registration.
    \<open>Host_Life\<close>: the entry points, the address, start-up and shut-down, where the cancelled registration
    task ends the loop over the background tasks. \<open>Change_Feed\<close> is the loop of \<open>events.py\<close> that connects,
    reads and connects again.
  \<^item> \<open>Ontology\<close>, \<open>Intrinsic_Ic\<close>, \<open>Ontology_Driver\<close>, \<open>Ontology_Index\<close>, \<open>Ontology_Words\<close> and their \<open>_Laws\<close>:
    \<open>ontology/driver.py\<close> and \<open>freshness.py\<close>: synsets, caches verified by stamps, the index of the
    corpus, words and base forms.
  \<^item> \<open>Geometry\<close>, \<open>Geometry_Dense\<close>, \<open>Geometry_Memo\<close>, \<open>Geometry_Smooth\<close>, \<open>Geometry_Basis\<close> and their \<open>_Laws\<close>:
    \<open>ontology/geometry.py\<close>: tree paths, distances, coordinates, memoisation, smoothing, bases.
    \<open>Geometry_Signal\<close>, with its laws: the rows of a text, the covariance that is its state, the tokens left
    to the keyed arm, and the check of the construction.
  \<^item> \<open>Ontology_Lookup\<close>, \<open>Ontology_Lookup_Laws\<close>: \<open>ontology/lookup.py\<close>: the tokeniser, the senses of a word,
    projections, the cost of a hop. \<open>Mint_Context\<close> is \<open>context.py\<close>, a client of it.
  \<^item> \<open>Seed_Lattice\<close>, \<open>Seed_Writes\<close>, \<open>Seed_Lattice_Laws\<close>: \<open>ontology/seed_lattice.py\<close>: what is written to the store, in
    order, with writes that may fail: the information content of the corpus and of ConceptNet, the
    signatures of the relations, the anchoring edges, the build and its readiness flag. \<open>Seed_Writes\<close>
    says what a measurement and a build are to write, from the documents and the index alone, and that
    they write it.
  \<^item> \<open>Crystal_Object\<close>, \<open>Crystal_Laws\<close>: \<open>crystal.py\<close>. A call is a step of an inductive relation; the invariant
    holds over the whole life of a crystal, also across calls that raise.
  \<^item> \<open>Operator_Schema\<close>: \<open>operator_schema.py\<close> and \<open>registry.py\<close>. \<open>Operator_Push\<close>, \<open>Type_Registration\<close> and
    \<open>Evolution\<close>, each with its \<open>_Laws\<close>: \<open>push.py\<close>, \<open>type_registration.py\<close> with
    \<open>persona_registration.py\<close>, and \<open>evolution.py\<close>.
  \<^item> \<open>Process_Setup\<close>: \<open>config.py\<close>, \<open>authorship.py\<close>, \<open>logging_config.py\<close>, \<open>manifest_base.py\<close> and the small data
    of the ontology (\<open>coupling.py\<close>, \<open>transducer.py\<close>).

  \<^bold>\<open>Conventions.\<close> A definition carries the name of the function it models. A dictionary is an association
  list in insertion order; a fallible function returns \<open>exc + 'a\<close>; a coroutine is a function on the
  world. A handler runs to its end before the next one starts, except in the relay, where state is
  kept across an \<open>await\<close> and every interleaving is considered. The text of an error is kept as its
  template and the values put into it. Floating-point numbers are real (or rational) numbers: no
  claim depends on rounding.

  \<^bold>\<open>Bounds.\<close> The bounds are those of the code: eight levels of inheritance, five attempts to publish,
  caches of 30, 15 and 60 seconds, 50000 dense coordinates, fifteen rounds of registration. Loops
  are structural or carry a measure; the walk up the tree ends on any graph, because it never visits
  a synset twice. The scan of a push carries one turn more than there are rows, which is proved to be
  enough for a server that pages its rows; so do the pages of \<open>refresh_ic\<close>. The change feed is run for a
  number of connections, and what is proved holds for every number. The lookups that call
  themselves carry the depth; two is enough for every word, and more changes nothing.

  \<^bold>\<open>Parameters.\<close> What is not under \<open>src\<close> is an argument: HTTP answers, clocks, \<open>json.loads\<close>, digests, the
  verification of tokens, the file system, the vocabulary of capabilities, the signing of delegations,
  the canonical text of a value, the quantile of the normal distribution. The store of the ontology
  is an argument too, with the contract that a write changes the mark of what it writes. The
  contract of \<open>prism\<close>, the embodiment, the accountant and the screen of a crystal are arguments; the
  law used of them is the documented one of \<open>capability_reach\<close>.

  \<^bold>\<open>Not modelled.\<close> The servers and their event loops, what is logged, the reading of files
  from disk, the text of the SQL (its rows are filters of the edges of the store), and what only re-exports
  \<open>prism\<close> (\<open>crystal_model.py\<close>).
\<close>

end
